(* ===== verification/Prelude.thy ===== *)
theory Prelude
  imports Main "HOL-Library.Word"
begin

text \<open>
  Shared vocabulary of the development.

  \<^item> Raised exceptions are values: \<open>'a res\<close> is \<open>exn + 'a\<close>, an \<open>Inl\<close> is the exception that
    leaves the function, \<open>rbind\<close> runs the rest of a body after a call that may raise.
  \<^item> Bytes are \<open>8 word\<close>; \<open>bytes.hex()\<close> is \<open>hex\<close> and \<open>bytes.fromhex\<close> is \<open>fromhex\<close>, with
    the whitespace skipping and the two letter cases of the library function.
  \<^item> A Python \<open>str\<close> is a \<open>string\<close>: a list of code points below 256.
  \<^item> \<open>store_simps\<close> and \<open>inv_intros\<close> are the rule collections the component proofs use.
\<close>

named_theorems store_simps \<open>field-by-field effect of the store operations\<close>
named_theorems inv_intros \<open>preservation lemmas of the component invariants\<close>

section \<open>Exceptions as values\<close>

text \<open>
  The first eleven are Python's own classes (\<open>JSONDecodeError\<close> and \<open>UnicodeDecodeError\<close> are subclasses of
  \<open>ValueError\<close>, see \<open>is_value_error\<close>), the next four the drivers' and cbor2's, the others the service's; the two continuity errors carry the last accepted \<open>(mmr_size, root)\<close>. Messages are
  not modelled.
\<close>

datatype exn =
    ValueError
  | IndexError
  | KeyError
  | RuntimeError
  | TypeError
  | AttributeError
  | OverflowError
  | OSError
  | RecursionError
  | JSONDecodeError
  | UnicodeDecodeError
  | CBORDecodeError
  | IntegrityError
  | OperationalError
  | DataError
  | TsaError
  | SubmitterConfigError
  | IssuerConfigError
  | BundleRefused
  | StatementRefused
  | WebhookURLRefused
  | CheckpointPayloadError
  | NotACheckpointError
  | CheckpointSignatureError
  | RollbackError
  | ContinuityMismatchError int string
  | ConsistencyProofRequiredError int string

definition is_value_error :: "exn \<Rightarrow> bool" where
  "is_value_error e \<longleftrightarrow> e \<in> {ValueError, JSONDecodeError, UnicodeDecodeError}"

type_synonym 'a res = "exn + 'a"

definition rbind :: "'e + 'a \<Rightarrow> ('a \<Rightarrow> 'e + 'b) \<Rightarrow> 'e + 'b" where
  "rbind r f = (case r of Inl e \<Rightarrow> Inl e | Inr x \<Rightarrow> f x)"

lemma rbind_simps [simp]:
  "rbind (Inl e) f = Inl e"
  "rbind (Inr x) f = f x"
  by (simp_all add: rbind_def)

lemma rbind_assoc: "rbind (rbind r f) g = rbind r (\<lambda>x. rbind (f x) g)"
  by (cases r) simp_all

lemma rbind_Inr [simp]: "rbind r Inr = r"
  by (cases r) simp_all

lemma rbind_Inr_iff: "rbind r f = Inr y \<longleftrightarrow> (\<exists>x. r = Inr x \<and> f x = Inr y)"
  by (cases r) simp_all

lemma rbind_Inl_iff: "rbind r f = Inl e \<longleftrightarrow> r = Inl e \<or> (\<exists>x. r = Inr x \<and> f x = Inl e)"
  by (cases r) simp_all

lemma rbind_cong [cong]:
  "r = r' \<Longrightarrow> (\<And>x. r' = Inr x \<Longrightarrow> f x = f' x) \<Longrightarrow> rbind r f = rbind r' f'"
  by (cases r') simp_all

text \<open>A list comprehension whose element expression may raise.\<close>

fun rmap :: "('a \<Rightarrow> 'e + 'b) \<Rightarrow> 'a list \<Rightarrow> 'e + 'b list" where
  "rmap f [] = Inr []"
| "rmap f (x # xs) = rbind (f x) (\<lambda>y. rbind (rmap f xs) (\<lambda>ys. Inr (y # ys)))"

lemma rmap_Inr: "(\<And>x. x \<in> set xs \<Longrightarrow> f x = Inr (g x)) \<Longrightarrow> rmap f xs = Inr (map g xs)"
  by (induction xs) simp_all

lemma rmap_append:
  "rmap f (xs @ ys) = rbind (rmap f xs) (\<lambda>as. rbind (rmap f ys) (\<lambda>bs. Inr (as @ bs)))"
  by (induction xs) (simp_all add: rbind_assoc)

lemma rmap_length: "rmap f xs = Inr ys \<Longrightarrow> length ys = length xs"
  by (induction xs arbitrary: ys) (auto simp: rbind_Inr_iff)

section \<open>Operations on a state\<close>

text \<open>
  A method that reads and writes its object: the outcome and the state it leaves, also when it
  raises.
\<close>

type_synonym ('s, 'a) op = "'s \<Rightarrow> 'a res \<times> 's"

definition op_bind :: "('s, 'a) op \<Rightarrow> ('a \<Rightarrow> ('s, 'b) op) \<Rightarrow> ('s, 'b) op" where
  "op_bind m f = (\<lambda>s. case m s of (Inl e, s') \<Rightarrow> (Inl e, s') | (Inr x, s') \<Rightarrow> f x s')"

definition op_return :: "'a \<Rightarrow> ('s, 'a) op" where
  "op_return x = (\<lambda>s. (Inr x, s))"

definition op_raise :: "exn \<Rightarrow> ('s, 'a) op" where
  "op_raise e = (\<lambda>s. (Inl e, s))"

definition op_lift :: "'a res \<Rightarrow> ('s, 'a) op" where
  "op_lift r = (\<lambda>s. (r, s))"

definition op_get :: "('s \<Rightarrow> 'a) \<Rightarrow> ('s, 'a) op" where
  "op_get f = (\<lambda>s. (Inr (f s), s))"

definition op_modify :: "('s \<Rightarrow> 's) \<Rightarrow> ('s, unit) op" where
  "op_modify f = (\<lambda>s. (Inr (), f s))"

lemma op_bind_simps:
  "m s = (Inr x, s') \<Longrightarrow> op_bind m f s = f x s'"
  "m s = (Inl e, s') \<Longrightarrow> op_bind m f s = (Inl e, s')"
  by (simp_all add: op_bind_def)

lemma op_run [simp]:
  "op_return x s = (Inr x, s)"
  "op_raise e s = (Inl e, s)"
  "op_lift r s = (r, s)"
  "op_get g s = (Inr (g s), s)"
  "op_modify k s = (Inr (), k s)"
  by (simp_all add: op_return_def op_raise_def op_get_def op_modify_def op_lift_def)

lemma op_bind_step [simp]:
  "op_bind (op_return x) f = f x"
  "op_bind (op_get g) f s = f (g s) s"
  "op_bind (op_lift (Inr x)) f = f x"
  by (auto simp: op_bind_def)

lemma op_bind_modify [simp]: "op_bind (op_modify k) h s = h () (k s)"
  by (simp add: op_bind_def)

lemma op_bind_raise [simp]: "op_bind (op_raise e) f = op_raise e"
  by (auto simp: op_bind_def op_raise_def)

lemma op_bind_lift_Inl [simp]: "op_bind (op_lift (Inl e)) f = op_raise e"
  by (auto simp: op_bind_def op_raise_def op_lift_def)

lemma op_bind_Inr:
  "op_bind m f s = (Inr y, t) \<longleftrightarrow> (\<exists>x s'. m s = (Inr x, s') \<and> f x s' = (Inr y, t))"
  by (auto simp: op_bind_def split: prod.splits sum.splits)

lemma op_bind_Inl:
  "op_bind m f s = (Inl e, t) \<longleftrightarrow> m s = (Inl e, t) \<or> (\<exists>x s'. m s = (Inr x, s') \<and> f x s' = (Inl e, t))"
  by (auto simp: op_bind_def split: prod.splits sum.splits)

text \<open>
  \<open>hoare P m Q E\<close>: from a state with \<open>P\<close>, \<open>m\<close> returns a result with \<open>Q\<close>, or raises in a state
  with \<open>E\<close>.
\<close>

definition hoare :: "('s \<Rightarrow> bool) \<Rightarrow> ('s, 'a) op \<Rightarrow> ('a \<Rightarrow> 's \<Rightarrow> bool) \<Rightarrow> ('s \<Rightarrow> bool) \<Rightarrow> bool" where
  "hoare P m Q E \<longleftrightarrow> (\<forall>s. P s \<longrightarrow> (\<forall>x t. m s = (Inr x, t) \<longrightarrow> Q x t) \<and> (\<forall>e t. m s = (Inl e, t) \<longrightarrow> E t))"

lemma hoareI:
  "(\<And>s x t. P s \<Longrightarrow> m s = (Inr x, t) \<Longrightarrow> Q x t) \<Longrightarrow> (\<And>s e t. P s \<Longrightarrow> m s = (Inl e, t) \<Longrightarrow> E t) \<Longrightarrow> hoare P m Q E"
  by (simp add: hoare_def)

lemma hoare_Inr: "hoare P m Q E \<Longrightarrow> P s \<Longrightarrow> m s = (Inr x, t) \<Longrightarrow> Q x t"
  by (simp add: hoare_def)

lemma hoare_Inl: "hoare P m Q E \<Longrightarrow> P s \<Longrightarrow> m s = (Inl e, t) \<Longrightarrow> E t"
  by (simp add: hoare_def)

lemma hoare_same: "hoare P m (\<lambda>_. Q) Q \<Longrightarrow> P s \<Longrightarrow> m s = (r, t) \<Longrightarrow> Q t"
  by (cases r) (auto simp: hoare_def)

lemma hoare_bind [inv_intros]:
  assumes "hoare P m R E" "\<And>x. hoare (R x) (f x) Q E"
  shows "hoare P (op_bind m f) Q E"
proof (rule hoareI)
  fix s x t assume "P s" "op_bind m f s = (Inr x, t)"
  then show "Q x t" using assms by (auto simp: op_bind_Inr dest: hoare_Inr)
next
  fix s e t assume "P s" "op_bind m f s = (Inl e, t)"
  then show "E t" using assms by (auto simp: op_bind_Inl dest: hoare_Inr hoare_Inl)
qed

lemma hoare_weaken:
  "hoare P' m Q' E' \<Longrightarrow> (\<And>s. P s \<Longrightarrow> P' s) \<Longrightarrow> (\<And>x s. Q' x s \<Longrightarrow> Q x s) \<Longrightarrow> (\<And>s. E' s \<Longrightarrow> E s) \<Longrightarrow>
   hoare P m Q E"
  unfolding hoare_def by blast

lemma hoare_return: "(\<And>s. P s \<Longrightarrow> Q x s) \<Longrightarrow> hoare P (op_return x) Q E"
  by (simp add: hoare_def)

lemma hoare_raise: "(\<And>s. P s \<Longrightarrow> E s) \<Longrightarrow> hoare P (op_raise e) Q E"
  by (simp add: hoare_def)

lemma hoare_lift:
  "(\<And>s x. P s \<Longrightarrow> r = Inr x \<Longrightarrow> Q x s) \<Longrightarrow> (\<And>s e. P s \<Longrightarrow> r = Inl e \<Longrightarrow> E s) \<Longrightarrow> hoare P (op_lift r) Q E"
  by (simp add: hoare_def)

lemma hoare_get: "hoare P (op_get f) (\<lambda>y s. P s \<and> y = f s) E"
  by (simp add: hoare_def)

lemma hoare_modify: "(\<And>s. P s \<Longrightarrow> Q () (f s)) \<Longrightarrow> hoare P (op_modify f) Q E"
  by (simp add: hoare_def)

section \<open>Python containers\<close>

text \<open>
  A dict is an association list in insertion order: \<open>d[k] = v\<close> replaces the value in place or
  appends the pair. \<open>py_index\<close> is list indexing, negative indices included.
\<close>

fun dict_set :: "'k \<Rightarrow> 'v \<Rightarrow> ('k \<times> 'v) list \<Rightarrow> ('k \<times> 'v) list" where
  "dict_set k v [] = [(k, v)]"
| "dict_set k v ((k', v') # d) = (if k' = k then (k, v) # d else (k', v') # dict_set k v d)"

definition dict_del :: "'k \<Rightarrow> ('k \<times> 'v) list \<Rightarrow> ('k \<times> 'v) list" where
  "dict_del k d = filter (\<lambda>p. fst p \<noteq> k) d"

definition dict_setdefault :: "'k \<Rightarrow> 'v \<Rightarrow> ('k \<times> 'v) list \<Rightarrow> ('k \<times> 'v) list" where
  "dict_setdefault k v d = (if map_of d k = None then d @ [(k, v)] else d)"

lemma map_of_dict_set [simp]: "map_of (dict_set k v d) = (map_of d)(k \<mapsto> v)"
  by (induction d) (auto simp: fun_eq_iff)

lemma map_of_dict_setdefault [simp]:
  "map_of (dict_setdefault k v d) = (if map_of d k = None then (map_of d)(k \<mapsto> v) else map_of d)"
  by (auto simp: dict_setdefault_def map_add_def fun_eq_iff split: option.splits)

lemma keys_dict_set:
  "map fst (dict_set k v d) = (if k \<in> set (map fst d) then map fst d else map fst d @ [k])"
proof (induction d)
  case (Cons p d)
  then show ?case by (cases p) (simp del: set_map)
qed simp

lemma distinct_dict_set [simp]: "distinct (map fst d) \<Longrightarrow> distinct (map fst (dict_set k v d))"
  by (simp add: keys_dict_set del: set_map)

lemma distinct_dict_setdefault [simp]:
  "distinct (map fst d) \<Longrightarrow> distinct (map fst (dict_setdefault k v d))"
  by (auto simp: dict_setdefault_def map_of_eq_None_iff)

definition py_index :: "'a list \<Rightarrow> int \<Rightarrow> 'a res" where
  "py_index xs i =
     (if 0 \<le> i \<and> i < int (length xs) then Inr (xs ! nat i)
      else if - int (length xs) \<le> i \<and> i < 0 then Inr (xs ! nat (int (length xs) + i))
      else Inl IndexError)"

text \<open>\<open>max(rows, key=f)\<close> and \<open>min(rows, key=f)\<close>: the first extremal row.\<close>

definition max_by :: "('a \<Rightarrow> 'b::linorder) \<Rightarrow> 'a list \<Rightarrow> 'a option" where
  "max_by f xs = (case xs of [] \<Rightarrow> None | x # ys \<Rightarrow> Some (foldl (\<lambda>b y. if f b < f y then y else b) x ys))"

definition min_by :: "('a \<Rightarrow> 'b::linorder) \<Rightarrow> 'a list \<Rightarrow> 'a option" where
  "min_by f xs = (case xs of [] \<Rightarrow> None | x # ys \<Rightarrow> Some (foldl (\<lambda>b y. if f y < f b then y else b) x ys))"

lemma foldl_max_by:
  fixes f :: "'a \<Rightarrow> 'b::linorder"
  shows "foldl (\<lambda>b y. if f b < f y then y else b) x ys \<in> insert x (set ys) \<and>
   (\<forall>y \<in> insert x (set ys). f y \<le> f (foldl (\<lambda>b y. if f b < f y then y else b) x ys))"
proof (induction ys arbitrary: x)
  case (Cons y ys)
  show ?case
  proof (cases "f x < f y")
    case True
    then have "f x \<le> f y" by simp
    with Cons.IH [of y] True show ?thesis by (auto intro: order.trans)
  next
    case False
    then have "f y \<le> f x" by simp
    with Cons.IH [of x] False show ?thesis by (auto intro: order.trans)
  qed
qed simp

lemma foldl_min_by:
  fixes f :: "'a \<Rightarrow> 'b::linorder"
  shows "foldl (\<lambda>b y. if f y < f b then y else b) x ys \<in> insert x (set ys) \<and>
   (\<forall>y \<in> insert x (set ys). f (foldl (\<lambda>b y. if f y < f b then y else b) x ys) \<le> f y)"
proof (induction ys arbitrary: x)
  case (Cons y ys)
  show ?case
  proof (cases "f y < f x")
    case True
    then have "f y \<le> f x" by simp
    with Cons.IH [of y] True show ?thesis by (auto intro: order.trans)
  next
    case False
    then have "f x \<le> f y" by simp
    with Cons.IH [of x] False show ?thesis by (auto intro: order.trans)
  qed
qed simp

lemma max_by_Some: "max_by f xs = Some m \<Longrightarrow> m \<in> set xs \<and> (\<forall>y \<in> set xs. f y \<le> f m)"
  using foldl_max_by [where f = f and x = "hd xs" and ys = "tl xs"] by (auto simp: max_by_def split: list.splits)

lemma min_by_Some: "min_by f xs = Some m \<Longrightarrow> m \<in> set xs \<and> (\<forall>y \<in> set xs. f m \<le> f y)"
  using foldl_min_by [where f = f and x = "hd xs" and ys = "tl xs"] by (auto simp: min_by_def split: list.splits)

lemma max_by_None [simp]: "max_by f xs = None \<longleftrightarrow> xs = []"
  by (simp add: max_by_def split: list.splits)

lemma min_by_None [simp]: "min_by f xs = None \<longleftrightarrow> xs = []"
  by (simp add: min_by_def split: list.splits)

section \<open>Bytes and hexadecimal strings\<close>

type_synonym byte = "8 word"
type_synonym bytes = "byte list"

definition hex_digits :: string where
  "hex_digits = ''0123456789abcdef''"

definition hex_digit :: "nat \<Rightarrow> char" where
  "hex_digit n = hex_digits ! n"

definition hex_byte :: "byte \<Rightarrow> string" where
  "hex_byte b = [hex_digit (unat b div 16), hex_digit (unat b mod 16)]"

definition hex :: "bytes \<Rightarrow> string" where
  "hex bs = concat (map hex_byte bs)"

definition hex_value :: "char \<Rightarrow> nat option" where
  "hex_value c = (let n = of_char c :: nat in
     if 48 \<le> n \<and> n \<le> 57 then Some (n - 48)
     else if 97 \<le> n \<and> n \<le> 102 then Some (n - 87)
     else if 65 \<le> n \<and> n \<le> 70 then Some (n - 55)
     else None)"

definition is_ascii_space :: "char \<Rightarrow> bool" where
  "is_ascii_space c = (let n = of_char c :: nat in n = 32 \<or> (9 \<le> n \<and> n \<le> 13))"

fun fromhex :: "string \<Rightarrow> bytes res" where
  "fromhex [] = Inr []"
| "fromhex [c] = (if is_ascii_space c then Inr [] else Inl ValueError)"
| "fromhex (c # d # s) =
     (if is_ascii_space c then fromhex (d # s)
      else case hex_value c of None \<Rightarrow> Inl ValueError
      | Some a \<Rightarrow> (case hex_value d of None \<Rightarrow> Inl ValueError
        | Some b \<Rightarrow> rbind (fromhex s) (\<lambda>bs. Inr (of_nat (16 * a + b) # bs))))"

lemma less_16_cases:
  "n < (16::nat) \<Longrightarrow> n \<in> {0, 1, 2, 3, 4, 5, 6, 7, 8, 9, 10, 11, 12, 13, 14, 15}"
  by (simp, arith)

lemma hex_value_digit [simp]: "n < 16 \<Longrightarrow> hex_value (hex_digit n) = Some n"
  by (drule less_16_cases) (auto simp: hex_digit_def hex_digits_def hex_value_def Let_def)

lemma space_hex_digit [simp]: "n < 16 \<Longrightarrow> \<not> is_ascii_space (hex_digit n)"
  by (drule less_16_cases) (auto simp: hex_digit_def hex_digits_def is_ascii_space_def Let_def)

lemma hex_Nil [simp]: "hex [] = []"
  by (simp add: hex_def)

lemma hex_Cons: "hex (b # bs) = hex_byte b @ hex bs"
  by (simp add: hex_def)

lemma hex_append [simp]: "hex (as @ bs) = hex as @ hex bs"
  by (simp add: hex_def)

lemma length_hex [simp]: "length (hex bs) = 2 * length bs"
  by (induction bs) (simp_all add: hex_Cons hex_byte_def)

lemma unat_byte_bound: "unat (b :: byte) < 256"
  using unsigned_less [of b, where ?'a = nat] by simp

lemma unat_byte_div: "unat (b :: byte) div 16 < 16"
  using unat_byte_bound [of b] by auto

lemma unat_byte_mod: "unat (b :: byte) mod 16 < 16"
  by simp

lemma hex_digit_ascii: "n < 16 \<Longrightarrow> (of_char (hex_digit n) :: nat) < 128"
  by (drule less_16_cases) (auto simp: hex_digit_def hex_digits_def)

lemma fromhex_hex [simp]: "fromhex (hex bs) = Inr bs"
proof (induction bs)
  case Nil
  then show ?case by simp
next
  case (Cons b bs)
  have d: "unat b div 16 < 16" and m: "unat b mod 16 < 16"
    using unat_byte_bound [of b] by auto
  have "(16::nat) * (unat b div 16) + unat b mod 16 = unat b" by simp
  then have "(of_nat (16 * (unat b div 16) + unat b mod 16) :: byte) = b"
    by (simp del: of_nat_add of_nat_mult)
  then show ?case using Cons.IH d m
    by (simp add: hex_Cons hex_byte_def)
qed

lemma hex_inj: "hex as = hex bs \<Longrightarrow> as = bs"
  by (metis fromhex_hex sum.inject(2))

lemma hex_eq_iff [simp]: "hex as = hex bs \<longleftrightarrow> as = bs"
  using hex_inj by blast

text \<open>\<open>unhex\<close> names the bytes of a string known to be valid hexadecimal.\<close>

definition unhex :: "string \<Rightarrow> bytes" where
  "unhex s = (case fromhex s of Inl _ \<Rightarrow> [] | Inr bs \<Rightarrow> bs)"

lemma unhex_hex [simp]: "unhex (hex bs) = bs"
  by (simp add: unhex_def)

text \<open>\<open>int.to_bytes(k, "big")\<close> and \<open>int.from_bytes(bs, "big")\<close>.\<close>

fun big_endian :: "nat \<Rightarrow> nat \<Rightarrow> bytes" where
  "big_endian 0 n = []"
| "big_endian (Suc k) n = big_endian k (n div 256) @ [of_nat n]"

definition be_value :: "bytes \<Rightarrow> nat" where
  "be_value bs = foldl (\<lambda>a b. 256 * a + unat b) 0 bs"

lemma length_big_endian [simp]: "length (big_endian k n) = k"
  by (induction k arbitrary: n) simp_all

lemma be_value_snoc: "be_value (bs @ [b]) = 256 * be_value bs + unat b"
  by (simp add: be_value_def)

lemma be_value_big_endian: "be_value (big_endian k n) = n mod 256 ^ k"
proof (induction k arbitrary: n)
  case 0
  then show ?case by (simp add: be_value_def)
next
  case (Suc k)
  then show ?case
    by (simp add: be_value_snoc unat_of_nat mod_mult2_eq [of n 256 "256 ^ k"] ac_simps)
qed

definition ascii_bytes :: "string \<Rightarrow> bytes" where
  "ascii_bytes s = map (\<lambda>c. of_nat (of_char c)) s"

lemma length_ascii_bytes [simp]: "length (ascii_bytes s) = length s"
  by (simp add: ascii_bytes_def)

lemma ascii_bytes_append [simp]: "ascii_bytes (s @ t) = ascii_bytes s @ ascii_bytes t"
  by (simp add: ascii_bytes_def)

lemma of_char_byte_inj: "(of_nat (of_char c) :: byte) = of_nat (of_char d) \<Longrightarrow> c = d"
proof -
  assume eq: "(of_nat (of_char c) :: byte) = of_nat (of_char d)"
  have bound: "(of_char e :: nat) < 256" for e
    using nat_of_char_less_256 [of e] by simp
  have "unat (of_nat (of_char c) :: byte) = unat (of_nat (of_char d) :: byte)"
    using eq by simp
  then have "(of_char c :: nat) = of_char d"
    using bound [of c] bound [of d] by (simp add: unat_of_nat)
  then show "c = d" by simp
qed

lemma ascii_bytes_inj: "ascii_bytes s = ascii_bytes t \<Longrightarrow> s = t"
proof (induction s arbitrary: t)
  case Nil
  then show ?case by (simp add: ascii_bytes_def)
next
  case (Cons c s)
  then show ?case
    by (cases t) (auto simp: ascii_bytes_def dest: of_char_byte_inj)
qed

lemma ascii_bytes_eq_iff [simp]: "ascii_bytes s = ascii_bytes t \<longleftrightarrow> s = t"
  using ascii_bytes_inj by blast

text \<open>\<open>str.encode()\<close>: UTF-8, for code points below 256.\<close>

definition utf8_char :: "char \<Rightarrow> bytes" where
  "utf8_char c = (let n = of_char c :: nat in
     if n < 128 then [of_nat n] else [of_nat (192 + n div 64), of_nat (128 + n mod 64)])"

definition utf8 :: "string \<Rightarrow> bytes" where
  "utf8 s = concat (map utf8_char s)"

lemma utf8_Nil [simp]: "utf8 [] = []"
  by (simp add: utf8_def)

lemma utf8_Cons: "utf8 (c # s) = utf8_char c @ utf8 s"
  by (simp add: utf8_def)

lemma utf8_append [simp]: "utf8 (s @ t) = utf8 s @ utf8 t"
  by (simp add: utf8_def)

lemma of_nat_byte_inj: "a < 256 \<Longrightarrow> b < 256 \<Longrightarrow> (of_nat a :: byte) = of_nat b \<Longrightarrow> a = b"
  by (drule arg_cong [where f = unat]) (simp add: unat_of_nat)

lemma utf8_char_delimited: "utf8_char c @ x = utf8_char d @ y \<Longrightarrow> c = d \<and> x = y"
proof -
  assume eq: "utf8_char c @ x = utf8_char d @ y"
  define n m where "n = (of_char c :: nat)" and "m = (of_char d :: nat)"
  have bound: "n < 256" "m < 256"
    using nat_of_char_less_256 [of c] nat_of_char_less_256 [of d] by (simp_all add: n_def m_def)
  then have small: "192 + n div 64 < 256" "192 + m div 64 < 256" "128 + n mod 64 < 256" "128 + m mod 64 < 256"
    by auto
  note inj = of_nat_byte_inj
  have nm: "n = m \<and> x = y"
  proof (cases "n < 128")
    case True
    show ?thesis
    proof (cases "m < 128")
      case True
      with \<open>n < 128\<close> eq bound show ?thesis
        by (auto simp: utf8_char_def Let_def simp flip: n_def m_def intro: inj)
    next
      case False
      with True eq have "(of_nat n :: byte) = of_nat (192 + m div 64)"
        by (simp add: utf8_char_def Let_def flip: n_def m_def)
      then have "n = 192 + m div 64" using inj bound small by blast
      with True show ?thesis by simp
    qed
  next
    case False
    show ?thesis
    proof (cases "m < 128")
      case True
      with False eq have "(of_nat (192 + n div 64) :: byte) = of_nat m"
        by (simp add: utf8_char_def Let_def flip: n_def m_def)
      then have "192 + n div 64 = m" using inj bound small by blast
      with True show ?thesis by simp
    next
      case m: False
      with False eq have e: "(of_nat (192 + n div 64) :: byte) = of_nat (192 + m div 64)"
        "(of_nat (128 + n mod 64) :: byte) = of_nat (128 + m mod 64)" "x = y"
        by (simp_all add: utf8_char_def Let_def del: of_nat_add flip: n_def m_def)
      have "192 + n div 64 = 192 + m div 64" using inj [OF small(1,2) e(1)] .
      moreover have "128 + n mod 64 = 128 + m mod 64" using inj [OF small(3,4) e(2)] .
      ultimately have "n div 64 = m div 64" "n mod 64 = m mod 64" by simp_all
      then have "n = m" by (metis div_mult_mod_eq)
      with e(3) show ?thesis by simp
    qed
  qed
  then show "c = d \<and> x = y" by (simp add: n_def m_def)
qed

lemma utf8_char_nonempty [simp]: "utf8_char c \<noteq> []"
  by (simp add: utf8_char_def Let_def)

lemma utf8_inj: "utf8 s = utf8 t \<Longrightarrow> s = t"
proof (induction s arbitrary: t)
  case Nil
  then show ?case by (cases t) (simp_all add: utf8_Cons)
next
  case (Cons c s)
  then obtain d t' where t: "t = d # t'" by (cases t) (simp_all add: utf8_Cons)
  with Cons.prems have "utf8_char c @ utf8 s = utf8_char d @ utf8 t'" by (simp add: utf8_Cons)
  then have "c = d" "utf8 s = utf8 t'" using utf8_char_delimited by blast+
  with Cons.IH t show ?case by blast
qed

lemma utf8_eq_iff [simp]: "utf8 s = utf8 t \<longleftrightarrow> s = t"
  using utf8_inj by blast

end
