(* ===== verification/Sha256.thy ===== *)
theory Sha256
  imports Prelude
begin

text \<open>
  \<open>hashlib.sha256\<close>, the one hash function of the program, written out after FIPS 180-4 over
  \<open>32 word\<close>: padding, message schedule, compression, and the big-endian digest.
  \<open>sha256\<close> is \<open>.digest()\<close> and \<open>sha256_hex\<close> is \<open>.hexdigest()\<close>. No later proof unfolds the
  compression function: the rest of the development uses only that a digest has 32 bytes.
\<close>

unbundle bit_operations_syntax

type_synonym u32 = "32 word"
type_synonym sha_state = "u32 \<times> u32 \<times> u32 \<times> u32 \<times> u32 \<times> u32 \<times> u32 \<times> u32"

definition sha_k :: "u32 list" where
  "sha_k =
    [1116352408, 1899447441, 3049323471, 3921009573, 961987163, 1508970993,
     2453635748, 2870763221, 3624381080, 310598401, 607225278, 1426881987,
     1925078388, 2162078206, 2614888103, 3248222580, 3835390401, 4022224774,
     264347078, 604807628, 770255983, 1249150122, 1555081692, 1996064986,
     2554220882, 2821834349, 2952996808, 3210313671, 3336571891, 3584528711,
     113926993, 338241895, 666307205, 773529912, 1294757372, 1396182291,
     1695183700, 1986661051, 2177026350, 2456956037, 2730485921, 2820302411,
     3259730800, 3345764771, 3516065817, 3600352804, 4094571909, 275423344,
     430227734, 506948616, 659060556, 883997877, 958139571, 1322822218,
     1537002063, 1747873779, 1955562222, 2024104815, 2227730452, 2361852424,
     2428436474, 2756734187, 3204031479, 3329325298]"

definition sha_init :: sha_state where
  "sha_init =
    (1779033703, 3144134277, 1013904242, 2773480762, 1359893119, 2600822924,
     528734635, 1541459225)"

definition rotr32 :: "nat \<Rightarrow> u32 \<Rightarrow> u32" where
  "rotr32 n w = (drop_bit n w OR push_bit (32 - n) w)"

definition big_sigma0 :: "u32 \<Rightarrow> u32" where
  "big_sigma0 x = (rotr32 2 x XOR rotr32 13 x XOR rotr32 22 x)"

definition big_sigma1 :: "u32 \<Rightarrow> u32" where
  "big_sigma1 x = (rotr32 6 x XOR rotr32 11 x XOR rotr32 25 x)"

definition small_sigma0 :: "u32 \<Rightarrow> u32" where
  "small_sigma0 x = (rotr32 7 x XOR rotr32 18 x XOR drop_bit 3 x)"

definition small_sigma1 :: "u32 \<Rightarrow> u32" where
  "small_sigma1 x = (rotr32 17 x XOR rotr32 19 x XOR drop_bit 10 x)"

fun be_words :: "bytes \<Rightarrow> u32 list" where
  "be_words (a # b # c # d # bs) =
     (push_bit 24 (ucast a) OR push_bit 16 (ucast b) OR push_bit 8 (ucast c) OR ucast d)
       # be_words bs"
| "be_words _ = []"

definition be_bytes :: "u32 \<Rightarrow> bytes" where
  "be_bytes w = [ucast (drop_bit 24 w), ucast (drop_bit 16 w), ucast (drop_bit 8 w), ucast w]"

definition sha_pad :: "bytes \<Rightarrow> bytes" where
  "sha_pad m =
     (let n = length m; bits = (of_nat (8 * n) :: 64 word)
      in m @ [0x80] @ replicate ((119 - n mod 64) mod 64) 0
           @ be_bytes (ucast (drop_bit 32 bits)) @ be_bytes (ucast bits))"

text \<open>The schedule is built newest word first.\<close>

fun sha_schedule :: "nat \<Rightarrow> u32 list \<Rightarrow> u32 list" where
  "sha_schedule 0 ws = ws"
| "sha_schedule (Suc n) ws =
     sha_schedule n
       ((small_sigma1 (ws ! 1) + ws ! 6 + small_sigma0 (ws ! 14) + ws ! 15) # ws)"

fun sha_round :: "u32 \<times> u32 \<Rightarrow> sha_state \<Rightarrow> sha_state" where
  "sha_round (k, w) (a, b, c, d, e, f, g, h) =
     (let t1 = h + big_sigma1 e + ((e AND f) XOR (NOT e AND g)) + k + w;
          t2 = big_sigma0 a + ((a AND b) XOR (a AND c) XOR (b AND c))
      in (t1 + t2, a, b, c, d + t1, e, f, g))"

fun sha_add :: "sha_state \<Rightarrow> sha_state \<Rightarrow> sha_state" where
  "sha_add (a, b, c, d, e, f, g, h) (a', b', c', d', e', f', g', h') =
     (a + a', b + b', c + c', d + d', e + e', f + f', g + g', h + h')"

definition sha_compress :: "sha_state \<Rightarrow> bytes \<Rightarrow> sha_state" where
  "sha_compress st block =
     sha_add st (fold sha_round (zip sha_k (rev (sha_schedule 48 (rev (be_words block))))) st)"

fun sha_blocks :: "sha_state \<Rightarrow> bytes \<Rightarrow> sha_state" where
  "sha_blocks st [] = st"
| "sha_blocks st (b # bs) = sha_blocks (sha_compress st (take 64 (b # bs))) (drop 63 bs)"

fun sha_digest :: "sha_state \<Rightarrow> bytes" where
  "sha_digest (a, b, c, d, e, f, g, h) = concat (map be_bytes [a, b, c, d, e, f, g, h])"

definition sha256 :: "bytes \<Rightarrow> bytes" where
  "sha256 m = sha_digest (sha_blocks sha_init (sha_pad m))"

definition sha256_hex :: "bytes \<Rightarrow> string" where
  "sha256_hex m = hex (sha256 m)"

section \<open>What the rest of the development uses\<close>

lemma length_sha_digest: "length (sha_digest st) = 32"
  by (cases st rule: sha_digest.cases) (simp add: be_bytes_def)

lemma length_sha256 [simp]: "length (sha256 m) = 32"
  by (simp add: sha256_def length_sha_digest)

lemma length_sha256_hex [simp]: "length (sha256_hex m) = 64"
  by (simp add: sha256_hex_def)

lemma fromhex_sha256_hex [simp]: "fromhex (sha256_hex m) = Inr (sha256 m)"
  by (simp add: sha256_hex_def)

lemma unhex_sha256_hex [simp]: "unhex (sha256_hex m) = sha256 m"
  by (simp add: sha256_hex_def)

lemma pad_arith: "(n + (119 - n mod 64) mod 64 + 9) mod 64 = (0::nat)"
proof -
  define q r where "q = n div 64" and "r = n mod 64"
  then have n: "n = 64 * q + r" and r: "r < 64" by simp_all
  have "n mod 64 = r" using n r by simp
  moreover have "(64 * q + r + (119 - r) mod 64 + 9) mod 64 = 0"
  proof (cases "r \<le> 55")
    case True
    have "119 - r = 64 + (55 - r)" using True by simp
    then have "(119 - r) mod 64 = (55 - r) mod 64" by (simp only: mod_add_self1)
    then have "(119 - r) mod 64 = 55 - r" by simp
    then have "64 * q + r + (119 - r) mod 64 + 9 = 64 * (q + 1)" using True by simp
    then show ?thesis by (simp only: mod_mult_self1_is_0)
  next
    case False
    then have "(119 - r) mod 64 = 119 - r" by simp
    then have "64 * q + r + (119 - r) mod 64 + 9 = 64 * (q + 2)" using r by simp
    then show ?thesis by (simp only: mod_mult_self1_is_0)
  qed
  ultimately show ?thesis using n by simp
qed

lemma length_sha_pad: "length (sha_pad m) mod 64 = 0"
  using pad_arith [of "length m"] by (simp add: sha_pad_def Let_def be_bytes_def ac_simps)

section \<open>Collisions\<close>

text \<open>
  Security statements say: the property holds, or two different inputs among the ones the
  program hashed have the same SHA-256 digest. The inputs are listed, so the second
  alternative exhibits a collision, and no injectivity is ever assumed.
\<close>

definition collision_in :: "bytes set \<Rightarrow> bool" where
  "collision_in A \<longleftrightarrow> (\<exists>x \<in> A. \<exists>y \<in> A. x \<noteq> y \<and> sha256 x = sha256 y)"

lemma collision_inI: "x \<in> A \<Longrightarrow> y \<in> A \<Longrightarrow> x \<noteq> y \<Longrightarrow> sha256 x = sha256 y \<Longrightarrow> collision_in A"
  by (auto simp: collision_in_def)

lemma collision_in_mono: "collision_in A \<Longrightarrow> A \<subseteq> B \<Longrightarrow> collision_in B"
  by (auto simp: collision_in_def)

lemma sha256_eqD:
  "sha256 x = sha256 y \<Longrightarrow> x \<in> A \<Longrightarrow> y \<in> A \<Longrightarrow> x = y \<or> collision_in A"
  by (auto simp: collision_in_def)

end
