(* ===== verification/Ct.thy ===== *)
theory Ct
  imports Sha256
begin

text \<open>
  \<open>anchoring/ct.py\<close>: the RFC 6962 Merkle tree over the transparency log. Hashes are hex
  strings, as in the code; \<open>bytes.fromhex\<close> inside \<open>_node_hash\<close> may raise, so every function
  that combines hashes returns a \<open>res\<close>. A \<open>return False\<close> inside a loop leaves the loop with
  \<open>Inl (Inr False)\<close>, an exception with \<open>Inl (Inl e)\<close>.
\<close>

section \<open>The code\<close>

definition empty_root :: string where
  "empty_root = sha256_hex []"

definition leaf_hash :: "bytes \<Rightarrow> string" where
  "leaf_hash leaf_bytes = sha256_hex (0x00 # leaf_bytes)"

definition node_hash :: "string \<Rightarrow> string \<Rightarrow> string res" where
  "node_hash left right =
     rbind (fromhex left) (\<lambda>l. rbind (fromhex right) (\<lambda>r. Inr (sha256_hex (0x01 # l @ r))))"

text \<open>The loop starts at \<open>k = 1\<close>; the guard \<open>0 < k\<close> only makes the equation total.\<close>

function pow2_loop :: "nat \<Rightarrow> nat \<Rightarrow> nat" where
  "pow2_loop k n = (if 0 < k \<and> 2 * k < n then pow2_loop (2 * k) n else k)"
  by pat_completeness auto
termination
  by (relation "measure (\<lambda>(k, n). n - k)") auto

declare pow2_loop.simps [simp del]

definition largest_power_of_two_below :: "nat \<Rightarrow> nat" where
  "largest_power_of_two_below n = pow2_loop 1 n"

lemma pow2_loop_bounds:
  "0 < k \<Longrightarrow> k < n \<Longrightarrow> pow2_loop k n < n \<and> n \<le> 2 * pow2_loop k n \<and> (\<exists>j. pow2_loop k n = k * 2 ^ j)"
proof (induction k n rule: pow2_loop.induct)
  case (1 k n)
  show ?case
  proof (cases "2 * k < n")
    case True
    with 1 have IH: "pow2_loop (2 * k) n < n \<and> n \<le> 2 * pow2_loop (2 * k) n \<and>
        (\<exists>j. pow2_loop (2 * k) n = 2 * k * 2 ^ j)" by simp
    then obtain j where "pow2_loop (2 * k) n = 2 * k * 2 ^ j" by blast
    then have "pow2_loop (2 * k) n = k * 2 ^ Suc j" by simp
    then have "\<exists>j. pow2_loop (2 * k) n = k * 2 ^ j" by blast
    with IH True 1 show ?thesis by (simp add: pow2_loop.simps [of k n])
  next
    case False
    with 1 show ?thesis by (auto simp: pow2_loop.simps [of k n] intro: exI [of _ 0])
  qed
qed

lemma lpt_bounds:
  assumes "1 < n"
  shows "0 < largest_power_of_two_below n" "largest_power_of_two_below n < n"
    and "n \<le> 2 * largest_power_of_two_below n"
    and "\<exists>j. largest_power_of_two_below n = 2 ^ j"
  using pow2_loop_bounds [of 1 n] assms by (auto simp: largest_power_of_two_below_def)

lemma lpt_decreases:
  "n \<noteq> 0 \<Longrightarrow> n \<noteq> Suc 0 \<Longrightarrow> largest_power_of_two_below n < n"
  "n \<noteq> 0 \<Longrightarrow> n \<noteq> Suc 0 \<Longrightarrow> n - largest_power_of_two_below n < n"
  using lpt_bounds [of n] by auto

function merkle_tree_hash :: "string list \<Rightarrow> string res" where
  "merkle_tree_hash leaves =
     (let n = length leaves in
      if n = 0 then Inr empty_root
      else if n = 1 then Inr (leaves ! 0)
      else let k = largest_power_of_two_below n in
        rbind (merkle_tree_hash (take k leaves)) (\<lambda>l.
        rbind (merkle_tree_hash (drop k leaves)) (\<lambda>r. node_hash l r)))"
  by pat_completeness auto
termination
  by (relation "measure length")
    (auto simp: min_less_iff_disj intro!: lpt_decreases)

function inclusion_audit_path :: "int \<Rightarrow> string list \<Rightarrow> string list res" where
  "inclusion_audit_path index leaves =
     (let n = length leaves in
      if \<not> (0 \<le> index \<and> index < int n) then Inl IndexError
      else if n = 1 then Inr []
      else let k = largest_power_of_two_below n in
        if index < int k then
          rbind (inclusion_audit_path index (take k leaves)) (\<lambda>p.
          rbind (merkle_tree_hash (drop k leaves)) (\<lambda>s. Inr (p @ [s])))
        else
          rbind (inclusion_audit_path (index - int k) (drop k leaves)) (\<lambda>p.
          rbind (merkle_tree_hash (take k leaves)) (\<lambda>s. Inr (p @ [s]))))"
  by pat_completeness auto
termination
  by (relation "measure (length \<circ> snd)")
    (auto simp: min_less_iff_disj intro!: lpt_decreases)

declare merkle_tree_hash.simps [simp del] inclusion_audit_path.simps [simp del]

text \<open>\<open>while not (fn & 1) and fn != 0\<close>, the ascent to the next right child.\<close>

function ascend :: "nat \<Rightarrow> nat \<Rightarrow> nat \<times> nat" where
  "ascend fn sn = (if even fn \<and> fn \<noteq> 0 then ascend (fn div 2) (sn div 2) else (fn, sn))"
  by pat_completeness auto
termination
  by (relation "measure fst") auto

text \<open>\<open>while fn & 1\<close>, the strip of the low ones before a consistency proof is replayed.\<close>

function strip_ones :: "nat \<Rightarrow> nat \<Rightarrow> nat \<times> nat" where
  "strip_ones fn sn = (if odd fn then strip_ones (fn div 2) (sn div 2) else (fn, sn))"
  by pat_completeness auto
termination
  by (relation "measure fst") (auto elim: oddE)

declare ascend.simps [simp del] strip_ones.simps [simp del]

type_synonym 'a early = "bool res + 'a"

definition try_early :: "'a res \<Rightarrow> 'a early" where
  "try_early r = (case r of Inl e \<Rightarrow> Inl (Inl e) | Inr x \<Rightarrow> Inr x)"

definition finish_early :: "bool early \<Rightarrow> bool res" where
  "finish_early r = (case r of Inl x \<Rightarrow> x | Inr b \<Rightarrow> Inr b)"

fun inclusion_loop :: "nat \<Rightarrow> nat \<Rightarrow> string \<Rightarrow> string list \<Rightarrow> (string \<times> string list) early" where
  "inclusion_loop fn sn acc [] = (if 0 < sn then Inl (Inr False) else Inr (acc, []))"
| "inclusion_loop fn sn acc (sib # path) =
     (if 0 < sn then
        if odd fn \<or> fn = sn then
          rbind (try_early (node_hash sib acc)) (\<lambda>acc'.
            case ascend fn sn of (fn', sn') \<Rightarrow> inclusion_loop (fn' div 2) (sn' div 2) acc' path)
        else
          rbind (try_early (node_hash acc sib)) (\<lambda>acc'.
            inclusion_loop (fn div 2) (sn div 2) acc' path)
      else Inr (acc, sib # path))"

definition verify_inclusion_path ::
    "string \<Rightarrow> int \<Rightarrow> int \<Rightarrow> string list \<Rightarrow> string \<Rightarrow> bool res" where
  "verify_inclusion_path leaf_hash_value index tree_size audit_path root_hash =
     (if \<not> (0 \<le> index \<and> index < tree_size) then Inr False
      else if tree_size = 1 then Inr (audit_path = [] \<and> leaf_hash_value = root_hash)
      else finish_early
        (rbind (inclusion_loop (nat index) (nat (tree_size - 1)) leaf_hash_value audit_path)
          (\<lambda>(acc, path). Inr (path = [] \<and> acc = root_hash))))"

text \<open>
  \<open>_subproof\<close> recurses while \<open>0 < m \<le> n\<close>, which \<open>consistency_proof\<close> checks; outside that
  range the Python recursion does not return, and the guard \<open>n \<le> 1\<close> stops the equation.
\<close>

function subproof :: "nat \<Rightarrow> string list \<Rightarrow> bool \<Rightarrow> string list res" where
  "subproof m leaves start_from_old_root =
     (let n = length leaves in
      if m = n then
        (if start_from_old_root then Inr [] else rbind (merkle_tree_hash leaves) (\<lambda>h. Inr [h]))
      else if n \<le> 1 then Inl RuntimeError
      else let k = largest_power_of_two_below n in
        if m \<le> k then
          rbind (subproof m (take k leaves) start_from_old_root) (\<lambda>p.
          rbind (merkle_tree_hash (drop k leaves)) (\<lambda>h. Inr (p @ [h])))
        else
          rbind (subproof (m - k) (drop k leaves) False) (\<lambda>p.
          rbind (merkle_tree_hash (take k leaves)) (\<lambda>h. Inr (p @ [h]))))"
  by pat_completeness auto
termination
  by (relation "measure (\<lambda>(m, leaves, b). length leaves)") (auto simp: min_less_iff_disj intro!: lpt_decreases)

declare subproof.simps [simp del]

definition consistency_proof :: "int \<Rightarrow> int \<Rightarrow> string list \<Rightarrow> string list res" where
  "consistency_proof first second leaves =
     (if \<not> (0 < first \<and> first \<le> second \<and> second \<le> int (length leaves)) then Inl ValueError
      else if first = second then Inr []
      else subproof (nat first) (take (nat second) leaves) True)"

definition is_power_of_two :: "int \<Rightarrow> bool" where
  "is_power_of_two n \<longleftrightarrow> 0 < n \<and> n AND (n - 1) = 0"

text \<open>The rest of the proof list stands for \<open>proof[idx:]\<close>.\<close>

fun consistency_loop ::
    "nat \<Rightarrow> nat \<Rightarrow> string \<Rightarrow> string \<Rightarrow> string list \<Rightarrow> ((string \<times> string) \<times> string list) early" where
  "consistency_loop fn sn fr sr [] = (if 0 < sn then Inl (Inr False) else Inr ((fr, sr), []))"
| "consistency_loop fn sn fr sr (c # rest) =
     (if 0 < sn then
        if odd fn \<or> fn = sn then
          rbind (try_early (node_hash c fr)) (\<lambda>fr'.
          rbind (try_early (node_hash c sr)) (\<lambda>sr'.
            case ascend fn sn of (fn', sn') \<Rightarrow> consistency_loop (fn' div 2) (sn' div 2) fr' sr' rest))
        else
          rbind (try_early (node_hash sr c)) (\<lambda>sr'.
            consistency_loop (fn div 2) (sn div 2) fr sr' rest)
      else Inr ((fr, sr), c # rest))"

definition verify_consistency_proof ::
    "int \<Rightarrow> int \<Rightarrow> string \<Rightarrow> string \<Rightarrow> string list \<Rightarrow> bool res" where
  "verify_consistency_proof first second first_root second_root proof_list =
     (if first > second \<or> first < 0 \<or> second < 0 then Inr False
      else if first = second then Inr (first_root = second_root \<and> proof_list = [])
      else if first = 0 then Inr (proof_list = [])
      else
        let proof_list' = (if is_power_of_two first then first_root # proof_list else proof_list);
            (fn, sn) = strip_ones (nat (first - 1)) (nat (second - 1))
        in case proof_list' of
            [] \<Rightarrow> Inr False
          | x # rest \<Rightarrow> finish_early
              (rbind (consistency_loop fn sn x x rest)
                (\<lambda>((fr, sr), rest'). Inr (rest' = [] \<and> fr = first_root \<and> sr = second_root))))"

end
