(* ===== verification/CtLoops.thy ===== *)
theory CtLoops
  imports Ct
begin

text \<open>
  The two verifier loops of \<open>ct.py\<close> walk an index pair \<open>(fn, sn)\<close> from the leaf to the root
  with shifts. \<open>climb\<close> is that walk over an arbitrary state, with the two ways to combine the
  next proof element as parameters; \<open>descend\<close> and \<open>descend_cons\<close> are the recursions over the
  RFC 6962 split. This theory shows that the walk and the recursion agree, so the properties
  of the verifiers can be proved by induction over the tree.
\<close>

section \<open>The walk and the recursion\<close>

definition finish_step :: "'e \<Rightarrow> ('h \<Rightarrow> 's \<Rightarrow> 'e + 's) \<Rightarrow> 's \<times> 'h list \<Rightarrow> 'e + ('s \<times> 'h list)" where
  "finish_step stop g = (\<lambda>(s, path). case path of [] \<Rightarrow> Inl stop
     | c # rest \<Rightarrow> rbind (g c s) (\<lambda>s'. Inr (s', rest)))"

fun climb :: "('h \<Rightarrow> 's \<Rightarrow> 'e + 's) \<Rightarrow> ('h \<Rightarrow> 's \<Rightarrow> 'e + 's) \<Rightarrow> 'e \<Rightarrow> nat \<Rightarrow> nat \<Rightarrow> 's \<Rightarrow> 'h list
    \<Rightarrow> 'e + ('s \<times> 'h list)" where
  "climb L R stop fn sn s [] = (if 0 < sn then Inl stop else Inr (s, []))"
| "climb L R stop fn sn s (c # path) =
     (if 0 < sn then
        if odd fn \<or> fn = sn then
          rbind (L c s) (\<lambda>s'. case ascend fn sn of (fn', sn') \<Rightarrow>
            climb L R stop (fn' div 2) (sn' div 2) s' path)
        else rbind (R c s) (\<lambda>s'. climb L R stop (fn div 2) (sn div 2) s' path)
      else Inr (s, c # path))"

function descend :: "('h \<Rightarrow> 's \<Rightarrow> 'e + 's) \<Rightarrow> ('h \<Rightarrow> 's \<Rightarrow> 'e + 's) \<Rightarrow> 'e \<Rightarrow> nat \<Rightarrow> nat \<Rightarrow> 's \<Rightarrow> 'h list
    \<Rightarrow> 'e + ('s \<times> 'h list)" where
  "descend L R stop i n s path =
     (if n \<le> 1 then Inr (s, path)
      else let k = largest_power_of_two_below n in
        if i < k then rbind (descend L R stop i k s path) (finish_step stop R)
        else rbind (descend L R stop (i - k) (n - k) s path) (finish_step stop L))"
  by pat_completeness auto
termination
  by (relation "measure (\<lambda>(L, R, stop, i, n, s, path). n)") (auto intro!: lpt_decreases)

function descend_cons :: "('h \<Rightarrow> 's \<Rightarrow> 'e + 's) \<Rightarrow> ('h \<Rightarrow> 's \<Rightarrow> 'e + 's) \<Rightarrow> 'e \<Rightarrow> nat \<Rightarrow> nat \<Rightarrow> 's \<Rightarrow> 'h list
    \<Rightarrow> 'e + ('s \<times> 'h list)" where
  "descend_cons L R stop m n s path =
     (if m = n \<or> n \<le> 1 then Inr (s, path)
      else let k = largest_power_of_two_below n in
        if m \<le> k then rbind (descend_cons L R stop m k s path) (finish_step stop R)
        else rbind (descend_cons L R stop (m - k) (n - k) s path) (finish_step stop L))"
  by pat_completeness auto
termination
  by (relation "measure (\<lambda>(L, R, stop, i, n, s, path). n)") (auto intro!: lpt_decreases)

declare descend.simps [simp del] descend_cons.simps [simp del]

lemma climb_done [simp]: "climb L R stop fn 0 s path = Inr (s, path)"
  by (cases path) simp_all

section \<open>Index arithmetic\<close>

lemma ascend_odd [simp]: "odd fn \<Longrightarrow> ascend fn sn = (fn, sn)"
  by (subst ascend.simps) simp

lemma ascend_pow2 [simp]: "ascend (2 ^ j) (2 ^ j) = (1, 1)"
  by (induction j) (subst ascend.simps, simp)+

lemma half_add_pow2: "(f + 2 ^ Suc i) div 2 = f div 2 + (2::nat) ^ i"
  by simp

lemma half_ones: "((2::nat) ^ Suc i - 1) div 2 = 2 ^ i - 1"
  by simp

lemma less_pow2_half: "f < 2 ^ Suc i \<Longrightarrow> f div 2 < (2::nat) ^ i"
  by simp

lemma ascend_add_pow2:
  "0 < f \<Longrightarrow> f < 2 ^ j \<Longrightarrow>
   \<exists>i g. odd g \<and> g < 2 ^ i \<and> ascend f f = (g, g) \<and>
         ascend (f + 2 ^ j) (f + 2 ^ j) = (g + 2 ^ i, g + 2 ^ i)"
proof (induction j arbitrary: f)
  case 0
  then show ?case by simp
next
  case (Suc j)
  show ?case
  proof (cases "odd f")
    case True
    then have "odd (f + 2 ^ Suc j)" by simp
    with True show ?thesis using Suc.prems
      by (intro exI [of _ "Suc j"] exI [of _ f]) (simp del: power_Suc)
  next
    case False
    then have h: "0 < f div 2" "f div 2 < 2 ^ j" using Suc.prems by auto
    from Suc.IH [OF h] obtain i g where g: "odd g" "g < 2 ^ i" "ascend (f div 2) (f div 2) = (g, g)"
      "ascend (f div 2 + 2 ^ j) (f div 2 + 2 ^ j) = (g + 2 ^ i, g + 2 ^ i)" by blast
    have "ascend f f = (g, g)"
      using False Suc.prems g(3) by (subst ascend.simps) simp
    moreover have "ascend (f + 2 ^ Suc j) (f + 2 ^ Suc j) = (g + 2 ^ i, g + 2 ^ i)"
      using False g(4) by (subst ascend.simps) (simp del: power_Suc add: half_add_pow2)
    ultimately show ?thesis using g(1,2) by blast
  qed
qed

section \<open>A subtree of the left child, and of the right child\<close>

lemma climb_left:
  assumes "fn < 2 ^ j" "2 ^ j \<le> sn" "sn < 2 ^ Suc j"
  shows "climb L R stop fn sn s path =
    rbind (climb L R stop fn (2 ^ j - 1) s path) (finish_step stop R)"
  using assms
proof (induction path arbitrary: fn sn s j)
  case Nil
  then show ?case by (auto simp: finish_step_def)
next
  case (Cons c path)
  show ?case
  proof (cases j)
    case 0
    with Cons.prems have "fn = 0" "sn = 1" by auto
    with 0 show ?thesis by (simp add: finish_step_def)
  next
    case (Suc i)
    have sn: "0 < sn" using Cons.prems(2) zero_less_power [of "2::nat" j] by linarith
    have "2 \<le> (2::nat) ^ j" using Suc by simp
    then have sub: "0 < (2::nat) ^ j - 1" by linarith
    have ne: "fn \<noteq> sn" using Cons.prems by linarith
    have half: "((2::nat) ^ j - Suc 0) div 2 = 2 ^ i - Suc 0" using half_ones [of i] Suc by simp
    have bounds: "fn div 2 < 2 ^ i" "2 ^ i \<le> sn div 2" "sn div 2 < 2 ^ Suc i"
      using Suc Cons.prems by auto
    note IH = Cons.IH [OF bounds]
    show ?thesis
    proof (cases "odd fn")
      case True
      with sn sub show ?thesis by (simp add: half IH rbind_assoc)
    next
      case False
      have "odd ((2::nat) ^ j - 1)" using Suc by simp
      with False have "fn \<noteq> 2 ^ j - 1" by metis
      with False sn sub ne show ?thesis by (simp add: half IH rbind_assoc)
    qed
  qed
qed

lemma climb_right:
  assumes "fn \<le> sn" "sn < 2 ^ j"
  shows "climb L R stop (fn + 2 ^ j) (sn + 2 ^ j) s path =
    rbind (climb L R stop fn sn s path) (finish_step stop L)"
  using assms
proof (induction path arbitrary: fn sn s j)
  case Nil
  then show ?case by (auto simp: finish_step_def)
next
  case (Cons c path)
  show ?case
  proof (cases "sn = 0")
    case True
    with Cons.prems show ?thesis by (simp add: finish_step_def)
  next
    case False
    then obtain i where j: "j = Suc i" using Cons.prems by (cases j) auto
    have half: "(f + 2 ^ j) div 2 = f div 2 + 2 ^ i" for f :: nat by (simp add: j)
    have "fn div 2 \<le> sn div 2" "sn div 2 < 2 ^ i" using Cons.prems j by (auto intro: div_le_mono)
    note IH = Cons.IH [OF this]
    consider (plain) "odd fn \<or> fn \<noteq> sn" | (edge) "even fn" "fn = sn" by blast
    then show ?thesis
    proof cases
      case plain
      have "odd (fn + 2 ^ j) \<longleftrightarrow> odd fn" by (simp add: j)
      with plain False show ?thesis
        by (auto simp: half IH rbind_assoc simp del: climb.simps(1))
    next
      case edge
      obtain t g where g: "odd g" "g < 2 ^ t" "ascend fn fn = (g, g)"
        "ascend (fn + 2 ^ j) (fn + 2 ^ j) = (g + 2 ^ t, g + 2 ^ t)"
        using ascend_add_pow2 [of fn j] edge False Cons.prems by auto
      then obtain u where t: "t = Suc u" by (cases t) auto
      have "g div 2 \<le> g div 2" "g div 2 < 2 ^ u" using g(2) t by auto
      note IHg = Cons.IH [OF this]
      have halfg: "(g + 2 ^ t) div 2 = g div 2 + 2 ^ u" by (simp add: t)
      from edge False g show ?thesis by (simp add: halfg IHg rbind_assoc)
    qed
  qed
qed

theorem climb_descend:
  "i < n \<Longrightarrow> climb L R stop i (n - 1) s path = descend L R stop i n s path"
proof (induction n arbitrary: i s rule: less_induct)
  case (less n)
  show ?case
  proof (cases "n \<le> 1")
    case True
    with less.prems show ?thesis by (simp add: descend.simps)
  next
    case False
    then have n: "1 < n" by simp
    define k where "k = largest_power_of_two_below n"
    obtain j where j: "k = 2 ^ j" using lpt_bounds(4) [OF n] by (auto simp: k_def)
    have k: "0 < k" "k < n" "n \<le> 2 * k" using lpt_bounds [OF n] by (auto simp: k_def)
    show ?thesis
    proof (cases "i < k")
      case True
      have "climb L R stop i (n - 1) s path =
          rbind (climb L R stop i (2 ^ j - 1) s path) (finish_step stop R)"
        by (rule climb_left) (use True k j in auto)
      then show ?thesis using True k less.IH [of k i s] False j
        by (simp add: descend.simps [of L R stop i n] Let_def flip: k_def)
    next
      case False
      have eq: "i = (i - k) + 2 ^ j" "n - 1 = (n - k - 1) + 2 ^ j" using False less.prems k j by auto
      have "climb L R stop i (n - 1) s path =
          rbind (climb L R stop (i - k) (n - k - 1) s path) (finish_step stop L)"
        by (subst eq(1), subst eq(2), rule climb_right) (use False less.prems k j in auto)
      moreover have "climb L R stop (i - k) (n - k - 1) s path = descend L R stop (i - k) (n - k) s path"
        by (rule less.IH) (use False less.prems k in auto)
      ultimately show ?thesis using False n
        by (simp add: descend.simps [of L R stop i n] Let_def flip: k_def)
    qed
  qed
qed

section \<open>Consistency proofs: the strip of the low ones\<close>

lemma strip_even [simp]: "even fn \<Longrightarrow> strip_ones fn sn = (fn, sn)"
  by (subst strip_ones.simps) simp

lemma strip_odd: "odd fn \<Longrightarrow> strip_ones fn sn = strip_ones (fn div 2) (sn div 2)"
  by (subst strip_ones.simps) simp

lemma strip_all_ones: "strip_ones (2 ^ j - 1) (2 ^ j - 1) = (0, 0)"
proof (induction j)
  case 0
  then show ?case by simp
next
  case (Suc j)
  have "strip_ones (2 ^ Suc j - 1) (2 ^ Suc j - 1) =
      strip_ones ((2 ^ Suc j - 1) div 2) ((2 ^ Suc j - 1) div 2)"
    by (rule strip_odd) simp
  also have "((2::nat) ^ Suc j - 1) div 2 = 2 ^ j - 1" by simp
  finally show ?case using Suc.IH by simp
qed

lemma strip_left:
  "fn < 2 ^ j \<Longrightarrow> 2 ^ j \<le> sn \<Longrightarrow> sn < 2 ^ Suc j \<Longrightarrow>
   \<exists>i f s. f < 2 ^ i \<and> 2 ^ i \<le> s \<and> s < 2 ^ Suc i \<and>
     strip_ones fn sn = (f, s) \<and> strip_ones fn (2 ^ j - 1) = (f, 2 ^ i - 1)"
proof (induction j arbitrary: fn sn)
  case 0
  then show ?case by (intro exI [of _ 0] exI [of _ 0] exI [of _ sn]) simp
next
  case (Suc j)
  show ?case
  proof (cases "odd fn")
    case True
    have "fn div 2 < 2 ^ j" "2 ^ j \<le> sn div 2" "sn div 2 < 2 ^ Suc j" using Suc.prems by auto
    from Suc.IH [OF this] obtain i f s where "f < 2 ^ i \<and> 2 ^ i \<le> s \<and> s < 2 ^ Suc i \<and>
      strip_ones (fn div 2) (sn div 2) = (f, s) \<and> strip_ones (fn div 2) (2 ^ j - 1) = (f, 2 ^ i - 1)"
      by blast
    moreover have "strip_ones fn sn = strip_ones (fn div 2) (sn div 2)"
      using True by (rule strip_odd)
    moreover have "strip_ones fn (2 ^ Suc j - 1) = strip_ones (fn div 2) (2 ^ j - 1)"
      by (simp only: strip_odd [OF True, of "2 ^ Suc j - 1"] half_ones)
    ultimately show ?thesis by metis
  next
    case False
    with Suc.prems show ?thesis
      by (intro exI [of _ "Suc j"] exI [of _ fn] exI [of _ sn]) (simp del: power_Suc)
  qed
qed

lemma strip_right:
  "fn < sn \<Longrightarrow> sn < 2 ^ j \<Longrightarrow>
   \<exists>i f s. f \<le> s \<and> s < 2 ^ i \<and> strip_ones fn sn = (f, s) \<and>
     strip_ones (fn + 2 ^ j) (sn + 2 ^ j) = (f + 2 ^ i, s + 2 ^ i)"
proof (induction j arbitrary: fn sn)
  case 0
  then show ?case by simp
next
  case (Suc j)
  show ?case
  proof (cases "odd fn")
    case True
    have "fn div 2 < sn div 2" "sn div 2 < 2 ^ j" using Suc.prems True by (auto elim!: oddE)
    from Suc.IH [OF this] obtain i f s where "f \<le> s \<and> s < 2 ^ i \<and>
      strip_ones (fn div 2) (sn div 2) = (f, s) \<and>
      strip_ones (fn div 2 + 2 ^ j) (sn div 2 + 2 ^ j) = (f + 2 ^ i, s + 2 ^ i)" by blast
    moreover have "strip_ones fn sn = strip_ones (fn div 2) (sn div 2)"
      using True by (rule strip_odd)
    moreover have "strip_ones (fn + 2 ^ Suc j) (sn + 2 ^ Suc j) =
        strip_ones (fn div 2 + 2 ^ j) (sn div 2 + 2 ^ j)"
    proof -
      have "odd (fn + 2 ^ Suc j)" using True by simp
      from strip_odd [OF this, of "sn + 2 ^ Suc j"] show ?thesis by (simp only: half_add_pow2)
    qed
    ultimately show ?thesis by metis
  next
    case False
    then have "even (fn + 2 ^ Suc j)" by simp
    with False Suc.prems show ?thesis
      by (intro exI [of _ "Suc j"] exI [of _ fn] exI [of _ sn]) (simp del: power_Suc)
  qed
qed

definition climb_cons :: "('h \<Rightarrow> 's \<Rightarrow> 'e + 's) \<Rightarrow> ('h \<Rightarrow> 's \<Rightarrow> 'e + 's) \<Rightarrow> 'e \<Rightarrow> nat \<Rightarrow> nat \<Rightarrow> 's \<Rightarrow> 'h list
    \<Rightarrow> 'e + ('s \<times> 'h list)" where
  "climb_cons L R stop m n s path =
     (case strip_ones (m - 1) (n - 1) of (fn, sn) \<Rightarrow> climb L R stop fn sn s path)"

theorem climb_descend_cons:
  "0 < m \<Longrightarrow> m < n \<or> m = n \<and> n = 2 ^ t \<Longrightarrow>
   climb_cons L R stop m n s path = descend_cons L R stop m n s path"
proof (induction n arbitrary: m s t rule: less_induct)
  case (less n)
  show ?case
  proof (cases "m = n")
    case True
    with less.prems show ?thesis
      by (auto simp: climb_cons_def strip_all_ones [simplified] descend_cons.simps)
  next
    case False
    with less.prems have mn: "m < n" and n: "1 < n" by auto
    define k where "k = largest_power_of_two_below n"
    obtain j where j: "k = 2 ^ j" using lpt_bounds(4) [OF n] by (auto simp: k_def)
    have k: "0 < k" "k < n" "n \<le> 2 * k" using lpt_bounds [OF n] by (auto simp: k_def)
    show ?thesis
    proof (cases "m \<le> k")
      case True
      have "m - 1 < 2 ^ j" "2 ^ j \<le> n - 1" "n - 1 < 2 ^ Suc j" using True k j less.prems by auto
      from strip_left [OF this] obtain i f u where "f < 2 ^ i" "2 ^ i \<le> u" "u < 2 ^ Suc i"
        "strip_ones (m - 1) (n - 1) = (f, u)" "strip_ones (m - 1) (2 ^ j - 1) = (f, 2 ^ i - 1)"
        by blast
      then have "climb_cons L R stop m n s path =
          rbind (climb_cons L R stop m k s path) (finish_step stop R)"
        by (simp add: climb_cons_def j climb_left)
      moreover have "climb_cons L R stop m k s path = descend_cons L R stop m k s path"
        by (rule less.IH) (use k less.prems True j in auto)
      ultimately show ?thesis using True mn n
        by (simp add: descend_cons.simps [of L R stop m n] Let_def flip: k_def)
    next
      case False
      have eq: "m - 1 = (m - k - 1) + 2 ^ j" "n - 1 = (n - k - 1) + 2 ^ j" using False k j by auto
      have "m - k - 1 < n - k - 1" "n - k - 1 < 2 ^ j" using False mn k j by auto
      from strip_right [OF this] obtain i f u where "f \<le> u" "u < 2 ^ i"
        "strip_ones (m - k - 1) (n - k - 1) = (f, u)"
        "strip_ones (m - k - 1 + 2 ^ j) (n - k - 1 + 2 ^ j) = (f + 2 ^ i, u + 2 ^ i)" by blast
      moreover from this(4) have "strip_ones (m - 1) (n - 1) = (f + 2 ^ i, u + 2 ^ i)"
        by (subst eq(1), subst eq(2))
      ultimately have "climb_cons L R stop m n s path =
          rbind (climb_cons L R stop (m - k) (n - k) s path) (finish_step stop L)"
        by (simp add: climb_cons_def climb_right)
      moreover have "climb_cons L R stop (m - k) (n - k) s path =
          descend_cons L R stop (m - k) (n - k) s path"
        by (rule less.IH) (use k mn False in auto)
      ultimately show ?thesis using False mn n
        by (simp add: descend_cons.simps [of L R stop m n] Let_def flip: k_def)
    qed
  qed
qed

section \<open>States that only record more\<close>

lemma climb_map:
  assumes "\<And>c s. L c (f s) = rbind (L' c s) (\<lambda>s'. Inr (f s'))"
    and "\<And>c s. R c (f s) = rbind (R' c s) (\<lambda>s'. Inr (f s'))"
  shows "climb L R stop fn sn (f s) path =
    rbind (climb L' R' stop fn sn s path) (\<lambda>(s', rest). Inr (f s', rest))"
  by (induction path arbitrary: fn sn s)
    (auto simp: assms rbind_assoc split: prod.splits intro!: rbind_cong)

end
