(* ===== verification/CtCorrect.thy ===== *)
theory CtCorrect
  imports CtLoops
begin

text \<open>
  Correctness of the RFC 6962 log tree: the reference Merkle tree hash over raw digests
  (\<open>mth\<close>), completeness of the audit path and of the consistency proof (what \<open>ct.py\<close> builds,
  \<open>ct.py\<close> accepts), and soundness of both verifiers: an accepted proof tells the truth about
  the leaves, or the inputs hashed on the way contain a SHA-256 collision.
\<close>

section \<open>The reference tree over raw digests\<close>

definition node_input :: "bytes \<Rightarrow> bytes \<Rightarrow> bytes" where
  "node_input l r = 0x01 # l @ r"

function mth :: "bytes list \<Rightarrow> bytes" where
  "mth ds = (let n = length ds in
     if n = 0 then sha256 [] else if n = 1 then ds ! 0
     else let k = largest_power_of_two_below n in
       sha256 (node_input (mth (take k ds)) (mth (drop k ds))))"
  by pat_completeness auto
termination
  by (relation "measure length") (auto simp: min_less_iff_disj intro!: lpt_decreases)

function mth_inputs :: "bytes list \<Rightarrow> bytes list" where
  "mth_inputs ds = (let n = length ds in
     if n \<le> 1 then []
     else let k = largest_power_of_two_below n in
       node_input (mth (take k ds)) (mth (drop k ds)) # mth_inputs (take k ds) @ mth_inputs (drop k ds))"
  by pat_completeness auto
termination
  by (relation "measure length") (auto simp: min_less_iff_disj intro!: lpt_decreases)

declare mth.simps [simp del] mth_inputs.simps [simp del]

definition digests :: "bytes list \<Rightarrow> bool" where
  "digests ds \<longleftrightarrow> list_all (\<lambda>d. length d = 32) ds"

lemma digests_take [simp]: "digests ds \<Longrightarrow> digests (take k ds)"
  by (auto simp: digests_def list_all_iff dest: in_set_takeD)

lemma digests_drop [simp]: "digests ds \<Longrightarrow> digests (drop k ds)"
  by (auto simp: digests_def list_all_iff dest: in_set_dropD)

lemma digests_nth [simp]: "digests ds \<Longrightarrow> i < length ds \<Longrightarrow> length (ds ! i) = 32"
  by (simp add: digests_def list_all_length)

lemma mth_single [simp]: "mth [d] = d"
  by (simp add: mth.simps)

lemma mth_one: "length ds = 1 \<Longrightarrow> mth ds = ds ! 0"
  by (simp add: mth.simps)

lemma mth_split:
  "1 < length ds \<Longrightarrow> k = largest_power_of_two_below (length ds) \<Longrightarrow>
   mth ds = sha256 (node_input (mth (take k ds)) (mth (drop k ds)))"
  by (subst mth.simps) (auto simp: Let_def)

lemma mth_inputs_split:
  "1 < length ds \<Longrightarrow> k = largest_power_of_two_below (length ds) \<Longrightarrow>
   mth_inputs ds = node_input (mth (take k ds)) (mth (drop k ds)) #
     mth_inputs (take k ds) @ mth_inputs (drop k ds)"
  by (subst mth_inputs.simps) (simp add: Let_def)

lemma length_mth: "digests ds \<Longrightarrow> length (mth ds) = 32"
  by (subst mth.simps) (simp add: Let_def)

lemma node_hash_hex [simp]: "node_hash (hex l) (hex r) = Inr (hex (sha256 (node_input l r)))"
  by (simp add: node_hash_def sha256_hex_def node_input_def)

lemma node_hash_InrD:
  "node_hash l r = Inr h \<Longrightarrow> \<exists>lb rb. fromhex l = Inr lb \<and> fromhex r = Inr rb \<and>
     unhex l = lb \<and> unhex r = rb \<and> h = hex (sha256 (node_input lb rb))"
  by (auto simp: node_hash_def rbind_Inr_iff sha256_hex_def node_input_def unhex_def)

text \<open>The code's tree hash is the reference tree hash, on every list of digests.\<close>

lemma merkle_tree_hash_hex: "merkle_tree_hash (map hex ds) = Inr (hex (mth ds))"
proof (induction ds rule: mth.induct)
  case (1 ds)
  consider "length ds = 0" | "length ds = 1" | "1 < length ds" by linarith
  then show ?case
  proof cases
    case 1
    then show ?thesis
      by (simp add: merkle_tree_hash.simps mth.simps empty_root_def sha256_hex_def)
  next
    case 2
    then show ?thesis by (simp add: merkle_tree_hash.simps mth.simps)
  next
    case 3
    then have "length ds \<noteq> 0" "length ds \<noteq> 1" by auto
    note IH = "1.IH" [OF refl this refl]
    show ?thesis using 3 IH
      by (subst merkle_tree_hash.simps)
        (auto simp: Let_def mth_split [OF 3 refl] simp flip: take_map drop_map)
  qed
qed

section \<open>The loops as walks\<close>

definition incl_left :: "string \<Rightarrow> string \<Rightarrow> string early" where
  "incl_left c acc = try_early (node_hash c acc)"

definition incl_right :: "string \<Rightarrow> string \<Rightarrow> string early" where
  "incl_right c acc = try_early (node_hash acc c)"

definition cons_left :: "string \<Rightarrow> string \<times> string \<Rightarrow> (string \<times> string) early" where
  "cons_left c = (\<lambda>(fr, sr). rbind (try_early (node_hash c fr)) (\<lambda>fr'.
     rbind (try_early (node_hash c sr)) (\<lambda>sr'. Inr (fr', sr'))))"

definition cons_right :: "string \<Rightarrow> string \<times> string \<Rightarrow> (string \<times> string) early" where
  "cons_right c = (\<lambda>(fr, sr). rbind (try_early (node_hash sr c)) (\<lambda>sr'. Inr (fr, sr')))"

lemma inclusion_loop_climb:
  "inclusion_loop fn sn acc path = climb incl_left incl_right (Inr False) fn sn acc path"
  by (induction path arbitrary: fn sn acc)
    (simp_all add: incl_left_def incl_right_def split: prod.splits)

lemma consistency_loop_climb:
  "consistency_loop fn sn fr sr rest = climb cons_left cons_right (Inr False) fn sn (fr, sr) rest"
  by (induction rest arbitrary: fn sn fr sr)
    (simp_all add: cons_left_def cons_right_def rbind_assoc split: prod.splits)

lemma try_early_simps [simp]: "try_early (Inr x) = Inr x" "try_early (Inl e) = Inl (Inl e)"
  by (simp_all add: try_early_def)

lemma try_early_InrD: "try_early r = Inr x \<Longrightarrow> r = Inr x"
  by (auto simp: try_early_def split: sum.splits)

lemma finish_early_simps [simp]: "finish_early (Inr b) = Inr b" "finish_early (Inl x) = x"
  by (simp_all add: finish_early_def)

section \<open>Completeness of inclusion proofs\<close>

lemma audit_path_short:
  fixes n :: nat
  assumes "2 ^ m < 2 * (2::nat) ^ j" "2 ^ j < n"
  shows "2 ^ Suc m < 2 * n"
proof -
  have "(2::nat) ^ m < 2 ^ Suc j" using assms(1) by simp
  then have "m < Suc j" by (rule power_less_imp_less_exp [rotated]) simp
  then have "m \<le> j" by simp
  then have "(2::nat) ^ m \<le> 2 ^ j" by (rule power_increasing) simp
  then have "(2::nat) ^ m < n" using assms(2) by (rule le_less_trans)
  then show ?thesis by simp
qed

lemma audit_path_descend:
  "i < length ds \<Longrightarrow>
   \<exists>p. inclusion_audit_path (int i) (map hex ds) = Inr p \<and> 2 ^ length p < 2 * length ds \<and>
     (\<forall>r. descend incl_left incl_right stop i (length ds) (hex (ds ! i)) (p @ r) = Inr (hex (mth ds), r))"
proof (induction "length ds" arbitrary: i ds rule: less_induct)
  case less
  show ?case
  proof (cases "length ds = 1")
    case True
    with less.prems show ?thesis
      by (simp add: inclusion_audit_path.simps descend.simps mth_one)
  next
    case False
    then have n: "1 < length ds" using less.prems by linarith
    define k where "k = largest_power_of_two_below (length ds)"
    obtain j where j: "k = 2 ^ j" using lpt_bounds(4) [OF n] by (auto simp: k_def)
    have k: "0 < k" "k < length ds" "length ds \<le> 2 * k" using lpt_bounds [OF n] by (auto simp: k_def)
    show ?thesis
    proof (cases "i < k")
      case True
      from less.hyps [of "take k ds" i] k True obtain p where
        p: "inclusion_audit_path (int i) (map hex (take k ds)) = Inr p" "2 ^ length p < 2 * k"
          "\<And>r. descend incl_left incl_right stop i k (hex (ds ! i)) (p @ r) = Inr (hex (mth (take k ds)), r)"
        by auto
      have "2 ^ Suc (length p) < 2 * length ds" using audit_path_short p(2) j k by blast
      moreover have "inclusion_audit_path (int i) (map hex ds) = Inr (p @ [hex (mth (drop k ds))])"
        using True less.prems n p(1)
        by (subst inclusion_audit_path.simps)
          (simp add: Let_def drop_map take_map merkle_tree_hash_hex flip: k_def)
      moreover have "descend incl_left incl_right stop i (length ds) (hex (ds ! i))
          ((p @ [hex (mth (drop k ds))]) @ r) = Inr (hex (mth ds), r)" for r
        using True n p(3)
        by (subst descend.simps)
          (simp add: Let_def finish_step_def incl_right_def mth_split [OF n refl] flip: k_def)
      ultimately show ?thesis by (intro exI [of _ "p @ [hex (mth (drop k ds))]"]) simp
    next
      case False
      have ii: "int (i - k) = int i - int k" and nth: "drop k ds ! (i - k) = ds ! i"
        using False less.prems by simp_all
      have "length (drop k ds) < length ds" "i - k < length (drop k ds)"
        using k False less.prems by auto
      from less.hyps [OF this] obtain p where
        p: "inclusion_audit_path (int (i - k)) (map hex (drop k ds)) = Inr p"
          "2 ^ length p < 2 * (length ds - k)"
          "\<And>r. descend incl_left incl_right stop (i - k) (length ds - k) (hex (ds ! i)) (p @ r)
             = Inr (hex (mth (drop k ds)), r)"
        by (auto simp: nth)
      have "2 ^ length p < 2 * k" using p(2) k by linarith
      then have "2 ^ Suc (length p) < 2 * length ds" using audit_path_short j k by blast
      moreover have "inclusion_audit_path (int i) (map hex ds) = Inr (p @ [hex (mth (take k ds))])"
        using False less.prems n p(1)
        by (subst inclusion_audit_path.simps)
          (simp add: Let_def ii drop_map take_map merkle_tree_hash_hex flip: k_def)
      moreover have "descend incl_left incl_right stop i (length ds) (hex (ds ! i))
          ((p @ [hex (mth (take k ds))]) @ r) = Inr (hex (mth ds), r)" for r
        using False n p(3)
        by (subst descend.simps)
          (simp add: Let_def finish_step_def incl_left_def mth_split [OF n refl] flip: k_def)
      ultimately show ?thesis by (intro exI [of _ "p @ [hex (mth (take k ds))]"]) simp
    qed
  qed
qed

lemma verify_inclusion_path_complete_aux:
  assumes "i < length ds"
  shows "\<exists>p. inclusion_audit_path (int i) (map hex ds) = Inr p \<and> 2 ^ length p < 2 * length ds \<and>
    verify_inclusion_path (hex (ds ! i)) (int i) (int (length ds)) p (hex (mth ds)) = Inr True"
proof -
  obtain p where p: "inclusion_audit_path (int i) (map hex ds) = Inr p" "2 ^ length p < 2 * length ds"
    "\<And>r. descend incl_left incl_right (Inr False) i (length ds) (hex (ds ! i)) (p @ r) = Inr (hex (mth ds), r)"
    using audit_path_descend [OF assms] by blast
  have nat: "nat (int (length ds) - 1) = length ds - 1" by simp
  have "verify_inclusion_path (hex (ds ! i)) (int i) (int (length ds)) p (hex (mth ds)) = Inr True"
  proof (cases "length ds = 1")
    case True
    with assms p(1) show ?thesis
      by (auto simp: verify_inclusion_path_def mth_one inclusion_audit_path.simps)
  next
    case False
    with assms p(3) [of "[]"] show ?thesis
      by (simp add: verify_inclusion_path_def nat inclusion_loop_climb climb_descend [simplified])
  qed
  with p show ?thesis by blast
qed

section \<open>Soundness of inclusion proofs\<close>

text \<open>
  The same walk, with the list of SHA-256 inputs it hashes. \<open>inclusion_inputs\<close> names the
  inputs of one run of \<open>verify_inclusion_path\<close>, \<open>mth_inputs\<close> those of the tree hash itself.
\<close>

definition logged_left :: "string \<Rightarrow> string \<times> bytes list \<Rightarrow> (string \<times> bytes list) early" where
  "logged_left c = (\<lambda>(acc, log). rbind (incl_left c acc)
     (\<lambda>acc'. Inr (acc', node_input (unhex c) (unhex acc) # log)))"

definition logged_right :: "string \<Rightarrow> string \<times> bytes list \<Rightarrow> (string \<times> bytes list) early" where
  "logged_right c = (\<lambda>(acc, log). rbind (incl_right c acc)
     (\<lambda>acc'. Inr (acc', node_input (unhex acc) (unhex c) # log)))"

definition inclusion_inputs :: "string \<Rightarrow> nat \<Rightarrow> nat \<Rightarrow> string list \<Rightarrow> bytes list" where
  "inclusion_inputs leaf index tree_size path =
     (case climb logged_left logged_right (Inr False) index (tree_size - 1) (leaf, []) path of
        Inl _ \<Rightarrow> [] | Inr ((_, log), _) \<Rightarrow> log)"

lemma climb_logged:
  "climb incl_left incl_right stop fn sn acc path =
     rbind (climb logged_left logged_right stop fn sn (acc, log) path) (\<lambda>(s, rest). Inr (fst s, rest))"
proof -
  have "climb incl_left incl_right stop fn sn (fst s) path =
      rbind (climb logged_left logged_right stop fn sn s path) (\<lambda>(s, rest). Inr (fst s, rest))"
    for s :: "string \<times> bytes list"
    by (rule climb_map) (simp_all add: logged_left_def logged_right_def rbind_assoc split: prod.splits)
  from this [of "(acc, log)"] show ?thesis by simp
qed

lemma sibling_unique:
  assumes "sha256 (node_input a b) = sha256 (node_input c d)"
    and "node_input a b \<in> A" "node_input c d \<in> A" "length a = length c \<or> length b = length d"
  shows "(a = c \<and> b = d) \<or> collision_in A"
  using sha256_eqD [OF assms(1-3)] assms(4) by (auto simp: node_input_def)

definition holds_digest :: "string \<Rightarrow> bytes \<Rightarrow> bool" where
  "holds_digest s b \<longleftrightarrow> fromhex s = Inr b \<and> length b = 32"

lemma incl_left_InrD:
  "incl_left c acc = Inr h \<Longrightarrow> fromhex c = Inr (unhex c) \<and> fromhex acc = Inr (unhex acc) \<and>
     h = hex (sha256 (node_input (unhex c) (unhex acc)))"
  by (auto simp: incl_left_def dest!: try_early_InrD node_hash_InrD)

lemma incl_right_InrD:
  "incl_right c acc = Inr h \<Longrightarrow> fromhex c = Inr (unhex c) \<and> fromhex acc = Inr (unhex acc) \<and>
     h = hex (sha256 (node_input (unhex acc) (unhex c)))"
  by (auto simp: incl_right_def dest!: try_early_InrD node_hash_InrD)

lemma finish_step_InrD:
  assumes "rbind r (finish_step stop g) = Inr (s, rest)"
  shows "\<exists>s' c. r = Inr (s', c # rest) \<and> g c s' = Inr s"
proof (cases r)
  case (Inl e)
  with assms show ?thesis by simp
next
  case (Inr y)
  obtain s' path where y: "y = (s', path)" by (cases y)
  with assms Inr show ?thesis
    by (cases path) (auto simp: finish_step_def rbind_Inr_iff)
qed

lemma finish_logged_right_InrD:
  assumes "rbind r (finish_step stop logged_right) = Inr ((s, log), rest)"
  obtains s' log' c where "r = Inr ((s', log'), c # rest)"
    "fromhex c = Inr (unhex c)" "fromhex s' = Inr (unhex s')"
    "s = hex (sha256 (node_input (unhex s') (unhex c)))" "log = node_input (unhex s') (unhex c) # log'"
  using finish_step_InrD [OF assms]
  by (auto simp: logged_right_def rbind_Inr_iff dest!: incl_right_InrD)

lemma finish_logged_left_InrD:
  assumes "rbind r (finish_step stop logged_left) = Inr ((s, log), rest)"
  obtains s' log' c where "r = Inr ((s', log'), c # rest)"
    "fromhex c = Inr (unhex c)" "fromhex s' = Inr (unhex s')"
    "s = hex (sha256 (node_input (unhex c) (unhex s')))" "log = node_input (unhex c) (unhex s') # log'"
  using finish_step_InrD [OF assms]
  by (auto simp: logged_left_def rbind_Inr_iff dest!: incl_left_InrD)

lemma descend_holds_digest:
  assumes "descend logged_left logged_right stop i n (x, log0) path = Inr ((s, log), rest)"
    and "holds_digest x b"
  shows "\<exists>b'. holds_digest s b'"
proof (cases "n \<le> 1")
  case True
  with assms show ?thesis by (auto simp: descend.simps)
next
  case False
  from assms(1) False show ?thesis
    by (subst (asm) descend.simps)
      (auto simp: Let_def holds_digest_def elim!: finish_logged_left_InrD finish_logged_right_InrD
        split: if_splits)
qed

lemma descend_sound:
  assumes "descend logged_left logged_right stop i (length ds) (x, log0) path = Inr ((s, log), rest)"
    and "i < length ds" "digests ds" "holds_digest x b" "fromhex s = Inr (mth ds)"
    and "set log \<union> set (mth_inputs ds) \<subseteq> A"
  shows "b = ds ! i \<or> collision_in A"
  using assms
proof (induction "length ds" arbitrary: i ds s log rest rule: less_induct)
  case less
  show ?case
  proof (cases "length ds = 1")
    case True
    with less.prems show ?thesis by (auto simp: descend.simps holds_digest_def mth_one)
  next
    case False
    then have n: "1 < length ds" using less.prems by linarith
    define k where "k = largest_power_of_two_below (length ds)"
    have k: "0 < k" "k < length ds" using lpt_bounds [OF n] by (auto simp: k_def)
    have root: "mth ds = sha256 (node_input (mth (take k ds)) (mth (drop k ds)))"
      using mth_split [OF n k_def] .
    have inputs: "node_input (mth (take k ds)) (mth (drop k ds)) \<in> A"
      "set (mth_inputs (take k ds)) \<subseteq> A" "set (mth_inputs (drop k ds)) \<subseteq> A"
      using less.prems(6) mth_inputs_split [OF n k_def] by auto
    have lens: "length (mth (take k ds)) = 32" "length (mth (drop k ds)) = 32"
      using less.prems(3) by (simp_all add: length_mth)
    show ?thesis
    proof (cases "i < k")
      case True
      have "rbind (descend logged_left logged_right stop i k (x, log0) path)
          (finish_step stop logged_right) = Inr ((s, log), rest)"
        using less.prems(1) n True by (simp add: descend.simps [of _ _ _ i "length ds"] Let_def flip: k_def)
      then obtain s' log' c where sub: "descend logged_left logged_right stop i k (x, log0) path = Inr ((s', log'), c # rest)"
        "fromhex s' = Inr (unhex s')" "s = hex (sha256 (node_input (unhex s') (unhex c)))"
        "log = node_input (unhex s') (unhex c) # log'" by (rule finish_logged_right_InrD)
      have "length (unhex s') = 32"
        using descend_holds_digest [OF sub(1) less.prems(4)] sub(2) by (auto simp: holds_digest_def)
      then have "unhex s' = mth (take k ds) \<or> collision_in A"
        using sibling_unique [of "unhex s'" "unhex c" "mth (take k ds)" "mth (drop k ds)" A]
          less.prems(5,6) sub(3,4) root inputs(1) lens by auto
      then show ?thesis
        using less.hyps [of "take k ds" i s' log' "c # rest"] k True sub less.prems inputs by auto
    next
      case False
      have "rbind (descend logged_left logged_right stop (i - k) (length ds - k) (x, log0) path)
          (finish_step stop logged_left) = Inr ((s, log), rest)"
        using less.prems(1) n False by (simp add: descend.simps [of _ _ _ i "length ds"] Let_def flip: k_def)
      then obtain s' log' c where sub:
        "descend logged_left logged_right stop (i - k) (length ds - k) (x, log0) path = Inr ((s', log'), c # rest)"
        "fromhex s' = Inr (unhex s')" "s = hex (sha256 (node_input (unhex c) (unhex s')))"
        "log = node_input (unhex c) (unhex s') # log'" by (rule finish_logged_left_InrD)
      have "length (unhex s') = 32"
        using descend_holds_digest [OF sub(1) less.prems(4)] sub(2) by (auto simp: holds_digest_def)
      then have "unhex s' = mth (drop k ds) \<or> collision_in A"
        using sibling_unique [of "unhex c" "unhex s'" "mth (take k ds)" "mth (drop k ds)" A]
          less.prems(5,6) sub(3,4) root inputs(1) lens by auto
      moreover have "drop k ds ! (i - k) = ds ! i" using False less.prems by simp
      moreover have "length (drop k ds) < length ds" "i - k < length (drop k ds)"
        using k False less.prems by auto
      ultimately show ?thesis
        using less.hyps [of "drop k ds" "i - k" s' log' "c # rest"] sub less.prems inputs by auto
    qed
  qed
qed

lemma try_early_not_true: "try_early r \<noteq> Inl (Inr True)"
  by (simp add: try_early_def split: sum.splits)

lemma climb_early_not_true:
  assumes "\<And>c s. L c s \<noteq> Inl (Inr True)" "\<And>c s. R c s \<noteq> Inl (Inr True)"
  shows "climb L R (Inr False) fn sn s path \<noteq> Inl (Inr True)"
proof (induction path arbitrary: fn sn s)
  case Nil
  then show ?case by simp
next
  case (Cons c path)
  with assms show ?case by (simp add: rbind_Inl_iff split: prod.splits)
qed

lemma inclusion_loop_not_true: "inclusion_loop fn sn acc path \<noteq> Inl (Inr True)"
  unfolding inclusion_loop_climb
  by (rule climb_early_not_true) (simp_all add: incl_left_def incl_right_def try_early_not_true)

lemma finish_early_TrueD:
  "finish_early r = Inr True \<Longrightarrow> r \<noteq> Inl (Inr True) \<Longrightarrow> r = Inr True"
  by (auto simp: finish_early_def split: sum.splits)

lemma verify_inclusion_path_sound_aux:
  assumes ver: "verify_inclusion_path leaf (int i) (int (length ds)) path (hex (mth ds)) = Inr True"
    and ds: "digests ds" and leaf: "holds_digest leaf b"
  shows "i < length ds \<and>
    (b = ds ! i \<or> collision_in (set (inclusion_inputs leaf i (length ds) path) \<union> set (mth_inputs ds)))"
proof -
  have i: "i < length ds" using ver by (auto simp: verify_inclusion_path_def split: if_splits)
  show ?thesis
  proof (cases "length ds = 1")
    case True
    with ver i leaf show ?thesis
      by (auto simp: verify_inclusion_path_def mth_one holds_digest_def split: if_splits)
  next
    case False
    have "finish_early (rbind (inclusion_loop i (length ds - 1) leaf path)
        (\<lambda>(acc, p). Inr (p = [] \<and> acc = hex (mth ds)))) = Inr True"
      using ver i False by (simp add: verify_inclusion_path_def nat_diff_distrib split: if_splits)
    then have "rbind (inclusion_loop i (length ds - 1) leaf path)
        (\<lambda>(acc, p). Inr (p = [] \<and> acc = hex (mth ds))) = Inr True"
      by (rule finish_early_TrueD)
        (auto simp: rbind_Inl_iff inclusion_loop_not_true split: prod.splits)
    then have "inclusion_loop i (length ds - 1) leaf path = Inr (hex (mth ds), [])"
      by (auto simp: rbind_Inr_iff split: prod.splits)
    then obtain log where run: "climb logged_left logged_right (Inr False) i (length ds - 1) (leaf, []) path
        = Inr ((hex (mth ds), log), [])"
      by (auto simp: inclusion_loop_climb climb_logged [where log = "[]"] rbind_Inr_iff)
    then have "inclusion_inputs leaf i (length ds) path = log" by (simp add: inclusion_inputs_def)
    moreover have "descend logged_left logged_right (Inr False) i (length ds) (leaf, []) path
        = Inr ((hex (mth ds), log), [])"
      using run i by (simp add: climb_descend [simplified])
    ultimately show ?thesis
      using descend_sound [OF _ i ds leaf] i by (metis fromhex_hex subset_refl)
  qed
qed

section \<open>Properties\<close>

text \<open>Every leaf of a log has an audit path, of at most logarithmic length, and the
  client's check accepts it against the root the log computes.\<close>

theorem inclusion_complete:
  assumes "i < length ds"
  shows "\<exists>p root. merkle_tree_hash (map hex ds) = Inr root \<and>
    inclusion_audit_path (int i) (map hex ds) = Inr p \<and> 2 ^ length p < 2 * length ds \<and>
    verify_inclusion_path (hex (ds ! i)) (int i) (int (length ds)) p root = Inr True"
  using verify_inclusion_path_complete_aux [OF assms] merkle_tree_hash_hex [of ds] by auto

theorem inclusion_complete_witness:
  "\<exists>p root. merkle_tree_hash (map hex [[1], [2], [3]]) = Inr root \<and>
    inclusion_audit_path (int 1) (map hex [[1], [2], [3]]) = Inr p \<and> 2 ^ length p < 2 * length [[1::byte], [2], [3]] \<and>
    verify_inclusion_path (hex ([[1], [2], [3]] ! 1)) (int 1) (int (length [[1::byte], [2], [3]])) p root = Inr True"
  by (rule inclusion_complete) simp

text \<open>C6: an accepted inclusion proof binds: the 32-byte leaf it is about is the leaf of the
  log at that index, unless two of the inputs hashed by the check and by the log collide.\<close>

theorem inclusion_sound:
  assumes "verify_inclusion_path leaf index (int (length ds)) path root = Inr True"
    and "merkle_tree_hash (map hex ds) = Inr root"
    and "digests ds" and "holds_digest leaf b"
  shows "0 \<le> index \<and> index < int (length ds) \<and>
    (b = ds ! nat index \<or>
     collision_in (set (inclusion_inputs leaf (nat index) (length ds) path) \<union> set (mth_inputs ds)))"
proof -
  have i: "0 \<le> index" using assms(1) by (auto simp: verify_inclusion_path_def split: if_splits)
  have "root = hex (mth ds)" using assms(2) by (simp add: merkle_tree_hash_hex)
  with assms(1) i have "verify_inclusion_path leaf (int (nat index)) (int (length ds)) path (hex (mth ds)) = Inr True"
    by simp
  from verify_inclusion_path_sound_aux [OF this assms(3,4)] i show ?thesis by auto
qed

theorem inclusion_sound_witness:
  "let ds = [replicate 32 1, replicate 32 2]; leaf = hex (replicate 32 1) in
    0 \<le> (0::int) \<and> (0::int) < int (length ds) \<and>
    (replicate 32 1 = ds ! nat 0 \<or>
     collision_in (set (inclusion_inputs leaf (nat 0) (length ds) [hex (replicate 32 2)]) \<union> set (mth_inputs ds)))"
  unfolding Let_def
proof (rule inclusion_sound)
  let ?ds = "[replicate 32 1, replicate 32 2] :: bytes list"
  show "merkle_tree_hash (map hex ?ds) = Inr (hex (mth ?ds))"
    by (simp only: merkle_tree_hash_hex)
  show "verify_inclusion_path (hex (replicate 32 1)) 0 (int (length ?ds)) [hex (replicate 32 2)] (hex (mth ?ds)) = Inr True"
    by (simp add: verify_inclusion_path_def node_hash_def try_early_def finish_early_def mth.simps [of ?ds]
        mth_one largest_power_of_two_below_def pow2_loop.simps node_input_def sha256_hex_def
        del: replicate.simps)
qed (simp_all add: digests_def holds_digest_def)

text \<open>The check does not look at the length of the hashes: at the root of a two-leaf log,
  the 64-byte string of both leaves with an empty sibling is accepted as a leaf.\<close>

theorem inclusion_unsized_leaf:
  "merkle_tree_hash [hex a, hex b] = Inr root \<Longrightarrow>
   verify_inclusion_path (hex (a @ b)) 0 2 [''''] root = Inr True"
  by (simp add: merkle_tree_hash.simps [of "[_, _]"] merkle_tree_hash.simps [of "[_]"] Let_def
      largest_power_of_two_below_def pow2_loop.simps verify_inclusion_path_def node_hash_def
      inclusion_loop.simps try_early_def finish_early_def del: hex_append)

theorem inclusion_unsized_leaf_witness:
  "verify_inclusion_path (hex ([1] @ [2])) 0 2 [''''] (hex (mth [[1], [2]])) = Inr True"
  using inclusion_unsized_leaf [of "[1]" "[2]" "hex (mth [[1], [2]])"] merkle_tree_hash_hex [of "[[1], [2]]"]
  by simp

end
