(* ===== verification/CtConsistency.thy ===== *)
theory CtConsistency
  imports CtCorrect
begin

text \<open>
  Consistency proofs: \<open>consistency_proof\<close> builds what \<open>verify_consistency_proof\<close> accepts, and
  what it accepts shows that the old tree is a prefix of the new one.
\<close>

section \<open>Powers of two\<close>

lemma and_pred_zero_iff: "0 < n \<Longrightarrow> (int n AND (int n - 1) = 0) \<longleftrightarrow> (\<exists>t. n = 2 ^ t)"
proof (induction n rule: less_induct)
  case (less n)
  show ?case
  proof (cases "even n")
    case True
    then obtain m where m: "n = 2 * m" by (auto elim: evenE)
    have "(2 * int m - 1) div 2 = int m - 1" by simp
    then have "(int n AND (int n - 1) = 0) \<longleftrightarrow> (int m AND (int m - 1) = 0)"
      by (subst and_int_rec) (simp add: m)
    also have "\<dots> \<longleftrightarrow> (\<exists>t. m = 2 ^ t)" using less m by simp
    also have "\<dots> \<longleftrightarrow> (\<exists>t. n = 2 ^ t)"
    proof
      assume "\<exists>t. m = 2 ^ t"
      then obtain t where "n = 2 ^ Suc t" using m by auto
      then show "\<exists>t. n = 2 ^ t" by blast
    next
      assume "\<exists>t. n = 2 ^ t"
      then obtain t where t: "n = 2 ^ t" by blast
      with True less.prems have "t \<noteq> 0" by (auto intro: ccontr)
      with t m show "\<exists>t. m = 2 ^ t" by (cases t) auto
    qed
    finally show ?thesis .
  next
    case False
    then obtain m where m: "n = 2 * m + 1" by (auto elim: oddE)
    have "int n AND (int n - 1) = 2 * int m"
      by (subst and_int_rec) (simp add: m)
    moreover have "(\<exists>t. n = 2 ^ t) \<longleftrightarrow> m = 0"
    proof
      assume "\<exists>t. n = 2 ^ t"
      then obtain t where "n = 2 ^ t" by blast
      with False have "t = 0" by (cases t) auto
      with \<open>n = 2 ^ t\<close> m show "m = 0" by simp
    next
      assume "m = 0"
      with m have "n = 2 ^ 0" by simp
      then show "\<exists>t. n = 2 ^ t" by blast
    qed
    ultimately show ?thesis by simp
  qed
qed

lemma is_power_of_two_iff: "0 < n \<Longrightarrow> is_power_of_two (int n) \<longleftrightarrow> (\<exists>t. n = 2 ^ t)"
  using and_pred_zero_iff [of n] by (simp add: is_power_of_two_def)

lemma pow2_lessD: "(2::nat) ^ i < 2 ^ j \<Longrightarrow> i < j"
  by (rule power_less_imp_less_exp [of "2::nat"]) simp_all

lemma lpt_unique:
  assumes "2 ^ j < n" "n \<le> 2 * 2 ^ j"
  shows "largest_power_of_two_below n = 2 ^ j"
proof -
  have n: "1 < n" using assms(1) one_le_power [of "2::nat" j] by linarith
  obtain i where i: "largest_power_of_two_below n = 2 ^ i" using lpt_bounds(4) [OF n] by blast
  have "2 ^ i < n" "n \<le> 2 * 2 ^ i" using lpt_bounds [OF n] i by auto
  with assms have "2 ^ i < (2::nat) ^ Suc j" "2 ^ j < (2::nat) ^ Suc i" by auto
  then have "i < Suc j" "j < Suc i" by (blast dest: pow2_lessD)+
  with i show ?thesis by simp
qed

lemma lpt_old:
  assumes "1 < length ds" "k = largest_power_of_two_below (length ds)" "k < m" "m \<le> length ds"
  shows "largest_power_of_two_below m = k"
proof -
  obtain j where "k = 2 ^ j" using lpt_bounds(4) [OF assms(1)] assms(2) by blast
  then show ?thesis using lpt_unique [of j m] lpt_bounds(3) [OF assms(1)] assms by auto
qed

section \<open>Completeness\<close>

lemma cons_left_hex [simp]:
  "cons_left (hex c) (hex f, hex s) = Inr (hex (sha256 (node_input c f)), hex (sha256 (node_input c s)))"
  by (simp add: cons_left_def)

lemma cons_right_hex [simp]:
  "cons_right (hex c) (f, hex s) = Inr (f, hex (sha256 (node_input s c)))"
  by (simp add: cons_right_def)

lemma mth_take_old:
  assumes "1 < length ds" "k = largest_power_of_two_below (length ds)" "k < m" "m \<le> length ds"
  shows "mth (take m ds) = sha256 (node_input (mth (take k ds)) (mth (take (m - k) (drop k ds))))"
proof -
  have "0 < k" using lpt_bounds [OF assms(1)] assms(2) by simp
  then have "1 < length (take m ds)" using assms by simp
  moreover have "k = largest_power_of_two_below (length (take m ds))"
    using lpt_old [OF assms] assms(4) by (simp add: min_absorb2)
  ultimately show ?thesis using mth_split [of "take m ds" k] assms(3)
    by (simp add: min_absorb1 drop_take)
qed

abbreviation cons_run where
  "cons_run stop m n s path \<equiv> descend_cons cons_left cons_right stop m n s path"

lemma cons_run_split_left:
  assumes "m \<le> k" "k = largest_power_of_two_below n" "1 < n" "m \<noteq> n"
  shows "descend_cons L R stop m n s path = rbind (descend_cons L R stop m k s path) (finish_step stop R)"
  using assms by (subst descend_cons.simps) (simp add: Let_def)

lemma cons_run_split_right:
  assumes "k < m" "k = largest_power_of_two_below n" "1 < n" "m \<noteq> n"
  shows "descend_cons L R stop m n s path =
    rbind (descend_cons L R stop (m - k) (n - k) s path) (finish_step stop L)"
  using assms by (subst descend_cons.simps) (simp add: Let_def)

lemma subproof_split_left:
  assumes "m \<le> k" "k = largest_power_of_two_below (length ds)" "1 < length ds" "m \<noteq> length ds"
  shows "subproof m (map hex ds) b =
    rbind (subproof m (map hex (take k ds)) b) (\<lambda>p. Inr (p @ [hex (mth (drop k ds))]))"
  using assms
  by (subst subproof.simps) (simp add: Let_def take_map drop_map merkle_tree_hash_hex)

lemma subproof_split_right:
  assumes "k < m" "k = largest_power_of_two_below (length ds)" "1 < length ds" "m \<noteq> length ds"
  shows "subproof m (map hex ds) b =
    rbind (subproof (m - k) (map hex (drop k ds)) False) (\<lambda>p. Inr (p @ [hex (mth (take k ds))]))"
  using assms
  by (subst subproof.simps) (simp add: Let_def take_map drop_map merkle_tree_hash_hex)

lemma subproof_seeded:
  "0 < m \<Longrightarrow> m \<le> length ds \<Longrightarrow>
   \<exists>x p. subproof m (map hex ds) False = Inr (x # p) \<and>
     (\<forall>r. cons_run stop m (length ds) (x, x) (p @ r) = Inr ((hex (mth (take m ds)), hex (mth ds)), r))"
proof (induction "length ds" arbitrary: m ds rule: less_induct)
  case less
  show ?case
  proof (cases "m = length ds")
    case True
    then show ?thesis by (simp add: subproof.simps merkle_tree_hash_hex descend_cons.simps)
  next
    case False
    then have n: "1 < length ds" using less.prems by linarith
    define k where "k = largest_power_of_two_below (length ds)"
    have k: "0 < k" "k < length ds" using lpt_bounds [OF n] by (auto simp: k_def)
    show ?thesis
    proof (cases "m \<le> k")
      case True
      from less.hyps [of "take k ds" m] True k less.prems obtain x p where
        p: "subproof m (map hex (take k ds)) False = Inr (x # p)"
          "\<And>r. cons_run stop m k (x, x) (p @ r) = Inr ((hex (mth (take m ds)), hex (mth (take k ds))), r)"
        by (auto simp: min_absorb1)
      show ?thesis
        using p subproof_split_left [OF True k_def n False, of False]
        by (auto simp: finish_step_def mth_split [OF n k_def] cons_run_split_left [OF True k_def n False])
    next
      case right: False
      have "length (drop k ds) < length ds" "0 < m - k" "m - k \<le> length (drop k ds)"
        using right k less.prems by auto
      from less.hyps [OF this] obtain x p where
        p: "subproof (m - k) (map hex (drop k ds)) False = Inr (x # p)"
          "\<And>r. cons_run stop (m - k) (length ds - k) (x, x) (p @ r) =
             Inr ((hex (mth (take (m - k) (drop k ds))), hex (mth (drop k ds))), r)"
        by auto
      have km: "k < m" using right by simp
      show ?thesis
        using p subproof_split_right [OF km k_def n False, of False]
        by (auto simp: finish_step_def mth_split [OF n k_def] cons_run_split_right [OF km k_def n False]
            mth_take_old [OF n k_def km less.prems(2)])
    qed
  qed
qed

lemma subproof_from_old_root:
  "m = 2 ^ t \<Longrightarrow> m \<le> length ds \<Longrightarrow> x = hex (mth (take m ds)) \<Longrightarrow>
   \<exists>p. subproof m (map hex ds) True = Inr p \<and>
     (\<forall>r. cons_run stop m (length ds) (x, x) (p @ r) = Inr ((x, hex (mth ds)), r))"
proof (induction "length ds" arbitrary: ds rule: less_induct)
  case less
  show ?case
  proof (cases "m = length ds")
    case True
    with less.prems show ?thesis by (simp add: subproof.simps descend_cons.simps)
  next
    case False
    have "0 < m" using less.prems by simp
    then have n: "1 < length ds" using less.prems False by linarith
    define k where "k = largest_power_of_two_below (length ds)"
    obtain j where j: "k = 2 ^ j" using lpt_bounds(4) [OF n] by (auto simp: k_def)
    have k: "0 < k" "k < length ds" "length ds \<le> 2 * k" using lpt_bounds [OF n] by (auto simp: k_def)
    have mk: "m \<le> k"
    proof (rule ccontr)
      assume "\<not> m \<le> k"
      then have "2 ^ j < (2::nat) ^ t" using less.prems j by simp
      then have "j < t" by (rule power_less_imp_less_exp [rotated]) simp
      then have "Suc j \<le> t" by simp
      then have "(2::nat) ^ Suc j \<le> 2 ^ t" by (rule power_increasing) simp
      then show False using less.prems j k False by simp
    qed
    from less.hyps [of "take k ds"] mk k less.prems obtain p where
      p: "subproof m (map hex (take k ds)) True = Inr p"
        "\<And>r. cons_run stop m k (x, x) (p @ r) = Inr ((x, hex (mth (take k ds))), r)"
      by (auto simp: min_absorb1)
    show ?thesis
      using p subproof_split_left [OF mk k_def n False, of True]
      by (auto simp: finish_step_def mth_split [OF n k_def] cons_run_split_left [OF mk k_def n False])
  qed
qed

lemma subproof_not_pow2:
  "\<nexists>t. m = 2 ^ t \<Longrightarrow> m < length ds \<or> m = length ds \<and> False \<Longrightarrow> 0 < m \<Longrightarrow>
   subproof m (map hex ds) True = subproof m (map hex ds) False"
proof (induction "length ds" arbitrary: ds rule: less_induct)
  case less
  then have n: "1 < length ds" and ne: "m \<noteq> length ds" by auto
  define k where "k = largest_power_of_two_below (length ds)"
  obtain j where j: "k = 2 ^ j" using lpt_bounds(4) [OF n] by (auto simp: k_def)
  have k: "0 < k" "k < length ds" using lpt_bounds [OF n] by (auto simp: k_def)
  show ?case
  proof (cases "m \<le> k")
    case True
    then have "m < k" using less.prems(1) j by (metis le_neq_implies_less)
    with less.hyps [of "take k ds"] k less.prems
      subproof_split_left [OF True k_def n ne]
    show ?thesis by (simp add: min_absorb1)
  next
    case False
    then have "k < m" by simp
    from subproof_split_right [OF this k_def n ne] show ?thesis by simp
  qed
qed

lemma verify_consistency_complete_aux:
  assumes "0 < m" "m \<le> n" "n \<le> length ds"
  shows "\<exists>p. consistency_proof (int m) (int n) (map hex ds) = Inr p \<and>
    verify_consistency_proof (int m) (int n) (hex (mth (take m ds))) (hex (mth (take n ds))) p = Inr True"
proof (cases "m = n")
  case True
  with assms show ?thesis by (simp add: consistency_proof_def verify_consistency_proof_def)
next
  case False
  define es where "es = take n ds"
  have es: "length es = n" "take m es = take m ds" "take n (map hex ds) = map hex es"
    using assms by (simp_all add: es_def min_absorb1 take_map)
  have nat: "nat (int q - 1) = q - 1" for q by simp
  have proof_eq: "consistency_proof (int m) (int n) (map hex ds) = subproof m (map hex es) True"
    using assms False es by (simp add: consistency_proof_def)
  have run: "consistency_loop (fst (strip_ones (m - 1) (n - 1))) (snd (strip_ones (m - 1) (n - 1))) x x path
      = cons_run (Inr False) m n (x, x) path" for x path
    using climb_descend_cons [of m n 0 cons_left cons_right "Inr False" "(x, x)" path] assms False
    by (simp add: climb_cons_def consistency_loop_climb split: prod.splits)
  show ?thesis
  proof (cases "\<exists>t. m = 2 ^ t")
    case True
    then obtain t where t: "m = 2 ^ t" by blast
    obtain p where p: "subproof m (map hex es) True = Inr p"
      "\<And>r. cons_run (Inr False) m n (hex (mth (take m ds)), hex (mth (take m ds))) (p @ r)
         = Inr ((hex (mth (take m ds)), hex (mth es)), r)"
      using subproof_from_old_root [OF t, of es "hex (mth (take m es))" "Inr False"] assms es by auto
    have "verify_consistency_proof (int m) (int n) (hex (mth (take m ds))) (hex (mth (take n ds))) p = Inr True"
      using True assms False run [of "hex (mth (take m ds))" p] p(2) [of "[]"]
      by (simp add: verify_consistency_proof_def is_power_of_two_iff nat es_def split_beta)
    with proof_eq p(1) show ?thesis by simp
  next
    case pow: False
    obtain x p where p: "subproof m (map hex es) False = Inr (x # p)"
      "\<And>r. cons_run (Inr False) m n (x, x) (p @ r) = Inr ((hex (mth (take m ds)), hex (mth es)), r)"
      using subproof_seeded [of m es "Inr False"] assms es by auto
    have "subproof m (map hex es) True = Inr (x # p)"
      using subproof_not_pow2 [OF pow, of es] p(1) assms False es by simp
    moreover have "verify_consistency_proof (int m) (int n) (hex (mth (take m ds))) (hex (mth (take n ds))) (x # p)
        = Inr True"
      using pow assms False run [of x p] p(2) [of "[]"]
      by (simp add: verify_consistency_proof_def is_power_of_two_iff nat es_def split_beta)
    ultimately show ?thesis using proof_eq by simp
  qed
qed

section \<open>Soundness\<close>

text \<open>Two lists of digests of the same length with the same tree hash are the same list.\<close>

lemma mth_inj:
  "length es = length ds \<Longrightarrow> digests es \<Longrightarrow> digests ds \<Longrightarrow> mth es = mth ds \<Longrightarrow>
   set (mth_inputs es) \<union> set (mth_inputs ds) \<subseteq> A \<Longrightarrow> es = ds \<or> collision_in A"
proof (induction "length ds" arbitrary: es ds rule: less_induct)
  case less
  consider "length ds = 0" | "length ds = 1" | "1 < length ds" by linarith
  then show ?case
  proof cases
    case 1
    with less.prems(1) show ?thesis by simp
  next
    case 2
    with less.prems(1,4) show ?thesis by (auto simp: mth_one length_Suc_conv)
  next
    case n: 3
    then have n': "1 < length es" using less.prems(1) by simp
    define k where "k = largest_power_of_two_below (length ds)"
    have k': "k = largest_power_of_two_below (length es)" using less.prems(1) by (simp add: k_def)
    have k: "0 < k" "k < length ds" using lpt_bounds [OF n] by (auto simp: k_def)
    have "node_input (mth (take k es)) (mth (drop k es)) \<in> A"
      "node_input (mth (take k ds)) (mth (drop k ds)) \<in> A"
      using less.prems(5) mth_inputs_split [OF n k_def] mth_inputs_split [OF n' k'] by auto
    then have "mth (take k es) = mth (take k ds) \<and> mth (drop k es) = mth (drop k ds) \<or> collision_in A"
      using less.prems by (intro sibling_unique)
        (simp_all add: length_mth flip: mth_split [OF n k_def] mth_split [OF n' k'])
    moreover have "take k es = take k ds \<or> collision_in A" if "mth (take k es) = mth (take k ds)"
      using less.hyps [of "take k ds" "take k es"] that k less.prems
        mth_inputs_split [OF n k_def] mth_inputs_split [OF n' k'] by auto
    moreover have "drop k es = drop k ds \<or> collision_in A" if "mth (drop k es) = mth (drop k ds)"
      using less.hyps [of "drop k ds" "drop k es"] that k less.prems
        mth_inputs_split [OF n k_def] mth_inputs_split [OF n' k'] by auto
    ultimately show ?thesis by (metis append_take_drop_id)
  qed
qed

definition logged_cons_left ::
    "string \<Rightarrow> (string \<times> string) \<times> bytes list \<Rightarrow> ((string \<times> string) \<times> bytes list) early" where
  "logged_cons_left c = (\<lambda>((fr, sr), log). rbind (cons_left c (fr, sr))
     (\<lambda>s'. Inr (s', node_input (unhex c) (unhex fr) # node_input (unhex c) (unhex sr) # log)))"

definition logged_cons_right ::
    "string \<Rightarrow> (string \<times> string) \<times> bytes list \<Rightarrow> ((string \<times> string) \<times> bytes list) early" where
  "logged_cons_right c = (\<lambda>((fr, sr), log). rbind (cons_right c (fr, sr))
     (\<lambda>s'. Inr (s', node_input (unhex sr) (unhex c) # log)))"

definition replay_inputs :: "nat \<Rightarrow> nat \<Rightarrow> string \<Rightarrow> string list \<Rightarrow> bytes list" where
  "replay_inputs m n x rest =
     (case climb_cons logged_cons_left logged_cons_right (Inr False) m n ((x, x), []) rest of
        Inl _ \<Rightarrow> [] | Inr ((_, log), _) \<Rightarrow> log)"

text \<open>The inputs of one run of \<open>verify_consistency_proof\<close>.\<close>

definition consistency_inputs :: "nat \<Rightarrow> nat \<Rightarrow> string \<Rightarrow> string list \<Rightarrow> bytes list" where
  "consistency_inputs m n first_root path =
     (case (if is_power_of_two (int m) then first_root # path else path) of
        [] \<Rightarrow> [] | x # rest \<Rightarrow> replay_inputs m n x rest)"

lemma climb_cons_logged:
  "climb cons_left cons_right stop fn sn (x, y) path =
     rbind (climb logged_cons_left logged_cons_right stop fn sn ((x, y), log) path)
       (\<lambda>(s, rest). Inr (fst s, rest))"
proof -
  have "climb cons_left cons_right stop fn sn (fst s) path =
      rbind (climb logged_cons_left logged_cons_right stop fn sn s path) (\<lambda>(s, rest). Inr (fst s, rest))"
    for s :: "(string \<times> string) \<times> bytes list"
    by (rule climb_map)
      (simp_all add: logged_cons_left_def logged_cons_right_def rbind_assoc split: prod.splits)
  from this [of "((x, y), log)"] show ?thesis by simp
qed

lemma finish_cons_right_InrD:
  assumes "rbind r (finish_step stop logged_cons_right) = Inr (((f, s), log), rest)"
  obtains s' log' c where "r = Inr (((f, s'), log'), c # rest)"
    "fromhex c = Inr (unhex c)" "fromhex s' = Inr (unhex s')"
    "s = hex (sha256 (node_input (unhex s') (unhex c)))" "log = node_input (unhex s') (unhex c) # log'"
  using finish_step_InrD [OF assms]
  by (auto simp: logged_cons_right_def cons_right_def rbind_Inr_iff
      dest!: try_early_InrD node_hash_InrD)

lemma finish_cons_left_InrD:
  assumes "rbind r (finish_step stop logged_cons_left) = Inr (((f, s), log), rest)"
  obtains f' s' log' c where "r = Inr (((f', s'), log'), c # rest)"
    "fromhex c = Inr (unhex c)" "fromhex f' = Inr (unhex f')" "fromhex s' = Inr (unhex s')"
    "f = hex (sha256 (node_input (unhex c) (unhex f')))"
    "s = hex (sha256 (node_input (unhex c) (unhex s')))"
    "log = node_input (unhex c) (unhex f') # node_input (unhex c) (unhex s') # log'"
  using finish_step_InrD [OF assms]
  by (auto simp: logged_cons_left_def cons_left_def rbind_Inr_iff
      dest!: try_early_InrD node_hash_InrD)

lemma cons_run_second_digest:
  assumes "descend_cons logged_cons_left logged_cons_right stop m n ((x, x), log0) path
      = Inr (((f, s), log), rest)"
  shows "(m = n \<or> n \<le> 1) \<and> s = f \<or> length (unhex s) = 32"
proof (cases "m = n \<or> n \<le> 1")
  case True
  with assms show ?thesis by (auto simp: descend_cons.simps)
next
  case False
  with assms show ?thesis
    by (subst (asm) descend_cons.simps)
      (auto simp: Let_def elim!: finish_cons_left_InrD finish_cons_right_InrD split: if_splits)
qed

lemma cons_run_sound:
  assumes "descend_cons logged_cons_left logged_cons_right stop m (length ds) ((x, x), log0) path
      = Inr (((f, s), log), rest)"
    and "0 < m" "m < length ds \<or> m = length ds \<and> length ds = 2 ^ t"
    and "length es = m" "digests es" "digests ds"
    and "fromhex f = Inr (mth es)" "fromhex s = Inr (mth ds)"
    and "set log \<union> set (mth_inputs es) \<union> set (mth_inputs ds) \<subseteq> A"
  shows "es = take m ds \<or> collision_in A"
  using assms
proof (induction "length ds" arbitrary: m ds es f s log rest t rule: less_induct)
  case less
  note prems = less.prems
  show ?case
  proof (cases "m = length ds")
    case True
    with prems show ?thesis using mth_inj [of es ds A] by (auto simp: descend_cons.simps)
  next
    case False
    then have mn: "m < length ds" and n: "1 < length ds" using prems by auto
    define k where "k = largest_power_of_two_below (length ds)"
    obtain j where j: "k = 2 ^ j" using lpt_bounds(4) [OF n] by (auto simp: k_def)
    have k: "0 < k" "k < length ds" using lpt_bounds [OF n] by (auto simp: k_def)
    have root: "mth ds = sha256 (node_input (mth (take k ds)) (mth (drop k ds)))"
      using mth_split [OF n k_def] .
    have inputs: "node_input (mth (take k ds)) (mth (drop k ds)) \<in> A"
      "set (mth_inputs (take k ds)) \<subseteq> A" "set (mth_inputs (drop k ds)) \<subseteq> A"
      using prems(9) mth_inputs_split [OF n k_def] by auto
    have lens: "length (mth (take k ds)) = 32" "length (mth (drop k ds)) = 32" "length (mth es) = 32"
      using prems(5,6) by (simp_all add: length_mth)
    show ?thesis
    proof (cases "m \<le> k")
      case True
      from prems(1) obtain s' log' c where sub:
        "descend_cons logged_cons_left logged_cons_right stop m k ((x, x), log0) path = Inr (((f, s'), log'), c # rest)"
        "fromhex s' = Inr (unhex s')" "s = hex (sha256 (node_input (unhex s') (unhex c)))"
        "log = node_input (unhex s') (unhex c) # log'"
        unfolding cons_run_split_left [OF True k_def n False] by (rule finish_cons_right_InrD)
      have "length (unhex s') = 32"
        using cons_run_second_digest [OF sub(1)] sub(2) prems(7) lens(3) by auto
      then have "unhex s' = mth (take k ds) \<or> collision_in A"
        using sibling_unique [of "unhex s'" "unhex c" "mth (take k ds)" "mth (drop k ds)" A]
          prems(8,9) sub(3,4) root inputs(1) lens by auto
      moreover have "es = take m (take k ds) \<or> collision_in A" if "unhex s' = mth (take k ds)"
      proof -
        have "m < k \<or> m = k" using True by auto
        then show ?thesis
          using less.hyps [of "take k ds" m f s' log' "c # rest" j es] that sub prems k j inputs
          by (auto simp: min_absorb1)
      qed
      ultimately show ?thesis using True by (auto simp: min_absorb1)
    next
      case right: False
      then have km: "k < m" by simp
      from prems(1) obtain f' s' log' c where sub:
        "descend_cons logged_cons_left logged_cons_right stop (m - k) (length ds - k) ((x, x), log0) path
           = Inr (((f', s'), log'), c # rest)"
        "fromhex f' = Inr (unhex f')" "fromhex s' = Inr (unhex s')"
        "f = hex (sha256 (node_input (unhex c) (unhex f')))"
        "s = hex (sha256 (node_input (unhex c) (unhex s')))"
        "log = node_input (unhex c) (unhex f') # node_input (unhex c) (unhex s') # log'"
        unfolding cons_run_split_right [OF km k_def n False] by (rule finish_cons_left_InrD)
      have ne: "m - k \<noteq> length ds - k" "\<not> length ds - k \<le> 1" using mn km by auto
      then have "length (unhex s') = 32" using cons_run_second_digest [OF sub(1)] by auto
      then have s: "unhex c = mth (take k ds) \<and> unhex s' = mth (drop k ds) \<or> collision_in A"
        using sibling_unique [of "unhex c" "unhex s'" "mth (take k ds)" "mth (drop k ds)" A]
          prems(8,9) sub(5,6) root inputs(1) lens by auto
      have m: "1 < length es" "k = largest_power_of_two_below (length es)"
        using km k lpt_old [OF n k_def km] mn prems(4) by auto
      have inputs': "node_input (mth (take k es)) (mth (drop k es)) \<in> A"
        "set (mth_inputs (take k es)) \<subseteq> A" "set (mth_inputs (drop k es)) \<subseteq> A"
        using prems(9) mth_inputs_split [OF m] by auto
      have f: "unhex c = mth (take k es) \<and> unhex f' = mth (drop k es) \<or> collision_in A"
        if "unhex c = mth (take k ds)"
        using sibling_unique [of "unhex c" "unhex f'" "mth (take k es)" "mth (drop k es)" A]
          prems(5,7,9) sub(4,6) mth_split [OF m] inputs'(1) that lens by (auto simp: length_mth)
      have left: "take k es = take k ds \<or> collision_in A" if "mth (take k es) = mth (take k ds)"
        using mth_inj [of "take k es" "take k ds" A] that prems inputs inputs' km k by auto
      have right: "drop k es = take (m - k) (drop k ds) \<or> collision_in A"
        if "unhex f' = mth (drop k es)" "unhex s' = mth (drop k ds)"
      proof -
        have "length (drop k ds) < length ds" "m - k < length ds - k" using k km mn by auto
        note lt = this
        from less.hyps [OF lt(1), of "m - k" f' s' log' "c # rest" 0 "drop k es"]
        show ?thesis using that sub prems km lt(2) inputs inputs' by auto
      qed
      have "es = take k es @ drop k es" "take m ds = take k ds @ take (m - k) (drop k ds)"
        using km take_add [of k "m - k" ds] by simp_all
      then show ?thesis using s f left right by metis
    qed
  qed
qed

lemma consistency_loop_not_true: "consistency_loop fn sn fr sr rest \<noteq> Inl (Inr True)"
  unfolding consistency_loop_climb
  by (rule climb_early_not_true)
    (auto simp: cons_left_def cons_right_def rbind_Inl_iff try_early_not_true split: prod.splits)

lemma verify_consistency_sound_aux:
  assumes ver: "verify_consistency_proof (int (length es)) (int (length ds)) (hex (mth es)) (hex (mth ds)) path = Inr True"
    and es: "es \<noteq> []" "digests es" and ds: "digests ds"
  shows "length es \<le> length ds \<and> (es = take (length es) ds \<or>
    collision_in (set (consistency_inputs (length es) (length ds) (hex (mth es)) path)
      \<union> set (mth_inputs es) \<union> set (mth_inputs ds)))"
proof -
  define m n where "m = length es" and "n = length ds"
  have m: "0 < m" "m \<le> n" using ver es by (auto simp: verify_consistency_proof_def m_def n_def split: if_splits)
  show ?thesis
  proof (cases "m = n")
    case True
    then have eq: "length es = length ds" "mth es = mth ds"
      using ver by (simp_all add: verify_consistency_proof_def m_def n_def)
    have "set (mth_inputs es) \<union> set (mth_inputs ds) \<subseteq>
        set (consistency_inputs (length es) (length ds) (hex (mth es)) path) \<union>
        set (mth_inputs es) \<union> set (mth_inputs ds)" by blast
    from mth_inj [OF eq(1) es(2) ds eq(2) this] show ?thesis using eq(1) by auto
  next
    case False
    define path' where "path' = (if is_power_of_two (int m) then hex (mth es) # path else path)"
    obtain x rest where x: "path' = x # rest"
      using ver False m by (cases path')
        (auto simp: verify_consistency_proof_def path'_def m_def n_def split: if_splits prod.splits)
    obtain fn sn where strip: "strip_ones (m - 1) (n - 1) = (fn, sn)" by fastforce
    have "finish_early (rbind (consistency_loop fn sn x x rest)
        (\<lambda>((fr, sr), rest'). Inr (rest' = [] \<and> fr = hex (mth es) \<and> sr = hex (mth ds)))) = Inr True"
      using ver False m strip x
      by (simp add: verify_consistency_proof_def nat_diff_distrib Let_def flip: m_def n_def path'_def)
    then have "rbind (consistency_loop fn sn x x rest)
        (\<lambda>((fr, sr), rest'). Inr (rest' = [] \<and> fr = hex (mth es) \<and> sr = hex (mth ds))) = Inr True"
      by (rule finish_early_TrueD) (auto simp: rbind_Inl_iff consistency_loop_not_true split: prod.splits)
    then have "consistency_loop fn sn x x rest = Inr ((hex (mth es), hex (mth ds)), [])"
      by (auto simp: rbind_Inr_iff split: prod.splits)
    then obtain log where "climb logged_cons_left logged_cons_right (Inr False) fn sn ((x, x), []) rest
        = Inr (((hex (mth es), hex (mth ds)), log), [])"
      by (auto simp: consistency_loop_climb climb_cons_logged [where log = "[]"] rbind_Inr_iff)
    then have run: "climb_cons logged_cons_left logged_cons_right (Inr False) m n ((x, x), []) rest
        = Inr (((hex (mth es), hex (mth ds)), log), [])"
      by (simp add: climb_cons_def strip [simplified])
    then have log: "consistency_inputs m n (hex (mth es)) path = log"
      using x by (simp add: consistency_inputs_def replay_inputs_def flip: path'_def)
    have "descend_cons logged_cons_left logged_cons_right (Inr False) m n ((x, x), []) rest
        = Inr (((hex (mth es), hex (mth ds)), log), [])"
    proof -
      have "m < n" using m(2) False by simp
      with run show ?thesis by (simp add: climb_descend_cons [OF m(1)])
    qed
    then have "es = take m ds \<or>
        collision_in (set log \<union> set (mth_inputs es) \<union> set (mth_inputs ds))"
      unfolding n_def
    proof (rule cons_run_sound [where t = 0])
      show "m < length ds \<or> m = length ds \<and> length ds = 2 ^ 0" using m(2) False n_def by simp
    qed (use m es ds m_def in simp_all)
    then show ?thesis using m(2) log unfolding m_def n_def by blast
  qed
qed

section \<open>Properties\<close>

text \<open>Between any two sizes of one log there is a consistency proof, and the client's
  check accepts it for the two roots the log had at those sizes.\<close>

theorem consistency_complete:
  assumes "0 < m" "m \<le> n" "n \<le> length ds"
  shows "\<exists>p old new. merkle_tree_hash (map hex (take m ds)) = Inr old \<and>
    merkle_tree_hash (map hex (take n ds)) = Inr new \<and>
    consistency_proof (int m) (int n) (map hex ds) = Inr p \<and>
    verify_consistency_proof (int m) (int n) old new p = Inr True"
  using verify_consistency_complete_aux [OF assms] by (auto simp: merkle_tree_hash_hex)

theorem consistency_complete_witness:
  "\<exists>p old new. merkle_tree_hash (map hex (take 2 [[1], [2], [3], [4::byte]])) = Inr old \<and>
    merkle_tree_hash (map hex (take 3 [[1], [2], [3], [4::byte]])) = Inr new \<and>
    consistency_proof (int 2) (int 3) (map hex [[1], [2], [3], [4::byte]]) = Inr p \<and>
    verify_consistency_proof (int 2) (int 3) old new p = Inr True"
  by (rule consistency_complete) simp_all

text \<open>C5: an accepted consistency proof binds: the older log is a prefix of the newer one, unless
  two of the inputs hashed by the check or by the two logs collide.\<close>

theorem consistency_sound:
  assumes "verify_consistency_proof (int (length es)) (int (length ds)) old new path = Inr True"
    and "merkle_tree_hash (map hex es) = Inr old" and "merkle_tree_hash (map hex ds) = Inr new"
    and "es \<noteq> []" and "digests es" and "digests ds"
  shows "length es \<le> length ds \<and> (es = take (length es) ds \<or>
    collision_in (set (consistency_inputs (length es) (length ds) old path)
      \<union> set (mth_inputs es) \<union> set (mth_inputs ds)))"
proof -
  have "old = hex (mth es)" "new = hex (mth ds)" using assms(2,3) by (simp_all add: merkle_tree_hash_hex)
  with verify_consistency_sound_aux [of es ds path] assms(1,4,5,6) show ?thesis by simp
qed

theorem consistency_sound_witness:
  "let es = [replicate 32 1]; ds = [replicate 32 1, replicate 32 2]; path = [hex (replicate 32 2)] in
    length es \<le> length ds \<and> (es = take (length es) ds \<or>
    collision_in (set (consistency_inputs (length es) (length ds) (hex (mth es)) path)
      \<union> set (mth_inputs es) \<union> set (mth_inputs ds)))"
  unfolding Let_def
proof (rule consistency_sound)
  let ?ds = "[replicate 32 1, replicate 32 2] :: bytes list"
  show "merkle_tree_hash (map hex [replicate 32 1 :: bytes]) = Inr (hex (mth [replicate 32 1]))"
    by (simp only: merkle_tree_hash_hex)
  show "merkle_tree_hash (map hex ?ds) = Inr (hex (mth ?ds))"
    by (simp only: merkle_tree_hash_hex)
  show "verify_consistency_proof (int (length [replicate 32 (1::byte)])) (int (length ?ds)) (hex (mth [replicate 32 1]))
      (hex (mth ?ds)) [hex (replicate 32 2)] = Inr True"
    by (simp add: verify_consistency_proof_def is_power_of_two_def node_hash_def try_early_def finish_early_def
        mth.simps [of ?ds] strip_ones.simps
        mth_one largest_power_of_two_below_def pow2_loop.simps node_input_def sha256_hex_def
        del: replicate.simps)
qed (simp_all add: digests_def)

end
