(* ===== verification/Ledger.thy ===== *)
theory Ledger
  imports Sha256 "HOL-Library.Multiset"
begin

text \<open>
  \<open>contracts/crypto_shim.py\<close>: the tenant-ledger tree (odd nodes promoted, hex strings
  concatenated as text), the ledger hash chain and the salted commitments. Ed25519 signing is
  not here: it is third-party code, see theory Attest.
\<close>

section \<open>The code\<close>

record commitment =
  stable_id :: string
  entry_hash_of :: string
  prev_hash :: "string option"
  entry_commit :: string
  field_commits :: "(string \<times> string) list"
  seq :: int

record merkle_proof =
  mp_leaf_hash :: string
  mp_root_hash :: string
  mp_path :: "(string \<times> bool) list"

definition pair_hash :: "string \<Rightarrow> string \<Rightarrow> string" where
  "pair_hash a b = sha256_hex (utf8 (a @ b))"

text \<open>One pass of the \<open>for i in range(0, len(level), 2)\<close> loop.\<close>

fun root_pass :: "string list \<Rightarrow> string list" where
  "root_pass (a # b # level) = pair_hash a b # root_pass level"
| "root_pass level = level"

lemma length_root_pass [simp]: "length (root_pass level) = (length level + 1) div 2"
  by (induction level rule: root_pass.induct) simp_all

function root_loop :: "string list \<Rightarrow> string res" where
  "root_loop level =
     (if 1 < length level then root_loop (root_pass level)
      else case level of [] \<Rightarrow> Inl IndexError | x # _ \<Rightarrow> Inr x)"
  by pat_completeness auto
termination
  by (relation "measure length") auto

definition merkle_root :: "string list \<Rightarrow> string res" where
  "merkle_root leaf_hashes = (if leaf_hashes = [] then Inr [] else root_loop leaf_hashes)"

text \<open>
  One pass of the proof loop: the rest of the level, its first index \<open>i\<close>, the tracked index,
  the next level and the path so far.
\<close>

fun proof_pass :: "string list \<Rightarrow> nat \<Rightarrow> nat \<Rightarrow> string list \<Rightarrow> (string \<times> bool) list
    \<Rightarrow> string list \<times> nat \<times> (string \<times> bool) list" where
  "proof_pass (a # b # level) i idx nxt path =
     (let parent = pair_hash a b in
      if i = idx \<or> i + 1 = idx then
        let sib_right = (idx = i); sib = (if sib_right then b else a)
        in proof_pass level (i + 2) (length nxt) (nxt @ [parent]) (path @ [(sib, sib_right)])
      else proof_pass level (i + 2) idx (nxt @ [parent]) path)"
| "proof_pass [a] i idx nxt path =
     (nxt @ [a], if i = idx then length nxt else idx, path)"
| "proof_pass [] i idx nxt path = (nxt, idx, path)"

lemma proof_pass_level: "fst (proof_pass level i idx nxt path) = nxt @ root_pass level"
  by (induction level i idx nxt path rule: proof_pass.induct) (simp_all add: Let_def)

function proof_loop :: "string list \<Rightarrow> nat \<Rightarrow> (string \<times> bool) list \<Rightarrow> (string \<times> (string \<times> bool) list) res" where
  "proof_loop level idx path =
     (if 1 < length level then
        let r = proof_pass level 0 idx [] path in proof_loop (fst r) (fst (snd r)) (snd (snd r))
      else case level of [] \<Rightarrow> Inl IndexError | x # _ \<Rightarrow> Inr (x, path))"
  by pat_completeness auto
termination
  by (relation "measure (length \<circ> fst)") (auto simp: proof_pass_level)

declare root_loop.simps [simp del] proof_loop.simps [simp del]

definition merkle_proof_for :: "string list \<Rightarrow> int \<Rightarrow> merkle_proof res" where
  "merkle_proof_for leaf_hashes index =
     (if leaf_hashes = [] \<or> \<not> (0 \<le> index \<and> index < int (length leaf_hashes)) then Inl IndexError
      else rbind (proof_loop leaf_hashes (nat index) []) (\<lambda>(root, path).
        Inr \<lparr>mp_leaf_hash = leaf_hashes ! nat index, mp_root_hash = root, mp_path = path\<rparr>))"

fun replay_path :: "string \<Rightarrow> (string \<times> bool) list \<Rightarrow> string" where
  "replay_path acc [] = acc"
| "replay_path acc ((sib, sib_right) # path) =
     replay_path (if sib_right then pair_hash acc sib else pair_hash sib acc) path"

definition verify_merkle_proof :: "merkle_proof \<Rightarrow> bool" where
  "verify_merkle_proof p \<longleftrightarrow> replay_path (mp_leaf_hash p) (mp_path p) = mp_root_hash p"

fun chain_from :: "string option \<Rightarrow> commitment list \<Rightarrow> bool" where
  "chain_from prev [] = True"
| "chain_from prev (c # cs) = (prev_hash c = prev \<and> chain_from (Some (entry_hash_of c)) cs)"

definition verify_chain :: "commitment list \<Rightarrow> bool" where
  "verify_chain commitments = chain_from None (sort_key seq commitments)"

definition commit :: "bytes \<Rightarrow> bytes \<Rightarrow> string" where
  "commit plaintext salt = sha256_hex (salt @ 0x00 # plaintext)"

text \<open>\<open>hmac.compare_digest\<close> of two strings raises \<open>TypeError\<close> unless both are ASCII.\<close>

definition verify_commitment :: "bytes \<Rightarrow> bytes \<Rightarrow> string \<Rightarrow> bool res" where
  "verify_commitment plaintext salt c =
     (if list_all (\<lambda>x. (of_char x :: nat) < 128) c then Inr (commit plaintext salt = c) else Inl TypeError)"

section \<open>Completeness of ledger proofs\<close>

text \<open>After the tracked index is passed, the pass only builds the next level.\<close>

lemma proof_pass_after:
  "idx < i \<Longrightarrow> proof_pass level i idx nxt path = (nxt @ root_pass level, idx, path)"
  by (induction level i idx nxt path rule: proof_pass.induct) (simp_all add: Let_def)

lemma proof_pass_tracks:
  "i \<le> idx \<Longrightarrow> idx < i + length level \<Longrightarrow> i = 2 * length nxt \<Longrightarrow>
   \<exists>step. proof_pass level i idx nxt path = (nxt @ root_pass level, idx div 2, path @ step) \<and>
     replay_path (level ! (idx - i)) step = root_pass level ! (idx div 2 - length nxt)"
proof (induction level i idx nxt path rule: proof_pass.induct)
  case (1 a b level i idx nxt path)
  show ?case
  proof (cases "i = idx \<or> i + 1 = idx")
    case True
    then have half: "idx div 2 = length nxt" using 1(5) by auto
    have "length nxt < i + 2" using 1(5) by simp
    from proof_pass_after [OF this] True half show ?thesis by (auto simp: Let_def)
  next
    case False
    with 1 obtain step where
      "proof_pass level (i + 2) idx (nxt @ [pair_hash a b]) path =
        ((nxt @ [pair_hash a b]) @ root_pass level, idx div 2, path @ step)"
      "replay_path (level ! (idx - (i + 2))) step = root_pass level ! (idx div 2 - length (nxt @ [pair_hash a b]))"
      by (auto simp: Let_def)
    moreover have "idx - i = Suc (Suc (idx - (i + 2)))" "idx div 2 - length nxt = Suc (idx div 2 - Suc (length nxt))"
      using False 1(3,5) by auto
    ultimately show ?thesis using False by (auto simp: Let_def)
  qed
next
  case (2 a i idx nxt path)
  then have "idx = i" "idx div 2 = length nxt" by auto
  then show ?case by (intro exI [of _ "[]"]) simp
next
  case (3 i idx nxt path)
  then show ?case by simp
qed

lemma replay_path_append: "replay_path acc (p @ q) = replay_path (replay_path acc p) q"
  by (induction acc p rule: replay_path.induct) auto

lemma proof_loop_complete:
  "idx < length level \<Longrightarrow> \<exists>root steps. root_loop level = Inr root \<and>
     proof_loop level idx path = Inr (root, path @ steps) \<and> replay_path (level ! idx) steps = root"
proof (induction "length level" arbitrary: level idx path rule: less_induct)
  case less
  show ?case
  proof (cases "1 < length level")
    case False
    with less.prems obtain x where "level = [x]" "idx = 0" by (cases level) auto
    then show ?thesis by (simp add: root_loop.simps proof_loop.simps)
  next
    case True
    obtain step where step: "proof_pass level 0 idx [] path = (root_pass level, idx div 2, path @ step)"
      "replay_path (level ! idx) step = root_pass level ! (idx div 2)"
      using proof_pass_tracks [of 0 idx level "[]" path] less.prems by auto
    have "length (root_pass level) < length level" "idx div 2 < length (root_pass level)"
      using True less.prems by auto
    from less.hyps [OF this, of "path @ step"] obtain root steps where
      "root_loop (root_pass level) = Inr root"
      "proof_loop (root_pass level) (idx div 2) (path @ step) = Inr (root, (path @ step) @ steps)"
      "replay_path (root_pass level ! (idx div 2)) steps = root" by blast
    then have "root_loop level = Inr root \<and> proof_loop level idx path = Inr (root, path @ (step @ steps)) \<and>
        replay_path (level ! idx) (step @ steps) = root"
      using True step by (simp add: root_loop.simps [of level] proof_loop.simps [of level] replay_path_append)
    then show ?thesis by blast
  qed
qed

section \<open>Binding\<close>

definition replay_inputs_of :: "bool \<Rightarrow> string \<Rightarrow> string \<Rightarrow> bytes" where
  "replay_inputs_of sib_right acc sib = utf8 (if sib_right then acc @ sib else sib @ acc)"

fun path_inputs :: "string \<Rightarrow> (string \<times> bool) list \<Rightarrow> bytes list" where
  "path_inputs acc [] = []"
| "path_inputs acc ((sib, sib_right) # path) =
     replay_inputs_of sib_right acc sib #
     path_inputs (if sib_right then pair_hash acc sib else pair_hash sib acc) path"

definition ledger_hashes :: "string list \<Rightarrow> bool" where
  "ledger_hashes hs \<longleftrightarrow> list_all (\<lambda>h. length h = 64) hs"

lemma pair_hash_step:
  "(if d then pair_hash acc sib else pair_hash sib acc) = sha256_hex (replay_inputs_of d acc sib)"
  by (simp add: pair_hash_def replay_inputs_of_def)

lemma sha256_hex_eqD: "sha256_hex x = sha256_hex y \<Longrightarrow> sha256 x = sha256 y"
  by (simp add: sha256_hex_def)

lemma replay_path_binding:
  "replay_path a p = replay_path b q \<Longrightarrow> map snd p = map snd q \<Longrightarrow>
   ledger_hashes (a # map fst p) \<Longrightarrow> ledger_hashes (b # map fst q) \<Longrightarrow>
   set (path_inputs a p) \<union> set (path_inputs b q) \<subseteq> A \<Longrightarrow>
   (a = b \<and> p = q) \<or> collision_in A"
proof (induction a p arbitrary: b q rule: replay_path.induct)
  case (1 acc)
  then show ?case by simp
next
  case (2 acc sib d path)
  then obtain sib' path' where q: "q = (sib', d) # path'" by (cases q) auto
  define x y where "x = replay_inputs_of d acc sib" and "y = replay_inputs_of d b sib'"
  have lens: "length acc = 64" "length sib = 64" "length b = 64" "length sib' = 64"
    using "2.prems" q by (simp_all add: ledger_hashes_def)
  have "sha256_hex x = sha256_hex y \<and> path = path' \<or> collision_in A"
    using "2.IH" [of "sha256_hex y" path'] "2.prems" q
    by (simp add: pair_hash_step ledger_hashes_def flip: x_def y_def)
  moreover have "x = y \<or> collision_in A" if "sha256_hex x = sha256_hex y"
    using sha256_eqD [OF sha256_hex_eqD [OF that], of A] "2.prems"(5) q by (simp add: x_def y_def)
  moreover have "acc = b \<and> sib = sib'" if "x = y"
    using that lens by (auto simp: x_def y_def replay_inputs_of_def simp del: utf8_append split: if_splits)
  ultimately show ?case using q by auto
qed

section \<open>The chain check and the commitments\<close>

lemma sort_key_mset:
  assumes "mset xs = mset ys" "distinct (map f xs)"
  shows "sort_key f xs = sort_key f ys"
  using assms by (intro sort_key_inj_key_eq) (simp_all add: distinct_map)

lemma commit_eq_collision:
  "commit p s = commit q t \<Longrightarrow> length s = length t \<Longrightarrow>
   (p = q \<and> s = t) \<or> collision_in {s @ 0x00 # p, t @ 0x00 # q}"
  using sha256_eqD [OF sha256_hex_eqD, of "s @ 0x00 # p" "t @ 0x00 # q" "{s @ 0x00 # p, t @ 0x00 # q}"]
  by (auto simp: commit_def)

section \<open>Properties\<close>

text \<open>\<open>merkle_proof\<close> of any leaf of a ledger returns a proof for that leaf against the
  ledger's \<open>merkle_root\<close>, and \<open>verify_merkle_proof\<close> accepts it; out of range it raises.\<close>

theorem ledger_proof_complete:
  "(if 0 \<le> i \<and> i < int (length hs) then
      \<exists>p. merkle_proof_for hs i = Inr p \<and> mp_leaf_hash p = hs ! nat i \<and>
        merkle_root hs = Inr (mp_root_hash p) \<and> verify_merkle_proof p
    else merkle_proof_for hs i = Inl IndexError)"
proof (cases "0 \<le> i \<and> i < int (length hs)")
  case True
  then have "nat i < length hs" "hs \<noteq> []" by auto
  with True show ?thesis
    using proof_loop_complete [of "nat i" hs "[]"]
    by (auto simp: merkle_proof_for_def merkle_root_def verify_merkle_proof_def)
qed (auto simp: merkle_proof_for_def)

text \<open>Two accepted ledger proofs of the same shape against one root are about the same leaf
  and have the same path, unless two of the pairs they hash collide.\<close>

theorem ledger_proof_binding:
  assumes "verify_merkle_proof p" "verify_merkle_proof q" "mp_root_hash p = mp_root_hash q"
    and "map snd (mp_path p) = map snd (mp_path q)"
    and "ledger_hashes (mp_leaf_hash p # map fst (mp_path p))"
    and "ledger_hashes (mp_leaf_hash q # map fst (mp_path q))"
  shows "p = q \<or> collision_in (set (path_inputs (mp_leaf_hash p) (mp_path p)) \<union>
    set (path_inputs (mp_leaf_hash q) (mp_path q)))"
proof -
  let ?A = "set (path_inputs (mp_leaf_hash p) (mp_path p)) \<union> set (path_inputs (mp_leaf_hash q) (mp_path q))"
  have "mp_leaf_hash p = mp_leaf_hash q \<and> mp_path p = mp_path q \<or> collision_in ?A"
    using assms by (intro replay_path_binding) (simp_all add: verify_merkle_proof_def)
  then show ?thesis using assms(3) by (auto intro: merkle_proof.equality)
qed

theorem ledger_proof_binding_witness:
  "let h = replicate 64 (CHR ''a''); p = \<lparr>mp_leaf_hash = h, mp_root_hash = pair_hash h h, mp_path = [(h, True)]\<rparr> in
   p = p \<or> collision_in (set (path_inputs (mp_leaf_hash p) (mp_path p)) \<union>
    set (path_inputs (mp_leaf_hash p) (mp_path p)))"
  unfolding Let_def
  by (rule ledger_proof_binding) (simp_all add: verify_merkle_proof_def ledger_hashes_def del: replicate.simps)

text \<open>The chain check does not depend on the order the commitments are given in, as long as
  their sequence numbers differ.\<close>

theorem verify_chain_order_independent:
  "mset cs = mset ds \<Longrightarrow> distinct (map seq cs) \<Longrightarrow> verify_chain cs = verify_chain ds"
  by (simp add: verify_chain_def sort_key_mset [of cs ds seq])

theorem verify_chain_order_independent_witness:
  "let c = \<lambda>n p h. \<lparr>stable_id = ''a'', entry_hash_of = h, prev_hash = p, entry_commit = ''c'',
        field_commits = [], seq = n\<rparr>
   in verify_chain [c 1 (Some ''h'') ''k'', c 0 None ''h''] = verify_chain [c 0 None ''h'', c 1 (Some ''h'') ''k'']"
  unfolding Let_def by (rule verify_chain_order_independent) simp_all

text \<open>A salted commitment opens to one plaintext for salts of one length, up to a collision
  of the two hashed inputs; and \<open>verify_commitment\<close> accepts the opening it was made with.\<close>

theorem commit_binding:
  "verify_commitment p s (commit p s) = Inr True \<and>
   (verify_commitment q t (commit p s) = Inr True \<longrightarrow> length s = length t \<longrightarrow>
     (p = q \<and> s = t) \<or> collision_in {s @ 0x00 # p, t @ 0x00 # q})"
proof -
  have digits: "(of_char x :: nat) < 128" if "x \<in> set (hex bs)" for x bs
    using that by (induction bs) (auto simp: hex_Cons hex_byte_def hex_digit_ascii unat_byte_div unat_byte_mod)
  then have ascii: "list_all (\<lambda>x. (of_char x :: nat) < 128) (commit p s)"
    by (auto simp: commit_def sha256_hex_def list_all_iff)
  show ?thesis
    using commit_eq_collision [of p s q t] ascii by (auto simp: verify_commitment_def)
qed

theorem commit_binding_witness:
  "([2::byte] = [2] \<and> [1::byte] = [1]) \<or> collision_in {[1] @ 0x00 # [2], [1] @ 0x00 # [2]}"
  using commit_binding [of "[2]" "[1]" "[2]" "[1]"] by simp

end
