(* ===== verification/Tsa.thy ===== *)
theory Tsa
  imports Sha256
begin

text \<open>
  \<open>anchoring/tsa.py\<close>: the DER encoder of the RFC 3161 request and the entry point. The HTTP
  round trip is a parameter \<open>post\<close>: the bytes the server answers, \<open>None\<close> for a network failure.
\<close>

section \<open>The code\<close>

fun bit_length :: "nat \<Rightarrow> nat" where
  "bit_length n = (if n = 0 then 0 else Suc (bit_length (n div 2)))"

declare bit_length.simps [simp del]

definition der_length :: "nat \<Rightarrow> bytes" where
  "der_length n =
     (if n < 128 then [of_nat n]
      else let body = big_endian ((bit_length n + 7) div 8) n
           in (128 OR of_nat (length body)) # body)"

definition der :: "byte \<Rightarrow> bytes \<Rightarrow> bytes" where
  "der tag body = tag # der_length (length body) @ body"

text \<open>Only non-negative values are encoded.\<close>

definition der_integer :: "nat \<Rightarrow> bytes" where
  "der_integer n =
     (let raw = big_endian (max 1 ((bit_length n + 7) div 8)) n;
          raw' = (if hd raw AND 0x80 \<noteq> 0 then 0 # raw else raw)
      in der 0x02 raw')"

definition der_octet_string :: "bytes \<Rightarrow> bytes" where
  "der_octet_string v = der 0x04 v"

definition der_null :: bytes where
  "der_null = der 0x05 []"

definition der_sequence :: "bytes list \<Rightarrow> bytes" where
  "der_sequence children = der 0x30 (concat children)"

definition der_boolean_true :: bytes where
  "der_boolean_true = der 0x01 [0xff]"

definition sha256_oid_der :: bytes where
  "sha256_oid_der = [0x06, 0x09, 0x60, 0x86, 0x48, 0x01, 0x65, 0x03, 0x04, 0x02, 0x01]"

definition build_timestamp_request :: "bytes \<Rightarrow> bool \<Rightarrow> bytes res" where
  "build_timestamp_request message_hash request_cert =
     (if length message_hash \<noteq> 32 then Inl ValueError
      else
        let algorithm_identifier = der_sequence [sha256_oid_der, der_null];
            message_imprint = der_sequence [algorithm_identifier, der_octet_string message_hash];
            children = [der_integer 1, message_imprint] @ (if request_cert then [der_boolean_true] else [])
        in Inr (der_sequence children))"

definition post_timestamp_request :: "(bytes \<Rightarrow> bytes option) \<Rightarrow> bytes \<Rightarrow> bytes res" where
  "post_timestamp_request post request_der =
     (case post request_der of
        None \<Rightarrow> Inl TsaError
      | Some body \<Rightarrow> if body = [] then Inl TsaError else Inr body)"

text \<open>\<open>root_hash.encode("ascii")\<close> raises \<open>UnicodeEncodeError\<close>, a \<open>ValueError\<close>.\<close>

definition is_ascii :: "string \<Rightarrow> bool" where
  "is_ascii s \<longleftrightarrow> list_all (\<lambda>c. (of_char c :: nat) < 128) s"

definition timestamp_root_hash :: "(bytes \<Rightarrow> bytes option) \<Rightarrow> string \<Rightarrow> bytes res" where
  "timestamp_root_hash post root_hash =
     (if \<not> is_ascii root_hash then Inl ValueError
      else rbind (build_timestamp_request (sha256 (ascii_bytes root_hash)) True)
        (post_timestamp_request post))"

section \<open>Reading DER back\<close>

text \<open>The reader of one definite-length element: tag, contents and what follows it.\<close>

definition der_read :: "bytes \<Rightarrow> (byte \<times> bytes \<times> bytes) option" where
  "der_read bs = (case bs of tag # l # r \<Rightarrow>
       (if unat l < 128 then
          if unat l \<le> length r then Some (tag, take (unat l) r, drop (unat l) r) else None
        else
          let k = unat l - 128; n = be_value (take k r) in
          if k + n \<le> length r then Some (tag, take n (drop k r), drop (k + n) r) else None)
     | _ \<Rightarrow> None)"

lemma less_bit_length: "n < 2 ^ bit_length n"
proof (induction n rule: bit_length.induct)
  case (1 n)
  then show ?case by (cases "n = 0") (auto simp: bit_length.simps [of n])
qed

lemma byte_width: "n < 256 ^ ((bit_length n + 7) div 8)"
proof -
  have "n < 2 ^ bit_length n" by (rule less_bit_length)
  also have "(2::nat) ^ bit_length n \<le> 2 ^ (8 * ((bit_length n + 7) div 8))"
    by (intro power_increasing) auto
  also have "\<dots> = 256 ^ ((bit_length n + 7) div 8)" by (simp add: power_mult)
  finally show ?thesis .
qed

lemma or_128: "k < 128 \<Longrightarrow> unat ((128::byte) OR of_nat k) = 128 + k"
proof -
  assume "k < 128"
  moreover have "list_all (\<lambda>k. unat ((128::byte) OR of_nat k) = 128 + k) [0..<128]"
    by code_simp
  ultimately show ?thesis by (simp add: list_all_iff)
qed

lemma width_bound: "n < 256 ^ 127 \<Longrightarrow> (bit_length n + 7) div 8 < 128"
proof (rule ccontr)
  assume n: "n < 256 ^ 127" "\<not> (bit_length n + 7) div 8 < 128"
  have low: "0 < m \<Longrightarrow> 2 ^ (bit_length m - 1) \<le> m" for m
  proof (induction m rule: bit_length.induct)
    case (1 m)
    show ?case
    proof (cases "m = 1")
      case False
      with 1 have "2 ^ (bit_length (m div 2) - 1) \<le> m div 2" by simp
      moreover have "0 < bit_length (m div 2)" using 1 False by (simp add: bit_length.simps [of "m div 2"])
      ultimately have "2 ^ bit_length (m div 2) \<le> 2 * (m div 2)"
        by (cases "bit_length (m div 2)") auto
      with 1 show ?thesis by (simp add: bit_length.simps [of m])
    qed (simp add: bit_length.simps)
  qed
  have big: "1016 < bit_length n" using n(2) by arith
  then have "0 < n" by (cases n) (simp_all add: bit_length.simps)
  have "(2::nat) ^ 1016 \<le> 2 ^ (bit_length n - 1)" using big by (intro power_increasing) auto
  also have "\<dots> \<le> n" by (rule low) fact
  finally show False using n(1) by simp
qed

lemma der_read_der [simp]:
  assumes "length body < 256 ^ 127"
  shows "der_read (der tag body @ r) = Some (tag, body, r)"
proof (cases "length body < 128")
  case True
  then show ?thesis by (simp add: der_read_def der_def der_length_def unat_of_nat)
next
  case False
  define k where "k = (bit_length (length body) + 7) div 8"
  have k: "k < 128" "length body < 256 ^ k"
    using assms byte_width [of "length body"] width_bound [of "length body"] by (simp_all add: k_def)
  have "der tag body @ r = tag # ((128 OR of_nat k) # big_endian k (length body)) @ body @ r"
    using False by (simp add: der_def der_length_def flip: k_def)
  then show ?thesis using k
    by (simp add: der_read_def or_128 be_value_big_endian)
qed

section \<open>Properties\<close>

text \<open>Every DER element the encoder emits is read back: its tag, its contents and nothing of
  what follows, for contents up to \<open>256 ^ 127 - 1\<close> bytes, the lengths DER can state.\<close>

theorem der_roundtrip:
  "length body < 256 ^ 127 \<Longrightarrow> der_read (der tag body @ rest) = Some (tag, body, rest)"
  by (rule der_read_der)

theorem der_roundtrip_witness: "der_read (der 4 [1, 2, 3] @ [9]) = Some (4, [1, 2, 3], [9])"
  by (rule der_roundtrip) simp

text \<open>The timestamp request for a root hash is the RFC 3161 encoding of version 1, the SHA-256
  of the ASCII root and \<open>certReq\<close>: fifty-nine bytes, with the digest in octets 25 to 56. A root that is
  not ASCII raises before any request, and not as a \<open>TsaError\<close>.\<close>

theorem timestamp_request_layout:
  "timestamp_root_hash post root_hash =
     (if is_ascii root_hash then
        post_timestamp_request post ([0x30, 0x39, 0x02, 0x01, 0x01, 0x30, 0x31, 0x30, 0x0d] @ sha256_oid_der @
          [0x05, 0x00, 0x04, 0x20] @ sha256 (ascii_bytes root_hash) @ [0x01, 0x01, 0xff])
      else Inl ValueError)"
proof -
  have one: "bit_length (Suc 0) = 1" by (simp add: bit_length.simps)
  show ?thesis
    by (simp add: timestamp_root_hash_def build_timestamp_request_def der_sequence_def der_octet_string_def
        der_null_def der_integer_def der_boolean_true_def der_def der_length_def sha256_oid_der_def Let_def one
        del: sha256_def)
qed

end
