(* ===== verification/Store.thy ===== *)
theory Store
  imports Prelude
begin

text \<open>
  \<open>contracts/types.py\<close> (the persisted models) and \<open>InMemoryLogStore\<close> of
  \<open>anchoring/store.py\<close>: one field per attribute, one function per method. A dict is an
  association list in insertion order. A signed tree head is stored as its JSON text.
\<close>

section \<open>Persisted models\<close>

record sig =
  sig_hex :: string
  sig_key_id :: string
  sig_alg :: string
  created_at :: int

record entry =
  log_index :: int
  logged_at :: int
  kind :: string
  payload_hash :: string
  log_signature :: sig
  prev_log_hash :: "string option"

record croot =
  cr_tenant_id :: string
  cr_root_hash :: string
  cr_seq_range :: "int \<times> int"
  attested_at :: int
  countersignature :: sig

text \<open>The values of the store's plain dicts.\<close>

record witness =
  w_mmr_size :: int
  w_mmr_root :: string
  w_key_id :: string
  w_timestamp :: string

record cp_record =
  cr_root :: string
  cr_prev_size :: int
  cr_prev_root :: string
  cr_key_id :: string
  cr_timestamp :: string
  cr_grade :: "string option"
  cr_entry_hash :: string
  cr_scheme :: string
  cr_leaf_index :: int
  cr_tree_size :: int
  cr_receipt :: bytes
  cr_continuity :: "string option"

record evidence =
  ev_root :: string
  ev_entry_hash :: string
  ev_timestamp :: string

record equivocation =
  eq_mmr_size :: int
  eq_first :: evidence
  eq_conflicting :: evidence

record pl_receipt =
  pl_backend :: string
  pl_tree_size :: int
  pl_root_hash :: string
  pl_sth_timestamp :: string
  pl_uuid :: string
  pl_log_index :: "int option"
  pl_integrated_time :: "string option"
  pl_set :: "string option"
  pl_raw_response :: string
  pl_submitted_at :: string

type_synonym statement = "bytes \<times> int \<times> int"
type_synonym subject_row = "string \<times> string option \<times> string option"

section \<open>\<open>InMemoryLogStore\<close>\<close>

record mem_store =
  m_log :: "entry list"
  m_roots :: "((string \<times> string) \<times> croot) list"
  m_capsule_ids :: "(int \<times> string) list"
  m_statements :: "(string \<times> statement) list"
  m_subject_index :: "(string \<times> subject_row list) list"
  m_witnesses :: "(string \<times> witness) list"
  m_records :: "((string \<times> int) \<times> cp_record) list"
  m_equivocations :: "(string \<times> equivocation list) list"
  m_latest_sth :: "string option"
  m_latest_sth_key :: "(int \<times> int) option"
  m_sth_history :: "(int \<times> string) list"
  m_pl_receipts :: "((string \<times> int \<times> string) \<times> pl_receipt) list"
  m_pl_failures :: "(string \<times> string \<times> string) list"

definition empty_store :: mem_store where
  "empty_store = \<lparr>m_log = [], m_roots = [], m_capsule_ids = [], m_statements = [],
     m_subject_index = [], m_witnesses = [], m_records = [], m_equivocations = [],
     m_latest_sth = None, m_latest_sth_key = None, m_sth_history = [], m_pl_receipts = [],
     m_pl_failures = []\<rparr>"

definition append_entry :: "entry \<Rightarrow> mem_store \<Rightarrow> mem_store" where
  "append_entry e s = s\<lparr>m_log := m_log s @ [e]\<rparr>"

definition all_entries :: "mem_store \<Rightarrow> entry list" where
  "all_entries s = m_log s"

definition entries_after :: "int \<Rightarrow> mem_store \<Rightarrow> entry list" where
  "entries_after after_index s = filter (\<lambda>e. after_index \<le> log_index e) (m_log s)"

definition store_size :: "mem_store \<Rightarrow> int" where
  "store_size s = int (length (m_log s))"

definition put_root :: "croot \<Rightarrow> mem_store \<Rightarrow> mem_store" where
  "put_root r s = s\<lparr>m_roots := dict_set (cr_tenant_id r, cr_root_hash r) r (m_roots s)\<rparr>"

definition get_root :: "string \<Rightarrow> string \<Rightarrow> mem_store \<Rightarrow> croot option" where
  "get_root tenant_id root_hash s = map_of (m_roots s) (tenant_id, root_hash)"

definition put_capsule_id :: "int \<Rightarrow> string \<Rightarrow> mem_store \<Rightarrow> mem_store" where
  "put_capsule_id i capsule_id s = s\<lparr>m_capsule_ids := dict_set i capsule_id (m_capsule_ids s)\<rparr>"

definition get_capsule_id :: "int \<Rightarrow> mem_store \<Rightarrow> string option" where
  "get_capsule_id i s = map_of (m_capsule_ids s) i"

definition entries_for_capsule :: "string \<Rightarrow> mem_store \<Rightarrow> entry list" where
  "entries_for_capsule capsule_id s =
     (let idxs = set (map fst (filter (\<lambda>p. snd p = capsule_id) (m_capsule_ids s)))
      in filter (\<lambda>e. log_index e \<in> idxs) (m_log s))"

definition put_statement :: "string \<Rightarrow> statement \<Rightarrow> mem_store \<Rightarrow> mem_store" where
  "put_statement h st s = s\<lparr>m_statements := dict_set h st (m_statements s)\<rparr>"

definition get_statement :: "string \<Rightarrow> mem_store \<Rightarrow> statement option" where
  "get_statement h s = map_of (m_statements s) h"

text \<open>\<open>self._log[leaf_index]\<close> raises out of range, before anything is deleted.\<close>

definition stale_statements :: "int \<Rightarrow> mem_store \<Rightarrow> string list res" where
  "stale_statements cutoff s = rbind
     (rmap (\<lambda>(h, (_, leaf_index, _)). rbind (py_index (m_log s) leaf_index)
        (\<lambda>e. Inr (if logged_at e < cutoff then [h] else []))) (m_statements s))
     (\<lambda>hs. Inr (concat hs))"

definition prune_statements_older_than :: "int \<Rightarrow> (mem_store, int) op" where
  "prune_statements_older_than cutoff s =
     (case stale_statements cutoff s of
        Inl e \<Rightarrow> (Inl e, s)
      | Inr stale \<Rightarrow> (Inr (int (length stale)),
          s\<lparr>m_statements := foldl (\<lambda>d h. dict_del h d) (m_statements s) stale\<rparr>))"

definition put_subject_index ::
    "string \<Rightarrow> string \<Rightarrow> string option \<Rightarrow> string option \<Rightarrow> mem_store \<Rightarrow> mem_store" where
  "put_subject_index subject h digest form s =
     (let d = dict_setdefault subject [] (m_subject_index s);
          entries = the (map_of d subject)
      in s\<lparr>m_subject_index :=
          (if list_ex (\<lambda>(eh, _, _). eh = h) entries then d
           else dict_set subject (entries @ [(h, digest, form)]) d)\<rparr>)"

definition get_by_subject :: "string \<Rightarrow> mem_store \<Rightarrow> subject_row list" where
  "get_by_subject subject s = (case map_of (m_subject_index s) subject of None \<Rightarrow> [] | Some es \<Rightarrow> es)"

definition put_checkpoint_witness :: "string \<Rightarrow> witness \<Rightarrow> mem_store \<Rightarrow> mem_store" where
  "put_checkpoint_witness log_id w s = s\<lparr>m_witnesses := dict_set log_id w (m_witnesses s)\<rparr>"

definition get_checkpoint_witness :: "string \<Rightarrow> mem_store \<Rightarrow> witness option" where
  "get_checkpoint_witness log_id s = map_of (m_witnesses s) log_id"

definition evidence_of :: "cp_record \<Rightarrow> evidence" where
  "evidence_of r = \<lparr>ev_root = cr_root r, ev_entry_hash = cr_entry_hash r, ev_timestamp = cr_timestamp r\<rparr>"

text \<open>The result tells whether the submission was an equivocation.\<close>

definition put_checkpoint_record :: "string \<Rightarrow> int \<Rightarrow> cp_record \<Rightarrow> mem_store \<Rightarrow> bool \<times> mem_store" where
  "put_checkpoint_record log_id mmr_size r s =
     (case map_of (m_records s) (log_id, mmr_size) of
        None \<Rightarrow> (False, s\<lparr>m_records := dict_set (log_id, mmr_size) r (m_records s)\<rparr>)
      | Some existing \<Rightarrow>
          if cr_root existing = cr_root r then (False, s)
          else
            let d = dict_setdefault log_id [] (m_equivocations s);
                ev = \<lparr>eq_mmr_size = mmr_size, eq_first = evidence_of existing,
                      eq_conflicting = evidence_of r\<rparr>
            in (True, s\<lparr>m_equivocations := dict_set log_id (the (map_of d log_id) @ [ev]) d\<rparr>))"

definition get_checkpoint_record :: "string \<Rightarrow> int \<Rightarrow> mem_store \<Rightarrow> (int \<times> cp_record) option" where
  "get_checkpoint_record log_id mmr_size s =
     (case map_of (m_records s) (log_id, mmr_size) of None \<Rightarrow> None | Some r \<Rightarrow> Some (mmr_size, r))"

definition get_last_checkpoint_record :: "string \<Rightarrow> mem_store \<Rightarrow> (int \<times> cp_record) option" where
  "get_last_checkpoint_record log_id s =
     max_by fst (map (\<lambda>((_, sz), r). (sz, r)) (filter (\<lambda>((lid, _), _). lid = log_id) (m_records s)))"

definition get_checkpoint_equivocations :: "string \<Rightarrow> mem_store \<Rightarrow> equivocation list" where
  "get_checkpoint_equivocations log_id s =
     (case map_of (m_equivocations s) log_id of None \<Rightarrow> [] | Some es \<Rightarrow> es)"

text \<open>Python's comparison of two \<open>(tree_size, timestamp)\<close> tuples.\<close>

definition sth_key_le :: "int \<times> int \<Rightarrow> int \<times> int \<Rightarrow> bool" where
  "sth_key_le a b \<longleftrightarrow> fst a < fst b \<or> (fst a = fst b \<and> snd a \<le> snd b)"

definition put_sth :: "string \<Rightarrow> int \<Rightarrow> int \<Rightarrow> mem_store \<Rightarrow> mem_store" where
  "put_sth sth_json tree_size timestamp s =
     (let key = (tree_size, timestamp);
          s = s\<lparr>m_sth_history := dict_setdefault tree_size sth_json (m_sth_history s)\<rparr>
      in if (case m_latest_sth_key s of None \<Rightarrow> False | Some k \<Rightarrow> sth_key_le key k) then s
         else s\<lparr>m_latest_sth := Some sth_json, m_latest_sth_key := Some key\<rparr>)"

definition get_latest_sth :: "mem_store \<Rightarrow> string option" where
  "get_latest_sth s = m_latest_sth s"

definition store_sth_at :: "int \<Rightarrow> mem_store \<Rightarrow> string option" where
  "store_sth_at tree_size s = map_of (m_sth_history s) tree_size"

definition pl_key :: "pl_receipt \<Rightarrow> string \<times> int \<times> string" where
  "pl_key r = (pl_backend r, pl_tree_size r, pl_root_hash r)"

definition put_public_log_receipt :: "pl_receipt \<Rightarrow> mem_store \<Rightarrow> bool \<times> mem_store" where
  "put_public_log_receipt r s =
     (if map_of (m_pl_receipts s) (pl_key r) \<noteq> None then (False, s)
      else (True, s\<lparr>m_pl_receipts := dict_set (pl_key r) r (m_pl_receipts s)\<rparr>))"

definition get_public_log_receipt :: "string \<Rightarrow> int \<Rightarrow> string \<Rightarrow> mem_store \<Rightarrow> pl_receipt option" where
  "get_public_log_receipt backend tree_size root_hash s =
     map_of (m_pl_receipts s) (backend, tree_size, root_hash)"

definition get_latest_public_log_receipt :: "string \<Rightarrow> mem_store \<Rightarrow> pl_receipt option" where
  "get_latest_public_log_receipt backend s =
     max_by pl_tree_size (filter (\<lambda>r. pl_backend r = backend) (map snd (m_pl_receipts s)))"

definition get_public_log_receipts_since :: "string \<Rightarrow> int \<Rightarrow> mem_store \<Rightarrow> pl_receipt list" where
  "get_public_log_receipts_since backend since s =
     sort_key pl_tree_size
       (filter (\<lambda>r. pl_backend r = backend \<and> since < pl_tree_size r) (map snd (m_pl_receipts s)))"

definition get_public_log_receipt_covering :: "string \<Rightarrow> int \<Rightarrow> mem_store \<Rightarrow> pl_receipt option" where
  "get_public_log_receipt_covering backend min_size s =
     min_by pl_tree_size
       (filter (\<lambda>r. pl_backend r = backend \<and> min_size \<le> pl_tree_size r) (map snd (m_pl_receipts s)))"

definition put_public_log_failure :: "string \<Rightarrow> string \<Rightarrow> string \<Rightarrow> mem_store \<Rightarrow> mem_store" where
  "put_public_log_failure backend occurred_at error s =
     s\<lparr>m_pl_failures := m_pl_failures s @ [(backend, occurred_at, error)]\<rparr>"

section \<open>What pruning does\<close>

lemma fold_dict_del: "foldl (\<lambda>d h. dict_del h d) d hs = filter (\<lambda>p. fst p \<notin> set hs) d"
  by (induction hs arbitrary: d) (simp_all add: dict_del_def conj_commute)

definition expired :: "int \<Rightarrow> mem_store \<Rightarrow> string \<times> statement \<Rightarrow> bool" where
  "expired cutoff s p = (case p of (h, _, i, _) \<Rightarrow> logged_at (m_log s ! nat i) < cutoff)"

lemma prune_eval:
  assumes "distinct (map fst (m_statements s))"
    and "\<forall>(h, rc, i, n) \<in> set (m_statements s). 0 \<le> i \<and> i < int (length (m_log s))"
  shows "prune_statements_older_than c s =
    (Inr (int (length (filter (expired c s) (m_statements s)))),
     s\<lparr>m_statements := filter (\<lambda>p. \<not> expired c s p) (m_statements s)\<rparr>)"
proof -
  have "(case p of (h, (_, i, _)) \<Rightarrow> rbind (py_index (m_log s) i)
      (\<lambda>e. Inr (if logged_at e < c then [h] else []))) = Inr (if expired c s p then [fst p] else [])"
    if "p \<in> set (m_statements s)" for p
    using assms(2) that by (cases p) (force simp: py_index_def expired_def)
  then have "stale_statements c s = Inr (concat (map (\<lambda>p. if expired c s p then [fst p] else []) (m_statements s)))"
    by (simp add: stale_statements_def rmap_Inr)
  moreover have "concat (map (\<lambda>p. if expired c s p then [fst p] else []) d) = map fst (filter (expired c s) d)" for d
    by (induction d) auto
  ultimately have stale: "stale_statements c s = Inr (map fst (filter (expired c s) (m_statements s)))" by simp
  have "fst p \<in> set (map fst (filter (expired c s) (m_statements s))) \<longleftrightarrow> expired c s p"
    if "p \<in> set (m_statements s)" for p
    using that assms(1) by (auto simp: distinct_map inj_on_def)
  then have "filter (\<lambda>p. fst p \<notin> set (map fst (filter (expired c s) (m_statements s)))) (m_statements s) =
      filter (\<lambda>p. \<not> expired c s p) (m_statements s)"
    by (intro filter_cong) auto
  then show ?thesis by (simp add: prune_statements_older_than_def stale fold_dict_del)
qed

end
