(* ===== verification/Calendar.thy ===== *)
theory Calendar
  imports Prelude
begin

text \<open>
  The proleptic Gregorian calendar of Python's \<open>datetime\<close>: ordinals (day 1 is 0001-01-01), the
  conversion in both directions, and the order of dates. Timestamps are written and read through it
  (\<open>isoformat\<close> in theory Json, \<open>fromisoformat\<close> in theory IsoTime).
\<close>

section \<open>The conversions\<close>

definition is_leap :: "int \<Rightarrow> bool" where
  "is_leap y \<longleftrightarrow> y mod 4 = 0 \<and> (y mod 100 \<noteq> 0 \<or> y mod 400 = 0)"

definition days_before_year :: "int \<Rightarrow> int" where
  "days_before_year y = (y - 1) * 365 + (y - 1) div 4 - (y - 1) div 100 + (y - 1) div 400"

definition month_offsets :: "int list" where
  "month_offsets = [0, 0, 31, 59, 90, 120, 151, 181, 212, 243, 273, 304, 334, 365]"

definition days_before_month :: "bool \<Rightarrow> int \<Rightarrow> int" where
  "days_before_month leap m = month_offsets ! nat m + (if leap \<and> 2 < m then 1 else 0)"

definition ymd_ord :: "int \<times> int \<times> int \<Rightarrow> int" where
  "ymd_ord p = (case p of (y, m, d) \<Rightarrow> days_before_year y + days_before_month (is_leap y) m + d)"

text \<open>Month and day from the zero-based day of the year: an estimate that is one too large at most.\<close>

definition month_day :: "bool \<Rightarrow> int \<Rightarrow> int \<times> int" where
  "month_day leap n =
     (let month = (n + 50) div 32;
          month = (if n < days_before_month leap month then month - 1 else month)
      in (month, n - days_before_month leap month + 1))"

definition ord_ymd :: "int \<Rightarrow> int \<times> int \<times> int" where
  "ord_ymd ordinal =
     (let n = ordinal - 1;
          n400 = n div 146097; n = n mod 146097;
          n100 = n div 36524; n = n mod 36524;
          n4 = n div 1461; n = n mod 1461;
          n1 = n div 365; n = n mod 365;
          year = n400 * 400 + 1 + n100 * 100 + n4 * 4 + n1
      in if n1 = 4 \<or> n100 = 4 then (year - 1, 12, 31)
         else case month_day (n1 = 3 \<and> (n4 \<noteq> 24 \<or> n100 = 3)) n of (m, d) \<Rightarrow> (year, m, d))"

definition valid_ymd :: "int \<times> int \<times> int \<Rightarrow> bool" where
  "valid_ymd p = (case p of (y, m, d) \<Rightarrow> 1 \<le> m \<and> m \<le> 12 \<and> 1 \<le> d \<and>
     d \<le> days_before_month (is_leap y) (m + 1) - days_before_month (is_leap y) m)"

section \<open>The conversions are inverse\<close>

lemma year_of_cycles:
  assumes "0 \<le> b" "b \<le> 3" "0 \<le> c" "c \<le> 24" "0 \<le> e" "e \<le> (3::int)"
  shows "is_leap (a * 400 + 1 + b * 100 + c * 4 + e) \<longleftrightarrow> e = 3 \<and> (c \<noteq> 24 \<or> b = 3)"
    and "days_before_year (a * 400 + 1 + b * 100 + c * 4 + e) = 146097 * a + 36524 * b + 1461 * c + 365 * e"
proof -
  let ?k = "a * 400 + b * 100 + c * 4 + e"
  have k: "?k = e + 4 * (100 * a + 25 * b + c)" "?k = (c * 4 + e) + 100 * (4 * a + b)"
    "?k = (b * 100 + c * 4 + e) + 400 * a" by simp_all
  have "?k div 4 = 100 * a + 25 * b + c" unfolding k(1) using assms by simp
  moreover have "?k div 100 = 4 * a + b" unfolding k(2) using assms by simp
  moreover have "?k div 400 = a" unfolding k(3) using assms by simp
  ultimately show "days_before_year (a * 400 + 1 + b * 100 + c * 4 + e) = 146097 * a + 36524 * b + 1461 * c + 365 * e"
    by (simp add: days_before_year_def algebra_simps)
  have small: "0 < x \<Longrightarrow> x \<le> n \<Longrightarrow> x mod n = 0 \<longleftrightarrow> x = n" for x n :: int
    by (cases "x = n") simp_all
  have y: "a * 400 + 1 + b * 100 + c * 4 + e = (e + 1) + 4 * (100 * a + 25 * b + c)"
    "a * 400 + 1 + b * 100 + c * 4 + e = (c * 4 + e + 1) + 100 * (4 * a + b)"
    "a * 400 + 1 + b * 100 + c * 4 + e = (b * 100 + c * 4 + e + 1) + 400 * a" by simp_all
  have "(a * 400 + 1 + b * 100 + c * 4 + e) mod 4 = 0 \<longleftrightarrow> e + 1 = 4"
    unfolding y(1) mod_mult_self2 using assms by (intro small) simp_all
  moreover have "(a * 400 + 1 + b * 100 + c * 4 + e) mod 100 = 0 \<longleftrightarrow> c * 4 + e + 1 = 100"
    unfolding y(2) mod_mult_self2 using assms by (intro small) simp_all
  moreover have "(a * 400 + 1 + b * 100 + c * 4 + e) mod 400 = 0 \<longleftrightarrow> b * 100 + c * 4 + e + 1 = 400"
    unfolding y(3) mod_mult_self2 using assms by (intro small) simp_all
  ultimately show "is_leap (a * 400 + 1 + b * 100 + c * 4 + e) \<longleftrightarrow> e = 3 \<and> (c \<noteq> 24 \<or> b = 3)"
    unfolding is_leap_def using assms by auto
qed

lemma days_before_month_table [simp]:
  "days_before_month l 1 = 0" "days_before_month l 2 = 31"
  "days_before_month l 3 = 59 + (if l then 1 else 0)" "days_before_month l 4 = 90 + (if l then 1 else 0)"
  "days_before_month l 5 = 120 + (if l then 1 else 0)" "days_before_month l 6 = 151 + (if l then 1 else 0)"
  "days_before_month l 7 = 181 + (if l then 1 else 0)" "days_before_month l 8 = 212 + (if l then 1 else 0)"
  "days_before_month l 9 = 243 + (if l then 1 else 0)" "days_before_month l 10 = 273 + (if l then 1 else 0)"
  "days_before_month l 11 = 304 + (if l then 1 else 0)" "days_before_month l 12 = 334 + (if l then 1 else 0)"
  "days_before_month l 13 = 365 + (if l then 1 else 0)"
  by (simp_all add: days_before_month_def month_offsets_def)

lemma month_day_ok:
  assumes "0 \<le> n" "n < 365 + (if l then 1 else 0)" "month_day l n = (m, d)"
  shows "1 \<le> m \<and> m \<le> 12 \<and> 1 \<le> d \<and> d \<le> days_before_month l (m + 1) - days_before_month l m \<and>
    days_before_month l m + d = n + 1"
proof -
  define k where "k = (n + 50) div 32"
  have bounds: "32 * k \<le> n + 50" "n + 50 < 32 * k + 32" unfolding k_def by presburger+
  then have "1 \<le> k" "k \<le> 12" using assms(1,2) by (auto split: if_splits)
  then have "k \<in> {1, 2, 3, 4, 5, 6, 7, 8, 9, 10, 11, 12}" by (simp, presburger)
  moreover have "m = (if n < days_before_month l k then k - 1 else k)" "d = n - days_before_month l m + 1"
    using assms(3) by (auto simp: month_day_def Let_def k_def)
  ultimately show ?thesis using bounds assms(1,2)
    by (elim insertE emptyE; cases l) (auto split: if_splits)
qed

text \<open>Ordinals read back, and the date is a real one.\<close>

lemma ord_ymd_ok: "valid_ymd (ord_ymd n) \<and> ymd_ord (ord_ymd n) = n"
proof -
  define k where "k = n - 1"
  define a r1 where "a = k div 146097" and "r1 = k mod 146097"
  define b r2 where "b = r1 div 36524" and "r2 = r1 mod 36524"
  define c r3 where "c = r2 div 1461" and "r3 = r2 mod 1461"
  define e r4 where "e = r3 div 365" and "r4 = r3 mod 365"
  have k: "k = 146097 * a + r1" "0 \<le> r1" "r1 < 146097" unfolding a_def r1_def by simp_all
  have r1: "r1 = 36524 * b + r2" "0 \<le> r2" "r2 < 36524" unfolding b_def r2_def by simp_all
  have r2: "r2 = 1461 * c + r3" "0 \<le> r3" "r3 < 1461" unfolding c_def r3_def by simp_all
  have r3: "r3 = 365 * e + r4" "0 \<le> r4" "r4 < 365" unfolding e_def r4_def by simp_all
  have b: "0 \<le> b" "b \<le> 4" using k r1 by auto
  have c: "0 \<le> c" "c \<le> 24" using r1 r2 by auto
  have e: "0 \<le> e" "e \<le> 4" using r2 r3 by auto
  let ?y = "a * 400 + 1 + b * 100 + c * 4 + e"
  have ymd: "ord_ymd n = (if e = 4 \<or> b = 4 then (?y - 1, 12, 31)
      else case month_day (e = 3 \<and> (c \<noteq> 24 \<or> b = 3)) r4 of (m, d) \<Rightarrow> (?y, m, d))"
    by (simp add: ord_ymd_def Let_def k_def a_def r1_def b_def r2_def c_def r3_def e_def r4_def)
  consider (b4) "b = 4" | (e4) "b \<le> 3" "e = 4" | (normal) "b \<le> 3" "e \<le> 3" using b e by linarith
  then show ?thesis
  proof cases
    case b4
    then have "r2 = 0" using k(3) r1 by simp
    then have "c = 0" "e = 0" "r3 = 0" "r4 = 0" unfolding c_def e_def r3_def r4_def by simp_all
    then have y: "?y - 1 = a * 400 + 1 + 3 * 100 + 24 * 4 + 3" using b4 by simp
    have "is_leap (?y - 1)" "days_before_year (?y - 1) = 146097 * a + 36524 * 3 + 1461 * 24 + 365 * 3"
      unfolding y using year_of_cycles [of 3 24 3 a] by simp_all
    moreover have "ord_ymd n = (?y - 1, 12, 31)" using b4 by (simp add: ymd)
    ultimately show ?thesis using b4 k(1) r1(1) \<open>r2 = 0\<close> \<open>c = 0\<close> \<open>e = 0\<close>
      by (simp add: valid_ymd_def ymd_ord_def k_def)
  next
    case e4
    then have "r4 = 0" using r2(3) r3 by simp
    have c24: "c \<noteq> 24 \<or> b = 3"
    proof (rule ccontr)
      assume "\<not> (c \<noteq> 24 \<or> b = 3)"
      then have "36524 \<le> r2" using r2(1) r3(1,2) e4 by simp
      then show False using r1(3) by simp
    qed
    have y: "?y - 1 = a * 400 + 1 + b * 100 + c * 4 + 3" using e4 by simp
    have "is_leap (?y - 1)" "days_before_year (?y - 1) = 146097 * a + 36524 * b + 1461 * c + 365 * 3"
      unfolding y using year_of_cycles [of b c 3 a] b c e4 c24 by auto
    moreover have "ord_ymd n = (?y - 1, 12, 31)" using e4 by (simp add: ymd)
    ultimately show ?thesis using e4 k(1) r1(1) r2(1) r3(1) \<open>r4 = 0\<close>
      by (simp add: valid_ymd_def ymd_ord_def k_def)
  next
    case normal
    obtain m d where md: "month_day (e = 3 \<and> (c \<noteq> 24 \<or> b = 3)) r4 = (m, d)" by fastforce
    note year = year_of_cycles [OF b(1) normal(1) c e(1) normal(2), of a]
    have "ord_ymd n = (?y, m, d)" using normal md by (simp add: ymd)
    moreover have "1 \<le> m \<and> m \<le> 12 \<and> 1 \<le> d \<and>
        d \<le> days_before_month (is_leap ?y) (m + 1) - days_before_month (is_leap ?y) m \<and>
        days_before_month (is_leap ?y) m + d = r4 + 1"
      unfolding year(1) using month_day_ok [OF r3(2) _ md] r3(3) by simp
    ultimately show ?thesis using year(2) k(1) r1(1) r2(1) r3(1)
      by (simp add: valid_ymd_def ymd_ord_def k_def)
  qed
qed

section \<open>The order of dates\<close>

definition ymd_less :: "int \<times> int \<times> int \<Rightarrow> int \<times> int \<times> int \<Rightarrow> bool" where
  "ymd_less p q = (case (p, q) of ((y, m, d), (y', m', d')) \<Rightarrow>
     y < y' \<or> (y = y' \<and> (m < m' \<or> (m = m' \<and> d < d'))))"

lemma div_pred:
  assumes "0 < (n::int)"
  shows "y div n = (y - 1) div n + (if y mod n = 0 then 1 else 0)"
proof (cases "y mod n = 0")
  case True
  then have "y - 1 = (n - 1) + n * (y div n - 1)" using mult_div_mod_eq [of n y] by (simp add: algebra_simps)
  also have "\<dots> div n = (n - 1) div n + (y div n - 1)" using assms by (subst div_mult_self2) simp_all
  also have "(n - 1) div n = 0" using assms by (intro div_pos_pos_trivial) simp_all
  finally have "(y - 1) div n = y div n - 1" by simp
  then show ?thesis using True by simp
next
  case False
  then have "y - 1 = (y mod n - 1) + n * (y div n)" by (simp add: algebra_simps)
  also have "\<dots> div n = (y mod n - 1) div n + y div n" using assms by (subst div_mult_self2) simp_all
  also have "(y mod n - 1) div n = 0"
    using assms False pos_mod_bound [of n y] pos_mod_sign [of n y] by (intro div_pos_pos_trivial) linarith+
  finally have "(y - 1) div n = y div n" by simp
  then show ?thesis using False by simp
qed

lemma leap_count:
  assumes "p4 = q4 + (if P then 1 else 0)" "p100 = q100 + (if Q then 1 else 0)" "p400 = q400 + (if R then 1 else 0)"
    and "R \<Longrightarrow> Q" "Q \<Longrightarrow> P"
  shows "y * 365 + p4 - p100 + p400 = (y - 1) * 365 + q4 - q100 + q400 + 365 + (if P \<and> (\<not> Q \<or> R) then 1 else (0::int))"
  using assms by (cases P; cases Q; cases R) auto

lemma days_before_year_Suc: "days_before_year (y + 1) = days_before_year y + 365 + (if is_leap y then 1 else 0)"
proof -
  have "y mod 400 = 0 \<Longrightarrow> y mod 100 = 0" "y mod 100 = 0 \<Longrightarrow> y mod 4 = 0"
    using mod_mod_cancel [of 100 400 y] mod_mod_cancel [of 4 100 y] by simp_all
  then show ?thesis
    unfolding days_before_year_def is_leap_def add_diff_cancel_right'
    by (intro leap_count div_pred) (assumption | simp only: zero_less_numeral)+
qed

lemma days_before_year_mono: "y \<le> z \<Longrightarrow> days_before_year y \<le> days_before_year z"
proof (induction "nat (z - y)" arbitrary: z)
  case (Suc k)
  then have "days_before_year y \<le> days_before_year (z - 1)" by simp
  also have "\<dots> \<le> days_before_year z" using days_before_year_Suc [of "z - 1"] by simp
  finally show ?case .
qed simp

lemma days_before_month_step: "1 \<le> m \<Longrightarrow> m \<le> 12 \<Longrightarrow> days_before_month l m \<le> days_before_month l (m + 1)"
proof -
  assume "1 \<le> m" "m \<le> 12"
  then have "m \<in> {1, 2, 3, 4, 5, 6, 7, 8, 9, 10, 11, 12}" by (simp, presburger)
  then show ?thesis by (elim insertE emptyE) simp_all
qed

lemma days_before_month_mono:
  "1 \<le> m \<Longrightarrow> m \<le> k \<Longrightarrow> k \<le> 13 \<Longrightarrow> days_before_month l m \<le> days_before_month l k"
proof (induction "nat (k - m)" arbitrary: k)
  case (Suc j)
  then have "days_before_month l m \<le> days_before_month l (k - 1)" by simp
  also have "\<dots> \<le> days_before_month l k" using days_before_month_step [of "k - 1"] Suc by simp
  finally show ?case .
qed simp

lemma ymd_ord_less:
  assumes "valid_ymd p" "valid_ymd q" "ymd_less p q"
  shows "ymd_ord p < ymd_ord q"
proof -
  obtain y m d where p: "p = (y, m, d)" by (cases p) auto
  obtain z k e where q: "q = (z, k, e)" by (cases q) auto
  have m: "1 \<le> m" "m \<le> 12" "d \<le> days_before_month (is_leap y) (m + 1) - days_before_month (is_leap y) m"
    and k: "1 \<le> k" "k \<le> 12" "1 \<le> e"
    using assms(1,2) by (auto simp: p q valid_ymd_def)
  consider "y < z" | "y = z" "m < k" | "y = z" "m = k" "d < e"
    using assms(3) by (auto simp: p q ymd_less_def)
  then show ?thesis
  proof cases
    case 1
    have "days_before_month (is_leap y) m + d \<le> days_before_month (is_leap y) 13"
      using m days_before_month_mono [of "m + 1" 13] by (smt (verit))
    moreover have "0 \<le> days_before_month (is_leap z) k"
      using k days_before_month_mono [of 1 k] by (smt (verit) days_before_month_table(1))
    ultimately show ?thesis
      using 1 k(3) days_before_year_mono [of "y + 1" z] days_before_year_Suc [of y] by (simp add: p q ymd_ord_def)
  next
    case 2
    then show ?thesis using m k days_before_month_mono [of "m + 1" k "is_leap y"] by (simp add: p q ymd_ord_def)
  next
    case 3
    then show ?thesis by (simp add: p q ymd_ord_def)
  qed
qed

lemma ymd_less_linear: "p = q \<or> ymd_less p q \<or> ymd_less q p"
  by (cases p; cases q) (auto simp: ymd_less_def)

lemma ord_ymd_less: "ymd_less (ord_ymd m) (ord_ymd n) \<longleftrightarrow> m < n"
  using ord_ymd_ok [of m] ord_ymd_ok [of n] ymd_ord_less ymd_less_linear [of "ord_ymd m" "ord_ymd n"]
  by (metis less_asym')

end
