(* ===== verification/Json.thy ===== *)
theory Json
  imports Calendar "HOL-Library.Char_ord" "HOL-Library.List_Lexorder"
begin

text \<open>
  The standard-library encodings everything signed or hashed goes through:
  \<open>json.dumps(obj, sort_keys=True, separators=(",", ":")).encode()\<close> (\<open>canonical\<close>, the code's
  \<open>_canonical\<close>), the decimal form of an integer, and \<open>datetime.isoformat()\<close> of a UTC
  timestamp. A timestamp is the number of microseconds since the epoch.
  The lemmas show that the encodings of the scalars the service signs are injective and
  self-delimiting, which is what makes a hash over them bind the fields.
\<close>

section \<open>Decimal integers\<close>

definition digit :: "nat \<Rightarrow> char" where
  "digit n = ''0123456789'' ! n"

fun show_nat :: "nat \<Rightarrow> string" where
  "show_nat n = (if n < 10 then [digit n] else show_nat (n div 10) @ [digit (n mod 10)])"

declare show_nat.simps [simp del]

definition show_int :: "int \<Rightarrow> string" where
  "show_int i = (if i < 0 then CHR ''-'' # show_nat (nat (- i)) else show_nat (nat i))"

definition is_digit :: "char \<Rightarrow> bool" where
  "is_digit c = (let n = of_char c :: nat in 48 \<le> n \<and> n \<le> 57)"

definition decimal_value :: "string \<Rightarrow> nat" where
  "decimal_value s = foldl (\<lambda>a c. 10 * a + (of_char c - 48)) 0 s"

lemma less_10_cases:
  "n < (10::nat) \<Longrightarrow> n \<in> {0, 1, 2, 3, 4, 5, 6, 7, 8, 9}"
  by (simp, arith)

lemma digit_code [simp]: "n < 10 \<Longrightarrow> of_char (digit n) = 48 + n"
  by (drule less_10_cases) (auto simp: digit_def)

lemma is_digit_digit [simp]: "n < 10 \<Longrightarrow> is_digit (digit n)"
  by (simp add: is_digit_def Let_def)

lemma show_nat_digits: "c \<in> set (show_nat n) \<Longrightarrow> is_digit c"
proof (induction n rule: show_nat.induct)
  case (1 n)
  then show ?case by (subst (asm) show_nat.simps) (auto split: if_splits)
qed

lemma show_nat_nonempty [simp]: "show_nat n \<noteq> []"
  by (subst show_nat.simps) simp

lemma decimal_value_show_nat [simp]: "decimal_value (show_nat n) = n"
proof (induction n rule: show_nat.induct)
  case (1 n)
  show ?case
  proof (cases "n < 10")
    case True
    then show ?thesis by (subst show_nat.simps) (simp add: decimal_value_def)
  next
    case False
    with 1 have "decimal_value (show_nat (n div 10)) = n div 10" by simp
    with False show ?thesis by (subst show_nat.simps) (simp add: decimal_value_def)
  qed
qed

definition no_digit_first :: "string \<Rightarrow> bool" where
  "no_digit_first s = (case s of [] \<Rightarrow> True | c # _ \<Rightarrow> \<not> is_digit c)"

lemma takeWhile_show_nat:
  "no_digit_first r \<Longrightarrow> takeWhile is_digit (show_nat n @ r) = show_nat n"
  by (subst takeWhile_append2)
    (auto simp: show_nat_digits no_digit_first_def split: list.splits)

lemma show_nat_delimited:
  assumes "show_nat n @ r = show_nat m @ r'" "no_digit_first r" "no_digit_first r'"
  shows "n = m \<and> r = r'"
proof -
  have "show_nat n = show_nat m"
    using assms takeWhile_show_nat [of r n] takeWhile_show_nat [of r' m] by metis
  then have "n = m" by (metis decimal_value_show_nat)
  with assms(1) show ?thesis by simp
qed

lemma show_nat_no_minus: "show_nat n \<noteq> CHR ''-'' # s"
proof
  assume "show_nat n = CHR ''-'' # s"
  then have "is_digit (CHR ''-'')" using show_nat_digits [of "CHR ''-''" n] by simp
  then show False by (simp add: is_digit_def Let_def)
qed

lemma show_int_delimited:
  assumes "show_int i @ r = show_int j @ r'" "no_digit_first r" "no_digit_first r'"
  shows "i = j \<and> r = r'"
proof -
  have first: "show_nat n @ t \<noteq> CHR ''-'' # u" for n t u
    using show_nat_no_minus [of n] by (cases "show_nat n") auto
  show ?thesis
    using assms first first [symmetric]
    by (auto simp: show_int_def split: if_splits dest!: show_nat_delimited)
qed

section \<open>JSON values\<close>

text \<open>\<open>JFloat\<close> keeps a parsed float as its literal; the service never emits one.\<close>

datatype json =
    JNull
  | JBool bool
  | JInt int
  | JFloat string
  | JStr string
  | JArr "json list"
  | JObj "(string \<times> json) list"

definition escape_char :: "char \<Rightarrow> string" where
  "escape_char c = (let n = of_char c :: nat in
     if n = 34 then [CHR 0x5C, CHR 0x22]
     else if n = 92 then [CHR 0x5C, CHR 0x5C]
     else if n = 8 then [CHR 0x5C, CHR ''b'']
     else if n = 9 then [CHR 0x5C, CHR ''t'']
     else if n = 10 then [CHR 0x5C, CHR ''n'']
     else if n = 12 then [CHR 0x5C, CHR ''f'']
     else if n = 13 then [CHR 0x5C, CHR ''r'']
     else if 32 \<le> n \<and> n \<le> 126 then [c]
     else [CHR 0x5C, CHR ''u'', CHR ''0'', CHR ''0'', hex_digit (n div 16), hex_digit (n mod 16)])"

definition escape :: "string \<Rightarrow> string" where
  "escape s = concat (map escape_char s)"

definition json_string :: "string \<Rightarrow> string" where
  "json_string s = CHR 0x22 # escape s @ [CHR 0x22]"

fun intersperse_comma :: "string list \<Rightarrow> string" where
  "intersperse_comma [] = []"
| "intersperse_comma [s] = s"
| "intersperse_comma (s # t # ss) = s @ CHR '','' # intersperse_comma (t # ss)"

text \<open>\<open>sort_keys\<close> orders the members by key, code point by code point.\<close>

fun json_dumps :: "json \<Rightarrow> string" where
  "json_dumps JNull = ''null''"
| "json_dumps (JBool b) = (if b then ''true'' else ''false'')"
| "json_dumps (JInt i) = show_int i"
| "json_dumps (JFloat s) = s"
| "json_dumps (JStr s) = json_string s"
| "json_dumps (JArr xs) = CHR ''['' # intersperse_comma (map json_dumps xs) @ '']''"
| "json_dumps (JObj kvs) =
     CHR ''{'' # intersperse_comma (map (\<lambda>(k, s). json_string k @ CHR '':'' # s)
        (sort_key fst (map (\<lambda>(k, v). (k, json_dumps v)) kvs))) @ ''}''"

definition canonical :: "(string \<times> json) list \<Rightarrow> bytes" where
  "canonical obj = utf8 (json_dumps (JObj obj))"

definition jopt_str :: "string option \<Rightarrow> json" where
  "jopt_str s = (case s of None \<Rightarrow> JNull | Some t \<Rightarrow> JStr t)"

section \<open>Scalars are self-delimiting\<close>

text \<open>Reading one escaped character back, which shows that the escapes form a prefix code.\<close>

definition unescape_first :: "string \<Rightarrow> (nat \<times> string) option" where
  "unescape_first s = (case s of [] \<Rightarrow> None | c # t \<Rightarrow>
     (let n = of_char c :: nat in
      if n \<noteq> 92 then Some (n, t)
      else case t of [] \<Rightarrow> None | d # u \<Rightarrow>
        (let m = of_char d :: nat in
         if m = 34 then Some (34, u)
         else if m = 92 then Some (92, u)
         else if m = 98 then Some (8, u)
         else if m = 116 then Some (9, u)
         else if m = 110 then Some (10, u)
         else if m = 102 then Some (12, u)
         else if m = 114 then Some (13, u)
         else case u of _ # _ # a # b # r \<Rightarrow>
             (case hex_value a of None \<Rightarrow> None | Some i \<Rightarrow>
               (case hex_value b of None \<Rightarrow> None | Some j \<Rightarrow> Some (16 * i + j, r)))
           | _ \<Rightarrow> None)))"

lemma unescape_escape: "unescape_first (escape_char c @ x) = Some (of_char c, x)"
proof -
  have bound: "(of_char c :: nat) < 256"
    using nat_of_char_less_256 [of c] by simp
  define n where "n = (of_char c :: nat)"
  have n: "n < 256" "of_char c = n" using bound by (simp_all add: n_def)
  then have d: "n div 16 < 16" "n mod 16 < 16" by auto
  consider "n = 34" | "n = 92" | "n = 8" | "n = 9" | "n = 10" | "n = 12" | "n = 13"
    | (plain) "n \<noteq> 34" "n \<noteq> 92" "32 \<le> n" "n \<le> 126"
    | (ctl) "n \<notin> {34, 92, 8, 9, 10, 12, 13}" "\<not> (32 \<le> n \<and> n \<le> 126)" by auto
  then show ?thesis
  proof cases
    case ctl
    then have "escape_char c = [CHR 0x5C, CHR ''u'', CHR ''0'', CHR ''0'', hex_digit (n div 16), hex_digit (n mod 16)]"
      by (auto simp: escape_char_def n)
    then show ?thesis using d by (simp add: unescape_first_def n)
  qed (simp_all add: escape_char_def unescape_first_def n)
qed

lemma escape_char_delimited: "escape_char c @ x = escape_char d @ y \<Longrightarrow> c = d \<and> x = y"
proof -
  assume "escape_char c @ x = escape_char d @ y"
  then have "Some (of_char c :: nat, x) = Some (of_char d, y)" by (metis unescape_escape)
  then show "c = d \<and> x = y" by simp
qed

lemma escape_char_not_quote: "escape_char c \<noteq> [] \<and> hd (escape_char c) \<noteq> CHR 0x22"
proof -
  have "escape_char c \<noteq> []" by (simp add: escape_char_def Let_def)
  moreover have "(of_char (hd (escape_char c)) :: nat) \<noteq> 34"
    by (simp add: escape_char_def Let_def)
  moreover have "(of_char (CHR 0x22) :: nat) = 34" by simp
  ultimately show ?thesis by metis
qed

lemma escape_Cons [simp]: "escape (c # s) = escape_char c @ escape s"
  by (simp add: escape_def)

lemma escape_Nil [simp]: "escape [] = []"
  by (simp add: escape_def)

lemma escape_delimited:
  "escape s @ CHR 0x22 # r = escape t @ CHR 0x22 # r' \<Longrightarrow> s = t \<and> r = r'"
proof (induction s arbitrary: t)
  case Nil
  show ?case
  proof (cases t)
    case Nil
    with \<open>escape [] @ CHR 0x22 # r = escape t @ CHR 0x22 # r'\<close> show ?thesis by simp
  next
    case (Cons d t')
    with Nil escape_char_not_quote [of d] show ?thesis by (cases "escape_char d") auto
  qed
next
  case (Cons c s)
  show ?case
  proof (cases t)
    case Nil
    with Cons.prems show ?thesis using escape_char_not_quote [of c]
      by (cases "escape_char c") auto
  next
    case (Cons d t')
    with Cons.prems have "escape_char c @ escape s @ CHR 0x22 # r = escape_char d @ escape t' @ CHR 0x22 # r'"
      by simp
    then have "c = d \<and> escape s @ CHR 0x22 # r = escape t' @ CHR 0x22 # r'"
      by (rule escape_char_delimited)
    with Cons.IH [of t'] Cons show ?thesis by simp
  qed
qed

lemma json_string_delimited: "json_string s @ r = json_string t @ r' \<Longrightarrow> s = t \<and> r = r'"
  by (auto simp: json_string_def dest: escape_delimited)

lemma jopt_str_delimited:
  "json_dumps (jopt_str s) @ r = json_dumps (jopt_str t) @ r' \<Longrightarrow> s = t \<and> r = r'"
  by (cases s; cases t) (auto simp: jopt_str_def dest: json_string_delimited,
      simp_all add: json_string_def)

section \<open>Timestamps\<close>

text \<open>The ordinal of 1970-01-01 is 719163.\<close>

definition pad_left :: "nat \<Rightarrow> int \<Rightarrow> string" where
  "pad_left w n = (let s = show_int n in replicate (w - length s) (CHR ''0'') @ s)"

definition isoformat :: "int \<Rightarrow> string" where
  "isoformat t =
     (let us = t mod 1000000; sec = t div 1000000; day = sec div 86400; r = sec mod 86400
      in case ord_ymd (day + 719163) of (y, m, d) \<Rightarrow>
        pad_left 4 y @ ''-'' @ pad_left 2 m @ ''-'' @ pad_left 2 d @ ''T'' @
        pad_left 2 (r div 3600) @ '':'' @ pad_left 2 (r mod 3600 div 60) @ '':'' @ pad_left 2 (r mod 60) @
        (if us = 0 then '''' else ''.'' @ pad_left 6 us) @ ''+00:00'')"

end
