(* ===== verification/External.thy ===== *)
theory External
  imports Store Json Sha256
begin

text \<open>
  What the program calls and this repository does not contain: cbor2, the Ed25519 primitives
  of \<open>cryptography\<close>, \<open>cll.checkpoint.core.verify_consistency\<close>, pydantic's JSON form of a signed
  tree head, and the two standard-library decoders whose result is not a Latin-1 string. They
  are the fields of one record, an argument of every definition that uses them.
  \<open>attestation/service.py\<close> and \<open>default_crypto\<close>'s sign and verify stand on them.
\<close>

section \<open>CBOR values and other libraries' data\<close>

text \<open>
  A value \<open>cbor2.loads\<close> returns. \<open>CVoid\<close> is a zero float or \<open>undefined\<close>, which Python takes for
  false; \<open>COther\<close> is any other float or simple value; no code path tells more apart. \<open>CMap\<close> is a
  dict, so its keys are distinct. (A float key equal to an integer label is not modelled.)
\<close>

datatype cbor =
    CInt int
  | CBytes bytes
  | CText string
  | CList "cbor list"
  | CMap "(cbor \<times> cbor) list"
  | CTag int cbor
  | CBool bool
  | CNull
  | CVoid
  | COther

text \<open>Dict lookup: Python's \<open>True\<close> and \<open>False\<close> are the keys \<open>1\<close> and \<open>0\<close>.\<close>

definition norm_key :: "cbor \<Rightarrow> cbor" where
  "norm_key k = (case k of CBool b \<Rightarrow> CInt (if b then 1 else 0) | _ \<Rightarrow> k)"

definition cbor_get :: "cbor \<Rightarrow> (cbor \<times> cbor) list \<Rightarrow> cbor option" where
  "cbor_get k m = map_of (map (\<lambda>(k', v). (norm_key k', v)) m) (norm_key k)"

record mmr_proof =
  mp_size_a :: int
  mp_size_b :: int
  mp_old_peaks :: "string list"
  mp_witness :: "string list list"
  mp_new_peaks :: "string list"

record sth =
  sth_tree_size :: int
  sth_root_hash :: string
  sth_timestamp :: int
  sth_signature :: sig

text \<open>
  \<open>json_loads\<close> is \<open>json.loads\<close> of bytes (which detects UTF-8, 16 and 32), \<open>json_loads_utf8\<close> is
  \<open>json.loads(b.decode("utf-8"))\<close>. Either may raise \<open>JSONDecodeError\<close>, \<open>UnicodeDecodeError\<close>, a plain
  \<open>ValueError\<close> (an integer of too many digits) or \<open>RecursionError\<close>.
\<close>

record ext =
  cbor_dumps :: "cbor \<Rightarrow> bytes"
  cbor_loads :: "bytes \<Rightarrow> cbor option"
  json_loads :: "bytes \<Rightarrow> json res"
  json_loads_utf8 :: "bytes \<Rightarrow> json res"
  decode_replace :: "bytes \<Rightarrow> string"
  ed_public :: "bytes \<Rightarrow> bytes"
  ed_sign :: "bytes \<Rightarrow> bytes \<Rightarrow> bytes"
  ed_verify :: "bytes \<Rightarrow> bytes \<Rightarrow> bytes \<Rightarrow> bool"
  mmr_verify :: "bytes \<Rightarrow> int \<Rightarrow> bytes \<Rightarrow> int \<Rightarrow> mmr_proof \<Rightarrow> bool"
  sth_to_json :: "sth \<Rightarrow> string"
  sth_of_json :: "string \<Rightarrow> sth res"

text \<open>The documented behaviour a theorem may ask for.\<close>

definition ed25519_ok :: "ext \<Rightarrow> bool" where
  "ed25519_ok x \<longleftrightarrow> (\<forall>sk m. ed_verify x (ed_public x sk) (ed_sign x sk m) m)"

definition sth_json_ok :: "ext \<Rightarrow> bool" where
  "sth_json_ok x \<longleftrightarrow> (\<forall>t. sth_of_json x (sth_to_json x t) = Inr t)"

definition cbor_dumps_inj :: "ext \<Rightarrow> bool" where
  "cbor_dumps_inj x \<longleftrightarrow> inj (cbor_dumps x)"

section \<open>The attestor\<close>

text \<open>
  \<open>now\<close> is the clock as one call reads it: \<open>now i\<close> is the \<open>i\<close>-th reading, in microseconds.
  A custody provider is the \<open>KeyProvider\<close> protocol.
\<close>

type_synonym clock = "nat \<Rightarrow> int"

record key_provider =
  kp_sign :: "bytes \<Rightarrow> int \<Rightarrow> sig"
  kp_verify :: "bytes \<Rightarrow> sig \<Rightarrow> bool"
  kp_public_key :: bytes
  kp_active_key_id :: string

datatype attestor = InProcess (private_key: bytes) (public_key: bytes) | Custody key_provider

definition crypto_sign :: "ext \<Rightarrow> bytes \<Rightarrow> bytes \<Rightarrow> int \<Rightarrow> sig" where
  "crypto_sign x sk payload t =
     \<lparr>sig_hex = hex (ed_sign x sk payload), sig_key_id = take 16 (sha256_hex (ed_public x sk)),
      sig_alg = ''ed25519'', created_at = t\<rparr>"

definition crypto_verify :: "ext \<Rightarrow> bytes \<Rightarrow> bytes \<Rightarrow> sig \<Rightarrow> bool" where
  "crypto_verify x pk payload s =
     (case fromhex (sig_hex s) of Inl _ \<Rightarrow> False | Inr b \<Rightarrow> ed_verify x pk b payload)"

definition generate_keypair :: "ext \<Rightarrow> bytes \<Rightarrow> bytes \<times> bytes" where
  "generate_keypair x entropy = (entropy, ed_public x entropy)"

definition new_attestor :: "ext \<Rightarrow> key_provider option \<Rightarrow> bytes \<Rightarrow> attestor" where
  "new_attestor x kp entropy =
     (case kp of None \<Rightarrow> (case generate_keypair x entropy of (sk, pk) \<Rightarrow> InProcess sk pk)
      | Some p \<Rightarrow> Custody p)"

definition attest :: "ext \<Rightarrow> attestor \<Rightarrow> bytes \<Rightarrow> int \<Rightarrow> sig" where
  "attest x a payload t =
     (case a of InProcess sk _ \<Rightarrow> crypto_sign x sk payload t | Custody p \<Rightarrow> kp_sign p payload t)"

definition attestor_verify :: "ext \<Rightarrow> attestor \<Rightarrow> bytes \<Rightarrow> sig \<Rightarrow> bool" where
  "attestor_verify x a payload s =
     (case a of InProcess _ pk \<Rightarrow> crypto_verify x pk payload s | Custody p \<Rightarrow> kp_verify p payload s)"

definition authority_pubkey :: "attestor \<Rightarrow> bytes" where
  "authority_pubkey a = (case a of InProcess _ pk \<Rightarrow> pk | Custody p \<Rightarrow> kp_public_key p)"

definition attestor_key_id :: "ext \<Rightarrow> attestor \<Rightarrow> string" where
  "attestor_key_id x a =
     (case a of InProcess sk _ \<Rightarrow> sig_key_id (crypto_sign x sk [] 0) | Custody p \<Rightarrow> kp_active_key_id p)"

text \<open>What the service relies on: it accepts its own signatures, and they are hexadecimal.\<close>

definition attestor_ok :: "ext \<Rightarrow> attestor \<Rightarrow> bool" where
  "attestor_ok x a \<longleftrightarrow> (\<forall>p t. attestor_verify x a p (attest x a p t) \<and>
     (\<exists>b. fromhex (sig_hex (attest x a p t)) = Inr b))"

lemma new_attestor_ok: "ed25519_ok x \<Longrightarrow> attestor_ok x (new_attestor x None entropy)"
  by (simp add: attestor_ok_def new_attestor_def generate_keypair_def attest_def attestor_verify_def
      crypto_sign_def crypto_verify_def ed25519_ok_def)

lemma attestor_ok_verify: "attestor_ok x a \<Longrightarrow> attestor_verify x a p (attest x a p t)"
  by (simp add: attestor_ok_def)

lemma attestor_ok_hex: "attestor_ok x a \<Longrightarrow> \<exists>b. fromhex (sig_hex (attest x a p t)) = Inr b"
  by (simp add: attestor_ok_def)

text \<open>
  One concrete instance, on which the theorems with a hypothesis about the libraries are
  applied: a signature is the private key (which is also the public key) before the payload.
\<close>

definition pack_one :: "string \<Rightarrow> string" where
  "pack_one s = concat (map (\<lambda>c. [CHR ''1'', c]) s) @ ''0''"

fun unpack_one :: "string \<Rightarrow> string \<times> string" where
  "unpack_one (t # c # r) = (if t = CHR ''1'' then (case unpack_one r of (s, r') \<Rightarrow> (c # s, r')) else ([], c # r))"
| "unpack_one _ = ([], [])"

lemma unpack_pack [simp]: "unpack_one (pack_one s @ r) = (s, r)"
proof (induction s)
  case Nil
  show ?case by (cases r) (simp_all add: pack_one_def)
next
  case (Cons c s)
  then show ?case by (simp add: pack_one_def)
qed

definition unary :: "int \<Rightarrow> string" where
  "unary i = (if i < 0 then CHR ''-'' else CHR ''+'') # replicate (nat \<bar>i\<bar>) (CHR ''x'')"

definition unary_value :: "string \<Rightarrow> int" where
  "unary_value s = (case s of [] \<Rightarrow> 0 | c # r \<Rightarrow> if c = CHR ''-'' then - int (length r) else int (length r))"

lemma unary_value [simp]: "unary_value (unary i) = i"
  by (simp add: unary_def unary_value_def)

definition sample_sth_to_json :: "sth \<Rightarrow> string" where
  "sample_sth_to_json t = (let g = sth_signature t in
     pack_one (unary (sth_tree_size t)) @ pack_one (sth_root_hash t) @ pack_one (unary (sth_timestamp t)) @
     pack_one (sig_hex g) @ pack_one (sig_key_id g) @ pack_one (sig_alg g) @ pack_one (unary (created_at g)) @ [])"

definition sample_sth_of_json :: "string \<Rightarrow> sth res" where
  "sample_sth_of_json s0 =
     (let (n, s1) = unpack_one s0; (r, s2) = unpack_one s1; (t, s3) = unpack_one s2; (h, s4) = unpack_one s3;
          (k, s5) = unpack_one s4; (a, s6) = unpack_one s5; (c, s7) = unpack_one s6
      in Inr \<lparr>sth_tree_size = unary_value n, sth_root_hash = r, sth_timestamp = unary_value t,
           sth_signature = \<lparr>sig_hex = h, sig_key_id = k, sig_alg = a, created_at = unary_value c\<rparr>\<rparr>)"

definition sample_ext :: ext where
  "sample_ext = \<lparr>cbor_dumps = (\<lambda>_. []), cbor_loads = (\<lambda>_. None), json_loads = (\<lambda>_. Inl JSONDecodeError),
     json_loads_utf8 = (\<lambda>_. Inl JSONDecodeError),
     decode_replace = (\<lambda>_. []), ed_public = id, ed_sign = (@), ed_verify = (\<lambda>pk s m. s = pk @ m),
     mmr_verify = (\<lambda>_ _ _ _ _. True), sth_to_json = sample_sth_to_json,
     sth_of_json = sample_sth_of_json\<rparr>"

lemma sample_ext_json [simp]: "sth_json_ok sample_ext"
  by (simp add: sth_json_ok_def sample_ext_def sample_sth_to_json_def sample_sth_of_json_def Let_def
      del: append_Nil2)

lemma sample_ext_ed25519 [simp]: "ed25519_ok sample_ext"
  by (simp add: ed25519_ok_def sample_ext_def)

definition sample_attestor :: attestor where
  "sample_attestor = new_attestor sample_ext None [7]"

lemma sample_attestor_ok [simp]: "attestor_ok sample_ext sample_attestor"
  by (simp add: sample_attestor_def new_attestor_ok)

end
