(* ===== verification/PyText.thy ===== *)
theory PyText
  imports Prelude
begin

text \<open>
  The \<open>str\<close> methods and \<open>int(s)\<close> the configuration readers use, on Latin-1 strings. An
  environment is a map from names to values.
\<close>

type_synonym environ = "string \<Rightarrow> string option"

definition env_get :: "environ \<Rightarrow> string \<Rightarrow> string \<Rightarrow> string" where
  "env_get env k d = (case env k of None \<Rightarrow> d | Some v \<Rightarrow> v)"

definition is_space :: "char \<Rightarrow> bool" where
  "is_space c = (let n = of_char c :: nat in
     (9 \<le> n \<and> n \<le> 13) \<or> (28 \<le> n \<and> n \<le> 32) \<or> n = 133 \<or> n = 160)"

definition strip :: "string \<Rightarrow> string" where
  "strip s = rev (dropWhile is_space (rev (dropWhile is_space s)))"

definition lower_char :: "char \<Rightarrow> char" where
  "lower_char c = (let n = of_char c :: nat in
     if (65 \<le> n \<and> n \<le> 90) \<or> (192 \<le> n \<and> n \<le> 222 \<and> n \<noteq> 215) then char_of (n + 32) else c)"

definition lower :: "string \<Rightarrow> string" where
  "lower s = map lower_char s"

definition dec_digit :: "char \<Rightarrow> nat option" where
  "dec_digit c = (let n = of_char c :: nat in if 48 \<le> n \<and> n \<le> 57 then Some (n - 48) else None)"

text \<open>Digits with single underscores between them.\<close>

fun int_digits :: "nat \<Rightarrow> string \<Rightarrow> nat option" where
  "int_digits a [] = Some a"
| "int_digits a (c # s) =
     (case dec_digit c of
        Some d \<Rightarrow> int_digits (10 * a + d) s
      | None \<Rightarrow> if c = CHR ''_'' then
                  (case s of [] \<Rightarrow> None
                   | c' # s' \<Rightarrow> (case dec_digit c' of None \<Rightarrow> None | Some d \<Rightarrow> int_digits (10 * a + d) s'))
                else None)"

definition int_unsigned :: "string \<Rightarrow> nat option" where
  "int_unsigned s = (case s of [] \<Rightarrow> None
     | c # s' \<Rightarrow> (case dec_digit c of None \<Rightarrow> None | Some d \<Rightarrow> int_digits d s'))"

definition py_int :: "string \<Rightarrow> int res" where
  "py_int raw =
     (let s = strip raw;
          (sgn, ds) = (case s of [] \<Rightarrow> (1, [])
             | c # r \<Rightarrow> if c = CHR ''-'' then (- 1, r) else if c = CHR ''+'' then (1, r) else (1, s))
      in case int_unsigned ds of None \<Rightarrow> Inl ValueError | Some n \<Rightarrow> Inr (sgn * int n))"

lemma length_lower [simp]: "length (lower s) = length s"
  by (simp add: lower_def)

end
