(* ===== verification/PayloadPolicy.thy ===== *)
theory PayloadPolicy
  imports External PyText
begin

text \<open>
  \<open>anchoring/payload_policy.py\<close>, what the service keeps of a statement's embedded payload, and
  \<open>anchoring/retention.py\<close>, how long it keeps a receipt for re-issue.
\<close>

section \<open>The code: payload policy\<close>

definition digest_sizes :: "(int \<times> nat) list" where
  "digest_sizes = [(-16, 32), (-43, 48), (-44, 64)]"

definition capsule_id_media_type :: string where
  "capsule_id_media_type = ''application/vnd.agent-action-capsule.capsule-id+octet-stream''"

record payload_policy =
  store_embedded :: bool
  max_bytes :: int

definition default_payload_policy :: payload_policy where
  "default_payload_policy = \<lparr>store_embedded = False, max_bytes = 1024\<rparr>"

definition describe_policy :: "payload_policy \<Rightarrow> json" where
  "describe_policy p = JObj [
     (''digest_payloads'', JStr (''kept as submitted (a statement made over a hash: RFC 9943 6.2 '' @
        ''payload_hash_alg, or a 32-byte capsule_id under the AAC capsule-id content type)'')),
     (''embedded_payloads'', JStr (if store_embedded p
        then ''kept as submitted up to '' @ show_int (max_bytes p) @ '' bytes; larger ones stored detached (SHA-256 only)''
        else ''stored detached: only the payload'' @ [CHR 0x27] @ ''s SHA-256 is kept'')),
     (''store_embedded'', JBool (store_embedded p)),
     (''embedded_max_bytes'', if store_embedded p then JInt (max_bytes p) else JNull),
     (''resubmission_needs_issuer_payload'', JBool True)]"

definition policy_from_env :: "environ \<Rightarrow> int \<Rightarrow> payload_policy res" where
  "policy_from_env env statement_limit =
     (let raw = lower (strip (env_get env ''CAPSULE_ANCHOR_STORE_EMBEDDED_PAYLOADS'' ''off''))
      in if raw \<notin> {''on'', ''off''} then Inl RuntimeError
      else
        let raw_max = strip (env_get env ''CAPSULE_ANCHOR_EMBEDDED_PAYLOAD_MAX_BYTES'' [])
        in if raw_max = [] then Inr \<lparr>store_embedded = (raw = ''on''), max_bytes = 1024\<rparr>
        else case py_int raw_max of
            Inl _ \<Rightarrow> Inl RuntimeError
          | Inr n \<Rightarrow> if \<not> (0 < n \<and> n \<le> statement_limit) then Inl RuntimeError
                     else Inr \<lparr>store_embedded = (raw = ''on''), max_bytes = n\<rparr>)"

definition is_made_over_a_hash :: "(cbor \<times> cbor) list \<Rightarrow> bytes \<Rightarrow> bool" where
  "is_made_over_a_hash protected payload \<longleftrightarrow>
     (case cbor_get (CInt 258) protected of
        Some (CInt alg) \<Rightarrow> map_of digest_sizes alg = Some (length payload)
      | _ \<Rightarrow> False) \<or>
     (cbor_get (CInt 3) protected = Some (CText capsule_id_media_type) \<and> length payload = 32)"

datatype payload_form = FormDigest | FormSha256 | FormEmbedded

definition form_text :: "payload_form \<Rightarrow> string" where
  "form_text f = (case f of FormDigest \<Rightarrow> ''digest'' | FormSha256 \<Rightarrow> ''sha256'' | FormEmbedded \<Rightarrow> ''embedded'')"

definition stored_payload ::
    "(cbor \<times> cbor) list \<Rightarrow> bytes option \<Rightarrow> payload_policy \<Rightarrow> string option \<times> payload_form option" where
  "stored_payload protected payload policy =
     (case payload of
        None \<Rightarrow> (None, None)
      | Some p \<Rightarrow>
          if is_made_over_a_hash protected p then (Some (hex p), Some FormDigest)
          else if store_embedded policy \<and> int (length p) \<le> max_bytes policy then (Some (hex p), Some FormEmbedded)
          else (Some (sha256_hex p), Some FormSha256))"

section \<open>The code: retention\<close>

definition entry_retention_seconds :: "environ \<Rightarrow> int option res" where
  "entry_retention_seconds env =
     (case env ''CAPSULE_ANCHOR_ENTRY_RETENTION'' of
        None \<Rightarrow> Inr None
      | Some raw \<Rightarrow>
          if raw = [] \<or> lower (strip raw) = ''unlimited'' then Inr None
          else case py_int raw of
              Inl _ \<Rightarrow> Inl RuntimeError
            | Inr seconds \<Rightarrow> if seconds \<le> 0 then Inl RuntimeError else Inr (Some seconds))"

definition declared_posture :: "environ \<Rightarrow> string res" where
  "declared_posture env = rbind (entry_retention_seconds env)
     (\<lambda>s. Inr (case s of None \<Rightarrow> ''unlimited'' | Some n \<Rightarrow> show_int n @ ''s''))"

section \<open>Properties\<close>

text \<open>Nothing of a payload is kept but a digest unless the operator opted in: the value kept is
  the payload of a statement over a hash (32, 48 or 64 bytes), a SHA-256, or, with the opt-in, a
  payload within the cap.\<close>

theorem stored_payload_bounded:
  assumes "stored_payload protected (Some p) policy = (v, form)"
  shows "\<exists>d. v = Some (hex d) \<and>
    (case form of
       Some FormDigest \<Rightarrow> d = p \<and> length p \<in> {32, 48, 64}
     | Some FormSha256 \<Rightarrow> d = sha256 p
     | Some FormEmbedded \<Rightarrow> d = p \<and> store_embedded policy \<and> int (length p) \<le> max_bytes policy
     | None \<Rightarrow> False)"
  using assms
  by (auto simp: stored_payload_def is_made_over_a_hash_def digest_sizes_def sha256_hex_def
      split: if_splits option.splits cbor.splits)

theorem stored_payload_bounded_witness:
  "\<exists>d. Some (hex [5]) = Some (hex d) \<and>
    (case Some FormEmbedded of
       Some FormDigest \<Rightarrow> d = [5] \<and> length [5::byte] \<in> {32, 48, 64}
     | Some FormSha256 \<Rightarrow> d = sha256 [5]
     | Some FormEmbedded \<Rightarrow> d = [5] \<and> store_embedded \<lparr>store_embedded = True, max_bytes = 8\<rparr> \<and>
         int (length [5::byte]) \<le> max_bytes \<lparr>store_embedded = True, max_bytes = 8\<rparr>
     | None \<Rightarrow> False)"
  by (rule stored_payload_bounded [of "[]"])
    (simp add: stored_payload_def is_made_over_a_hash_def cbor_get_def)

text \<open>Configuration fails closed: a policy read from the environment is on or off with a cap
  between one byte and the statement limit, every other setting raises; and a retention window is
  unlimited or a positive number of seconds.\<close>

theorem configuration_fails_closed:
  "(case policy_from_env env limit of
      Inl e \<Rightarrow> e = RuntimeError
    | Inr p \<Rightarrow> (max_bytes p = 1024 \<or> (0 < max_bytes p \<and> max_bytes p \<le> limit)) \<and>
        (store_embedded p = (lower (strip (env_get env ''CAPSULE_ANCHOR_STORE_EMBEDDED_PAYLOADS'' ''off'')) = ''on''))) \<and>
   (case entry_retention_seconds env of
      Inl e \<Rightarrow> e = RuntimeError \<and> env ''CAPSULE_ANCHOR_ENTRY_RETENTION'' \<noteq> None
    | Inr None \<Rightarrow> declared_posture env = Inr ''unlimited''
    | Inr (Some n) \<Rightarrow> 0 < n \<and> declared_posture env = Inr (show_int n @ ''s''))"
proof (rule conjI)
  show "case policy_from_env env limit of
      Inl e \<Rightarrow> e = RuntimeError
    | Inr p \<Rightarrow> (max_bytes p = 1024 \<or> (0 < max_bytes p \<and> max_bytes p \<le> limit)) \<and>
        (store_embedded p = (lower (strip (env_get env ''CAPSULE_ANCHOR_STORE_EMBEDDED_PAYLOADS'' ''off'')) = ''on''))"
    by (auto simp: policy_from_env_def Let_def split: sum.splits)
  show "case entry_retention_seconds env of
      Inl e \<Rightarrow> e = RuntimeError \<and> env ''CAPSULE_ANCHOR_ENTRY_RETENTION'' \<noteq> None
    | Inr None \<Rightarrow> declared_posture env = Inr ''unlimited''
    | Inr (Some n) \<Rightarrow> 0 < n \<and> declared_posture env = Inr (show_int n @ ''s'')"
    by (auto simp: entry_retention_seconds_def declared_posture_def split: option.splits sum.splits if_splits)
qed

end
