(* ===== verification/Service.thy ===== *)
theory Service
  imports Ct Ledger Tsa PayloadPolicy
begin

text \<open>
  \<open>anchoring/service.py\<close>: the wire encodings, the entry-hash scheme, the checkpoint payload of a
  statement, and \<open>AnchorerService\<close>. The object's mutable state is \<open>svc\<close> (its store and the
  would-refuse counters), its constructor arguments are \<open>anchorer\<close>. A method that writes is
  an \<open>op\<close> on \<open>svc\<close> and leaves the state it had reached when it raises, as the code does.
\<close>

section \<open>Canonical payloads\<close>

definition countersign_payload :: "string \<Rightarrow> string \<Rightarrow> int \<times> int \<Rightarrow> int \<Rightarrow> bytes" where
  "countersign_payload tenant_id root_hash seq_range at = canonical
     [(''tenant_id'', JStr tenant_id), (''root_hash'', JStr root_hash),
      (''seq_from'', JInt (fst seq_range)), (''seq_to'', JInt (snd seq_range)),
      (''attested_at'', JStr (isoformat at))]"

definition tree_head_payload :: "int \<Rightarrow> string \<Rightarrow> string option \<Rightarrow> bytes" where
  "tree_head_payload i ph prev = canonical
     [(''log_index'', JInt i), (''payload_hash'', JStr ph), (''prev_log_hash'', jopt_str prev)]"

definition log_kind_root :: string where "log_kind_root = ''countersigned_root''"
definition log_kind_scitt :: string where "log_kind_scitt = ''scitt_statement''"

definition ct_leaf_payload :: "entry \<Rightarrow> bytes res" where
  "ct_leaf_payload e =
     (if kind e = log_kind_scitt then fromhex (payload_hash e)
      else Inr (canonical
        [(''log_index'', JInt (log_index e)), (''kind'', JStr (kind e)),
         (''payload_hash'', JStr (payload_hash e)), (''prev_log_hash'', jopt_str (prev_log_hash e)),
         (''logged_at'', JStr (isoformat (logged_at e)))]))"

definition ct_leaf_hash :: "entry \<Rightarrow> string res" where
  "ct_leaf_hash e = rbind (ct_leaf_payload e) (\<lambda>b. Inr (leaf_hash b))"

definition sth_payload :: "int \<Rightarrow> string \<Rightarrow> int \<Rightarrow> bytes" where
  "sth_payload tree_size root_hash timestamp = canonical
     [(''tree_size'', JInt tree_size), (''root_hash'', JStr root_hash),
      (''timestamp'', JStr (isoformat timestamp))]"

section \<open>COSE receipts and statements\<close>

definition sig_structure :: "ext \<Rightarrow> bytes \<Rightarrow> bytes \<Rightarrow> bytes" where
  "sig_structure x protected_bstr payload =
     cbor_dumps x (CList [CText ''Signature1'', CBytes protected_bstr, CBytes [], CBytes payload])"

definition receipt_protected :: "int option \<Rightarrow> string option \<Rightarrow> cbor option \<Rightarrow> cbor" where
  "receipt_protected iat grade continuity = CMap
     ([(CInt 1, CInt (-8)), (CInt 395, CInt 1)] @
      (case iat of None \<Rightarrow> [] | Some t \<Rightarrow> [(CInt 15, CMap [(CInt 6, CInt t)])]) @
      (case grade of None \<Rightarrow> [] | Some g \<Rightarrow> [(CInt (-65537), CText g)]) @
      (case continuity of None \<Rightarrow> [] | Some c \<Rightarrow> [(CInt (-65538), c)]))"

definition build_cose_receipt ::
    "ext \<Rightarrow> int \<Rightarrow> int \<Rightarrow> bytes list \<Rightarrow> bytes \<Rightarrow> (bytes \<Rightarrow> bytes res) \<Rightarrow> int option \<Rightarrow> string option
      \<Rightarrow> cbor option \<Rightarrow> bytes res" where
  "build_cose_receipt x tree_size leaf_index audit_path root_bytes sign iat grade continuity =
     (let protected_bstr = cbor_dumps x (receipt_protected iat grade continuity);
          inclusion_bstr = cbor_dumps x (CList [CInt tree_size, CInt leaf_index, CList (map CBytes audit_path)]);
          unprotected = CMap [(CInt 396, CMap [(CInt (-1), CList [CBytes inclusion_bstr])])]
      in rbind (sign (sig_structure x protected_bstr root_bytes)) (\<lambda>signature.
        Inr (cbor_dumps x (CTag 18
          (CList [CBytes protected_bstr, unprotected, CNull, CBytes signature])))))"

text \<open>\<open>None\<close> for anything that is not a well-formed COSE_Sign1; a detached payload is \<open>None\<close> inside.\<close>

definition decode_cose_sign1 ::
    "ext \<Rightarrow> bytes \<Rightarrow> (bytes \<times> (cbor \<times> cbor) list \<times> bytes option \<times> bytes) option" where
  "decode_cose_sign1 x data =
     (case cbor_loads x data of
        Some (CTag t (CList [CBytes protected_bstr, CMap unprotected, payload, CBytes signature])) \<Rightarrow>
          if t \<noteq> 18 then None
          else (case payload of
              CNull \<Rightarrow> Some (protected_bstr, unprotected, None, signature)
            | CBytes p \<Rightarrow> Some (protected_bstr, unprotected, Some p, signature)
            | _ \<Rightarrow> None)
      | _ \<Rightarrow> None)"

text \<open>A text or byte-string claim of the CWT claims map, label 15.\<close>

definition peek_claim :: "ext \<Rightarrow> int \<Rightarrow> (cbor \<times> cbor) list \<Rightarrow> string option" where
  "peek_claim x label protected =
     (case cbor_get (CInt 15) protected of
        Some (CMap claims) \<Rightarrow>
          (case cbor_get (CInt label) claims of
             Some (CBytes b) \<Rightarrow> Some (decode_replace x b)
           | Some (CText t) \<Rightarrow> Some t
           | _ \<Rightarrow> None)
      | _ \<Rightarrow> None)"

definition peek_unauthenticated_subject :: "ext \<Rightarrow> (cbor \<times> cbor) list \<Rightarrow> string option" where
  "peek_unauthenticated_subject x protected = peek_claim x 2 protected"

datatype hash_scheme = SchemeSigStructure | SchemeLegacy

definition scheme_text :: "hash_scheme \<Rightarrow> string" where
  "scheme_text s = (case s of SchemeSigStructure \<Rightarrow> ''sig_structure'' | SchemeLegacy \<Rightarrow> ''legacy'')"

definition legacy_entry_hash :: "bytes \<Rightarrow> string" where
  "legacy_entry_hash statement = sha256_hex statement"

definition entry_hash_preimage :: "ext \<Rightarrow> bytes \<Rightarrow> bytes \<times> hash_scheme" where
  "entry_hash_preimage x statement =
     (case decode_cose_sign1 x statement of
        Some (protected_bstr, _, Some payload, _) \<Rightarrow>
          (sig_structure x protected_bstr payload, SchemeSigStructure)
      | _ \<Rightarrow> (statement, SchemeLegacy))"

definition compute_entry_hash :: "ext \<Rightarrow> bytes \<Rightarrow> string \<times> hash_scheme" where
  "compute_entry_hash x statement =
     (case entry_hash_preimage x statement of (preimage, scheme) \<Rightarrow> (sha256_hex preimage, scheme))"

section \<open>Checkpoints\<close>

record legacy_cp =
  lc_log_id :: string
  lc_key_id :: string
  lc_mmr_root :: string
  lc_mmr_size :: int
  lc_prev_size :: int
  lc_timestamp :: string

definition is_hex64 :: "string \<Rightarrow> bool" where
  "is_hex64 s \<longleftrightarrow> length s = 64 \<and> list_all (\<lambda>c. hex_value c \<noteq> None) s"

definition parse_checkpoint_payload :: "ext \<Rightarrow> bytes option \<Rightarrow> legacy_cp option res" where
  "parse_checkpoint_payload x payload =
     (case payload of
        None \<Rightarrow> Inr None
      | Some p \<Rightarrow>
        (case json_loads_utf8 x p of
           Inr (JObj obj) \<Rightarrow>
             if map_of obj ''artifact_type'' \<noteq> Some (JStr ''mmr-checkpoint'') then Inr None
             else (case (map_of obj ''log_id'', map_of obj ''key_id'', map_of obj ''mmr_root'',
                         map_of obj ''mmr_size'', map_of obj ''prev_size'', map_of obj ''timestamp'') of
                 (Some (JStr log_id), Some (JStr key_id), Some (JStr mmr_root),
                  Some (JInt mmr_size), Some (JInt prev_size), Some (JStr timestamp)) \<Rightarrow>
                   if log_id = [] \<or> key_id = [] \<or> \<not> is_hex64 mmr_root \<or> mmr_size \<le> 0 \<or> prev_size < 0 \<or>
                      timestamp = [] \<or> mmr_size \<le> prev_size
                   then Inl CheckpointPayloadError
                   else Inr (Some \<lparr>lc_log_id = log_id, lc_key_id = key_id, lc_mmr_root = lower mmr_root,
                          lc_mmr_size = mmr_size, lc_prev_size = prev_size, lc_timestamp = timestamp\<rparr>)
               | _ \<Rightarrow> Inl CheckpointPayloadError)
         | Inl e \<Rightarrow> if e \<in> {JSONDecodeError, UnicodeDecodeError} then Inr None else Inl e
         | _ \<Rightarrow> Inr None))"

text \<open>
  The dict a parser of \<open>POST /checkpoints\<close> returns. \<open>ck_proof\<close> is \<open>None\<close> when the key
  \<open>consistency_proof\<close> is absent (the JSON wire form), \<open>Some None\<close> when its value is \<open>None\<close>.
\<close>

record checkpoint =
  ck_v :: int
  ck_kind :: string
  ck_log_id :: string
  ck_mmr_size :: int
  ck_root :: string
  ck_prev_size :: int
  ck_prev_root :: string
  ck_key_id :: string
  ck_timestamp :: string
  ck_grade :: "string option"
  ck_proof :: "mmr_proof option option"

datatype continuity = FirstSeen | Registered | Witnessed

definition continuity_text :: "continuity \<Rightarrow> string" where
  "continuity_text c = (case c of FirstSeen \<Rightarrow> ''first-seen'' | Registered \<Rightarrow> ''registered''
     | Witnessed \<Rightarrow> ''continuity-witnessed'')"

definition grade_countersigned_observed :: string where
  "grade_countersigned_observed = ''countersigned-observed''"

definition checkpoint_signing_body :: "checkpoint \<Rightarrow> bytes" where
  "checkpoint_signing_body cp = canonical
     [(''v'', JInt (ck_v cp)), (''kind'', JStr (ck_kind cp)), (''log_id'', JStr (ck_log_id cp)),
      (''mmr_size'', JInt (ck_mmr_size cp)), (''root'', JStr (ck_root cp)),
      (''prev_size'', JInt (ck_prev_size cp)), (''prev_root'', JStr (ck_prev_root cp)),
      (''key_id'', JStr (ck_key_id cp)), (''timestamp'', JStr (ck_timestamp cp))]"

definition checkpoint_digest :: "checkpoint \<Rightarrow> string" where
  "checkpoint_digest cp = sha256_hex (checkpoint_signing_body cp)"

section \<open>\<open>AnchorerService\<close>: state\<close>

datatype proof_policy = PolicyOff | PolicyWarn | PolicyEnforce

definition consistency_proof_policies :: "(string \<times> proof_policy) list" where
  "consistency_proof_policies =
     [(''off'', PolicyOff), (''warn'', PolicyWarn), (''enforce'', PolicyEnforce)]"

record anchorer =
  an_attestor :: attestor
  an_proof_policy :: proof_policy
  an_payload_policy :: payload_policy

record svc =
  store :: mem_store
  would_refuse :: "(string \<times> int) list"

definition new_service ::
    "ext \<Rightarrow> attestor option \<Rightarrow> key_provider option \<Rightarrow> bytes \<Rightarrow> string \<Rightarrow> payload_policy option
      \<Rightarrow> mem_store option \<Rightarrow> (anchorer \<times> svc) res" where
  "new_service x att kp entropy policy pp st =
     (case map_of consistency_proof_policies policy of
        None \<Rightarrow> Inl ValueError
      | Some p \<Rightarrow> Inr
          (\<lparr>an_attestor = (case att of Some a \<Rightarrow> a | None \<Rightarrow> new_attestor x kp entropy),
            an_proof_policy = p,
            an_payload_policy = (case pp of Some q \<Rightarrow> q | None \<Rightarrow> default_payload_policy)\<rparr>,
           \<lparr>store = (case st of Some s \<Rightarrow> s | None \<Rightarrow> empty_store), would_refuse = []\<rparr>))"

definition on_store :: "(mem_store \<Rightarrow> mem_store) \<Rightarrow> (svc, unit) op" where
  "on_store f = op_modify (\<lambda>s. s\<lparr>store := f (store s)\<rparr>)"

lemma on_store_run [simp]: "on_store f s = (Inr (), s\<lparr>store := f (store s)\<rparr>)"
  by (simp add: on_store_def)

lemma on_store_bind [simp]: "op_bind (on_store f) g s = g () (s\<lparr>store := f (store s)\<rparr>)"
  by (simp add: on_store_def)

section \<open>The hash-chained log\<close>

definition entry_head_hash :: "entry \<Rightarrow> string" where
  "entry_head_hash e = sha256_hex (tree_head_payload (log_index e) (payload_hash e) (prev_log_hash e))"

definition head_hash :: "mem_store \<Rightarrow> string res" where
  "head_hash s = (case rev (all_entries s) of [] \<Rightarrow> Inl IndexError | e # _ \<Rightarrow> Inr (entry_head_hash e))"

text \<open>The entry \<open>_append_log\<close> builds; \<open>t\<close> is when the attestor signs.\<close>

definition new_entry ::
    "ext \<Rightarrow> attestor \<Rightarrow> string \<Rightarrow> bytes \<Rightarrow> int \<Rightarrow> int \<Rightarrow> mem_store \<Rightarrow> entry res" where
  "new_entry x a knd signed_payload at t s =
     (let i = store_size s; ph = sha256_hex signed_payload in
      rbind (if 0 < i then rbind (head_hash s) (\<lambda>h. Inr (Some h)) else Inr None) (\<lambda>prev.
        Inr \<lparr>log_index = i, logged_at = at, kind = knd, payload_hash = ph,
             log_signature = attest x a (tree_head_payload i ph prev) t, prev_log_hash = prev\<rparr>))"

definition append_log :: "ext \<Rightarrow> attestor \<Rightarrow> string \<Rightarrow> bytes \<Rightarrow> int \<Rightarrow> int \<Rightarrow> (svc, entry) op" where
  "append_log x a knd signed_payload at t =
     op_bind (op_get store) (\<lambda>st.
     op_bind (op_lift (new_entry x a knd signed_payload at t st)) (\<lambda>e.
     op_bind (on_store (append_entry e)) (\<lambda>_. op_return e)))"

text \<open>The loop of \<open>verify_log\<close>: the rest of the log, its first index and the expected head.\<close>

fun verify_from :: "ext \<Rightarrow> attestor \<Rightarrow> int \<Rightarrow> string option \<Rightarrow> entry list \<Rightarrow> bool" where
  "verify_from x a i prev_head [] = True"
| "verify_from x a i prev_head (e # log) =
     (if log_index e \<noteq> i then False
      else if prev_log_hash e \<noteq> prev_head then False
      else
        let head_payload = tree_head_payload (log_index e) (payload_hash e) (prev_log_hash e) in
        if \<not> attestor_verify x a head_payload (log_signature e) then False
        else verify_from x a (i + 1) (Some (sha256_hex head_payload)) log)"

definition verify_log :: "ext \<Rightarrow> anchorer \<Rightarrow> entry list option \<Rightarrow> svc \<Rightarrow> bool" where
  "verify_log x a entries s =
     verify_from x (an_attestor a) 0 None
       (case entries of Some l \<Rightarrow> l | None \<Rightarrow> entries_after 0 (store s))"

definition verify_countersignature :: "ext \<Rightarrow> anchorer \<Rightarrow> croot \<Rightarrow> bool" where
  "verify_countersignature x a r = attestor_verify x (an_attestor a)
     (countersign_payload (cr_tenant_id r) (cr_root_hash r) (cr_seq_range r) (attested_at r))
     (countersignature r)"

section \<open>The CT log\<close>

definition ct_leaves :: "entry list \<Rightarrow> string list res" where
  "ct_leaves log = rmap ct_leaf_hash log"

text \<open>\<open>leaves[:tree_size]\<close> of a size that is not negative.\<close>

definition ct_root :: "int option \<Rightarrow> svc \<Rightarrow> string res" where
  "ct_root tree_size s = rbind (ct_leaves (entries_after 0 (store s))) (\<lambda>leaves.
     let n = (case tree_size of None \<Rightarrow> int (length leaves) | Some n \<Rightarrow> n) in
     if n < 0 \<or> int (length leaves) < n then Inl ValueError
     else merkle_tree_hash (take (nat n) leaves))"

definition sign_and_persist_sth :: "ext \<Rightarrow> attestor \<Rightarrow> int \<Rightarrow> int \<Rightarrow> (svc, sth) op" where
  "sign_and_persist_sth x a timestamp t =
     op_bind (op_get store) (\<lambda>st.
     op_bind (op_lift (ct_leaves (entries_after 0 st))) (\<lambda>leaves.
     op_bind (op_lift (merkle_tree_hash (take (nat (store_size st)) leaves))) (\<lambda>root_hash.
       let h = \<lparr>sth_tree_size = store_size st, sth_root_hash = root_hash, sth_timestamp = timestamp,
                sth_signature = attest x a (sth_payload (store_size st) root_hash timestamp) t\<rparr>
       in op_bind (on_store (put_sth (sth_to_json x h) (store_size st) timestamp)) (\<lambda>_. op_return h))))"

definition get_sth :: "ext \<Rightarrow> anchorer \<Rightarrow> clock \<Rightarrow> (svc, sth) op" where
  "get_sth x a now =
     op_bind (op_get store) (\<lambda>st.
       case get_latest_sth st of
         None \<Rightarrow> sign_and_persist_sth x (an_attestor a) (now 0) (now 1)
       | Some stored_json \<Rightarrow>
           op_bind (op_lift (sth_of_json x stored_json)) (\<lambda>stored.
             if store_size st \<le> sth_tree_size stored then op_return stored
             else sign_and_persist_sth x (an_attestor a) (now 0) (now 1)))"

definition get_sth_at :: "ext \<Rightarrow> int \<Rightarrow> svc \<Rightarrow> sth option res" where
  "get_sth_at x tree_size s =
     (case store_sth_at tree_size (store s) of
        None \<Rightarrow> Inr None
      | Some stored_json \<Rightarrow> rbind (sth_of_json x stored_json) (\<lambda>h. Inr (Some h)))"

definition refresh_sth :: "ext \<Rightarrow> anchorer \<Rightarrow> clock \<Rightarrow> (svc, sth) op" where
  "refresh_sth x a now = sign_and_persist_sth x (an_attestor a) (now 0) (now 1)"

text \<open>The age limit is given in microseconds.\<close>

definition is_sth_stale :: "sth \<Rightarrow> int \<Rightarrow> int \<Rightarrow> int \<Rightarrow> bool" where
  "is_sth_stale h current_log_size max_age now \<longleftrightarrow>
     sth_tree_size h < current_log_size \<or> max_age < now - sth_timestamp h"

definition verify_sth :: "ext \<Rightarrow> anchorer \<Rightarrow> sth \<Rightarrow> bool" where
  "verify_sth x a h = attestor_verify x (an_attestor a)
     (sth_payload (sth_tree_size h) (sth_root_hash h) (sth_timestamp h)) (sth_signature h)"

record ct_inclusion =
  ci_leaf_index :: int
  ci_tree_size :: int
  ci_leaf_hash :: string
  ci_audit_path :: "string list"
  ci_root_hash :: string

record ct_consistency =
  cc_first_size :: int
  cc_second_size :: int
  cc_first_root :: string
  cc_second_root :: string
  cc_proof :: "string list"

definition inclusion_proof_ct :: "int \<Rightarrow> int option \<Rightarrow> svc \<Rightarrow> ct_inclusion res" where
  "inclusion_proof_ct leaf_index tree_size s =
     rbind (ct_leaves (entries_after 0 (store s))) (\<lambda>leaves.
       let n = (case tree_size of None \<Rightarrow> int (length leaves) | Some n \<Rightarrow> n) in
       if \<not> (0 \<le> leaf_index \<and> leaf_index < n \<and> n \<le> int (length leaves)) then Inl IndexError
       else
         let sub = take (nat n) leaves in
         rbind (inclusion_audit_path leaf_index sub) (\<lambda>path.
         rbind (merkle_tree_hash sub) (\<lambda>root_hash.
           Inr \<lparr>ci_leaf_index = leaf_index, ci_tree_size = n, ci_leaf_hash = sub ! nat leaf_index,
                ci_audit_path = path, ci_root_hash = root_hash\<rparr>)))"

definition verify_inclusion_ledger :: "merkle_proof \<Rightarrow> string option \<Rightarrow> bool" where
  "verify_inclusion_ledger p anchored_root_hash =
     (if \<not> verify_merkle_proof p then False
      else \<not> (anchored_root_hash \<noteq> None \<and> Some (mp_root_hash p) \<noteq> anchored_root_hash))"

definition verify_inclusion :: "merkle_proof + ct_inclusion \<Rightarrow> string option \<Rightarrow> bool res" where
  "verify_inclusion p anchored_root_hash =
     (case p of
        Inr c \<Rightarrow> rbind (verify_inclusion_path (ci_leaf_hash c) (ci_leaf_index c) (ci_tree_size c)
                   (ci_audit_path c) (ci_root_hash c)) (\<lambda>good.
          Inr (if \<not> good then False
               else \<not> (anchored_root_hash \<noteq> None \<and> Some (ci_root_hash c) \<noteq> anchored_root_hash)))
      | Inl m \<Rightarrow> Inr (verify_inclusion_ledger m anchored_root_hash))"

definition ct_consistency_proof :: "int \<Rightarrow> int \<Rightarrow> svc \<Rightarrow> ct_consistency res" where
  "ct_consistency_proof old_size new_size s =
     rbind (ct_leaves (entries_after 0 (store s))) (\<lambda>leaves.
       if \<not> (0 \<le> old_size \<and> old_size \<le> new_size \<and> new_size \<le> int (length leaves)) then Inl ValueError
       else
         rbind (merkle_tree_hash (take (nat old_size) leaves)) (\<lambda>first_root.
         rbind (merkle_tree_hash (take (nat new_size) leaves)) (\<lambda>second_root.
         rbind (if old_size = 0 \<or> old_size = new_size then Inr []
                else consistency_proof old_size new_size leaves) (\<lambda>p.
           Inr \<lparr>cc_first_size = old_size, cc_second_size = new_size, cc_first_root = first_root,
                cc_second_root = second_root, cc_proof = p\<rparr>))))"

definition verify_ct_consistency :: "ct_consistency \<Rightarrow> bool res" where
  "verify_ct_consistency p = verify_consistency_proof (cc_first_size p) (cc_second_size p)
     (cc_first_root p) (cc_second_root p) (cc_proof p)"

section \<open>Anchoring a tenant root\<close>

record anchor_receipt =
  ar_root_hash :: string
  ar_tenant_id :: string
  ar_anchored_at :: int
  ar_location :: string
  ar_log_index :: int
  ar_countersignature :: sig
  ar_payload_hash :: string
  ar_prev_log_hash :: "string option"
  ar_seq_range :: "int \<times> int"
  ar_tsa :: "bytes option"

text \<open>
  \<open>tsa\<close> is \<open>None\<close> when time-stamping is off, else the HTTP exchange. Only \<open>TsaError\<close> is
  caught. The receipt's base64 form of the token is left out.
\<close>

definition tsa_signature_for :: "(bytes \<Rightarrow> bytes option) option \<Rightarrow> string \<Rightarrow> bytes option res" where
  "tsa_signature_for tsa root_hash =
     (case tsa of
        None \<Rightarrow> Inr None
      | Some post \<Rightarrow>
          (case timestamp_root_hash post root_hash of
             Inr tok \<Rightarrow> Inr (Some tok)
           | Inl e \<Rightarrow> if e = TsaError then Inr None else Inl e))"

definition anchor ::
    "ext \<Rightarrow> anchorer \<Rightarrow> clock \<Rightarrow> (bytes \<Rightarrow> bytes option) option \<Rightarrow> string \<Rightarrow> string \<Rightarrow> int \<times> int
      \<Rightarrow> string option \<Rightarrow> (svc, anchor_receipt) op" where
  "anchor x a now tsa tenant_id root_hash seq_range capsule_id =
     (let at = now 0;
          cs_payload = countersign_payload tenant_id root_hash seq_range at;
          cs = attest x (an_attestor a) cs_payload (now 1);
          countersigned = \<lparr>cr_tenant_id = tenant_id, cr_root_hash = root_hash,
            cr_seq_range = seq_range, attested_at = at, countersignature = cs\<rparr>
      in
      op_bind (append_log x (an_attestor a) log_kind_root cs_payload at (now 2)) (\<lambda>e.
      op_bind (on_store (put_root countersigned)) (\<lambda>_.
      op_bind (case capsule_id of None \<Rightarrow> op_return ()
               | Some c \<Rightarrow> on_store (put_capsule_id (log_index e) c)) (\<lambda>_.
      op_bind (op_lift (tsa_signature_for tsa root_hash)) (\<lambda>tok.
        op_return
          \<lparr>ar_root_hash = root_hash, ar_tenant_id = tenant_id, ar_anchored_at = at,
           ar_location = ''as-transparency-log://entry/'' @ show_int (log_index e),
           ar_log_index = log_index e, ar_countersignature = cs, ar_payload_hash = payload_hash e,
           ar_prev_log_hash = prev_log_hash e, ar_seq_range = seq_range, ar_tsa = tok\<rparr>)))))"

definition get_countersigned_root :: "string \<Rightarrow> string \<Rightarrow> svc \<Rightarrow> croot option" where
  "get_countersigned_root tenant_id root_hash s = get_root tenant_id root_hash (store s)"

definition transparency_log :: "int \<Rightarrow> svc \<Rightarrow> entry list" where
  "transparency_log after_index s = entries_after after_index (store s)"

definition transparency_log_for_capsule :: "string \<Rightarrow> svc \<Rightarrow> entry list" where
  "transparency_log_for_capsule capsule_id s = entries_for_capsule capsule_id (store s)"

section \<open>Checkpoint gates\<close>

definition bump_refusals :: "string \<Rightarrow> (svc, unit) op" where
  "bump_refusals log_id = op_modify (\<lambda>s. s\<lparr>would_refuse := dict_set log_id
     ((case map_of (would_refuse s) log_id of None \<Rightarrow> 0 | Some n \<Rightarrow> n) + 1) (would_refuse s)\<rparr>)"

definition refuse_or_count :: "anchorer \<Rightarrow> string \<Rightarrow> witness \<Rightarrow> (svc, unit) op" where
  "refuse_or_count a log_id prev =
     (if an_proof_policy a = PolicyEnforce
      then op_raise (ConsistencyProofRequiredError (w_mmr_size prev) (w_mmr_root prev))
      else bump_refusals log_id)"

definition consistency_proof_policy_applies :: "checkpoint \<Rightarrow> bool" where
  "consistency_proof_policy_applies cp \<longleftrightarrow>
     ck_proof cp \<noteq> None \<and> ck_grade cp \<noteq> Some grade_countersigned_observed"

definition apply_consistency_proof_policy :: "anchorer \<Rightarrow> checkpoint \<Rightarrow> witness \<Rightarrow> (svc, unit) op" where
  "apply_consistency_proof_policy a cp prev =
     (if an_proof_policy a = PolicyOff then op_return ()
      else if \<not> consistency_proof_policy_applies cp then op_return ()
      else refuse_or_count a (ck_log_id cp) prev)"

definition apply_consistency_proof_policy_legacy :: "anchorer \<Rightarrow> legacy_cp \<Rightarrow> witness \<Rightarrow> (svc, unit) op" where
  "apply_consistency_proof_policy_legacy a cp prev =
     (if an_proof_policy a = PolicyOff then op_return () else refuse_or_count a (lc_log_id cp) prev)"

text \<open>The legacy gate of the \<open>mmr-checkpoint\<close> statement payload: its result is a status text.\<close>

definition check_checkpoint_consistency :: "anchorer \<Rightarrow> legacy_cp \<Rightarrow> (svc, string) op" where
  "check_checkpoint_consistency a cp =
     op_bind (op_get store) (\<lambda>st.
       case get_checkpoint_witness (lc_log_id cp) st of
         None \<Rightarrow> op_return ''first-seen''
       | Some prev \<Rightarrow>
           op_bind (apply_consistency_proof_policy_legacy a cp prev) (\<lambda>_.
             if lc_prev_size cp \<noteq> w_mmr_size prev \<or> lc_mmr_size cp \<le> w_mmr_size prev
             then op_raise RollbackError
             else op_return ''witnessed''))"

definition check_checkpoint_continuity :: "ext \<Rightarrow> anchorer \<Rightarrow> checkpoint \<Rightarrow> (svc, continuity) op" where
  "check_checkpoint_continuity x a cp =
     op_bind (op_get store) (\<lambda>st.
       case get_checkpoint_witness (ck_log_id cp) st of
         None \<Rightarrow> op_return FirstSeen
       | Some prev \<Rightarrow>
         (case ck_proof cp of
            Some (Some pf) \<Rightarrow>
              if ck_prev_size cp \<noteq> w_mmr_size prev \<or> ck_prev_root cp \<noteq> w_mmr_root prev
              then op_raise (ContinuityMismatchError (w_mmr_size prev) (w_mmr_root prev))
              else
                op_bind (op_lift (fromhex (w_mmr_root prev))) (\<lambda>old.
                op_bind (op_lift (fromhex (ck_root cp))) (\<lambda>new.
                  if \<not> mmr_verify x old (w_mmr_size prev) new (ck_mmr_size cp) pf
                  then op_raise (ContinuityMismatchError (w_mmr_size prev) (w_mmr_root prev))
                  else op_return Witnessed))
          | _ \<Rightarrow> op_bind (apply_consistency_proof_policy a cp prev) (\<lambda>_. op_return Registered)))"

section \<open>Registration\<close>

definition max_statement_bytes :: nat where "max_statement_bytes = 64 * 1024"

text \<open>\<open>checkpoint_witness\<close> of the result: the fields and a status.\<close>

record registration =
  rg_receipt :: bytes
  rg_entry_hash :: string
  rg_leaf_index :: int
  rg_tree_size :: int
  rg_scheme :: hash_scheme
  rg_witness :: "(legacy_cp \<times> string) option"
  rg_subject :: "string option"
  rg_continuity :: "string option"

text \<open>What is read from the statement before the lock is taken.\<close>

record peeked =
  pk_preimage :: bytes
  pk_scheme :: hash_scheme
  pk_entry_hash :: string
  pk_legacy_hash :: string
  pk_subject :: "string option"
  pk_digest :: "string option"
  pk_form :: "payload_form option"
  pk_checkpoint :: "legacy_cp option"

definition protected_map :: "ext \<Rightarrow> bytes \<Rightarrow> (cbor \<times> cbor) list option" where
  "protected_map x protected_bstr =
     (if protected_bstr = [] then Some []
      else case cbor_loads x protected_bstr of
          None \<Rightarrow> Some []
        | Some (CMap m) \<Rightarrow> Some m
        | Some _ \<Rightarrow> None)"

definition peek_statement :: "ext \<Rightarrow> anchorer \<Rightarrow> bytes \<Rightarrow> peeked res" where
  "peek_statement x a statement =
     (if max_statement_bytes < length statement then Inl ValueError
      else
        let (preimage, scheme) = entry_hash_preimage x statement;
            entry_hash = sha256_hex preimage;
            legacy_hash = (if scheme = SchemeLegacy then entry_hash else legacy_entry_hash statement)
        in case decode_cose_sign1 x statement of
            None \<Rightarrow> Inr \<lparr>pk_preimage = preimage, pk_scheme = scheme, pk_entry_hash = entry_hash,
              pk_legacy_hash = legacy_hash, pk_subject = None, pk_digest = None, pk_form = None,
              pk_checkpoint = None\<rparr>
          | Some (protected_bstr, _, payload, _) \<Rightarrow>
              let protected = protected_map x protected_bstr;
                  subject = (case protected of None \<Rightarrow> None | Some m \<Rightarrow> peek_unauthenticated_subject x m);
                  (digest, form) = stored_payload (case protected of None \<Rightarrow> [] | Some m \<Rightarrow> m) payload
                    (an_payload_policy a)
              in rbind (if scheme = SchemeSigStructure then parse_checkpoint_payload x payload else Inr None)
                (\<lambda>fields. Inr \<lparr>pk_preimage = preimage, pk_scheme = scheme, pk_entry_hash = entry_hash,
                   pk_legacy_hash = legacy_hash, pk_subject = subject, pk_digest = digest,
                   pk_form = form, pk_checkpoint = fields\<rparr>))"

definition cached_statement :: "peeked \<Rightarrow> mem_store \<Rightarrow> (statement \<times> hash_scheme) option" where
  "cached_statement pk s =
     (case get_statement (pk_entry_hash pk) s of
        Some st \<Rightarrow> Some (st, pk_scheme pk)
      | None \<Rightarrow> if pk_entry_hash pk \<noteq> pk_legacy_hash pk then
                  (case get_statement (pk_legacy_hash pk) s of None \<Rightarrow> None | Some st \<Rightarrow> Some (st, SchemeLegacy))
                else None)"

definition cached_registration ::
    "peeked \<Rightarrow> checkpoint option \<Rightarrow> statement \<times> hash_scheme \<Rightarrow> mem_store \<Rightarrow> registration" where
  "cached_registration pk cont cached s =
     (case cached of ((receipt, leaf_index, tree_size), scheme) \<Rightarrow>
      \<lparr>rg_receipt = receipt,
       rg_entry_hash = (if scheme = SchemeLegacy then pk_legacy_hash pk else pk_entry_hash pk),
       rg_leaf_index = leaf_index, rg_tree_size = tree_size, rg_scheme = scheme,
       rg_witness = (case pk_checkpoint pk of None \<Rightarrow> None | Some f \<Rightarrow> Some (f, ''already-registered'')),
       rg_subject = pk_subject pk,
       rg_continuity = (case cont of None \<Rightarrow> None | Some cp \<Rightarrow>
         (case get_checkpoint_record (ck_log_id cp) (ck_mmr_size cp) s of
            None \<Rightarrow> None | Some (_, r) \<Rightarrow> cr_continuity r))\<rparr>)"

definition continuity_assertion :: "ext \<Rightarrow> anchorer \<Rightarrow> checkpoint \<Rightarrow> int \<Rightarrow> cbor" where
  "continuity_assertion x a cp at = CMap
     [(CText ''policy_id'', CText ''cll-continuity/v1''),
      (CText ''log_id'', CText (ck_log_id cp)),
      (CText ''prev_size'', CInt (ck_prev_size cp)),
      (CText ''prev_root'', CText (ck_prev_root cp)),
      (CText ''mmr_size'', CInt (ck_mmr_size cp)),
      (CText ''root'', CText (ck_root cp)),
      (CText ''checked'', CList [CText ''prev_equality'', CText ''consistency_proof'']),
      (CText ''witness_key_id'', CText (attestor_key_id x (an_attestor a))),
      (CText ''ts'', CText (isoformat at))]"

text \<open>The receipt for the entry just appended, over the tree of the whole log.\<close>

definition issue_receipt ::
    "ext \<Rightarrow> anchorer \<Rightarrow> int \<Rightarrow> int \<Rightarrow> string option \<Rightarrow> cbor option \<Rightarrow> int \<Rightarrow> mem_store
      \<Rightarrow> (bytes \<times> int) res" where
  "issue_receipt x a at t grade assertion leaf_index st =
     rbind (ct_leaves (entries_after 0 st)) (\<lambda>leaves.
     rbind (inclusion_audit_path leaf_index leaves) (\<lambda>audit_hex.
     rbind (merkle_tree_hash leaves) (\<lambda>root_hex.
     rbind (rmap fromhex audit_hex) (\<lambda>audit_path.
     rbind (fromhex root_hex) (\<lambda>root_bytes.
     rbind (build_cose_receipt x (int (length leaves)) leaf_index audit_path root_bytes
       (\<lambda>payload. fromhex (sig_hex (attest x (an_attestor a) payload t)))
       (Some (at div 1000000)) grade assertion) (\<lambda>receipt.
       Inr (receipt, int (length leaves))))))))"

definition witness_of_legacy :: "legacy_cp \<Rightarrow> witness" where
  "witness_of_legacy f = \<lparr>w_mmr_size = lc_mmr_size f, w_mmr_root = lc_mmr_root f,
     w_key_id = lc_key_id f, w_timestamp = lc_timestamp f\<rparr>"

definition witness_of :: "checkpoint \<Rightarrow> witness" where
  "witness_of cp = \<lparr>w_mmr_size = ck_mmr_size cp, w_mmr_root = ck_root cp,
     w_key_id = ck_key_id cp, w_timestamp = ck_timestamp cp\<rparr>"

definition when_some :: "'a option \<Rightarrow> ('a \<Rightarrow> (svc, unit) op) \<Rightarrow> (svc, unit) op" where
  "when_some v f = (case v of None \<Rightarrow> op_return () | Some y \<Rightarrow> f y)"

text \<open>What follows the receipt: the cache, the subject index, the tree head, the witness state.\<close>

definition commit_registration ::
    "ext \<Rightarrow> anchorer \<Rightarrow> clock \<Rightarrow> checkpoint option \<Rightarrow> continuity option \<Rightarrow> string option \<Rightarrow> peeked
      \<Rightarrow> int \<Rightarrow> bytes \<Rightarrow> int \<Rightarrow> (svc, registration) op" where
  "commit_registration x a now cont continuity_grade witness_status pk leaf_index receipt tree_size =
     op_bind (on_store (put_statement (pk_entry_hash pk) (receipt, leaf_index, tree_size))) (\<lambda>_.
     op_bind (when_some (pk_subject pk) (\<lambda>subject. on_store (put_subject_index subject (pk_entry_hash pk)
         (pk_digest pk) (map_option form_text (pk_form pk))))) (\<lambda>_.
     op_bind (sign_and_persist_sth x (an_attestor a) (now 3) (now 4)) (\<lambda>_.
     op_bind (when_some (pk_checkpoint pk) (\<lambda>f.
         on_store (put_checkpoint_witness (lc_log_id f) (witness_of_legacy f)))) (\<lambda>_.
     op_bind (when_some (if continuity_grade \<in> {Some FirstSeen, Some Witnessed} then cont else None) (\<lambda>cp.
         on_store (put_checkpoint_witness (ck_log_id cp) (witness_of cp)))) (\<lambda>_.
       op_return
         \<lparr>rg_receipt = receipt, rg_entry_hash = pk_entry_hash pk, rg_leaf_index = leaf_index,
          rg_tree_size = tree_size, rg_scheme = pk_scheme pk,
          rg_witness = (case pk_checkpoint pk of None \<Rightarrow> None | Some f \<Rightarrow> Some (f, the witness_status)),
          rg_subject = pk_subject pk,
          rg_continuity = map_option continuity_text continuity_grade\<rparr>)))))"

text \<open>The two gates, before anything is appended.\<close>

definition run_gates :: "ext \<Rightarrow> anchorer \<Rightarrow> checkpoint option \<Rightarrow> peeked \<Rightarrow> (svc, string option \<times> continuity option) op" where
  "run_gates x a cont pk =
     op_bind (case pk_checkpoint pk of None \<Rightarrow> op_return None
              | Some f \<Rightarrow> op_bind (check_checkpoint_consistency a f) (\<lambda>status. op_return (Some status)))
       (\<lambda>witness_status.
     op_bind (case cont of None \<Rightarrow> op_return None
              | Some cp \<Rightarrow> op_bind (check_checkpoint_continuity x a cp) (\<lambda>g. op_return (Some g)))
       (\<lambda>continuity_grade. op_return (witness_status, continuity_grade)))"

text \<open>Registration of a statement that is not cached, inside the lock.\<close>

definition register_new ::
    "ext \<Rightarrow> anchorer \<Rightarrow> clock \<Rightarrow> string option \<Rightarrow> checkpoint option \<Rightarrow> peeked \<Rightarrow> (svc, registration) op" where
  "register_new x a now grade cont pk =
     op_bind (run_gates x a cont pk) (\<lambda>gates.
     op_bind (append_log x (an_attestor a) log_kind_scitt (pk_preimage pk) (now 0) (now 1)) (\<lambda>e.
     op_bind (op_get store) (\<lambda>st.
     op_bind (op_lift (issue_receipt x a (now 0) (now 2) grade
         (case cont of Some cp \<Rightarrow> (if snd gates = Some Witnessed
            then Some (continuity_assertion x a cp (now 0)) else None) | None \<Rightarrow> None)
         (log_index e) st)) (\<lambda>issued.
       commit_registration x a now cont (snd gates) (fst gates) pk (log_index e) (fst issued) (snd issued)))))"

definition register_signed_statement_full ::
    "ext \<Rightarrow> anchorer \<Rightarrow> clock \<Rightarrow> bytes \<Rightarrow> string option \<Rightarrow> checkpoint option \<Rightarrow> (svc, registration) op" where
  "register_signed_statement_full x a now statement grade cont =
     op_bind (op_lift (peek_statement x a statement)) (\<lambda>pk.
     op_bind (op_get store) (\<lambda>st.
       case cached_statement pk st of
         Some cached \<Rightarrow> op_return (cached_registration pk cont cached st)
       | None \<Rightarrow> register_new x a now grade cont pk))"

definition register_signed_statement ::
    "ext \<Rightarrow> anchorer \<Rightarrow> clock \<Rightarrow> bytes \<Rightarrow> (svc, bytes \<times> string \<times> int \<times> int) op" where
  "register_signed_statement x a now statement =
     op_bind (register_signed_statement_full x a now statement None None) (\<lambda>r.
       op_return (rg_receipt r, rg_entry_hash r, rg_leaf_index r, rg_tree_size r))"

definition record_checkpoint_read_surface :: "checkpoint \<Rightarrow> registration \<Rightarrow> (svc, unit) op" where
  "record_checkpoint_read_surface cp result = on_store (\<lambda>st. snd (put_checkpoint_record
     (ck_log_id cp) (ck_mmr_size cp)
     \<lparr>cr_root = ck_root cp, cr_prev_size = ck_prev_size cp, cr_prev_root = ck_prev_root cp,
      cr_key_id = ck_key_id cp, cr_timestamp = ck_timestamp cp, cr_grade = ck_grade cp,
      cr_entry_hash = rg_entry_hash result, cr_scheme = scheme_text (rg_scheme result),
      cr_leaf_index = rg_leaf_index result, cr_tree_size = rg_tree_size result,
      cr_receipt = rg_receipt result, cr_continuity = rg_continuity result\<rparr> st))"

definition witness_checkpoint :: "ext \<Rightarrow> anchorer \<Rightarrow> clock \<Rightarrow> checkpoint \<Rightarrow> (svc, registration) op" where
  "witness_checkpoint x a now cp =
     op_bind (op_lift (fromhex (checkpoint_digest cp))) (\<lambda>digest.
     op_bind (register_signed_statement_full x a now digest (ck_grade cp) (Some cp)) (\<lambda>result.
     op_bind (record_checkpoint_read_surface cp result) (\<lambda>_. op_return result)))"

definition get_checkpoint_readback :: "string \<Rightarrow> svc \<Rightarrow> ((int \<times> cp_record) \<times> equivocation list) option" where
  "get_checkpoint_readback log_id s =
     (case get_last_checkpoint_record log_id (store s) of
        None \<Rightarrow> None
      | Some r \<Rightarrow> Some (r, get_checkpoint_equivocations log_id (store s)))"

definition prune_expired_statements :: "environ \<Rightarrow> int \<Rightarrow> (svc, int) op" where
  "prune_expired_statements env now =
     op_bind (op_lift (entry_retention_seconds env)) (\<lambda>seconds.
       case seconds of
         None \<Rightarrow> op_return 0
       | Some n \<Rightarrow> (\<lambda>s. case prune_statements_older_than (now - n * 1000000) (store s) of
             (r, st) \<Rightarrow> (r, s\<lparr>store := st\<rparr>)))"

definition get_registered_statement :: "string \<Rightarrow> svc \<Rightarrow> statement option" where
  "get_registered_statement h s = get_statement h (store s)"

definition get_statements_by_subject :: "string \<Rightarrow> svc \<Rightarrow> (subject_row \<times> statement) list" where
  "get_statements_by_subject subject s =
     concat (map (\<lambda>row. case get_statement (fst row) (store s) of None \<Rightarrow> [] | Some st \<Rightarrow> [(row, st)])
       (get_by_subject subject (store s)))"

end
