(* ===== verification/LogChain.thy ===== *)
theory LogChain
  imports Service CtConsistency
begin

text \<open>
  The contract of an append-only log store and what follows from it for any backend: the hash
  chain stays verifiable under an append, the CT leaves are the hashes of the entries, and
  the log only grows. The in-memory store meets the contract here; the SQL stores refine it.
\<close>

section \<open>The contract\<close>

definition contiguous :: "entry list \<Rightarrow> bool" where
  "contiguous log \<longleftrightarrow> map log_index log = map int [0..<length log]"

lemma contiguous_Nil [simp]: "contiguous []"
  by (simp add: contiguous_def)

lemma contiguous_snoc [simp]:
  "contiguous (log @ [e]) \<longleftrightarrow> contiguous log \<and> log_index e = int (length log)"
  by (simp add: contiguous_def)

lemma contiguous_nth: "contiguous log \<Longrightarrow> i < length log \<Longrightarrow> log_index (log ! i) = int i"
  unfolding contiguous_def by (metis add_0 length_map map_nth nth_map nth_upt)

lemma contiguous_nonneg: "contiguous log \<Longrightarrow> e \<in> set log \<Longrightarrow> 0 \<le> log_index e"
  by (metis contiguous_nth in_set_conv_nth of_nat_0_le_iff)

locale log_store =
  fixes log_of :: "'s \<Rightarrow> entry list"
    and append :: "entry \<Rightarrow> 's \<Rightarrow> 's"
    and size_of :: "'s \<Rightarrow> int"
    and after :: "int \<Rightarrow> 's \<Rightarrow> entry list"
    and ok :: "'s \<Rightarrow> bool"
  assumes ok_contiguous: "ok s \<Longrightarrow> contiguous (log_of s)"
    and size_of: "ok s \<Longrightarrow> size_of s = int (length (log_of s))"
    and after: "ok s \<Longrightarrow> after i s = filter (\<lambda>e. i \<le> log_index e) (log_of s)"
    and log_append: "ok s \<Longrightarrow> log_index e = size_of s \<Longrightarrow> log_of (append e s) = log_of s @ [e]"
    and ok_append: "ok s \<Longrightarrow> log_index e = size_of s \<Longrightarrow> ok (append e s)"
begin

lemma after_zero: "ok s \<Longrightarrow> after 0 s = log_of s"
  using ok_contiguous [of s] by (simp add: after contiguous_nonneg)

lemma after_size: "ok s \<Longrightarrow> after (size_of s) s = []"
proof -
  assume ok: "ok s"
  then have "log_index e < size_of s" if "e \<in> set (log_of s)" for e
    using that contiguous_nth [OF ok_contiguous [OF ok]] by (auto simp: size_of in_set_conv_nth)
  then show ?thesis using ok by (auto simp: after filter_empty_conv not_le)
qed

lemma after_append:
  "ok s \<Longrightarrow> log_index e = size_of s \<Longrightarrow> i \<le> size_of s \<Longrightarrow> after i (append e s) = after i s @ [e]"
  by (simp add: after ok_append log_append)

lemma size_append: "ok s \<Longrightarrow> log_index e = size_of s \<Longrightarrow> size_of (append e s) = size_of s + 1"
  by (simp add: size_of ok_append log_append)

text \<open>A monitor that keeps reading from where it stopped sees the whole log, each entry once.\<close>

lemma monitor_feed:
  "ok s \<Longrightarrow> 0 \<le> i \<Longrightarrow> i \<le> size_of s \<Longrightarrow> filter (\<lambda>e. log_index e < i) (after 0 s) @ after i s = log_of s"
proof -
  assume ok: "ok s" and i: "0 \<le> i" "i \<le> size_of s"
  let ?n = "nat i"
  have cont: "contiguous (log_of s)" and sz: "?n \<le> length (log_of s)"
    using ok i ok_contiguous size_of by auto
  have low: "log_index e < i" if "e \<in> set (take ?n (log_of s))" for e
    using that contiguous_nth [OF cont] sz i by (auto simp: in_set_conv_nth)
  have high: "i \<le> log_index e" if "e \<in> set (drop ?n (log_of s))" for e
    using that contiguous_nth [OF cont] sz i by (auto simp: in_set_conv_nth)
  have split: "filter P (log_of s) = filter P (take ?n (log_of s)) @ filter P (drop ?n (log_of s))" for P
    by (metis append_take_drop_id filter_append)
  have "filter (\<lambda>e. log_index e < i) (log_of s) = take ?n (log_of s)"
    unfolding split using low high by (force simp: filter_empty_conv filter_id_conv)
  moreover have "filter (\<lambda>e. i \<le> log_index e) (log_of s) = drop ?n (log_of s)"
    unfolding split using low high by (force simp: filter_empty_conv filter_id_conv)
  ultimately show ?thesis using ok after_zero [OF ok] by (simp add: after)
qed

end

section \<open>The in-memory store meets it\<close>

definition mem_ok :: "mem_store \<Rightarrow> bool" where
  "mem_ok s \<longleftrightarrow> contiguous (m_log s)"

interpretation mem: log_store all_entries append_entry store_size entries_after mem_ok
  by unfold_locales
    (simp_all add: mem_ok_def all_entries_def append_entry_def store_size_def entries_after_def)

section \<open>The hash chain\<close>

definition chain_head :: "entry list \<Rightarrow> string option" where
  "chain_head log = (if log = [] then None else Some (entry_head_hash (last log)))"

lemma verify_from_append:
  "verify_from x a i prev (log @ [e]) \<longleftrightarrow> verify_from x a i prev log \<and>
     verify_from x a (i + int (length log)) (if log = [] then prev else Some (entry_head_hash (last log))) [e]"
  by (induction log arbitrary: i prev) (auto simp: Let_def entry_head_hash_def add.assoc)

lemma verify_from_contiguous: "verify_from x a i prev log \<Longrightarrow> map log_index log = map (\<lambda>k. i + int k) [0..<length log]"
proof (induction log arbitrary: i prev)
  case (Cons e log)
  then have "log_index e = i" "map log_index log = map (\<lambda>k. i + 1 + int k) [0..<length log]"
    by (auto simp: Let_def split: if_splits)
  then show ?case by (simp add: upt_conv_Cons map_Suc_upt [symmetric] ac_simps del: upt_Suc map_Suc_upt)
qed simp

lemma verify_from_take: "verify_from x a i prev log \<Longrightarrow> verify_from x a i prev (take n log)"
proof (induction log arbitrary: i prev n)
  case (Cons e log)
  then show ?case by (cases n) (auto simp: Let_def split: if_splits)
qed simp

lemma new_entry_eq:
  "new_entry x a knd p at t s = Inr
     \<lparr>log_index = store_size s, logged_at = at, kind = knd, payload_hash = sha256_hex p,
      log_signature = attest x a (tree_head_payload (store_size s) (sha256_hex p) (chain_head (m_log s))) t,
      prev_log_hash = chain_head (m_log s)\<rparr>"
proof (cases "m_log s" rule: rev_cases)
  case Nil
  then show ?thesis by (simp add: new_entry_def store_size_def chain_head_def Let_def)
next
  case (snoc log e)
  then show ?thesis by (simp add: new_entry_def store_size_def chain_head_def head_hash_def all_entries_def Let_def)
qed

lemma verify_from_new_entry:
  assumes "verify_from x a 0 None (m_log s)" "attestor_ok x a" "new_entry x a knd p at t s = Inr e"
  shows "verify_from x a 0 None (m_log s @ [e])"
  using assms attestor_ok_verify [OF assms(2)]
  by (cases "m_log s = []") (auto simp: new_entry_eq verify_from_append store_size_def chain_head_def Let_def)

lemma append_log_run:
  "\<exists>e. new_entry x a knd p at t (store s) = Inr e \<and>
     append_log x a knd p at t s = (Inr e, s\<lparr>store := append_entry e (store s)\<rparr>)"
  by (simp add: append_log_def new_entry_eq)

section \<open>CT leaves\<close>

definition hashed_entries :: "entry list \<Rightarrow> bool" where
  "hashed_entries log \<longleftrightarrow> (\<forall>e \<in> set log. \<exists>p. payload_hash e = sha256_hex p)"

definition leaf_preimage :: "entry \<Rightarrow> bytes" where
  "leaf_preimage e = (case ct_leaf_payload e of Inl _ \<Rightarrow> [] | Inr b \<Rightarrow> b)"

definition leaf_digest :: "entry \<Rightarrow> bytes" where
  "leaf_digest e = sha256 (0x00 # leaf_preimage e)"

lemma ct_leaf_hash_hex:
  "\<exists>p. payload_hash e = sha256_hex p \<Longrightarrow> ct_leaf_hash e = Inr (hex (leaf_digest e))"
  by (auto simp: ct_leaf_hash_def ct_leaf_payload_def leaf_digest_def leaf_preimage_def leaf_hash_def sha256_hex_def)

lemma ct_leaves_hex: "hashed_entries log \<Longrightarrow> ct_leaves log = Inr (map hex (map leaf_digest log))"
  by (simp add: ct_leaves_def hashed_entries_def rmap_Inr [where g = "\<lambda>e. hex (leaf_digest e)"] ct_leaf_hash_hex)

lemma digests_leaves [simp]: "digests (map leaf_digest log)"
  by (simp add: digests_def leaf_digest_def list_all_iff)

definition log_root :: "entry list \<Rightarrow> string" where
  "log_root log = hex (mth (map leaf_digest log))"

lemma fromhex_log_root [simp]: "fromhex (log_root log) = Inr (mth (map leaf_digest log))"
  by (simp add: log_root_def)

section \<open>The chain binds the history\<close>

lemma sorted_tree_head:
  "sort_key fst [(''log_index'', a), (''payload_hash'', b), (''prev_log_hash'', c)] =
   [(''log_index'', a), (''payload_hash'', b), (''prev_log_hash'', c :: string)]"
  by (intro sort_key_id_if_sorted) simp

lemma tree_head_text:
  "tree_head_payload i ph prev = utf8 (''{'' @ json_string ''log_index'' @ '':'' @ show_int i @
     '','' @ json_string ''payload_hash'' @ '':'' @ json_string ph @
     '','' @ json_string ''prev_log_hash'' @ '':'' @ json_dumps (jopt_str prev) @ ''}'')"
  by (simp add: tree_head_payload_def canonical_def sorted_tree_head)

lemma tree_head_payload_inj:
  assumes "tree_head_payload i ph prev = tree_head_payload j qh qrev"
  shows "i = j \<and> ph = qh \<and> prev = qrev"
proof -
  have "show_int i @ '','' @ json_string ''payload_hash'' @ '':'' @ json_string ph @
     '','' @ json_string ''prev_log_hash'' @ '':'' @ json_dumps (jopt_str prev) @ ''}'' =
    show_int j @ '','' @ json_string ''payload_hash'' @ '':'' @ json_string qh @
     '','' @ json_string ''prev_log_hash'' @ '':'' @ json_dumps (jopt_str qrev) @ ''}''"
    using assms by (simp only: tree_head_text utf8_eq_iff append_Cons append_Nil list.inject same_append_eq simp_thms)
  moreover have "no_digit_first ('','' @ r)" for r
    by (simp add: no_digit_first_def is_digit_def)
  ultimately have "i = j" and rest: "'','' @ json_string ''payload_hash'' @ '':'' @ json_string ph @
     '','' @ json_string ''prev_log_hash'' @ '':'' @ json_dumps (jopt_str prev) @ ''}'' =
    '','' @ json_string ''payload_hash'' @ '':'' @ json_string qh @
     '','' @ json_string ''prev_log_hash'' @ '':'' @ json_dumps (jopt_str qrev) @ ''}''"
    using show_int_delimited by blast+
  from rest have "json_string ph @ '','' @ json_string ''prev_log_hash'' @ '':'' @ json_dumps (jopt_str prev) @ ''}'' =
    json_string qh @ '','' @ json_string ''prev_log_hash'' @ '':'' @ json_dumps (jopt_str qrev) @ ''}''"
    by (simp only: append_Cons append_Nil list.inject same_append_eq simp_thms)
  from json_string_delimited [OF this] have "ph = qh"
    and rest: "'','' @ json_string ''prev_log_hash'' @ '':'' @ json_dumps (jopt_str prev) @ ''}'' =
      '','' @ json_string ''prev_log_hash'' @ '':'' @ json_dumps (jopt_str qrev) @ ''}''" by blast+
  from rest have "json_dumps (jopt_str prev) @ ''}'' = json_dumps (jopt_str qrev) @ ''}''"
    by (simp only: append_Cons append_Nil list.inject same_append_eq simp_thms)
  then have "prev = qrev" using jopt_str_delimited by blast
  with \<open>i = j\<close> \<open>ph = qh\<close> show ?thesis by simp
qed

definition head_input :: "entry \<Rightarrow> bytes" where
  "head_input e = tree_head_payload (log_index e) (payload_hash e) (prev_log_hash e)"

lemma entry_head_hash_input: "entry_head_hash e = sha256_hex (head_input e)"
  by (simp add: entry_head_hash_def head_input_def)

lemma verify_snoc:
  "verify_from x a 0 None (log @ [e]) \<Longrightarrow>
   verify_from x a 0 None log \<and> prev_log_hash e = chain_head log \<and> log_index e = int (length log)"
  by (auto simp: verify_from_append chain_head_def Let_def split: if_splits)

lemma chain_binds:
  assumes "verify_from x a 0 None log" "verify_from y b 0 None log'" "chain_head log = chain_head log'"
    and "set (map head_input log) \<union> set (map head_input log') \<subseteq> A"
  shows "map payload_hash log = map payload_hash log' \<or> collision_in A"
  using assms
proof (induction log arbitrary: log' rule: rev_induct)
  case Nil
  then show ?case by (cases log') (simp_all add: chain_head_def)
next
  case (snoc e log)
  then obtain log1 e1 where log': "log' = log1 @ [e1]"
    by (cases log' rule: rev_cases) (simp_all add: chain_head_def)
  have head: "sha256_hex (head_input e) = sha256_hex (head_input e1)"
    using snoc.prems(3) by (simp add: chain_head_def log' entry_head_hash_input)
  then have "head_input e = head_input e1 \<or> collision_in A"
    using sha256_eqD [OF sha256_hex_eqD [OF head], of A] snoc.prems(4) log' by simp
  moreover have ?case if "head_input e = head_input e1"
  proof -
    have eq: "payload_hash e = payload_hash e1" "prev_log_hash e = prev_log_hash e1"
      using that tree_head_payload_inj by (simp_all add: head_input_def)
    have "map payload_hash log = map payload_hash log1 \<or> collision_in A"
      using snoc.IH [of log1] verify_snoc [OF snoc.prems(1)] verify_snoc [of y b log1 e1] snoc.prems(2,4) eq log' by simp
    with eq log' show ?thesis by auto
  qed
  ultimately show ?case by blast
qed

end
