(* ===== verification/ServiceInv.thy ===== *)
theory ServiceInv
  imports LogChain "HOL-Library.Sublist"
begin

text \<open>
  The invariant of \<open>AnchorerService\<close> and the preorder its states move along. \<open>store_inv\<close>: the
  hash chain verifies, every persisted tree head is signed and has the root of the prefix it
  names, every cached receipt points at its own entry. \<open>evolves\<close>: the log, the tree-head
  history, the checkpoint records and the equivocations only grow, the latest tree head never
  moves backwards. Every operation keeps both, also when it raises.
\<close>

section \<open>The invariant\<close>

definition good_sth :: "ext \<Rightarrow> attestor \<Rightarrow> entry list \<Rightarrow> sth \<Rightarrow> bool" where
  "good_sth x a log h \<longleftrightarrow>
     0 \<le> sth_tree_size h \<and> sth_tree_size h \<le> int (length log) \<and>
     sth_root_hash h = log_root (take (nat (sth_tree_size h)) log) \<and>
     attestor_verify x a (sth_payload (sth_tree_size h) (sth_root_hash h) (sth_timestamp h)) (sth_signature h)"

definition latest_ok :: "ext \<Rightarrow> attestor \<Rightarrow> entry list \<Rightarrow> string option \<Rightarrow> (int \<times> int) option \<Rightarrow> bool" where
  "latest_ok x a log latest key \<longleftrightarrow>
     (case latest of None \<Rightarrow> key = None
      | Some j \<Rightarrow> \<exists>h. sth_of_json x j = Inr h \<and> good_sth x a log h \<and> key = Some (sth_tree_size h, sth_timestamp h))"

definition history_ok :: "ext \<Rightarrow> attestor \<Rightarrow> entry list \<Rightarrow> (int \<times> string) list \<Rightarrow> bool" where
  "history_ok x a log hist \<longleftrightarrow>
     (\<forall>n j. map_of hist n = Some j \<longrightarrow> (\<exists>h. sth_of_json x j = Inr h \<and> good_sth x a log h \<and> sth_tree_size h = n))"

definition scitt_at :: "entry list \<Rightarrow> int \<Rightarrow> string \<Rightarrow> bool" where
  "scitt_at log i h \<longleftrightarrow> 0 \<le> i \<and> i < int (length log) \<and>
     payload_hash (log ! nat i) = h \<and> kind (log ! nat i) = log_kind_scitt"

definition statements_ok :: "entry list \<Rightarrow> (string \<times> statement) list \<Rightarrow> bool" where
  "statements_ok log sts \<longleftrightarrow> distinct (map fst sts) \<and>
     (\<forall>(h, (_, i, n)) \<in> set sts. i < n \<and> n \<le> int (length log) \<and> scitt_at log i h)"

definition subjects_ok :: "entry list \<Rightarrow> (string \<times> subject_row list) list \<Rightarrow> bool" where
  "subjects_ok log d \<longleftrightarrow> (\<forall>sub rows. map_of d sub = Some rows \<longrightarrow>
     distinct (map fst rows) \<and> (\<forall>row \<in> set rows. \<exists>i. scitt_at log i (fst row)))"

definition store_inv :: "ext \<Rightarrow> attestor \<Rightarrow> mem_store \<Rightarrow> bool" where
  "store_inv x a s \<longleftrightarrow> verify_from x a 0 None (m_log s) \<and> hashed_entries (m_log s) \<and>
     latest_ok x a (m_log s) (m_latest_sth s) (m_latest_sth_key s) \<and>
     history_ok x a (m_log s) (m_sth_history s) \<and> statements_ok (m_log s) (m_statements s) \<and>
     subjects_ok (m_log s) (m_subject_index s)"

definition key_le :: "(int \<times> int) option \<Rightarrow> (int \<times> int) option \<Rightarrow> bool" where
  "key_le k l \<longleftrightarrow> (case k of None \<Rightarrow> True | Some a \<Rightarrow> (case l of None \<Rightarrow> False | Some b \<Rightarrow> sth_key_le a b))"

definition evolves :: "mem_store \<Rightarrow> mem_store \<Rightarrow> bool" where
  "evolves s t \<longleftrightarrow> prefix (m_log s) (m_log t) \<and> map_of (m_sth_history s) \<subseteq>\<^sub>m map_of (m_sth_history t) \<and>
     map_of (m_records s) \<subseteq>\<^sub>m map_of (m_records t) \<and>
     (\<forall>l. prefix (get_checkpoint_equivocations l s) (get_checkpoint_equivocations l t)) \<and>
     key_le (m_latest_sth_key s) (m_latest_sth_key t)"

lemma key_le_refl [simp]: "key_le k k"
  by (auto simp: key_le_def sth_key_le_def split: option.splits)

lemma key_le_trans: "key_le k l \<Longrightarrow> key_le l m \<Longrightarrow> key_le k m"
  by (auto simp: key_le_def sth_key_le_def split: option.splits)

lemma evolves_refl [simp]: "evolves s s"
  by (simp add: evolves_def)

lemma evolves_trans: "evolves s t \<Longrightarrow> evolves t u \<Longrightarrow> evolves s u"
  unfolding evolves_def
  by (meson key_le_trans map_le_trans prefix_order.trans)

lemma empty_store_inv: "store_inv x a empty_store"
  by (simp add: store_inv_def empty_store_def hashed_entries_def latest_ok_def history_ok_def
      statements_ok_def subjects_ok_def)

section \<open>Growing the log keeps what was said about it\<close>

lemma log_prefix_nth: "prefix log log' \<Longrightarrow> i < length log \<Longrightarrow> log' ! i = log ! i"
  by (auto simp: prefix_def nth_append)

lemma log_prefix_take: "prefix log log' \<Longrightarrow> n \<le> length log \<Longrightarrow> take n log' = take n log"
  by (auto simp: prefix_def)

lemma good_sth_mono: "good_sth x a log h \<Longrightarrow> prefix log log' \<Longrightarrow> good_sth x a log' h"
  by (auto simp: good_sth_def log_prefix_take dest: prefix_length_le)

lemma latest_ok_mono: "latest_ok x a log l k \<Longrightarrow> prefix log log' \<Longrightarrow> latest_ok x a log' l k"
  by (auto simp: latest_ok_def intro: good_sth_mono split: option.splits)

lemma history_ok_mono: "history_ok x a log d \<Longrightarrow> prefix log log' \<Longrightarrow> history_ok x a log' d"
  by (fastforce simp: history_ok_def intro: good_sth_mono)

lemma scitt_at_mono: "scitt_at log i h \<Longrightarrow> prefix log log' \<Longrightarrow> scitt_at log' i h"
  by (auto simp: scitt_at_def log_prefix_nth dest: prefix_length_le)

lemma statements_ok_mono: "statements_ok log d \<Longrightarrow> prefix log log' \<Longrightarrow> statements_ok log' d"
  by (fastforce simp: statements_ok_def intro: scitt_at_mono dest: prefix_length_le)

lemma subjects_ok_mono: "subjects_ok log d \<Longrightarrow> prefix log log' \<Longrightarrow> subjects_ok log' d"
  by (meson scitt_at_mono subjects_ok_def)

lemmas log_growth = latest_ok_mono history_ok_mono statements_ok_mono subjects_ok_mono

section \<open>Store operations\<close>

lemma store_inv_frame [store_simps]:
  "store_inv x a (put_root r s) = store_inv x a s"
  "store_inv x a (put_capsule_id i c s) = store_inv x a s"
  "store_inv x a (put_checkpoint_witness l w s) = store_inv x a s"
  "store_inv x a (snd (put_checkpoint_record l n cr s)) = store_inv x a s"
  by (simp_all add: store_inv_def put_root_def put_capsule_id_def put_checkpoint_witness_def
      put_checkpoint_record_def Let_def split: option.splits)

lemma evolves_frame:
  "evolves s (put_root r s)"
  "evolves s (put_capsule_id i c s)"
  "evolves s (put_checkpoint_witness l w s)"
  "evolves s (put_statement h st s)"
  "evolves s (put_subject_index sub h d f s)"
  "evolves s (append_entry e s)"
  by (simp_all add: evolves_def put_root_def put_capsule_id_def put_checkpoint_witness_def put_statement_def
      put_subject_index_def append_entry_def get_checkpoint_equivocations_def Let_def)

lemma evolves_record: "evolves s (snd (put_checkpoint_record l n cr s))"
proof (cases "map_of (m_records s) (l, n)")
  case None
  then show ?thesis
    by (auto simp: evolves_def put_checkpoint_record_def map_le_def get_checkpoint_equivocations_def)
next
  case (Some old)
  then show ?thesis
    by (auto simp: evolves_def put_checkpoint_record_def get_checkpoint_equivocations_def Let_def
        split: option.splits)
qed

lemma hashed_entries_snoc [simp]:
  "hashed_entries (log @ [e]) \<longleftrightarrow> hashed_entries log \<and> (\<exists>p. payload_hash e = sha256_hex p)"
  by (auto simp: hashed_entries_def)

lemma store_inv_append:
  assumes "store_inv x a s" "attestor_ok x a" "new_entry x a knd p at t s = Inr e"
  shows "store_inv x a (append_entry e s)"
proof -
  have "verify_from x a 0 None (m_log s @ [e])"
    using verify_from_new_entry [OF _ assms(2,3)] assms(1) by (simp add: store_inv_def)
  moreover have "payload_hash e = sha256_hex p" using assms(3) by (auto simp: new_entry_eq)
  moreover have "prefix (m_log s) (m_log s @ [e])" by simp
  ultimately show ?thesis using assms(1)
    by (auto simp: store_inv_def append_entry_def intro: log_growth)
qed

lemma store_inv_put_sth:
  assumes inv: "store_inv x a s" and json: "sth_json_ok x"
    and good: "good_sth x a (m_log s) h"
  shows "store_inv x a (put_sth (sth_to_json x h) (sth_tree_size h) (sth_timestamp h) s)"
proof -
  have j: "sth_of_json x (sth_to_json x h) = Inr h" using json by (simp add: sth_json_ok_def)
  have "history_ok x a (m_log s) (dict_setdefault (sth_tree_size h) (sth_to_json x h) (m_sth_history s))"
    using inv good j by (auto simp: store_inv_def history_ok_def)
  moreover have "latest_ok x a (m_log s) (Some (sth_to_json x h)) (Some (sth_tree_size h, sth_timestamp h))"
    using good j by (simp add: latest_ok_def)
  ultimately show ?thesis using inv by (auto simp: store_inv_def put_sth_def Let_def split: option.splits)
qed

lemma evolves_put_sth: "evolves s (put_sth j n t s)"
proof -
  have "map_of (m_sth_history s) \<subseteq>\<^sub>m map_of (dict_setdefault n j (m_sth_history s))"
    by (auto simp: map_le_def)
  moreover have "key_le (m_latest_sth_key s) (Some (n, t))"
    if "\<not> (case m_latest_sth_key s of None \<Rightarrow> False | Some k \<Rightarrow> sth_key_le (n, t) k)"
    using that by (auto simp: key_le_def sth_key_le_def split: option.splits)
  ultimately show ?thesis
    by (auto simp: evolves_def put_sth_def get_checkpoint_equivocations_def Let_def)
qed

lemma statements_ok_set:
  assumes "statements_ok log d" "scitt_at log i h" "i < n" "n \<le> int (length log)"
  shows "statements_ok log (dict_set h (r, i, n) d)"
proof -
  have "p \<in> set (dict_set h v d) \<Longrightarrow> p = (h, v) \<or> p \<in> set d" for p v
    by (induction d) (auto split: if_splits)
  then show ?thesis using assms by (fastforce simp: statements_ok_def)
qed

lemma store_inv_put_statement:
  "store_inv x a s \<Longrightarrow> scitt_at (m_log s) i h \<Longrightarrow> i < n \<Longrightarrow> n \<le> int (length (m_log s)) \<Longrightarrow>
   store_inv x a (put_statement h (r, i, n) s)"
  by (auto simp: store_inv_def put_statement_def intro: statements_ok_set)

lemma subjects_ok_put:
  fixes sub :: string
  assumes "subjects_ok log d0" "scitt_at log i h"
  defines "d \<equiv> dict_setdefault sub [] d0"
  shows "subjects_ok log (if list_ex (\<lambda>(eh, _, _). eh = h) (the (map_of d sub)) then d
     else dict_set sub (the (map_of d sub) @ [(h, dg, f)]) d)"
proof -
  have d: "subjects_ok log d" using assms(1) by (auto simp: subjects_ok_def d_def)
  obtain rows where rows: "map_of d sub = Some rows" by (cases "map_of d0 sub") (auto simp: d_def)
  have "distinct (map fst (rows @ [(h, dg, f)]))" if "\<not> list_ex (\<lambda>(eh, _, _). eh = h) rows"
    using that d rows by (fastforce simp: subjects_ok_def list_ex_iff)
  moreover have "\<exists>i. scitt_at log i (fst row)" if "row \<in> set (rows @ [(h, dg, f)])" for row
    using that d rows assms(2) by (auto simp: subjects_ok_def)
  ultimately show ?thesis using d rows by (auto simp: subjects_ok_def)
qed

lemma store_inv_put_subject:
  "store_inv x a s \<Longrightarrow> scitt_at (m_log s) i h \<Longrightarrow> store_inv x a (put_subject_index sub h dg f s)"
  using subjects_ok_put [of "m_log s" "m_subject_index s" i h sub dg f]
  by (simp add: store_inv_def put_subject_index_def Let_def)


lemma prune_store:
  "prune_statements_older_than c s = (r, t) \<Longrightarrow>
   \<exists>P. t = s\<lparr>m_statements := filter P (m_statements s)\<rparr>"
  by (auto simp: prune_statements_older_than_def fold_dict_del split: sum.splits)
    (metis (no_types) filter_True mem_store.surjective mem_store.update_convs(4))

lemma statements_ok_filter: "statements_ok log d \<Longrightarrow> statements_ok log (filter P d)"
  by (auto simp: statements_ok_def distinct_map_filter)

lemma store_inv_prune:
  "prune_statements_older_than c s = (r, t) \<Longrightarrow> store_inv x a s \<Longrightarrow> store_inv x a t \<and> evolves s t"
  by (drule prune_store)
    (auto simp: store_inv_def evolves_def get_checkpoint_equivocations_def intro: statements_ok_filter)

section \<open>Operations of the service\<close>

definition env_ok :: "ext \<Rightarrow> anchorer \<Rightarrow> bool" where
  "env_ok x a \<longleftrightarrow> attestor_ok x (an_attestor a) \<and> sth_json_ok x"

text \<open>\<open>stable x a s0 s\<close>: the invariant holds and the store has evolved from \<open>s0\<close>.\<close>

definition stable :: "ext \<Rightarrow> anchorer \<Rightarrow> mem_store \<Rightarrow> svc \<Rightarrow> bool" where
  "stable x a s0 s \<longleftrightarrow> store_inv x (an_attestor a) (store s) \<and> evolves s0 (store s)"

lemma stable_mono:
  "stable x a s0 s \<Longrightarrow> store_inv x (an_attestor a) t \<Longrightarrow> evolves (store s) t \<Longrightarrow> stable x a s0 (s\<lparr>store := t\<rparr>)"
  by (auto simp: stable_def intro: evolves_trans)

lemma stable_on_store [inv_intros]:
  "(\<And>s. stable x a s0 s \<Longrightarrow> P s \<Longrightarrow> store_inv x (an_attestor a) (f (store s)) \<and> evolves (store s) (f (store s))) \<Longrightarrow>
   hoare (\<lambda>s. stable x a s0 s \<and> P s) (on_store f) (\<lambda>_. stable x a s0) E"
  unfolding on_store_def by (rule hoare_modify) (auto intro: stable_mono)

lemma mem_ok_inv: "store_inv x a s \<Longrightarrow> mem_ok s"
  using verify_from_contiguous [of x a 0 None "m_log s"]
  by (simp add: store_inv_def mem_ok_def contiguous_def)

lemma entries_inv: "store_inv x a s \<Longrightarrow> entries_after 0 s = m_log s"
  using mem.after_zero [OF mem_ok_inv] by (simp add: all_entries_def)

lemma leaves_inv:
  "store_inv x a s \<Longrightarrow> ct_leaves (entries_after 0 s) = Inr (map hex (map leaf_digest (m_log s)))"
  using entries_inv [of x a s] ct_leaves_hex [of "m_log s"] by (simp add: store_inv_def del: map_map)

lemma append_log_stable:
  assumes "env_ok x a"
  shows "hoare (stable x a s0) (append_log x (an_attestor a) knd p at t)
    (\<lambda>e s. stable x a s0 s \<and> 0 \<le> log_index e \<and> int (length (m_log (store s))) = log_index e + 1 \<and>
       m_log (store s) ! nat (log_index e) = e \<and> kind e = knd \<and> payload_hash e = sha256_hex p)
    (stable x a s0)"
proof (rule hoareI)
  fix s e s' assume s: "stable x a s0 s" and run: "append_log x (an_attestor a) knd p at t s = (Inr e, s')"
  then have e: "new_entry x (an_attestor a) knd p at t (store s) = Inr e"
    and s': "s' = s\<lparr>store := append_entry e (store s)\<rparr>"
    using append_log_run [of x "an_attestor a" knd p at t s] by auto
  have "stable x a s0 s'" unfolding s'
    using s e assms by (intro stable_mono) (auto simp: stable_def env_ok_def intro: store_inv_append evolves_frame)
  then show "stable x a s0 s' \<and> 0 \<le> log_index e \<and> int (length (m_log (store s'))) = log_index e + 1 \<and>
       m_log (store s') ! nat (log_index e) = e \<and> kind e = knd \<and> payload_hash e = sha256_hex p"
    using e by (auto simp: new_entry_eq s' append_entry_def store_size_def)
next
  fix s e s' assume "append_log x (an_attestor a) knd p at t s = (Inl e, s')"
  then show "stable x a s0 s'"
    using append_log_run [of x "an_attestor a" knd p at t s] by auto
qed

lemma sign_run:
  assumes "store_inv x (an_attestor a) (store s)" "env_ok x a"
  shows "\<exists>h. sign_and_persist_sth x (an_attestor a) t1 t2 s =
      (Inr h, s\<lparr>store := put_sth (sth_to_json x h) (sth_tree_size h) (sth_timestamp h) (store s)\<rparr>) \<and>
    good_sth x (an_attestor a) (m_log (store s)) h \<and> sth_tree_size h = int (length (m_log (store s))) \<and>
    sth_timestamp h = t1"
proof -
  let ?log = "m_log (store s)"
  let ?h = "\<lparr>sth_tree_size = int (length ?log), sth_root_hash = log_root ?log, sth_timestamp = t1,
    sth_signature = attest x (an_attestor a) (sth_payload (int (length ?log)) (log_root ?log) t1) t2\<rparr>"
  have "good_sth x (an_attestor a) ?log ?h"
    using assms(2) by (simp add: good_sth_def env_ok_def attestor_ok_verify)
  moreover have "sign_and_persist_sth x (an_attestor a) t1 t2 s =
      (Inr ?h, s\<lparr>store := put_sth (sth_to_json x ?h) (sth_tree_size ?h) (sth_timestamp ?h) (store s)\<rparr>)"
    using leaves_inv [OF assms(1)]
    by (simp add: sign_and_persist_sth_def store_size_def merkle_tree_hash_hex log_root_def Let_def del: map_map)
  ultimately show ?thesis by (intro exI [of _ ?h]) simp
qed

lemma sign_stable:
  assumes "env_ok x a"
  shows "hoare (stable x a s0) (sign_and_persist_sth x (an_attestor a) t1 t2)
    (\<lambda>h s. stable x a s0 s \<and> good_sth x (an_attestor a) (m_log (store s)) h \<and>
       sth_tree_size h = int (length (m_log (store s)))) (stable x a s0)"
proof -
  have log: "m_log (put_sth j n t st) = m_log st" for j n t st
    by (simp add: put_sth_def Let_def)
  have "stable x a s0 s' \<and> (\<forall>h. r = Inr h \<longrightarrow> good_sth x (an_attestor a) (m_log (store s')) h \<and>
       sth_tree_size h = int (length (m_log (store s'))))"
    if s: "stable x a s0 s" and run: "sign_and_persist_sth x (an_attestor a) t1 t2 s = (r, s')" for s r s'
  proof -
    obtain h where h: "r = Inr h" "s' = s\<lparr>store := put_sth (sth_to_json x h) (sth_tree_size h) (sth_timestamp h) (store s)\<rparr>"
      "good_sth x (an_attestor a) (m_log (store s)) h" "sth_tree_size h = int (length (m_log (store s)))"
      using sign_run [of x a s t1 t2] s run assms by (auto simp: stable_def)
    have "stable x a s0 s'" unfolding h(2)
      using s h(3) assms
      by (intro stable_mono) (auto simp: stable_def env_ok_def intro: store_inv_put_sth evolves_put_sth)
    with h show ?thesis by (simp add: log)
  qed
  then show ?thesis by (intro hoareI) auto
qed

lemma issue_receipt_size:
  assumes "store_inv x b st" "issue_receipt x a at t grade asr i st = Inr (r, n)"
  shows "n = int (length (m_log st))"
  using assms(2) leaves_inv [OF assms(1)] by (auto simp: issue_receipt_def rbind_Inr_iff)

lemma when_some_stable [inv_intros]:
  assumes "\<And>y s. v = Some y \<Longrightarrow> stable x a s0 s \<Longrightarrow> P s \<Longrightarrow>
    \<exists>g. f y s = (Inr (), s\<lparr>store := g\<rparr>) \<and> store_inv x (an_attestor a) g \<and> evolves (store s) g"
  shows "hoare (\<lambda>s. stable x a s0 s \<and> P s) (when_some v f) (\<lambda>_. stable x a s0) E"
proof (rule hoareI)
  fix s r s' assume s: "stable x a s0 s \<and> P s" and run: "when_some v f s = (Inr r, s')"
  show "stable x a s0 s'"
  proof (cases v)
    case None
    with s run show ?thesis by (simp add: when_some_def)
  next
    case (Some y)
    with assms [OF Some, of s] s run show ?thesis by (auto simp: when_some_def intro: stable_mono)
  qed
next
  fix s e s' assume s: "stable x a s0 s \<and> P s" and run: "when_some v f s = (Inl e, s')"
  then show "E s'"
  proof (cases v)
    case None
    with run show ?thesis by (simp add: when_some_def)
  next
    case (Some y)
    with assms [OF Some, of s] s run show ?thesis by (auto simp: when_some_def)
  qed
qed

text \<open>The gates and counters leave the store alone.\<close>

definition same_store :: "(svc, 'a) op \<Rightarrow> bool" where
  "same_store m \<longleftrightarrow> (\<forall>s r t. m s = (r, t) \<longrightarrow> store t = store s)"

lemma same_storeI: "(\<And>s r t. m s = (r, t) \<Longrightarrow> store t = store s) \<Longrightarrow> same_store m"
  by (auto simp: same_store_def)

lemma same_store_bind: "same_store m \<Longrightarrow> (\<And>y. same_store (f y)) \<Longrightarrow> same_store (op_bind m f)"
  unfolding same_store_def op_bind_def by (auto split: prod.splits sum.splits)

lemma same_store_Pair [simp]: "same_store (Pair r)"
  by (auto intro: same_storeI)

lemma same_store_basic [simp]:
  "same_store (op_return v)" "same_store (op_raise e)" "same_store (op_lift w)" "same_store (op_get g)"
  "same_store (bump_refusals l)"
  by (auto intro: same_storeI simp: bump_refusals_def)

lemma same_store_policy [simp]:
  "same_store (refuse_or_count a l w)"
  "same_store (apply_consistency_proof_policy a cp w)"
  "same_store (apply_consistency_proof_policy_legacy a f w)"
  by (auto simp: refuse_or_count_def apply_consistency_proof_policy_def apply_consistency_proof_policy_legacy_def)

lemma same_store_gates [simp]:
  "same_store (check_checkpoint_consistency a f)"
  "same_store (check_checkpoint_continuity x a cp)"
  by (auto simp: check_checkpoint_consistency_def check_checkpoint_continuity_def
      intro!: same_store_bind split: option.splits)

lemma same_store_run_gates [simp]: "same_store (run_gates x a cont pk)"
  by (auto simp: run_gates_def intro!: same_store_bind split: option.splits)

lemma same_store_stable: "same_store m \<Longrightarrow> hoare (stable x a s0) m (\<lambda>_. stable x a s0) (stable x a s0)"
  by (rule hoareI) (auto simp: same_store_def stable_def)

lemma peek_entry_hash: "peek_statement x a st = Inr pk \<Longrightarrow> pk_entry_hash pk = sha256_hex (pk_preimage pk)"
  by (auto simp: peek_statement_def Let_def rbind_Inr_iff split: if_splits option.splits prod.splits)

text \<open>What is known of the log right after the entry of a statement was appended.\<close>

definition appended :: "ext \<Rightarrow> anchorer \<Rightarrow> mem_store \<Rightarrow> string \<Rightarrow> int \<Rightarrow> svc \<Rightarrow> bool" where
  "appended x a s0 h i s \<longleftrightarrow> stable x a s0 s \<and> scitt_at (m_log (store s)) i h \<and>
     int (length (m_log (store s))) = i + 1"

lemma witness_put_stable:
  "hoare (stable x a s0) (when_some v (\<lambda>y. on_store (put_checkpoint_witness (f y) (g y)))) (\<lambda>_. stable x a s0) E"
proof (rule hoare_weaken [where P' = "\<lambda>s. stable x a s0 s \<and> True" and Q' = "\<lambda>_. stable x a s0" and E' = E])
  show "hoare (\<lambda>s. stable x a s0 s \<and> True) (when_some v (\<lambda>y. on_store (put_checkpoint_witness (f y) (g y))))
      (\<lambda>_. stable x a s0) E"
    by (rule when_some_stable) (auto simp: stable_def store_inv_frame intro: evolves_frame)
qed simp_all

lemma m_log_put_statement [store_simps]: "m_log (put_statement h st s) = m_log s"
  by (simp add: put_statement_def)

lemma commit_registration_stable:
  assumes env: "env_ok x a"
  shows "hoare (\<lambda>s. appended x a s0 (pk_entry_hash pk) i s \<and> n = int (length (m_log (store s))))
    (commit_registration x a now cont g w pk i r n) (\<lambda>_. stable x a s0) (stable x a s0)"
  unfolding commit_registration_def
proof (intro hoare_bind)
  let ?h = "pk_entry_hash pk"
  show "hoare (\<lambda>s. appended x a s0 ?h i s \<and> n = int (length (m_log (store s))))
      (on_store (put_statement ?h (r, i, n))) (\<lambda>_ s. stable x a s0 s \<and> scitt_at (m_log (store s)) i ?h) (stable x a s0)"
    unfolding on_store_def
    by (rule hoare_modify)
      (auto simp: appended_def stable_def store_simps
        intro: store_inv_put_statement evolves_trans [OF _ evolves_frame(4)])
  show "hoare (\<lambda>s. stable x a s0 s \<and> scitt_at (m_log (store s)) i ?h)
      (when_some (pk_subject pk) (\<lambda>subject. on_store (put_subject_index subject ?h (pk_digest pk)
        (map_option form_text (pk_form pk))))) (\<lambda>_. stable x a s0) (stable x a s0)" for u
    by (rule when_some_stable) (auto simp: stable_def intro: store_inv_put_subject evolves_frame)
  show "hoare (stable x a s0) (sign_and_persist_sth x (an_attestor a) (now 3) (now 4)) (\<lambda>_. stable x a s0) (stable x a s0)"
    for u v
    by (rule hoare_weaken [OF sign_stable [OF env]]) auto
qed (rule witness_put_stable, rule witness_put_stable, rule hoare_return, assumption)

lemma register_new_stable:
  assumes env: "env_ok x a" and pk: "pk_entry_hash pk = sha256_hex (pk_preimage pk)"
  shows "hoare (stable x a s0) (register_new x a now grade cont pk) (\<lambda>_. stable x a s0) (stable x a s0)"
  unfolding register_new_def
proof (intro hoare_bind)
  let ?h = "pk_entry_hash pk"
  show "hoare (stable x a s0) (run_gates x a cont pk) (\<lambda>_. stable x a s0) (stable x a s0)"
    by (intro same_store_stable) simp
  show "hoare (stable x a s0) (append_log x (an_attestor a) log_kind_scitt (pk_preimage pk) (now 0) (now 1))
      (\<lambda>e. appended x a s0 ?h (log_index e)) (stable x a s0)" for g
    by (rule hoare_weaken [OF append_log_stable [OF env]]) (auto simp: appended_def scitt_at_def pk)
  show "hoare (appended x a s0 ?h (log_index e)) (op_get store)
      (\<lambda>st s. appended x a s0 ?h (log_index e) s \<and> st = store s) (stable x a s0)" for g e
    by (rule hoare_get)
  show "hoare (\<lambda>s. appended x a s0 ?h (log_index e) s \<and> st = store s)
      (op_lift (issue_receipt x a (now 0) (now 2) grade asr (log_index e) st))
      (\<lambda>rn s. appended x a s0 ?h (log_index e) s \<and> snd rn = int (length (m_log (store s)))) (stable x a s0)"
    for e st asr
    by (rule hoare_lift) (auto simp: appended_def stable_def dest: issue_receipt_size)
qed (rule commit_registration_stable [OF env])

lemma register_full_stable:
  assumes "env_ok x a"
  shows "hoare (stable x a s0) (register_signed_statement_full x a now st grade cont) (\<lambda>_. stable x a s0) (stable x a s0)"
  unfolding register_signed_statement_full_def
proof (intro hoare_bind)
  let ?R = "\<lambda>pk s. stable x a s0 s \<and> pk_entry_hash pk = sha256_hex (pk_preimage pk)"
  show "hoare (stable x a s0) (op_lift (peek_statement x a st)) ?R (stable x a s0)"
    by (rule hoare_lift) (auto dest: peek_entry_hash)
  show "hoare (?R pk) (op_get store) (\<lambda>_. ?R pk) (stable x a s0)" for pk
    by (rule hoare_weaken [OF hoare_get [where E = "stable x a s0"]]) auto
  show "hoare (?R pk) (case cached_statement pk m of Some cached \<Rightarrow> op_return (cached_registration pk cont cached m)
      | None \<Rightarrow> register_new x a now grade cont pk) (\<lambda>_. stable x a s0) (stable x a s0)" for pk m
  proof (cases "pk_entry_hash pk = sha256_hex (pk_preimage pk)")
    case True
    show ?thesis
      by (rule hoare_weaken [where P' = "stable x a s0" and Q' = "\<lambda>_. stable x a s0" and E' = "stable x a s0"])
        (auto intro: register_new_stable [OF assms True] hoare_return split: option.splits)
  qed (simp add: hoare_def)
qed

lemma record_stable:
  "hoare (stable x a s0) (record_checkpoint_read_surface cp rg) (\<lambda>_. stable x a s0) (stable x a s0)"
  unfolding record_checkpoint_read_surface_def on_store_def
  by (rule hoare_modify, rule stable_mono) (auto simp: stable_def store_inv_frame intro: evolves_record)

lemma witness_checkpoint_stable:
  assumes "env_ok x a"
  shows "hoare (stable x a s0) (witness_checkpoint x a now cp) (\<lambda>_. stable x a s0) (stable x a s0)"
  unfolding witness_checkpoint_def
proof (intro hoare_bind)
  show "hoare (stable x a s0) (op_lift (fromhex (checkpoint_digest cp))) (\<lambda>_. stable x a s0) (stable x a s0)"
    by (rule hoare_lift) auto
  show "hoare (stable x a s0) (register_signed_statement_full x a now d (ck_grade cp) (Some cp))
      (\<lambda>_. stable x a s0) (stable x a s0)" for d
    by (rule register_full_stable [OF assms])
  show "hoare (stable x a s0) (record_checkpoint_read_surface cp rg) (\<lambda>_. stable x a s0) (stable x a s0)" for d rg
    by (rule record_stable)
qed (rule hoare_return)

lemma anchor_stable:
  assumes "env_ok x a"
  shows "hoare (stable x a s0) (anchor x a now tsa tid rh sr cid) (\<lambda>_. stable x a s0) (stable x a s0)"
  unfolding anchor_def Let_def
proof (intro hoare_bind)
  show "hoare (stable x a s0) (append_log x (an_attestor a) log_kind_root p at t) (\<lambda>_. stable x a s0) (stable x a s0)"
    for p at t by (rule hoare_weaken [OF append_log_stable [OF assms]]) auto
  show "hoare (stable x a s0) (on_store (put_root r)) (\<lambda>_. stable x a s0) (stable x a s0)" for r
    unfolding on_store_def
    by (rule hoare_modify, rule stable_mono) (auto simp: stable_def store_inv_frame intro: evolves_frame)
  show "hoare (stable x a s0) (case cid of None \<Rightarrow> op_return () | Some c \<Rightarrow> on_store (put_capsule_id (log_index e) c))
      (\<lambda>_. stable x a s0) (stable x a s0)" for e
    unfolding on_store_def
    by (cases cid) (auto intro!: hoare_return hoare_modify stable_mono simp: stable_def store_inv_frame
        intro: evolves_frame)
  show "hoare (stable x a s0) (op_lift (tsa_signature_for tsa rh)) (\<lambda>_. stable x a s0) (stable x a s0)"
    by (rule hoare_lift) auto
qed (rule hoare_return)

lemma get_sth_stable:
  assumes "env_ok x a"
  shows "hoare (stable x a s0) (get_sth x a now) (\<lambda>_. stable x a s0) (stable x a s0)"
  unfolding get_sth_def
proof (intro hoare_bind)
  show "hoare (stable x a s0) (op_get store) (\<lambda>_. stable x a s0) (stable x a s0)"
    by (rule hoare_weaken [OF hoare_get [where E = "stable x a s0"]]) auto
  have sign: "hoare (stable x a s0) (sign_and_persist_sth x (an_attestor a) t1 t2) (\<lambda>_. stable x a s0) (stable x a s0)"
    for t1 t2 by (rule hoare_weaken [OF sign_stable [OF assms]]) auto
  show "hoare (stable x a s0) (case get_latest_sth st of
        None \<Rightarrow> sign_and_persist_sth x (an_attestor a) (now 0) (now 1)
      | Some j \<Rightarrow> op_bind (op_lift (sth_of_json x j)) (\<lambda>stored.
          if store_size st \<le> sth_tree_size stored then op_return stored
          else sign_and_persist_sth x (an_attestor a) (now 0) (now 1)))
      (\<lambda>_. stable x a s0) (stable x a s0)" for st
    using sign by (auto intro!: hoare_bind [where R = "\<lambda>_. stable x a s0"] hoare_lift hoare_return split: option.splits)
qed

lemma refresh_sth_stable:
  "env_ok x a \<Longrightarrow> hoare (stable x a s0) (refresh_sth x a now) (\<lambda>_. stable x a s0) (stable x a s0)"
  unfolding refresh_sth_def by (rule hoare_weaken [OF sign_stable]) auto

lemma prune_stable:
  "hoare (stable x a s0) (prune_expired_statements env now) (\<lambda>_. stable x a s0) (stable x a s0)"
  unfolding prune_expired_statements_def
proof (intro hoare_bind)
  show "hoare (stable x a s0) (op_lift (entry_retention_seconds env)) (\<lambda>_. stable x a s0) (stable x a s0)"
    by (rule hoare_lift) auto
  have "stable x a s0 s \<Longrightarrow> prune_statements_older_than c (store s) = (r, st) \<Longrightarrow> stable x a s0 (s\<lparr>store := st\<rparr>)"
    for s c r st
    using store_inv_prune [of c "store s" r st x "an_attestor a"] by (auto simp: stable_def intro: evolves_trans)
  then show "hoare (stable x a s0) (case seconds of None \<Rightarrow> op_return 0
      | Some n \<Rightarrow> (\<lambda>s. case prune_statements_older_than (now - n * 1000000) (store s) of
             (r, st) \<Rightarrow> (r, s\<lparr>store := st\<rparr>))) (\<lambda>_. stable x a s0) (stable x a s0)" for seconds
    by (cases seconds) (auto intro!: hoare_return hoareI split: prod.splits)
qed

section \<open>What reading a tree head may write\<close>

text \<open>Two states of the store that differ in the kept tree heads at most.\<close>

definition heads_differ :: "mem_store \<Rightarrow> mem_store \<Rightarrow> bool" where
  "heads_differ s t \<longleftrightarrow> t = s\<lparr>m_sth_history := m_sth_history t, m_latest_sth := m_latest_sth t,
     m_latest_sth_key := m_latest_sth_key t\<rparr>"

lemma heads_differ_refl [simp]: "heads_differ s s"
  by (simp add: heads_differ_def)

lemma heads_differ_put_sth [simp]: "heads_differ s (put_sth j n ts s)"
  by (simp add: heads_differ_def put_sth_def Let_def)

lemma get_sth_heads: "get_sth x a now s = (h, t) \<Longrightarrow> heads_differ (store s) (store t) \<and> would_refuse t = would_refuse s"
  by (auto simp: get_sth_def sign_and_persist_sth_def op_bind_def op_get_def op_lift_def op_return_def on_store_def Let_def
      split: option.splits prod.splits sum.splits if_splits)

section \<open>Runs\<close>

text \<open>
  One call of the service, whatever it returns or raises. A statement submission carries no
  grade; a witnessed checkpoint is well formed, as the parsers of \<open>POST /checkpoints\<close> guarantee
  (theory CheckpointWire). \<open>witness_checkpoint\<close> takes the lock twice, for the registration and for the
  record of the checkpoint: each half is also a call of its own, so that other calls may run between them
  (\<open>record_call\<close> allows any record, whether or not its registration went before).
\<close>

definition well_formed_cp :: "checkpoint \<Rightarrow> bool" where
  "well_formed_cp cp \<longleftrightarrow> 0 \<le> ck_prev_size cp \<and> ck_prev_size cp < ck_mmr_size cp"

inductive call :: "ext \<Rightarrow> anchorer \<Rightarrow> svc \<Rightarrow> svc \<Rightarrow> bool" for x a where
  anchor_call: "anchor x a now tsa tid rh sr cid s = (r, t) \<Longrightarrow> call x a s t"
| statement_call: "register_signed_statement_full x a now st None None s = (r', t) \<Longrightarrow> call x a s t"
| witness_call: "well_formed_cp cp \<Longrightarrow> witness_checkpoint x a now cp s = (r', t) \<Longrightarrow> call x a s t"
| checkpoint_call: "well_formed_cp cp \<Longrightarrow> register_signed_statement_full x a now
    (sha256 (checkpoint_signing_body cp)) (ck_grade cp) (Some cp) s = (r', t) \<Longrightarrow> call x a s t"
| record_call: "record_checkpoint_read_surface cp rg s = (u, t) \<Longrightarrow> call x a s t"
| get_sth_call: "get_sth x a now s = (h, t) \<Longrightarrow> call x a s t"
| refresh_call: "refresh_sth x a now s = (h, t) \<Longrightarrow> call x a s t"

text \<open>Steps are calls and the pruning of the receipt cache.\<close>

inductive step :: "ext \<Rightarrow> anchorer \<Rightarrow> svc \<Rightarrow> svc \<Rightarrow> bool" for x a where
  call_step: "call x a s t \<Longrightarrow> step x a s t"
| prune_step: "prune_expired_statements env time s = (n, t) \<Longrightarrow> step x a s t"

inductive calls :: "ext \<Rightarrow> anchorer \<Rightarrow> svc \<Rightarrow> svc \<Rightarrow> bool" for x a where
  calls_refl: "calls x a s s"
| calls_call: "calls x a s t \<Longrightarrow> call x a t u \<Longrightarrow> calls x a s u"

inductive run :: "ext \<Rightarrow> anchorer \<Rightarrow> svc \<Rightarrow> svc \<Rightarrow> bool" for x a where
  run_refl: "run x a s s"
| run_step: "run x a s t \<Longrightarrow> step x a t u \<Longrightarrow> run x a s u"

definition reachable :: "ext \<Rightarrow> anchorer \<Rightarrow> svc \<Rightarrow> bool" where
  "reachable x a s \<longleftrightarrow> run x a \<lparr>store = empty_store, would_refuse = []\<rparr> s"

inductive_cases call_cases: "call x a s t"
inductive_cases step_cases: "step x a s t"
inductive_cases run_cases: "run x a s t"

lemmas operation_stable = anchor_stable register_full_stable witness_checkpoint_stable get_sth_stable
  refresh_sth_stable record_stable

lemma call_stable: "call x a s t \<Longrightarrow> env_ok x a \<Longrightarrow> stable x a s0 s \<Longrightarrow> stable x a s0 t"
  by (erule call_cases) (auto intro: hoare_same [OF operation_stable(1)] hoare_same [OF operation_stable(2)]
      hoare_same [OF operation_stable(3)] hoare_same [OF operation_stable(4)]
      hoare_same [OF operation_stable(5)] hoare_same [OF operation_stable(6)])

lemma step_stable: "step x a s t \<Longrightarrow> env_ok x a \<Longrightarrow> stable x a s0 s \<Longrightarrow> stable x a s0 t"
  by (erule step_cases) (auto intro: call_stable hoare_same [OF prune_stable])

lemma run_stable: "run x a s t \<Longrightarrow> env_ok x a \<Longrightarrow> stable x a s0 s \<Longrightarrow> stable x a s0 t"
  by (induction rule: run.induct) (auto intro: step_stable)

lemma reachable_inv: "reachable x a s \<Longrightarrow> env_ok x a \<Longrightarrow> store_inv x (an_attestor a) (store s)"
  using run_stable [of x a _ s empty_store] by (auto simp: reachable_def stable_def empty_store_inv)

lemma run_evolves:
  "run x a s t \<Longrightarrow> reachable x a s \<Longrightarrow> env_ok x a \<Longrightarrow> evolves (store s) (store t)"
  using run_stable [of x a s t "store s"] reachable_inv [of x a s] by (auto simp: stable_def)

lemma run_trans: "run x a s t \<Longrightarrow> run x a t u \<Longrightarrow> run x a s u"
  by (rotate_tac, induction rule: run.induct) (auto intro: run_step)

lemma calls_run: "calls x a s t \<Longrightarrow> run x a s t"
  by (induction rule: calls.induct) (auto intro: run.intros step.intros)

lemma reachable_run: "reachable x a s \<Longrightarrow> run x a s t \<Longrightarrow> reachable x a t"
  by (auto simp: reachable_def intro: run_trans)

end
