(* ===== verification/Registration.thy ===== *)
theory Registration
  imports ServiceInv
begin

text \<open>
  What a registration does, as one equation: a statement that passes the gates is always
  registered, and the store it leaves is written out. From it: receipts verify, cached statements
  and witness tips are kept, a refused registration changes nothing.
\<close>

section \<open>A receipt is always issued\<close>

lemma audit_path_hex:
  "inclusion_audit_path i (map hex ds) = Inr p \<Longrightarrow> \<exists>qs. p = map hex qs"
proof (induction "length ds" arbitrary: i ds p rule: less_induct)
  case less
  let ?k = "largest_power_of_two_below (length ds)"
  have range: "0 \<le> i" "i < int (length ds)"
    using less.prems by (auto simp: inclusion_audit_path.simps [of i "map hex ds"] Let_def split: if_splits)
  show ?case
  proof (cases "length ds = 1")
    case True
    with less.prems range show ?thesis by (simp add: inclusion_audit_path.simps [of i "map hex ds"])
  next
    case False
    then have big: "1 < length ds" using range by auto
    note k = lpt_bounds [OF big]
    obtain sub other j p' where sub: "length sub < length ds" "inclusion_audit_path j (map hex sub) = Inr p'"
      and p: "p = p' @ [hex (mth other)]"
    proof (cases "i < int ?k")
      case True
      with less.prems range False k show thesis
        by (intro that [of "take ?k ds" i "butlast p" "drop ?k ds"])
          (auto simp: inclusion_audit_path.simps [of i "map hex ds"] Let_def take_map drop_map
            merkle_tree_hash_hex rbind_Inr_iff)
    next
      case right: False
      with less.prems range False k show thesis
        by (intro that [of "drop ?k ds" "i - int ?k" "butlast p" "take ?k ds"])
          (auto simp: inclusion_audit_path.simps [of i "map hex ds"] Let_def take_map drop_map
            merkle_tree_hash_hex rbind_Inr_iff)
    qed
    from less.hyps [OF sub] obtain qs where "p' = map hex qs" by blast
    with p have "p = map hex (qs @ [mth other])" by simp
    then show ?thesis by blast
  qed
qed

lemma rmap_fromhex [simp]: "rmap fromhex (map hex qs) = Inr qs"
  by (induction qs) simp_all

text \<open>The receipt's inclusion proof and signature, over the whole log.\<close>

definition receipt_proves :: "ext \<Rightarrow> attestor \<Rightarrow> entry list \<Rightarrow> int \<Rightarrow> cbor \<Rightarrow> bytes \<Rightarrow> bool" where
  "receipt_proves x a log i protected receipt \<longleftrightarrow> (\<exists>qs sgn t.
     verify_inclusion_path (hex (leaf_digest (log ! nat i))) i (int (length log)) (map hex qs) (log_root log) = Inr True \<and>
     inclusion_audit_path i (map hex (map leaf_digest log)) = Inr (map hex qs) \<and>
     fromhex (sig_hex (attest x a (sig_structure x (cbor_dumps x protected) (mth (map leaf_digest log))) t)) = Inr sgn \<and>
     receipt = cbor_dumps x (CTag 18 (CList [CBytes (cbor_dumps x protected),
       CMap [(CInt 396, CMap [(CInt (-1), CList [CBytes (cbor_dumps x
         (CList [CInt (int (length log)), CInt i, CList (map CBytes qs)]))])])],
       CNull, CBytes sgn])))"

lemma issue_receipt_run:
  assumes "store_inv x (an_attestor a) st" "env_ok x a" "0 \<le> i" "i < int (length (m_log st))"
  shows "\<exists>receipt. issue_receipt x a at t grade asr i st = Inr (receipt, int (length (m_log st))) \<and>
    receipt_proves x (an_attestor a) (m_log st) i (receipt_protected (Some (at div 1000000)) grade asr) receipt"
proof -
  let ?log = "m_log st" and ?ds = "map leaf_digest (m_log st)"
  let ?prot = "receipt_protected (Some (at div 1000000)) grade asr"
  have i: "nat i < length ?ds" "int (nat i) = i" using assms(3,4) by auto
  obtain p where p: "inclusion_audit_path i (map hex ?ds) = Inr p"
    "verify_inclusion_path (hex (?ds ! nat i)) i (int (length ?ds)) p (hex (mth ?ds)) = Inr True"
    using verify_inclusion_path_complete_aux [OF i(1)] i(2) by auto
  obtain qs where qs: "p = map hex qs" using audit_path_hex [OF p(1)] by blast
  obtain sgn where sgn: "fromhex (sig_hex (attest x (an_attestor a) (sig_structure x (cbor_dumps x ?prot) (mth ?ds)) t)) = Inr sgn"
    using assms(2) attestor_ok_hex by (metis env_ok_def)
  let ?r = "cbor_dumps x (CTag 18 (CList [CBytes (cbor_dumps x ?prot),
       CMap [(CInt 396, CMap [(CInt (-1), CList [CBytes (cbor_dumps x
         (CList [CInt (int (length ?log)), CInt i, CList (map CBytes qs)]))])])], CNull, CBytes sgn]))"
  have "issue_receipt x a at t grade asr i st = Inr (?r, int (length ?log))"
    using leaves_inv [OF assms(1)] p(1) sgn
    by (simp add: issue_receipt_def qs merkle_tree_hash_hex build_cose_receipt_def Let_def del: map_map)
  moreover have "receipt_proves x (an_attestor a) ?log i ?prot ?r"
    unfolding receipt_proves_def using p sgn i qs by (auto simp: log_root_def simp del: map_map)
  ultimately show ?thesis by blast
qed

section \<open>The store a registration leaves\<close>

definition store_subject :: "peeked \<Rightarrow> mem_store \<Rightarrow> mem_store" where
  "store_subject pk st = (case pk_subject pk of None \<Rightarrow> st
     | Some sub \<Rightarrow> put_subject_index sub (pk_entry_hash pk) (pk_digest pk) (map_option form_text (pk_form pk)) st)"

definition store_tips :: "peeked \<Rightarrow> checkpoint option \<Rightarrow> continuity option \<Rightarrow> mem_store \<Rightarrow> mem_store" where
  "store_tips pk cont g st =
     (let st' = (case pk_checkpoint pk of None \<Rightarrow> st
            | Some f \<Rightarrow> put_checkpoint_witness (lc_log_id f) (witness_of_legacy f) st)
      in case cont of None \<Rightarrow> st'
       | Some cp \<Rightarrow> if g \<in> {Some FirstSeen, Some Witnessed}
                   then put_checkpoint_witness (ck_log_id cp) (witness_of cp) st' else st')"

lemma store_subject_frame [store_simps]:
  "m_log (store_subject pk st) = m_log st"
  "m_statements (store_subject pk st) = m_statements st"
  "m_witnesses (store_subject pk st) = m_witnesses st"
  "m_records (store_subject pk st) = m_records st"
  "m_equivocations (store_subject pk st) = m_equivocations st"
  by (simp_all add: store_subject_def put_subject_index_def Let_def split: option.splits)

lemma store_tips_frame [store_simps]:
  "m_log (store_tips pk cont g st) = m_log st"
  "m_statements (store_tips pk cont g st) = m_statements st"
  "m_records (store_tips pk cont g st) = m_records st"
  "m_equivocations (store_tips pk cont g st) = m_equivocations st"
  by (simp_all add: store_tips_def put_checkpoint_witness_def Let_def split: option.splits)

lemma put_sth_frame [store_simps]:
  "m_log (put_sth j n t st) = m_log st"
  "m_statements (put_sth j n t st) = m_statements st"
  "m_witnesses (put_sth j n t st) = m_witnesses st"
  "m_records (put_sth j n t st) = m_records st"
  "m_equivocations (put_sth j n t st) = m_equivocations st"
  by (simp_all add: put_sth_def Let_def)

lemma put_statement_frame [store_simps]:
  "m_statements (put_statement h v st) = dict_set h v (m_statements st)"
  "m_witnesses (put_statement h v st) = m_witnesses st"
  "m_records (put_statement h v st) = m_records st"
  "m_equivocations (put_statement h v st) = m_equivocations st"
  by (simp_all add: put_statement_def)

lemma append_entry_frame [store_simps]:
  "m_log (append_entry e st) = m_log st @ [e]"
  "m_statements (append_entry e st) = m_statements st"
  "m_witnesses (append_entry e st) = m_witnesses st"
  "m_records (append_entry e st) = m_records st"
  "m_equivocations (append_entry e st) = m_equivocations st"
  by (simp_all add: append_entry_def)

lemma when_some_on_store:
  "when_some v (\<lambda>y. on_store (f y)) s =
     (Inr (), s\<lparr>store := (case v of None \<Rightarrow> store s | Some y \<Rightarrow> f y (store s))\<rparr>)"
  by (simp add: when_some_def split: option.splits)

lemma store_inv_store_subject:
  "store_inv x a st \<Longrightarrow> scitt_at (m_log st) i (pk_entry_hash pk) \<Longrightarrow> store_inv x a (store_subject pk st)"
  by (auto simp: store_subject_def intro: store_inv_put_subject split: option.splits)

text \<open>The result and the final store of a registration that passed the gates.\<close>

definition registered_as ::
    "ext \<Rightarrow> anchorer \<Rightarrow> string option \<Rightarrow> checkpoint option \<Rightarrow> peeked \<Rightarrow> string option \<Rightarrow> continuity option
      \<Rightarrow> int \<Rightarrow> mem_store \<Rightarrow> registration \<Rightarrow> mem_store \<Rightarrow> bool" where
  "registered_as x a grade cont pk w g at st rg st' \<longleftrightarrow> (\<exists>e h receipt.
     entry.log_index e = store_size st \<and> kind e = log_kind_scitt \<and> payload_hash e = pk_entry_hash pk \<and>
     m_log st' = m_log st @ [e] \<and>
     receipt_proves x (an_attestor a) (m_log st @ [e]) (store_size st)
       (receipt_protected (Some (at div 1000000)) grade
         (case cont of Some cp \<Rightarrow> (if g = Some Witnessed then Some (continuity_assertion x a cp at) else None)
           | None \<Rightarrow> None)) receipt \<and>
     sth_tree_size h = store_size st + 1 \<and>
     st' = store_tips pk cont g (put_sth (sth_to_json x h) (sth_tree_size h) (sth_timestamp h)
       (store_subject pk (put_statement (pk_entry_hash pk) (receipt, store_size st, store_size st + 1)
         (append_entry e st)))) \<and>
     rg = \<lparr>rg_receipt = receipt, rg_entry_hash = pk_entry_hash pk, rg_leaf_index = store_size st,
          rg_tree_size = store_size st + 1, rg_scheme = pk_scheme pk,
          rg_witness = (case pk_checkpoint pk of None \<Rightarrow> None | Some f \<Rightarrow> Some (f, the w)),
          rg_subject = pk_subject pk, rg_continuity = map_option continuity_text g\<rparr>)"

lemma commit_registration_run:
  assumes "store_inv x (an_attestor a) (store s)" "env_ok x a" "scitt_at (m_log (store s)) i (pk_entry_hash pk)"
    "n = int (length (m_log (store s)))"
  shows "\<exists>h. sth_tree_size h = n \<and> commit_registration x a now cont g w pk i r n s =
    (Inr \<lparr>rg_receipt = r, rg_entry_hash = pk_entry_hash pk, rg_leaf_index = i,
          rg_tree_size = n, rg_scheme = pk_scheme pk,
          rg_witness = (case pk_checkpoint pk of None \<Rightarrow> None | Some f \<Rightarrow> Some (f, the w)),
          rg_subject = pk_subject pk, rg_continuity = map_option continuity_text g\<rparr>,
     s\<lparr>store := store_tips pk cont g (put_sth (sth_to_json x h) n (sth_timestamp h)
       (store_subject pk (put_statement (pk_entry_hash pk) (r, i, n) (store s))))\<rparr>)"
proof -
  let ?st = "store_subject pk (put_statement (pk_entry_hash pk) (r, i, n) (store s))"
  let ?s = "s\<lparr>store := ?st\<rparr>"
  have "i < n" using assms(3,4) by (simp add: scitt_at_def)
  then have "store_inv x (an_attestor a) (store ?s)"
    using assms by (auto intro!: store_inv_store_subject store_inv_put_statement simp: store_simps)
  from sign_run [OF this assms(2), of "now 3" "now 4"] obtain h where
    h: "sign_and_persist_sth x (an_attestor a) (now 3) (now 4) ?s =
      (Inr h, ?s\<lparr>store := put_sth (sth_to_json x h) (sth_tree_size h) (sth_timestamp h) ?st\<rparr>)"
    "sth_tree_size h = n"
    using assms(4) by (auto simp: store_simps)
  show ?thesis
    using h(1) by (intro exI [of _ h])
      (auto simp: commit_registration_def op_bind_def when_some_on_store h(2) store_tips_def store_subject_def
        Let_def split: option.splits)
qed

lemma register_new_run:
  assumes inv: "store_inv x (an_attestor a) (store s)" and env: "env_ok x a"
    and pk: "pk_entry_hash pk = sha256_hex (pk_preimage pk)"
    and gates: "run_gates x a cont pk s = (Inr (w, g), s1)"
  shows "\<exists>rg st'. register_new x a now grade cont pk s = (Inr rg, s1\<lparr>store := st'\<rparr>) \<and>
    registered_as x a grade cont pk w g (now 0) (store s) rg st'"
proof -
  have st: "store s1 = store s"
    using same_store_run_gates [of x a cont pk] gates by (auto simp: same_store_def)
  obtain e where e: "new_entry x (an_attestor a) log_kind_scitt (pk_preimage pk) (now 0) (now 1) (store s) = Inr e"
    and run: "append_log x (an_attestor a) log_kind_scitt (pk_preimage pk) (now 0) (now 1) s1 =
      (Inr e, s1\<lparr>store := append_entry e (store s)\<rparr>)"
    using append_log_run [of x "an_attestor a" log_kind_scitt "pk_preimage pk" "now 0" "now 1" s1] st by auto
  have fields: "entry.log_index e = store_size (store s)" "kind e = log_kind_scitt" "payload_hash e = pk_entry_hash pk"
    using e pk by (auto simp: new_entry_eq)
  let ?st = "append_entry e (store s)" and ?n = "store_size (store s) + 1"
  have inv': "store_inv x (an_attestor a) ?st"
    using store_inv_append [OF inv _ e] env by (simp add: env_ok_def)
  have size: "int (length (m_log ?st)) = ?n" by (simp add: store_simps store_size_def)
  have at: "scitt_at (m_log ?st) (store_size (store s)) (pk_entry_hash pk)"
    using fields by (simp add: scitt_at_def store_simps store_size_def)
  define asr where "asr = (case cont of Some cp \<Rightarrow> (if g = Some Witnessed
     then Some (continuity_assertion x a cp (now 0)) else None) | None \<Rightarrow> None)"
  obtain receipt where receipt: "issue_receipt x a (now 0) (now 2) grade asr (store_size (store s)) ?st = Inr (receipt, ?n)"
    "receipt_proves x (an_attestor a) (m_log ?st) (store_size (store s))
       (receipt_protected (Some (now 0 div 1000000)) grade asr) receipt"
    using issue_receipt_run [OF inv' env, of "store_size (store s)" "now 0" "now 2" grade asr] size
    by (auto simp: store_size_def)
  let ?s = "s1\<lparr>store := ?st\<rparr>"
  obtain h where h: "sth_tree_size h = ?n"
    "commit_registration x a now cont g w pk (store_size (store s)) receipt ?n ?s =
      (Inr \<lparr>rg_receipt = receipt, rg_entry_hash = pk_entry_hash pk, rg_leaf_index = store_size (store s),
          rg_tree_size = ?n, rg_scheme = pk_scheme pk,
          rg_witness = (case pk_checkpoint pk of None \<Rightarrow> None | Some f \<Rightarrow> Some (f, the w)),
          rg_subject = pk_subject pk, rg_continuity = map_option continuity_text g\<rparr>,
       s1\<lparr>store := store_tips pk cont g (put_sth (sth_to_json x h) ?n (sth_timestamp h)
         (store_subject pk (put_statement (pk_entry_hash pk) (receipt, store_size (store s), ?n) ?st)))\<rparr>)"
    using commit_registration_run [of x a ?s "store_size (store s)" pk ?n now cont g w receipt] inv' env at size
    by auto
  have "register_new x a now grade cont pk s = commit_registration x a now cont g w pk (store_size (store s)) receipt ?n ?s"
    using gates run receipt(1) fields(1)
    by (cases cont) (simp_all add: register_new_def op_bind_simps asr_def)
  with h have "register_new x a now grade cont pk s =
      (Inr \<lparr>rg_receipt = receipt, rg_entry_hash = pk_entry_hash pk, rg_leaf_index = store_size (store s),
          rg_tree_size = ?n, rg_scheme = pk_scheme pk,
          rg_witness = (case pk_checkpoint pk of None \<Rightarrow> None | Some f \<Rightarrow> Some (f, the w)),
          rg_subject = pk_subject pk, rg_continuity = map_option continuity_text g\<rparr>,
       s1\<lparr>store := store_tips pk cont g (put_sth (sth_to_json x h) ?n (sth_timestamp h)
         (store_subject pk (put_statement (pk_entry_hash pk) (receipt, store_size (store s), ?n) ?st)))\<rparr>)" by simp
  moreover have "registered_as x a grade cont pk w g (now 0) (store s)
     \<lparr>rg_receipt = receipt, rg_entry_hash = pk_entry_hash pk, rg_leaf_index = store_size (store s),
          rg_tree_size = ?n, rg_scheme = pk_scheme pk,
          rg_witness = (case pk_checkpoint pk of None \<Rightarrow> None | Some f \<Rightarrow> Some (f, the w)),
          rg_subject = pk_subject pk, rg_continuity = map_option continuity_text g\<rparr>
     (store_tips pk cont g (put_sth (sth_to_json x h) ?n (sth_timestamp h)
         (store_subject pk (put_statement (pk_entry_hash pk) (receipt, store_size (store s), ?n) ?st))))"
    unfolding registered_as_def
    using fields receipt(2) h(1)
    by (intro exI [of _ e] exI [of _ h] exI [of _ receipt]) (simp add: store_simps asr_def)
  ultimately show ?thesis by blast
qed

section \<open>The three outcomes of a registration\<close>

lemma register_full_cases:
  assumes inv: "store_inv x (an_attestor a) (store s)" and env: "env_ok x a"
    and run: "register_signed_statement_full x a now st grade cont s = (r, t)"
  obtains (refused) e where "r = Inl e" "store t = store s"
  | (cached) pk c where "peek_statement x a st = Inr pk" "cached_statement pk (store s) = Some c" "t = s"
      "r = Inr (cached_registration pk cont c (store s))"
  | (registered) pk w g s1 rg where "peek_statement x a st = Inr pk" "cached_statement pk (store s) = None"
      "run_gates x a cont pk s = (Inr (w, g), s1)" "r = Inr rg" "would_refuse t = would_refuse s1"
      "registered_as x a grade cont pk w g (now 0) (store s) rg (store t)"
proof (cases "peek_statement x a st")
  case (Inl e)
  with run show thesis by (intro refused [of e]) (simp_all add: register_signed_statement_full_def)
next
  case (Inr pk)
  show thesis
  proof (cases "cached_statement pk (store s)")
    case (Some c)
    then have "register_signed_statement_full x a now st grade cont s =
        (Inr (cached_registration pk cont c (store s)), s)"
      by (simp add: register_signed_statement_full_def Inr)
    then have "(r, t) = (Inr (cached_registration pk cont c (store s)), s)"
      by (rule trans [OF run [symmetric]])
    then show thesis using cached [OF Inr Some] by blast
  next
    case None
    with Inr run have new: "register_new x a now grade cont pk s = (r, t)"
      by (simp add: register_signed_statement_full_def)
    obtain gr s1 where gates: "run_gates x a cont pk s = (gr, s1)" by (cases "run_gates x a cont pk s") auto
    have st: "store s1 = store s"
      using same_store_run_gates [of x a cont pk] gates by (auto simp: same_store_def)
    show thesis
    proof (cases gr)
      case (Inl e)
      with new gates st show thesis by (intro refused [of e]) (simp_all add: register_new_def op_bind_simps)
    next
      case gr: (Inr wg)
      obtain w g where wg: "wg = (w, g)" by (cases wg)
      have g': "run_gates x a cont pk s = (Inr (w, g), s1)" using gates gr wg by simp
      obtain rg st' where new': "register_new x a now grade cont pk s = (Inr rg, s1\<lparr>store := st'\<rparr>)"
        and reg: "registered_as x a grade cont pk w g (now 0) (store s) rg st'"
        using register_new_run [OF inv env peek_entry_hash [OF Inr] g', of now grade] by blast
      have "r = Inr rg" "t = s1\<lparr>store := st'\<rparr>" using new new' by simp_all
      then show thesis using registered [OF Inr None g'] reg by simp
    qed
  qed
qed

section \<open>Cached statements are kept\<close>

definition stm_le :: "mem_store \<Rightarrow> mem_store \<Rightarrow> bool" where
  "stm_le s t \<longleftrightarrow> map_of (m_statements s) \<subseteq>\<^sub>m map_of (m_statements t)"

lemma stm_le_refl [simp]: "stm_le s s"
  by (simp add: stm_le_def)

lemma stm_le_trans: "stm_le s t \<Longrightarrow> stm_le t u \<Longrightarrow> stm_le s u"
  by (auto simp: stm_le_def intro: map_le_trans)

lemma registered_statements:
  assumes "registered_as x a grade cont pk w g at st rg st'"
  shows "map_of (m_statements st') =
      (map_of (m_statements st))(pk_entry_hash pk \<mapsto> (rg_receipt rg, rg_leaf_index rg, rg_tree_size rg))"
    and "rg_entry_hash rg = pk_entry_hash pk" "rg_scheme rg = pk_scheme pk"
    and "rg_leaf_index rg = store_size st" "rg_tree_size rg = store_size st + 1"
  using assms by (auto simp: registered_as_def store_simps)

lemma registered_log:
  assumes "registered_as x a grade cont pk w g at st rg st'"
  obtains e where "m_log st' = m_log st @ [e]" "payload_hash e = pk_entry_hash pk" "kind e = log_kind_scitt"
  using assms by (auto simp: registered_as_def)

lemma registered_stm_le:
  assumes "registered_as x a grade cont pk w g at st rg st'" "cached_statement pk st = None"
  shows "stm_le st st'"
  using assms(2) registered_statements(1) [OF assms(1)]
  by (auto simp: stm_le_def map_le_def cached_statement_def get_statement_def split: option.splits if_splits)

lemma register_full_stm_le:
  assumes "store_inv x (an_attestor a) (store s)" "env_ok x a"
    "register_signed_statement_full x a now st grade cont s = (r, t)"
  shows "stm_le (store s) (store t)"
  using assms by (cases rule: register_full_cases) (auto intro: registered_stm_le)

text \<open>The calls that never touch the receipt cache.\<close>

definition keeps_statements :: "(svc, 'a) op \<Rightarrow> bool" where
  "keeps_statements m \<longleftrightarrow> (\<forall>s r t. m s = (r, t) \<longrightarrow> m_statements (store t) = m_statements (store s) \<and>
     m_witnesses (store t) = m_witnesses (store s))"

lemma keeps_bind: "keeps_statements m \<Longrightarrow> (\<And>y. keeps_statements (f y)) \<Longrightarrow> keeps_statements (op_bind m f)"
  unfolding keeps_statements_def op_bind_def by (auto split: prod.splits sum.splits)

lemma keeps_same_store: "same_store m \<Longrightarrow> keeps_statements m"
  by (simp add: same_store_def keeps_statements_def)

lemma keeps_on_store:
  "(\<And>st. m_statements (f st) = m_statements st \<and> m_witnesses (f st) = m_witnesses st) \<Longrightarrow>
   keeps_statements (on_store f)"
  by (simp add: keeps_statements_def on_store_def)

lemma keeps_stores [simp]:
  "keeps_statements (on_store (append_entry e))" "keeps_statements (on_store (put_root cr))"
  "keeps_statements (on_store (put_capsule_id i c))" "keeps_statements (on_store (put_sth j n tm))"
  by (rule keeps_on_store, simp add: put_root_def put_capsule_id_def store_simps)+

lemma keeps_basic [simp]:
  "keeps_statements (op_return v)" "keeps_statements (op_lift w)" "keeps_statements (op_get g)"
  "keeps_statements (Pair q)"
  by (auto intro: keeps_same_store)

lemma keeps_sign [simp]: "keeps_statements (sign_and_persist_sth x b t1 t2)"
  by (auto simp: sign_and_persist_sth_def Let_def intro!: keeps_bind)

lemma keeps_operations:
  "keeps_statements (anchor x a now tsa tid rh sr cid)"
  "keeps_statements (get_sth x a now)"
  "keeps_statements (refresh_sth x a now)"
  by (auto simp: anchor_def append_log_def get_sth_def refresh_sth_def Let_def intro!: keeps_bind split: option.splits)

lemma record_keeps:
  "record_checkpoint_read_surface cp rg s = (r, t) \<Longrightarrow> m_statements (store t) = m_statements (store s) \<and>
     m_witnesses (store t) = m_witnesses (store s) \<and> m_log (store t) = m_log (store s)"
  by (auto simp: record_checkpoint_read_surface_def put_checkpoint_record_def Let_def split: option.splits)

lemma fromhex_checkpoint_digest [simp]:
  "fromhex (checkpoint_digest cp) = Inr (sha256 (checkpoint_signing_body cp))"
  by (simp add: checkpoint_digest_def)

lemma witness_checkpoint_cases:
  assumes "witness_checkpoint x a now cp s = (r, t)"
  obtains (refused) e where "r = Inl e"
      "register_signed_statement_full x a now (sha256 (checkpoint_signing_body cp)) (ck_grade cp) (Some cp) s = (Inl e, t)"
  | (accepted) rg s1 where "r = Inr rg"
      "register_signed_statement_full x a now (sha256 (checkpoint_signing_body cp)) (ck_grade cp) (Some cp) s = (Inr rg, s1)"
      "record_checkpoint_read_surface cp rg s1 = (Inr (), t)"
  using assms
  by (auto simp: witness_checkpoint_def op_bind_def record_checkpoint_read_surface_def on_store_def
      split: prod.splits sum.splits)

section \<open>Calls without pruning keep the receipt cache\<close>

lemma call_stm_le:
  assumes "call x a s t" "store_inv x (an_attestor a) (store s)" "env_ok x a"
  shows "stm_le (store s) (store t)"
  using assms(1)
proof (cases rule: call.cases)
  case (witness_call cp now r')
  from witness_call(2) show ?thesis
  proof (cases rule: witness_checkpoint_cases)
    case (refused e)
    then show ?thesis using register_full_stm_le [OF assms(2,3)] by blast
  next
    case (accepted rg s1)
    then show ?thesis using register_full_stm_le [OF assms(2,3)] record_keeps [of cp rg s1 "Inr ()" t]
      by (simp add: stm_le_def)
  qed
next
  case (statement_call now st r')
  then show ?thesis using register_full_stm_le [OF assms(2,3)] by blast
next
  case (checkpoint_call cp now r')
  then show ?thesis using register_full_stm_le [OF assms(2,3)] by blast
next
  case (record_call cp rg u)
  then show ?thesis using record_keeps by (simp add: stm_le_def)
next
  case anchor_call
  then show ?thesis using keeps_operations(1) by (fastforce simp: keeps_statements_def stm_le_def)
next
  case get_sth_call
  then show ?thesis using keeps_operations(2) by (fastforce simp: keeps_statements_def stm_le_def)
next
  case refresh_call
  then show ?thesis using keeps_operations(3) by (fastforce simp: keeps_statements_def stm_le_def)
qed

lemma calls_inv:
  "calls x a s t \<Longrightarrow> store_inv x (an_attestor a) (store s) \<Longrightarrow> env_ok x a \<Longrightarrow> store_inv x (an_attestor a) (store t)"
  using run_stable [OF calls_run, of x a s t "store s"] by (simp add: stable_def)

lemma calls_stm_le:
  "calls x a s t \<Longrightarrow> store_inv x (an_attestor a) (store s) \<Longrightarrow> env_ok x a \<Longrightarrow> stm_le (store s) (store t)"
proof (induction rule: calls.induct)
  case (calls_call s t u)
  then show ?case using call_stm_le [of x a t u] calls_inv [of x a s t] stm_le_trans by blast
qed simp

lemma peek_compute:
  assumes "peek_statement x a st = Inr pk"
  shows "compute_entry_hash x st = (pk_entry_hash pk, pk_scheme pk)"
    and "pk_legacy_hash pk = (if pk_scheme pk = SchemeLegacy then pk_entry_hash pk else legacy_entry_hash st)"
  using assms
  by (auto simp: peek_statement_def compute_entry_hash_def Let_def rbind_Inr_iff
      split: if_splits option.splits prod.splits)

lemma receipt_is_cached:
  assumes "store_inv x (an_attestor a) (store s)" "env_ok x a"
    "register_signed_statement_full x a now st grade cont s = (Inr r, t)"
    "peek_statement x a st = Inr pk" "rg_scheme r = pk_scheme pk"
  shows "get_statement (pk_entry_hash pk) (store t) = Some (rg_receipt r, rg_leaf_index r, rg_tree_size r) \<and>
    rg_entry_hash r = pk_entry_hash pk"
  using assms(1-3)
proof (cases rule: register_full_cases)
  case (cached pk1 c)
  then have pk1: "pk1 = pk" using assms(4) by simp
  have r: "r = cached_registration pk cont c (store s)" using cached(4) pk1 by simp
  then have "snd c = pk_scheme pk" using assms(5) by (cases c) (auto simp: cached_registration_def)
  then have "get_statement (pk_entry_hash pk) (store s) = Some (fst c)"
    using cached(2) pk1 peek_compute(2) [OF assms(4)]
    by (auto simp: cached_statement_def split: option.splits if_splits)
  then show ?thesis
    using r cached(3) peek_compute(2) [OF assms(4)] \<open>snd c = pk_scheme pk\<close>
    by (cases c) (auto simp: cached_registration_def)
next
  case (registered pk1 w g s1 rg)
  then show ?thesis
    using registered_statements [OF registered(6)] assms(4) by (simp add: get_statement_def)
qed simp

section \<open>What anchoring appends\<close>

lemma anchor_run:
  "\<exists>e st. entry.log_index e = store_size (store s) \<and> kind e = log_kind_root \<and>
     payload_hash e = sha256_hex (countersign_payload tid rh sr (now 0)) \<and>
     prev_log_hash e = chain_head (m_log (store s)) \<and>
     m_log st = m_log (store s) @ [e] \<and> m_statements st = m_statements (store s) \<and>
     get_root tid rh st = Some \<lparr>cr_tenant_id = tid, cr_root_hash = rh, cr_seq_range = sr, attested_at = now 0,
       countersignature = attest x (an_attestor a) (countersign_payload tid rh sr (now 0)) (now 1)\<rparr> \<and>
     (\<forall>c. cid = Some c \<longrightarrow> get_capsule_id (store_size (store s)) st = Some c) \<and>
     anchor x a now tsa tid rh sr cid s =
       (case tsa_signature_for tsa rh of Inl ex \<Rightarrow> Inl ex | Inr tok \<Rightarrow> Inr
         \<lparr>ar_root_hash = rh, ar_tenant_id = tid, ar_anchored_at = now 0,
          ar_location = ''as-transparency-log://entry/'' @ show_int (store_size (store s)),
          ar_log_index = store_size (store s),
          ar_countersignature = attest x (an_attestor a) (countersign_payload tid rh sr (now 0)) (now 1),
          ar_payload_hash = payload_hash e, ar_prev_log_hash = prev_log_hash e, ar_seq_range = sr, ar_tsa = tok\<rparr>,
        s\<lparr>store := st\<rparr>)"
proof -
  let ?p = "countersign_payload tid rh sr (now 0)"
  let ?r = "\<lparr>cr_tenant_id = tid, cr_root_hash = rh, cr_seq_range = sr, attested_at = now 0,
       countersignature = attest x (an_attestor a) ?p (now 1)\<rparr>"
  obtain e where e: "new_entry x (an_attestor a) log_kind_root ?p (now 0) (now 2) (store s) = Inr e"
    and run: "append_log x (an_attestor a) log_kind_root ?p (now 0) (now 2) s = (Inr e, s\<lparr>store := append_entry e (store s)\<rparr>)"
    using append_log_run by blast
  let ?st = "put_root ?r (append_entry e (store s))"
  let ?st' = "case cid of None \<Rightarrow> ?st | Some c \<Rightarrow> put_capsule_id (log_index e) c ?st"
  have fields: "entry.log_index e = store_size (store s)" "kind e = log_kind_root" "payload_hash e = sha256_hex ?p"
     "prev_log_hash e = chain_head (m_log (store s))"
    using e by (auto simp: new_entry_eq)
  show ?thesis
    using fields
    by (intro exI [of _ e] exI [of _ ?st'], cases cid; cases "tsa_signature_for tsa rh")
      (auto simp: anchor_def Let_def op_bind_simps(1) run put_root_def put_capsule_id_def get_root_def
        get_capsule_id_def store_simps)
qed

section \<open>Registered exactly once\<close>

definition scitt_hashes :: "entry list \<Rightarrow> string list" where
  "scitt_hashes log = map payload_hash (filter (\<lambda>e. kind e = log_kind_scitt) log)"

definition once :: "mem_store \<Rightarrow> bool" where
  "once s \<longleftrightarrow> distinct (scitt_hashes (m_log s)) \<and>
     (\<forall>h \<in> set (scitt_hashes (m_log s)). map_of (m_statements s) h \<noteq> None)"

lemma root_not_scitt [simp]: "log_kind_root \<noteq> log_kind_scitt" "log_kind_scitt \<noteq> log_kind_root"
  by (simp_all add: log_kind_root_def log_kind_scitt_def)

lemma once_registered:
  assumes "registered_as x a grade cont pk w g at st rg st'" "cached_statement pk st = None" "once st"
  shows "once st'"
proof -
  have "map_of (m_statements st) (pk_entry_hash pk) = None"
    using assms(2) by (auto simp: cached_statement_def get_statement_def split: option.splits if_splits)
  moreover obtain e where "m_log st' = m_log st @ [e]" "payload_hash e = pk_entry_hash pk" "kind e = log_kind_scitt"
    using registered_log [OF assms(1)] by blast
  ultimately show ?thesis using assms(3) registered_statements(1) [OF assms(1)]
    by (auto simp: once_def scitt_hashes_def)
qed

lemma register_full_once:
  assumes "store_inv x (an_attestor a) (store s)" "env_ok x a" "once (store s)"
    "register_signed_statement_full x a now st grade cont s = (r, t)"
  shows "once (store t)"
  using assms(1,2,4) by (cases rule: register_full_cases) (use assms(3) once_registered in auto)

lemma keeps_log_sth:
  "get_sth x a now s = (r, t) \<Longrightarrow> m_log (store t) = m_log (store s)"
  "refresh_sth x a now s = (r, t) \<Longrightarrow> m_log (store t) = m_log (store s)"
  by (auto simp: get_sth_def refresh_sth_def sign_and_persist_sth_def op_bind_def on_store_def Let_def store_simps
      split: option.splits prod.splits sum.splits if_splits)

lemma call_once:
  assumes "call x a s t" "store_inv x (an_attestor a) (store s)" "env_ok x a" "once (store s)"
  shows "once (store t)"
  using assms(1)
proof (cases rule: call.cases)
  case (anchor_call now tsa tid rh sr cid r)
  with anchor_run [where s = s and tid = tid and rh = rh and sr = sr and now = now and cid = cid
      and x = x and a = a and tsa = tsa] assms(4) show ?thesis
    by (auto simp: once_def scitt_hashes_def)
next
  case (statement_call now st r')
  then show ?thesis using register_full_once [OF assms(2,3,4)] by blast
next
  case (checkpoint_call cp now r')
  then show ?thesis using register_full_once [OF assms(2,3,4)] by blast
next
  case (record_call cp rg u)
  with record_keeps [OF record_call] assms(4) show ?thesis by (simp add: once_def)
next
  case (witness_call cp now r')
  from witness_call(2) show ?thesis
  proof (cases rule: witness_checkpoint_cases)
    case (refused e)
    then show ?thesis using register_full_once [OF assms(2,3,4)] by blast
  next
    case (accepted rg s1)
    then have "once (store s1)" using register_full_once [OF assms(2,3,4)] by blast
    with record_keeps [OF accepted(3)] show ?thesis by (simp add: once_def)
  qed
next
  case (get_sth_call now h)
  with keeps_operations(2) [of x a now] keeps_log_sth(1) [of x a now s h t] assms(4) show ?thesis
    by (auto simp: once_def keeps_statements_def)
next
  case (refresh_call now h)
  with keeps_operations(3) [of x a now] keeps_log_sth(2) [of x a now s h t] assms(4) show ?thesis
    by (auto simp: once_def keeps_statements_def)
qed

lemma calls_once:
  "calls x a s t \<Longrightarrow> store_inv x (an_attestor a) (store s) \<Longrightarrow> env_ok x a \<Longrightarrow> once (store s) \<Longrightarrow> once (store t)"
proof (induction rule: calls.induct)
  case (calls_call s t u)
  then show ?case using call_once [of x a t u] calls_inv [of x a s t] by blast
qed simp

section \<open>What passing a gate means\<close>

lemma consistency_gate_passed:
  assumes "check_checkpoint_consistency a f s = (Inr w, t)"
  shows "(get_checkpoint_witness (lc_log_id f) (store s) = None \<and> w = ''first-seen'') \<or>
    (\<exists>p. get_checkpoint_witness (lc_log_id f) (store s) = Some p \<and> w = ''witnessed'' \<and>
       lc_prev_size f = w_mmr_size p \<and> w_mmr_size p < lc_mmr_size f \<and> an_proof_policy a \<noteq> PolicyEnforce)"
  using assms
  by (auto simp: check_checkpoint_consistency_def op_bind_Inr apply_consistency_proof_policy_legacy_def
      refuse_or_count_def split: option.splits if_splits)

definition bridges :: "ext \<Rightarrow> checkpoint \<Rightarrow> witness \<Rightarrow> mmr_proof \<Rightarrow> bool" where
  "bridges x cp p pf \<longleftrightarrow> ck_prev_size cp = w_mmr_size p \<and> ck_prev_root cp = w_mmr_root p \<and>
     (\<exists>old new. fromhex (w_mmr_root p) = Inr old \<and> fromhex (ck_root cp) = Inr new \<and>
        mmr_verify x old (w_mmr_size p) new (ck_mmr_size cp) pf)"

lemma continuity_gate_passed:
  assumes "check_checkpoint_continuity x a cp s = (Inr g, t)"
  shows "case g of
      FirstSeen \<Rightarrow> get_checkpoint_witness (ck_log_id cp) (store s) = None
    | Registered \<Rightarrow> get_checkpoint_witness (ck_log_id cp) (store s) \<noteq> None \<and> ck_proof cp \<in> {None, Some None} \<and>
        (an_proof_policy a = PolicyEnforce \<longrightarrow> \<not> consistency_proof_policy_applies cp)
    | Witnessed \<Rightarrow> (\<exists>p pf. get_checkpoint_witness (ck_log_id cp) (store s) = Some p \<and>
        ck_proof cp = Some (Some pf) \<and> bridges x cp p pf)"
  using assms
  by (auto simp: check_checkpoint_continuity_def op_bind_Inr apply_consistency_proof_policy_def
      refuse_or_count_def bridges_def split: option.splits if_splits)

lemma run_gates_passed:
  assumes "run_gates x a cont pk s = (Inr (w, g), t)"
  shows "\<And>f. pk_checkpoint pk = Some f \<Longrightarrow> \<exists>v u. check_checkpoint_consistency a f s = (Inr v, u) \<and> w = Some v"
    and "\<And>cp. cont = Some cp \<Longrightarrow> \<exists>v u u'. check_checkpoint_continuity x a cp u = (Inr v, u') \<and> g = Some v \<and> store u = store s"
    and "cont = None \<Longrightarrow> g = None"
proof -
  have st: "store u = store s" if "check_checkpoint_consistency a f s = (r, u)" for f r u
    using same_store_gates(1) [of a f] that by (auto simp: same_store_def)
  show "\<And>f. pk_checkpoint pk = Some f \<Longrightarrow> \<exists>v u. check_checkpoint_consistency a f s = (Inr v, u) \<and> w = Some v"
    using assms by (auto simp: run_gates_def op_bind_Inr)
  show "cont = None \<Longrightarrow> g = None"
    using assms by (auto simp: run_gates_def op_bind_Inr)
  show "\<And>cp. cont = Some cp \<Longrightarrow> \<exists>v u u'. check_checkpoint_continuity x a cp u = (Inr v, u') \<and> g = Some v \<and> store u = store s"
    using assms st by (fastforce simp: run_gates_def op_bind_Inr split: option.splits)
qed

section \<open>Witness tips\<close>

definition tip_le :: "mem_store \<Rightarrow> mem_store \<Rightarrow> bool" where
  "tip_le s t \<longleftrightarrow> (\<forall>l p. get_checkpoint_witness l s = Some p \<longrightarrow>
     (\<exists>q. get_checkpoint_witness l t = Some q \<and> (q = p \<or> w_mmr_size p < w_mmr_size q)))"

lemma tip_le_refl [simp]: "tip_le s s"
  by (auto simp: tip_le_def)

lemma tip_le_trans:
  assumes "tip_le s t" "tip_le t u"
  shows "tip_le s u"
  unfolding tip_le_def
proof (intro allI impI)
  fix l p assume "get_checkpoint_witness l s = Some p"
  then obtain q where q: "get_checkpoint_witness l t = Some q" "q = p \<or> w_mmr_size p < w_mmr_size q"
    using assms(1) by (auto simp: tip_le_def)
  then obtain r where "get_checkpoint_witness l u = Some r" "r = q \<or> w_mmr_size q < w_mmr_size r"
    using assms(2) by (auto simp: tip_le_def)
  with q(2) show "\<exists>q. get_checkpoint_witness l u = Some q \<and> (q = p \<or> w_mmr_size p < w_mmr_size q)"
    by auto
qed

lemma tip_le_same: "m_witnesses s = m_witnesses t \<Longrightarrow> tip_le s t"
  by (simp add: tip_le_def get_checkpoint_witness_def)

text \<open>
  The code's remark that a checkpoint digest is never itself a checkpoint statement, from two
  facts about the decoders: an embedded payload is no longer than the message, a JSON text no
  shorter than a string member of its object.
\<close>

definition decoders_bounded :: "ext \<Rightarrow> bool" where
  "decoders_bounded x \<longleftrightarrow>
     (\<forall>d t pb u p sg. cbor_loads x d = Some (CTag t (CList [pb, u, CBytes p, sg])) \<longrightarrow> length p \<le> length d) \<and>
     (\<forall>d obj k v. json_loads_utf8 x d = Inr (JObj obj) \<longrightarrow> map_of obj k = Some (JStr v) \<longrightarrow> length v \<le> length d)"

lemma parse_short:
  assumes "decoders_bounded x" "length p < 64"
  shows "parse_checkpoint_payload x (Some p) \<noteq> Inr (Some f)"
proof
  assume "parse_checkpoint_payload x (Some p) = Inr (Some f)"
  then obtain obj root where "json_loads_utf8 x p = Inr (JObj obj)" "map_of obj ''mmr_root'' = Some (JStr root)"
    "length root = 64"
    by (auto simp: parse_checkpoint_payload_def is_hex64_def split: sum.splits option.splits json.splits if_splits)
  with assms show False unfolding decoders_bounded_def by (metis not_le)
qed

lemma decode_bounded:
  "decoders_bounded x \<Longrightarrow> decode_cose_sign1 x d = Some (pb, u, Some p, sg) \<Longrightarrow> length p \<le> length d"
  unfolding decoders_bounded_def
  by (auto simp: decode_cose_sign1_def split: option.splits cbor.splits list.splits if_splits)

lemma digest_not_checkpoint:
  assumes "decoders_bounded x" "length d < 64" "peek_statement x a d = Inr pk"
  shows "pk_checkpoint pk = None"
proof (cases "decode_cose_sign1 x d")
  case None
  with assms(3) show ?thesis by (auto simp: peek_statement_def Let_def split: if_splits prod.splits)
next
  case (Some q)
  obtain pb u pl sg where q: "q = (pb, u, pl, sg)" by (cases q)
  have "parse_checkpoint_payload x pl \<noteq> Inr (Some f)" for f
  proof (cases pl)
    case None
    then show ?thesis by (simp add: parse_checkpoint_payload_def)
  next
    case (Some p)
    then show ?thesis
      using parse_short [OF assms(1), of p f] decode_bounded [OF assms(1), of d pb u p sg]
        \<open>decode_cose_sign1 x d = Some q\<close> q assms(2) by simp
  qed
  with Some q assms(3) show ?thesis
    by (cases "pk_checkpoint pk") (auto simp: peek_statement_def Let_def rbind_Inr_iff split: if_splits prod.splits)
qed

lemma tip_le_put:
  "(\<And>p. get_checkpoint_witness l s = Some p \<Longrightarrow> w_mmr_size p < w_mmr_size w) \<Longrightarrow>
   tip_le s (put_checkpoint_witness l w s)"
  by (auto simp: tip_le_def get_checkpoint_witness_def put_checkpoint_witness_def)

lemma registered_witnesses:
  assumes "registered_as x a grade cont pk w g at st rg st'"
  shows "\<exists>st1. m_witnesses st1 = m_witnesses st \<and> st' = store_tips pk cont g st1"
proof -
  obtain e h receipt where "st' = store_tips pk cont g (put_sth (sth_to_json x h) (sth_tree_size h) (sth_timestamp h)
       (store_subject pk (put_statement (pk_entry_hash pk) (receipt, store_size st, store_size st + 1)
         (append_entry e st))))" (is "_ = store_tips pk cont g ?st1")
    using assms unfolding registered_as_def by blast
  moreover have "m_witnesses ?st1 = m_witnesses st" by (simp add: store_simps)
  ultimately show ?thesis by blast
qed

lemma store_tips_le:
  assumes one: "cont = None \<or> pk_checkpoint pk = None"
    and legacy: "\<And>f p. pk_checkpoint pk = Some f \<Longrightarrow> get_checkpoint_witness (lc_log_id f) st = Some p \<Longrightarrow>
      w_mmr_size p < lc_mmr_size f"
    and cont: "\<And>cp p. cont = Some cp \<Longrightarrow> g \<in> {Some FirstSeen, Some Witnessed} \<Longrightarrow>
      get_checkpoint_witness (ck_log_id cp) st = Some p \<Longrightarrow> w_mmr_size p < ck_mmr_size cp"
  shows "tip_le st (store_tips pk cont g st)"
proof (cases cont)
  case None
  then show ?thesis using legacy
    by (cases "pk_checkpoint pk") (auto simp: store_tips_def witness_of_legacy_def intro!: tip_le_put)
next
  case (Some cp)
  then have "pk_checkpoint pk = None" using one by simp
  with Some show ?thesis using cont [OF Some]
    by (cases "g \<in> {Some FirstSeen, Some Witnessed}")
      (auto simp: store_tips_def witness_of_def intro!: tip_le_put)
qed

lemma registered_tip_le:
  assumes reg: "registered_as x a grade cont pk w g at (store s) rg st'"
    and gates: "run_gates x a cont pk s = (Inr (w, g), s1)"
    and one: "cont = None \<or> pk_checkpoint pk = None"
    and wf: "\<And>cp. cont = Some cp \<Longrightarrow> well_formed_cp cp"
  shows "tip_le (store s) st'"
proof -
  obtain st1 where st1: "m_witnesses st1 = m_witnesses (store s)" "st' = store_tips pk cont g st1"
    using registered_witnesses [OF reg] by blast
  have tip: "get_checkpoint_witness l st1 = get_checkpoint_witness l (store s)" for l
    by (simp add: get_checkpoint_witness_def st1(1))
  have "tip_le st1 st'" unfolding st1(2)
  proof (rule store_tips_le [OF one])
    fix f p assume f: "pk_checkpoint pk = Some f" and p: "get_checkpoint_witness (lc_log_id f) st1 = Some p"
    obtain v u where "check_checkpoint_consistency a f s = (Inr v, u)"
      using run_gates_passed(1) [OF gates f] by blast
    from consistency_gate_passed [OF this] p show "w_mmr_size p < lc_mmr_size f" by (auto simp: tip)
  next
    fix cp p assume cp: "cont = Some cp" and g: "g \<in> {Some FirstSeen, Some Witnessed}"
      and p: "get_checkpoint_witness (ck_log_id cp) st1 = Some p"
    obtain v u u' where c: "check_checkpoint_continuity x a cp u = (Inr v, u')" "g = Some v" "store u = store s"
      using run_gates_passed(2) [OF gates cp] by blast
    show "w_mmr_size p < ck_mmr_size cp"
      using continuity_gate_passed [OF c(1)] c(2,3) p g wf [OF cp]
      by (auto simp: tip bridges_def well_formed_cp_def)
  qed
  with tip_le_same [OF st1(1) [symmetric]] show ?thesis by (rule tip_le_trans)
qed

lemma register_full_tip_le:
  assumes "store_inv x (an_attestor a) (store s)" "env_ok x a"
    "register_signed_statement_full x a now st grade cont s = (r, t)"
    "\<And>pk. peek_statement x a st = Inr pk \<Longrightarrow> cont = None \<or> pk_checkpoint pk = None"
    "\<And>cp. cont = Some cp \<Longrightarrow> well_formed_cp cp"
  shows "tip_le (store s) (store t)"
  using assms(1-3)
proof (cases rule: register_full_cases)
  case (registered pk w g s1 rg)
  show ?thesis by (rule registered_tip_le [OF registered(6,3) assms(4) [OF registered(1)] assms(5)])
qed (simp_all add: tip_le_same)

lemma step_tip_le:
  assumes "step x a s t" "store_inv x (an_attestor a) (store s)" "env_ok x a" "decoders_bounded x"
  shows "tip_le (store s) (store t)"
  using assms(1)
proof (cases rule: step.cases)
  case (prune_step env time n)
  then obtain m where "m_witnesses (store t) = m_witnesses (store s)"
    by (auto simp: prune_expired_statements_def op_bind_def split: prod.splits sum.splits option.splits
        dest!: prune_store)
  then show ?thesis by (simp add: tip_le_same)
next
  case call_step
  then show ?thesis
  proof (cases rule: call.cases)
    case anchor_call
    then show ?thesis using keeps_operations(1) by (fastforce simp: keeps_statements_def intro: tip_le_same)
  next
    case get_sth_call
    then show ?thesis using keeps_operations(2) by (fastforce simp: keeps_statements_def intro: tip_le_same)
  next
    case refresh_call
    then show ?thesis using keeps_operations(3) by (fastforce simp: keeps_statements_def intro: tip_le_same)
  next
    case statement_call
    then show ?thesis using register_full_tip_le [OF assms(2,3)] by blast
  next
    case (record_call cp rg u)
    with record_keeps [OF record_call] show ?thesis by (simp add: tip_le_same)
  next
    case (checkpoint_call cp now r')
    have "length (sha256 (checkpoint_signing_body cp)) < 64" by simp
    note none = digest_not_checkpoint [OF assms(4) this]
    from checkpoint_call(2) show ?thesis
      by (rule register_full_tip_le [OF assms(2,3)]) (use none checkpoint_call(1) in auto)
  next
    case (witness_call cp now r')
    have "length (sha256 (checkpoint_signing_body cp)) < 64" by simp
    note none = digest_not_checkpoint [OF assms(4) this]
    from witness_call(2) show ?thesis
    proof (cases rule: witness_checkpoint_cases)
      case (refused e)
      from refused(2) show ?thesis
        by (rule register_full_tip_le [OF assms(2,3)]) (use none witness_call(1) in auto)
    next
      case (accepted rg s1)
      from accepted(2) have "tip_le (store s) (store s1)"
        by (rule register_full_tip_le [OF assms(2,3)]) (use none witness_call(1) in auto)
      moreover have "tip_le (store s1) (store t)"
        using record_keeps [OF accepted(3)] by (simp add: tip_le_same)
      ultimately show ?thesis by (rule tip_le_trans)
    qed
  qed
qed

lemma run_inv:
  "run x a s t \<Longrightarrow> store_inv x (an_attestor a) (store s) \<Longrightarrow> env_ok x a \<Longrightarrow> store_inv x (an_attestor a) (store t)"
  using run_stable [of x a s t "store s"] by (simp add: stable_def)

lemma run_tip_le:
  "run x a s t \<Longrightarrow> store_inv x (an_attestor a) (store s) \<Longrightarrow> env_ok x a \<Longrightarrow> decoders_bounded x \<Longrightarrow>
   tip_le (store s) (store t)"
proof (induction rule: run.induct)
  case (run_step s t u)
  then show ?case using step_tip_le [of x a t u] run_inv [of x a s t] tip_le_trans by blast
qed simp

end
