(* ===== verification/ServiceProps.thy ===== *)
theory ServiceProps
  imports Registration
begin

text \<open>
  What the anchoring service promises, over every state a run from the empty store reaches. The
  libraries enter through \<open>env_ok\<close> (the attestor accepts its own signatures, the tree head's JSON
  form reads back); \<open>sample_anchorer\<close> on \<open>sample_ext\<close> shows that it can hold.
\<close>

section \<open>A concrete service\<close>

definition sample_anchorer :: anchorer where
  "sample_anchorer = \<lparr>an_attestor = sample_attestor, an_proof_policy = PolicyEnforce,
     an_payload_policy = default_payload_policy\<rparr>"

definition sample_start :: svc where
  "sample_start = \<lparr>store = empty_store, would_refuse = []\<rparr>"

lemma sample_env_ok [simp]: "env_ok sample_ext sample_anchorer"
  by (simp add: env_ok_def sample_anchorer_def)

lemma sample_reachable [simp]: "reachable sample_ext sample_anchorer sample_start"
  by (simp add: reachable_def sample_start_def run_refl)

lemma sample_bounded [simp]: "decoders_bounded sample_ext"
  by (simp add: decoders_bounded_def sample_ext_def)

lemma sample_peek:
  "length d \<le> 100 \<Longrightarrow> peek_statement sample_ext sample_anchorer d = Inr \<lparr>pk_preimage = d, pk_scheme = SchemeLegacy,
     pk_entry_hash = sha256_hex d, pk_legacy_hash = sha256_hex d, pk_subject = None, pk_digest = None,
     pk_form = None, pk_checkpoint = None\<rparr>"
  by (simp add: peek_statement_def max_statement_bytes_def entry_hash_preimage_def decode_cose_sign1_def
      sample_ext_def Let_def)

lemma sample_register:
  "\<exists>r t. register_signed_statement_full sample_ext sample_anchorer (\<lambda>_. 0) [1] None None sample_start = (Inr r, t) \<and>
     rg_scheme r = SchemeLegacy \<and> m_log (store t) \<noteq> m_log (store sample_start)"
proof -
  let ?pk = "\<lparr>pk_preimage = [1], pk_scheme = SchemeLegacy,
     pk_entry_hash = sha256_hex [1], pk_legacy_hash = sha256_hex [1], pk_subject = None, pk_digest = None,
     pk_form = None, pk_checkpoint = None\<rparr>"
  have inv: "store_inv sample_ext (an_attestor sample_anchorer) (store sample_start)"
    by (simp add: sample_start_def empty_store_inv)
  have gates: "run_gates sample_ext sample_anchorer None ?pk sample_start = (Inr (None, None), sample_start)"
    by (simp add: run_gates_def)
  obtain rg st where new: "register_new sample_ext sample_anchorer (\<lambda>_. 0) None None ?pk sample_start = (Inr rg, sample_start\<lparr>store := st\<rparr>)"
    and reg: "registered_as sample_ext sample_anchorer None None ?pk None None 0 (store sample_start) rg st"
    using register_new_run [OF inv sample_env_ok _ gates, of "\<lambda>_. 0" None] by auto
  have "cached_statement ?pk (store sample_start) = None"
    by (simp add: cached_statement_def get_statement_def sample_start_def empty_store_def)
  then have "register_signed_statement_full sample_ext sample_anchorer (\<lambda>_. 0) [1] None None sample_start =
      (Inr rg, sample_start\<lparr>store := st\<rparr>)"
    using new sample_peek [of "[1]"] by (simp add: register_signed_statement_full_def)
  moreover have "rg_scheme rg = SchemeLegacy" using registered_statements(3) [OF reg] by simp
  moreover have "m_log st \<noteq> m_log (store sample_start)" by (rule registered_log [OF reg]) simp
  ultimately show ?thesis
    by (intro exI [of _ rg] exI [of _ "sample_start\<lparr>store := st\<rparr>"]) simp
qed

definition sample_cp :: checkpoint where
  "sample_cp = \<lparr>ck_v = 1, ck_kind = ''mmr_checkpoint'', ck_log_id = ''log'', ck_mmr_size = 3,
     ck_root = [], ck_prev_size = 0, ck_prev_root = [], ck_key_id = ''k'', ck_timestamp = ''t'',
     ck_grade = None, ck_proof = Some None\<rparr>"

text \<open>With an empty receipt cache, a checkpoint the continuity gate admits is accepted.\<close>

lemma sample_accepts:
  assumes reach: "reachable sample_ext sample_anchorer s" and empty: "m_statements (store s) = []"
    and gate: "check_checkpoint_continuity sample_ext sample_anchorer cp s = (Inr g, s)"
  shows "\<exists>r st t. witness_checkpoint sample_ext sample_anchorer (\<lambda>_. 0) cp s = (Inr r, t) \<and>
     record_checkpoint_read_surface cp r (s\<lparr>store := st\<rparr>) = (Inr (), t) \<and>
     registered_as sample_ext sample_anchorer (ck_grade cp) (Some cp)
      \<lparr>pk_preimage = sha256 (checkpoint_signing_body cp), pk_scheme = SchemeLegacy,
       pk_entry_hash = sha256_hex (sha256 (checkpoint_signing_body cp)),
       pk_legacy_hash = sha256_hex (sha256 (checkpoint_signing_body cp)), pk_subject = None, pk_digest = None,
       pk_form = None, pk_checkpoint = None\<rparr> None (Some g) 0 (store s) r st"
proof -
  let ?d = "sha256 (checkpoint_signing_body cp)"
  let ?pk = "\<lparr>pk_preimage = ?d, pk_scheme = SchemeLegacy, pk_entry_hash = sha256_hex ?d,
     pk_legacy_hash = sha256_hex ?d, pk_subject = None, pk_digest = None, pk_form = None, pk_checkpoint = None\<rparr>"
  have gates: "run_gates sample_ext sample_anchorer (Some cp) ?pk s = (Inr (None, Some g), s)"
    using gate by (simp add: run_gates_def op_bind_simps)
  obtain rg st where new: "register_new sample_ext sample_anchorer (\<lambda>_. 0) (ck_grade cp) (Some cp) ?pk s =
      (Inr rg, s\<lparr>store := st\<rparr>)"
    and reg: "registered_as sample_ext sample_anchorer (ck_grade cp) (Some cp) ?pk None (Some g) 0 (store s) rg st"
    using register_new_run [OF reachable_inv [OF reach sample_env_ok] sample_env_ok _ gates, of "\<lambda>_. 0" "ck_grade cp"]
    by auto
  have "cached_statement ?pk (store s) = None"
    by (simp add: cached_statement_def get_statement_def empty)
  then have full: "register_signed_statement_full sample_ext sample_anchorer (\<lambda>_. 0) ?d (ck_grade cp) (Some cp) s =
      (Inr rg, s\<lparr>store := st\<rparr>)"
    using new sample_peek [of ?d] by (simp add: register_signed_statement_full_def)
  obtain t where rec: "record_checkpoint_read_surface cp rg (s\<lparr>store := st\<rparr>) = (Inr (), t)"
    by (simp add: record_checkpoint_read_surface_def)
  have "witness_checkpoint sample_ext sample_anchorer (\<lambda>_. 0) cp s = (Inr rg, t)"
    using full rec by (simp add: witness_checkpoint_def op_bind_simps)
  with rec reg show ?thesis by blast
qed

lemma sample_witnessed:
  "\<exists>r t. witness_checkpoint sample_ext sample_anchorer (\<lambda>_. 0) sample_cp sample_start = (Inr r, t) \<and>
     m_log (store t) \<noteq> m_log (store sample_start) \<and>
     map_of (m_statements (store t)) (rg_entry_hash r) \<noteq> None \<and>
     (\<exists>first. get_checkpoint_record ''log'' 3 (store t) = Some (3, first) \<and> cr_root first = []) \<and>
     get_checkpoint_witness ''log'' (store t) = Some (witness_of sample_cp)"
proof -
  have gate: "check_checkpoint_continuity sample_ext sample_anchorer sample_cp sample_start = (Inr FirstSeen, sample_start)"
    by (simp add: check_checkpoint_continuity_def get_checkpoint_witness_def sample_start_def empty_store_def)
  have "m_statements (store sample_start) = []" by (simp add: sample_start_def empty_store_def)
  from sample_accepts [OF sample_reachable this gate]
  obtain rg st t pk where run: "witness_checkpoint sample_ext sample_anchorer (\<lambda>_. 0) sample_cp sample_start = (Inr rg, t)"
    and rec: "record_checkpoint_read_surface sample_cp rg (sample_start\<lparr>store := st\<rparr>) = (Inr (), t)"
    and reg: "registered_as sample_ext sample_anchorer (ck_grade sample_cp) (Some sample_cp) pk None (Some FirstSeen) 0
      (store sample_start) rg st"
    by blast
  obtain st1 where st1: "st = store_tips pk (Some sample_cp) (Some FirstSeen) st1"
    using registered_witnesses [OF reg] by blast
  have "m_log st \<noteq> m_log (store sample_start)" by (rule registered_log [OF reg]) simp
  moreover have "get_checkpoint_witness ''log'' st = Some (witness_of sample_cp)"
    by (simp add: st1 store_tips_def get_checkpoint_witness_def put_checkpoint_witness_def sample_cp_def Let_def)
  moreover have "map_of (m_statements st) (rg_entry_hash rg) \<noteq> None"
    using registered_statements [OF reg] by simp
  moreover have "m_records st = []"
    using reg by (auto simp: registered_as_def store_simps sample_start_def empty_store_def)
  then have "\<exists>first. get_checkpoint_record ''log'' 3 (store t) = Some (3, first) \<and> cr_root first = []"
    using rec by (auto simp: record_checkpoint_read_surface_def on_store_def get_checkpoint_record_def
        put_checkpoint_record_def sample_cp_def Let_def split: option.splits)
  ultimately show ?thesis
    using run record_keeps [OF rec]
    by (intro exI [of _ rg] exI [of _ t]) (simp add: get_checkpoint_witness_def)
qed

section \<open>Consistency proofs between any two sizes\<close>

lemma ct_consistency_complete:
  assumes inv: "store_inv x b (store s)" and mn: "m \<le> n" "n \<le> length (m_log (store s))"
  shows "\<exists>q. ct_consistency_proof (int m) (int n) s = Inr
      \<lparr>cc_first_size = int m, cc_second_size = int n, cc_first_root = log_root (take m (m_log (store s))),
       cc_second_root = log_root (take n (m_log (store s))), cc_proof = q\<rparr> \<and>
    verify_consistency_proof (int m) (int n) (log_root (take m (m_log (store s))))
      (log_root (take n (m_log (store s)))) q = Inr True"
proof -
  let ?log = "m_log (store s)" and ?ds = "map leaf_digest (m_log (store s))"
  obtain q where q: "(if int m = 0 \<or> int m = int n then Inr []
       else consistency_proof (int m) (int n) (map hex ?ds)) = Inr q"
    "verify_consistency_proof (int m) (int n) (log_root (take m ?log)) (log_root (take n ?log)) q = Inr True"
  proof (cases "m = 0 \<or> m = n")
    case True
    then show thesis using mn
      by (intro that [of "[]"]) (auto simp: verify_consistency_proof_def)
  next
    case False
    then show thesis
      using verify_consistency_complete_aux [of m n ?ds] mn that by (auto simp: log_root_def take_map)
  qed
  have root: "merkle_tree_hash (take k (map hex ?ds)) = Inr (log_root (take k ?log))" for k
    using merkle_tree_hash_hex [of "take k ?ds"] by (simp add: log_root_def take_map)
  have "ct_consistency_proof (int m) (int n) s = Inr
      \<lparr>cc_first_size = int m, cc_second_size = int n, cc_first_root = log_root (take m ?log),
       cc_second_root = log_root (take n ?log), cc_proof = q\<rparr>"
    unfolding ct_consistency_proof_def
    using leaves_inv [OF inv] mn q(1) root [of m] root [of n] by (simp del: map_map of_nat_eq_iff of_nat_eq_0_iff)
  with q(2) show ?thesis by blast
qed

lemma get_sth_run:
  assumes inv: "store_inv x (an_attestor a) (store s)" and env: "env_ok x a"
  shows "\<exists>h t. get_sth x a now s = (Inr h, t) \<and> m_log (store t) = m_log (store s) \<and>
    sth_tree_size h = store_size (store s) \<and> ct_root None s = Inr (sth_root_hash h) \<and> verify_sth x a h"
proof -
  have root: "ct_root None s = Inr (log_root (m_log (store s)))"
    using leaves_inv [OF inv] by (simp add: ct_root_def merkle_tree_hash_hex log_root_def Let_def del: map_map)
  have current: "sth_tree_size h = store_size (store s) \<and> ct_root None s = Inr (sth_root_hash h) \<and> verify_sth x a h"
    if "good_sth x (an_attestor a) (m_log (store s)) h" "store_size (store s) \<le> sth_tree_size h" for h
    using that root by (auto simp: good_sth_def verify_sth_def store_size_def)
  obtain h where h: "sign_and_persist_sth x (an_attestor a) (now 0) (now 1) s =
      (Inr h, s\<lparr>store := put_sth (sth_to_json x h) (sth_tree_size h) (sth_timestamp h) (store s)\<rparr>)"
    "good_sth x (an_attestor a) (m_log (store s)) h" "sth_tree_size h = store_size (store s)"
    using sign_run [OF inv env, of "now 0" "now 1"] by (auto simp: store_size_def)
  show ?thesis
  proof (cases "m_latest_sth (store s)")
    case None
    with h current [OF h(2)] show ?thesis by (auto simp: get_sth_def get_latest_sth_def store_simps)
  next
    case (Some j)
    then obtain g where g: "sth_of_json x j = Inr g" "good_sth x (an_attestor a) (m_log (store s)) g"
      using inv by (auto simp: store_inv_def latest_ok_def)
    show ?thesis
    proof (cases "store_size (store s) \<le> sth_tree_size g")
      case True
      with Some g current [OF g(2)] show ?thesis by (auto simp: get_sth_def get_latest_sth_def)
    next
      case False
      with Some g h current [OF h(2)] show ?thesis by (auto simp: get_sth_def get_latest_sth_def store_simps)
    qed
  qed
qed

section \<open>The log\<close>

text \<open>C1: in every reachable state the whole log passes the service's own audit, \<open>verify_log\<close>.\<close>

theorem log_verifies:
  assumes "reachable x a s" "env_ok x a"
  shows "verify_log x a None s"
  using reachable_inv [OF assms] entries_inv [of x "an_attestor a" "store s"]
  by (simp add: verify_log_def store_inv_def)

theorem log_verifies_witness: "verify_log sample_ext sample_anchorer None sample_start"
  by (rule log_verifies) simp_all

text \<open>A tree head is always current: \<open>get_sth\<close> never fails, and the head it returns covers the
  whole log, has the log's CT root and a signature that verifies.\<close>

theorem sth_current:
  assumes "reachable x a s" "env_ok x a"
  shows "\<exists>h t. get_sth x a now s = (Inr h, t) \<and> m_log (store t) = m_log (store s) \<and>
    sth_tree_size h = store_size (store s) \<and> ct_root None s = Inr (sth_root_hash h) \<and> verify_sth x a h"
  by (rule get_sth_run [OF reachable_inv [OF assms] assms(2)])

theorem sth_current_witness:
  "\<exists>h t. get_sth sample_ext sample_anchorer (\<lambda>_. 5) sample_start = (Inr h, t) \<and>
    m_log (store t) = m_log (store sample_start) \<and>
    sth_tree_size h = store_size (store sample_start) \<and>
    ct_root None sample_start = Inr (sth_root_hash h) \<and> verify_sth sample_ext sample_anchorer h"
  by (rule sth_current) simp_all

text \<open>C4: the log is append-only for a monitor: between a head of an earlier state and a head of a
  later one, the service produces a consistency proof whose roots are those of the two heads,
  and the monitor's check accepts it.\<close>

theorem append_only_auditable:
  assumes "reachable x a s" "env_ok x a" "run x a s t"
    and "get_sth x a now1 s = (Inr h1, s1)" and "get_sth x a now2 t = (Inr h2, t1)"
  shows "\<exists>p. ct_consistency_proof (sth_tree_size h1) (sth_tree_size h2) t = Inr p \<and>
    cc_first_root p = sth_root_hash h1 \<and> cc_second_root p = sth_root_hash h2 \<and>
    verify_ct_consistency p = Inr True"
proof -
  have good: "sth_tree_size h = int (length (m_log (store u))) \<and> sth_root_hash h = log_root (m_log (store u))"
    if "reachable x a u" "get_sth x a now u = (Inr h, u1)" for u h u1 now
    using get_sth_run [OF reachable_inv [OF that(1) assms(2)] assms(2), of now] that(2)
      leaves_inv [OF reachable_inv [OF that(1) assms(2)]]
    by (auto simp: ct_root_def merkle_tree_hash_hex log_root_def store_size_def Let_def simp del: map_map)
  note inv = reachable_inv [OF reachable_run [OF assms(1,3)] assms(2)]
  obtain log' where log: "m_log (store t) = m_log (store s) @ log'"
    using run_evolves [OF assms(3,1,2)] by (auto simp: evolves_def prefix_def)
  note h = good [OF assms(1,4)] good [OF reachable_run [OF assms(1,3)] assms(5)]
  show ?thesis
    using ct_consistency_complete [OF inv, of "length (m_log (store s))" "length (m_log (store t))"] h
    by (auto simp: log verify_ct_consistency_def)
qed

theorem append_only_auditable_witness:
  "\<exists>(h1 :: sth) (h2 :: sth) p. ct_consistency_proof (sth_tree_size h1) (sth_tree_size h2) sample_start = Inr p \<and>
    cc_first_root p = sth_root_hash h1 \<and> cc_second_root p = sth_root_hash h2 \<and>
    verify_ct_consistency p = Inr True"
proof -
  obtain h t where "get_sth sample_ext sample_anchorer (\<lambda>_. 0) sample_start = (Inr h, t)"
    using get_sth_run [of sample_ext sample_anchorer sample_start "\<lambda>_. 0"] by (auto simp: sample_start_def empty_store_inv)
  from append_only_auditable [OF sample_reachable sample_env_ok run_refl this this] show ?thesis by blast
qed

lemma inclusion_served:
  assumes inv: "store_inv x (an_attestor a) (store s)" and bounds: "0 \<le> i" "i < n" "n \<le> store_size (store s)"
  shows "\<exists>p root. inclusion_proof_ct i (Some n) s = Inr p \<and> ct_root (Some n) s = Inr root \<and>
    ct_leaf_hash (m_log (store s) ! nat i) = Inr (ci_leaf_hash p) \<and> ci_root_hash p = root \<and>
    verify_inclusion (Inr p) anchored = Inr (anchored \<in> {None, Some root})"
proof -
  let ?log = "m_log (store s)" and ?ds = "take (nat n) (map leaf_digest (m_log (store s)))"
  have n: "nat i < length ?ds" "length ?ds = nat n" "int (nat i) = i" "int (nat n) = n"
    using bounds by (auto simp: store_size_def)
  have leaf: "ct_leaf_hash (?log ! nat i) = Inr (hex (leaf_digest (?log ! nat i)))"
    using inv n by (intro ct_leaf_hash_hex) (auto simp: store_inv_def hashed_entries_def)
  have nth: "map hex ?ds ! nat i = hex (leaf_digest (?log ! nat i))" using n by simp
  obtain p where p: "inclusion_audit_path i (map hex ?ds) = Inr p"
    "verify_inclusion_path (hex (?ds ! nat i)) i n p (hex (mth ?ds)) = Inr True"
    using verify_inclusion_path_complete_aux [OF n(1)] n by auto
  have tk: "take (nat n) (map hex (map leaf_digest ?log)) = map hex ?ds" by (simp add: take_map)
  have root: "ct_root (Some n) s = Inr (hex (mth ?ds))"
    using leaves_inv [OF inv] bounds tk
    by (simp add: ct_root_def merkle_tree_hash_hex store_size_def Let_def del: map_map)
  have "inclusion_proof_ct i (Some n) s = Inr \<lparr>ci_leaf_index = i, ci_tree_size = n,
      ci_leaf_hash = hex (leaf_digest (?log ! nat i)), ci_audit_path = p, ci_root_hash = hex (mth ?ds)\<rparr>"
    using leaves_inv [OF inv] bounds p(1) nth tk
    by (simp add: inclusion_proof_ct_def merkle_tree_hash_hex store_size_def Let_def del: map_map)
  then show ?thesis using root leaf p(2) n nth
    by (auto simp: verify_inclusion_def)
qed

text \<open>Every entry of a reachable log can be proved to a monitor: the inclusion proof against any
  tree that contains it is accepted, also when bound to the root of that tree, and no other root.\<close>

theorem inclusion_auditable:
  assumes "reachable x a s" "env_ok x a" "0 \<le> i" "i < n" "n \<le> store_size (store s)"
  shows "\<exists>p root. inclusion_proof_ct i (Some n) s = Inr p \<and> ct_root (Some n) s = Inr root \<and>
    ct_leaf_hash (m_log (store s) ! nat i) = Inr (ci_leaf_hash p) \<and> ci_root_hash p = root \<and>
    verify_inclusion (Inr p) anchored = Inr (anchored \<in> {None, Some root})"
  by (rule inclusion_served [OF reachable_inv [OF assms(1,2)] assms(3-5)])

text \<open>Anchoring a tenant root appends exactly one entry, at the index the receipt names, with the
  hash of the countersigned payload; the stored root is the one returned, and its countersignature
  verifies. When it raises (a root that cannot be time-stamped) the entry is in the log all the same.\<close>

theorem anchor_correct:
  assumes "env_ok x a" "anchor x a now tsa tid rh sr cid s = (r, t)"
  shows "\<exists>e c. m_log (store t) = m_log (store s) @ [e] \<and> entry.log_index e = store_size (store s) \<and>
    payload_hash e = sha256_hex (countersign_payload tid rh sr (now 0)) \<and>
    get_countersigned_root tid rh t = Some c \<and> cr_seq_range c = sr \<and> verify_countersignature x a c \<and>
    (case r of
       Inl ex \<Rightarrow> tsa_signature_for tsa rh = Inl ex
     | Inr rc \<Rightarrow> ar_log_index rc = store_size (store s) \<and> ar_countersignature rc = countersignature c \<and>
         ar_payload_hash rc = payload_hash e \<and> ar_prev_log_hash rc = prev_log_hash e)"
proof -
  obtain e st where "entry.log_index e = store_size (store s)"
    "payload_hash e = sha256_hex (countersign_payload tid rh sr (now 0))" "m_log st = m_log (store s) @ [e]"
    "get_root tid rh st = Some \<lparr>cr_tenant_id = tid, cr_root_hash = rh, cr_seq_range = sr, attested_at = now 0,
       countersignature = attest x (an_attestor a) (countersign_payload tid rh sr (now 0)) (now 1)\<rparr>"
    "anchor x a now tsa tid rh sr cid s =
       (case tsa_signature_for tsa rh of Inl ex \<Rightarrow> Inl ex | Inr tok \<Rightarrow> Inr
         \<lparr>ar_root_hash = rh, ar_tenant_id = tid, ar_anchored_at = now 0,
          ar_location = ''as-transparency-log://entry/'' @ show_int (store_size (store s)),
          ar_log_index = store_size (store s),
          ar_countersignature = attest x (an_attestor a) (countersign_payload tid rh sr (now 0)) (now 1),
          ar_payload_hash = payload_hash e, ar_prev_log_hash = prev_log_hash e, ar_seq_range = sr, ar_tsa = tok\<rparr>,
        s\<lparr>store := st\<rparr>)"
    using anchor_run [where s = s and tid = tid and rh = rh and sr = sr and now = now and cid = cid
      and x = x and a = a and tsa = tsa] by blast
  with assms show ?thesis
    by (intro exI [of _ e] exI [of _ "\<lparr>cr_tenant_id = tid, cr_root_hash = rh, cr_seq_range = sr,
         attested_at = now 0, countersignature = attest x (an_attestor a) (countersign_payload tid rh sr (now 0)) (now 1)\<rparr>"])
      (auto simp: get_countersigned_root_def verify_countersignature_def env_ok_def attestor_ok_verify split: sum.splits)
qed

theorem inclusion_auditable_witness:
  "\<exists>s p root. reachable sample_ext sample_anchorer s \<and> inclusion_proof_ct 0 (Some 1) s = Inr p \<and>
    ct_root (Some 1) s = Inr root \<and>
    ct_leaf_hash (m_log (store s) ! nat 0) = Inr (ci_leaf_hash p) \<and> ci_root_hash p = root \<and>
    verify_inclusion (Inr p) None = Inr ((None :: string option) \<in> {None, Some root})"
proof -
  obtain r t where "anchor sample_ext sample_anchorer (\<lambda>_. 0) None [] [] (0, 0) None sample_start = (r, t)" "store_size (store t) = 1"
    using anchor_run [where s = sample_start and x = sample_ext and a = sample_anchorer and now = "\<lambda>_. 0"
        and tsa = None and tid = "[]" and rh = "[]" and sr = "(0, 0)" and cid = None]
    by (auto simp: store_size_def sample_start_def empty_store_def)
  moreover from this have "reachable sample_ext sample_anchorer t"
    by (metis sample_reachable reachable_run run_refl run_step call_step anchor_call)
  ultimately show ?thesis
    using inclusion_auditable [of sample_ext sample_anchorer t 0 1 None] by fastforce
qed

theorem anchor_correct_witness:
  "\<exists>r t e c. anchor sample_ext sample_anchorer (\<lambda>_. 0) None ''t'' ''r'' (0, 3) None sample_start = (r, t) \<and>
    m_log (store t) = m_log (store sample_start) @ [e] \<and> entry.log_index e = store_size (store sample_start) \<and>
    get_countersigned_root ''t'' ''r'' t = Some c \<and> verify_countersignature sample_ext sample_anchorer c"
proof -
  obtain r t where run: "anchor sample_ext sample_anchorer (\<lambda>_. 0) None ''t'' ''r'' (0, 3) None sample_start = (r, t)"
    by (cases "anchor sample_ext sample_anchorer (\<lambda>_. 0) None ''t'' ''r'' (0, 3) None sample_start") auto
  from anchor_correct [OF sample_env_ok run] run show ?thesis by blast
qed

section \<open>Registration\<close>

text \<open>C2: a new registration appends one entry whose hash is the statement's entry hash, caches the
  receipt, and the receipt proves it: its audit path leads from that entry to the root of the whole
  log, and its signature is the authority's over that root and the protected header.\<close>

theorem registration_receipt:
  assumes "reachable x a s" "env_ok x a"
    and "register_signed_statement_full x a now st grade cont s = (Inr r, t)" and "m_log (store t) \<noteq> m_log (store s)"
  shows "\<exists>e protected. m_log (store t) = m_log (store s) @ [e] \<and> kind e = log_kind_scitt \<and>
    compute_entry_hash x st = (payload_hash e, rg_scheme r) \<and> rg_entry_hash r = payload_hash e \<and>
    rg_leaf_index r = store_size (store s) \<and> rg_tree_size r = store_size (store t) \<and>
    get_registered_statement (rg_entry_hash r) t = Some (rg_receipt r, rg_leaf_index r, rg_tree_size r) \<and>
    receipt_proves x (an_attestor a) (m_log (store t)) (rg_leaf_index r) protected (rg_receipt r)"
  using reachable_inv [OF assms(1,2)] assms(2,3)
proof (cases rule: register_full_cases)
  case (registered pk w g s1 rg)
  from registered(6) obtain e receipt where e: "m_log (store t) = m_log (store s) @ [e]" "kind e = log_kind_scitt"
    "payload_hash e = pk_entry_hash pk"
    and receipt: "receipt_proves x (an_attestor a) (m_log (store s) @ [e]) (store_size (store s))
       (receipt_protected (Some (now 0 div 1000000)) grade (case cont of Some cp \<Rightarrow> (if g = Some Witnessed
          then Some (continuity_assertion x a cp (now 0)) else None) | None \<Rightarrow> None)) receipt"
    "rg_receipt rg = receipt"
    unfolding registered_as_def by auto
  note regs = registered_statements [OF registered(6)]
  have "r = rg" using registered(4) by simp
  then show ?thesis
    using e receipt regs peek_compute(1) [OF registered(1)]
    by (intro exI [of _ e], intro exI) (auto simp: get_registered_statement_def get_statement_def store_size_def)
qed (use assms(4) in auto)

theorem registration_receipt_witness:
  "\<exists>r t e protected. register_signed_statement_full sample_ext sample_anchorer (\<lambda>_. 0) [1] None None sample_start = (Inr r, t) \<and>
    m_log (store t) = m_log (store sample_start) @ [e] \<and>
    receipt_proves sample_ext (an_attestor sample_anchorer) (m_log (store t)) (rg_leaf_index r) protected (rg_receipt r)"
proof -
  obtain r t where run: "register_signed_statement_full sample_ext sample_anchorer (\<lambda>_. 0) [1] None None sample_start = (Inr r, t)"
    and log: "m_log (store t) \<noteq> m_log (store sample_start)"
    using sample_register by blast
  from registration_receipt [OF sample_reachable sample_env_ok run log] run show ?thesis by blast
qed

text \<open>C25: registration is idempotent while the receipt cache is not pruned: after any further calls, a
  statement with the same entry hash (the same bytes, or a twin with another signature) gets the
  receipt first issued, and the service's state does not change at all. The statement was filed under its own
  hash scheme, not found under the legacy hash of an older release.\<close>

theorem registration_idempotent:
  assumes "reachable x a s" "env_ok x a"
    and "register_signed_statement_full x a now st grade cont s = (Inr r, t)" and "calls x a t u"
    and "compute_entry_hash x st' = compute_entry_hash x st" and "rg_scheme r = snd (compute_entry_hash x st)"
    and "peek_statement x a st' = Inr pk'"
  shows "\<exists>r'. register_signed_statement_full x a now' st' grade' cont' u = (Inr r', u) \<and>
    rg_receipt r' = rg_receipt r \<and> rg_entry_hash r' = rg_entry_hash r \<and> rg_leaf_index r' = rg_leaf_index r \<and>
    rg_tree_size r' = rg_tree_size r"
proof -
  note inv = reachable_inv [OF assms(1,2)]
  obtain pk where pk: "peek_statement x a st = Inr pk"
    using inv assms(2,3) by (cases rule: register_full_cases) auto
  have first: "get_statement (pk_entry_hash pk) (store t) = Some (rg_receipt r, rg_leaf_index r, rg_tree_size r) \<and>
      rg_entry_hash r = pk_entry_hash pk"
    using receipt_is_cached [OF inv assms(2,3) pk] assms(6) peek_compute(1) [OF pk] by simp
  have inv_t: "store_inv x (an_attestor a) (store t)"
    using hoare_same [OF register_full_stable [OF assms(2), where ?s0.0 = "store s"] _ assms(3)] inv
    by (simp add: stable_def)
  have later: "get_statement (pk_entry_hash pk) (store u) = Some (rg_receipt r, rg_leaf_index r, rg_tree_size r)"
    using first calls_stm_le [OF assms(4) inv_t assms(2)] by (auto simp: get_statement_def stm_le_def map_le_def dom_def)
  have same: "pk_entry_hash pk' = pk_entry_hash pk"
    using assms(5) peek_compute(1) [OF pk] peek_compute(1) [OF assms(7)] by simp
  have "cached_statement pk' (store u) = Some ((rg_receipt r, rg_leaf_index r, rg_tree_size r), pk_scheme pk')"
    using later same by (simp add: cached_statement_def)
  then show ?thesis using first same peek_compute(2) [OF assms(7)]
    by (auto simp: register_signed_statement_full_def assms(7) cached_registration_def)
qed

theorem registration_idempotent_witness:
  "\<exists>r t r'. register_signed_statement_full sample_ext sample_anchorer (\<lambda>_. 0) [1] None None sample_start = (Inr r, t) \<and>
    register_signed_statement_full sample_ext sample_anchorer (\<lambda>_. 9) [1] None None t = (Inr r', t) \<and>
    rg_receipt r' = rg_receipt r \<and> rg_entry_hash r' = rg_entry_hash r"
proof -
  obtain r t where run: "register_signed_statement_full sample_ext sample_anchorer (\<lambda>_. 0) [1] None None sample_start = (Inr r, t)"
    "rg_scheme r = SchemeLegacy"
    using sample_register by blast
  have peek: "peek_statement sample_ext sample_anchorer [1] = Inr \<lparr>pk_preimage = [1], pk_scheme = SchemeLegacy,
     pk_entry_hash = sha256_hex [1], pk_legacy_hash = sha256_hex [1], pk_subject = None, pk_digest = None,
     pk_form = None, pk_checkpoint = None\<rparr>" by (rule sample_peek) simp
  have "rg_scheme r = snd (compute_entry_hash sample_ext [1])"
    using run(2) peek_compute(1) [OF peek] by simp
  from registration_idempotent [OF sample_reachable sample_env_ok run(1) calls_refl refl this peek, of "\<lambda>_. 9" None None] run(1)
  show ?thesis by blast
qed

text \<open>C24: registration is exactly-once per entry hash: as long as the receipt cache is not pruned, no two
  statement entries of the log have the same hash.\<close>

theorem registered_exactly_once:
  assumes "calls x a \<lparr>store = empty_store, would_refuse = []\<rparr> s" "env_ok x a"
  shows "distinct (scitt_hashes (m_log (store s)))"
  using calls_once [OF assms(1) _ assms(2)] empty_store_inv [of x "an_attestor a"]
  by (simp add: once_def scitt_hashes_def empty_store_def)

theorem registered_exactly_once_witness:
  "\<exists>s :: svc. m_log (store s) \<noteq> [] \<and> distinct (scitt_hashes (m_log (store s)))"
proof -
  obtain r t where run: "register_signed_statement_full sample_ext sample_anchorer (\<lambda>_. 0) [1] None None sample_start = (Inr r, t)"
    "m_log (store t) \<noteq> m_log (store sample_start)"
    using sample_register by blast
  have "calls sample_ext sample_anchorer \<lparr>store = empty_store, would_refuse = []\<rparr> t"
    using run(1) by (intro calls_call [OF calls_refl] statement_call) (simp add: sample_start_def)
  from registered_exactly_once [OF this sample_env_ok] run(2) show ?thesis
    by (auto simp: sample_start_def empty_store_def)
qed

text \<open>A refusal has no effect: whatever error a submission ends with, no entry, no receipt, no tree
  head and no witness tip has changed.\<close>

theorem refusal_changes_nothing:
  assumes "reachable x a s" "env_ok x a"
  shows "(register_signed_statement_full x a now st grade cont s = (Inl e, t) \<longrightarrow> store t = store s) \<and>
    (witness_checkpoint x a now cp s = (Inl e, t) \<longrightarrow> store t = store s)"
proof (intro conjI impI)
  have full: "store t = store s" if "register_signed_statement_full x a now st grade cont s = (Inl e, t)"
    for now st grade cont
    using reachable_inv [OF assms] assms(2) that by (cases rule: register_full_cases) auto
  then show "register_signed_statement_full x a now st grade cont s = (Inl e, t) \<Longrightarrow> store t = store s" .
  assume "witness_checkpoint x a now cp s = (Inl e, t)"
  then show "store t = store s"
    using full by (cases rule: witness_checkpoint_cases) auto
qed

theorem refusal_changes_nothing_witness:
  "(register_signed_statement_full sample_ext sample_anchorer (\<lambda>_. 0) (replicate 65537 0) None None sample_start =
     (Inl ValueError, sample_start)) \<and> store sample_start = store sample_start"
proof
  show run: "register_signed_statement_full sample_ext sample_anchorer (\<lambda>_. 0) (replicate 65537 0) None None sample_start =
     (Inl ValueError, sample_start)"
    by (simp add: register_signed_statement_full_def peek_statement_def max_statement_bytes_def del: replicate.simps)
  show "store sample_start = store sample_start"
    using refusal_changes_nothing [OF sample_reachable sample_env_ok, of "\<lambda>_. 0" "replicate 65537 0" None None ValueError
        sample_start undefined] run by blast
qed

section \<open>Tamper evidence\<close>

text \<open>C26: two logs that both pass \<open>verify_log\<close> and end in the same head hash record the same payload
  hashes from the first entry on, unless two of the tree heads they hash collide: history cannot
  be rewritten under a head a monitor has kept.\<close>

theorem log_tamper_evident:
  assumes "verify_log x a (Some log) s" "verify_log y b (Some log') t" "chain_head log = chain_head log'"
  shows "map payload_hash log = map payload_hash log' \<or>
    collision_in (set (map head_input log) \<union> set (map head_input log'))"
  using chain_binds [of x "an_attestor a" log y "an_attestor b" log'] assms by (simp add: verify_log_def)

theorem log_tamper_evident_witness:
  "\<exists>log. log \<noteq> [] \<and> (map payload_hash log = map payload_hash log \<or>
    collision_in (set (map head_input log) \<union> set (map head_input (log :: entry list))))"
proof -
  obtain e where "new_entry sample_ext (an_attestor sample_anchorer) ''k'' [] 0 0 empty_store = Inr e"
    by (simp add: new_entry_eq)
  then have "verify_from sample_ext (an_attestor sample_anchorer) 0 None (m_log empty_store @ [e])"
    using sample_env_ok by (intro verify_from_new_entry) (auto simp: empty_store_def env_ok_def)
  then have "verify_log sample_ext sample_anchorer (Some [e]) sample_start"
    by (simp add: verify_log_def empty_store_def)
  from log_tamper_evident [OF this this refl] show ?thesis by (intro exI [of _ "[e]"]) simp
qed

section \<open>Checkpoints\<close>

lemma witness_outcome:
  assumes inv: "store_inv x (an_attestor a) (store s)" and env: "env_ok x a" and small: "decoders_bounded x"
    and run: "witness_checkpoint x a now cp s = (Inr r, t)" and grew: "m_log (store t) \<noteq> m_log (store s)"
  obtains u u' g st1 where "check_checkpoint_continuity x a cp u = (Inr g, u')" "store u = store s"
    "rg_continuity r = Some (continuity_text g)" "m_witnesses st1 = m_witnesses (store s)"
    "m_witnesses (store t) = m_witnesses (if g \<in> {FirstSeen, Witnessed}
       then put_checkpoint_witness (ck_log_id cp) (witness_of cp) st1 else st1)"
  using run
proof (cases rule: witness_checkpoint_cases)
  case (accepted rg s1)
  note kept = record_keeps [OF accepted(3)]
  from inv env accepted(2) show thesis
  proof (cases rule: register_full_cases)
    case (cached pk c)
    then show thesis using grew kept by simp
  next
    case (registered pk w g s2 rg')
    have none: "pk_checkpoint pk = None"
      using digest_not_checkpoint [OF small _ registered(1)] by simp
    obtain v u u' where gate: "check_checkpoint_continuity x a cp u = (Inr v, u')" "g = Some v" "store u = store s"
      using run_gates_passed(2) [OF registered(3) refl] by blast
    obtain st1 where st1: "m_witnesses st1 = m_witnesses (store s)" "store s1 = store_tips pk (Some cp) g st1"
      using registered_witnesses [OF registered(6)] by blast
    have "rg_continuity rg' = Some (continuity_text v)"
      using registered(6) gate(2) by (auto simp: registered_as_def)
    then show thesis
      using that [OF gate(1,3) _ st1(1)] st1(2) none gate(2) kept accepted(1) registered(4)
      by (auto simp: store_tips_def split: if_splits)
  qed simp
qed simp

text \<open>C3: the continuity grade that one call of \<open>witness_checkpoint\<close> gives a newly registered checkpoint means what
  it says. \<open>continuity-witnessed\<close>: the witness knew the log,
  the checkpoint names its tip exactly and its proof bridges the two roots, and the tip moves;
  \<open>first-seen\<close>: the log was unknown, and the checkpoint becomes its tip with no chain checked; \<open>registered\<close>: no proof came,
  the policy did not ask for one, and the tip stays.\<close>

theorem continuity_grade_sound:
  assumes "reachable x a s" "env_ok x a" "decoders_bounded x"
    and "witness_checkpoint x a now cp s = (Inr r, t)" "m_log (store t) \<noteq> m_log (store s)"
  shows "\<exists>g. rg_continuity r = Some (continuity_text g) \<and>
    (let old = get_checkpoint_witness (ck_log_id cp) (store s); new = get_checkpoint_witness (ck_log_id cp) (store t) in
     case g of
       Witnessed \<Rightarrow> (\<exists>p pf. old = Some p \<and> ck_proof cp = Some (Some pf) \<and> bridges x cp p pf) \<and> new = Some (witness_of cp)
     | FirstSeen \<Rightarrow> old = None \<and> new = Some (witness_of cp)
     | Registered \<Rightarrow> old \<noteq> None \<and> new = old \<and> ck_proof cp \<in> {None, Some None} \<and>
         (an_proof_policy a = PolicyEnforce \<longrightarrow> \<not> consistency_proof_policy_applies cp))"
proof -
  obtain u u' g st1 where g: "check_checkpoint_continuity x a cp u = (Inr g, u')" "store u = store s"
    "rg_continuity r = Some (continuity_text g)" "m_witnesses st1 = m_witnesses (store s)"
    "m_witnesses (store t) = m_witnesses (if g \<in> {FirstSeen, Witnessed}
       then put_checkpoint_witness (ck_log_id cp) (witness_of cp) st1 else st1)"
    by (rule witness_outcome [OF reachable_inv [OF assms(1,2)] assms(2-5)])
  have new: "get_checkpoint_witness (ck_log_id cp) (store t) =
      (if g \<in> {FirstSeen, Witnessed} then Some (witness_of cp) else get_checkpoint_witness (ck_log_id cp) (store s))"
    using g(4,5) by (simp add: get_checkpoint_witness_def put_checkpoint_witness_def)
  show ?thesis
    using continuity_gate_passed [OF g(1)] g(3) unfolding g(2)
    by (intro exI [of _ g]) (cases g; simp add: new)
qed

theorem continuity_grade_sound_witness:
  "\<exists>r t g. witness_checkpoint sample_ext sample_anchorer (\<lambda>_. 0) sample_cp sample_start = (Inr r, t) \<and>
    rg_continuity r = Some (continuity_text g) \<and>
    (case g of Witnessed \<Rightarrow> True
     | FirstSeen \<Rightarrow> get_checkpoint_witness ''log'' (store t) = Some (witness_of sample_cp)
     | Registered \<Rightarrow> get_checkpoint_witness ''log'' (store sample_start) \<noteq> None)"
proof -
  obtain r t where run: "witness_checkpoint sample_ext sample_anchorer (\<lambda>_. 0) sample_cp sample_start = (Inr r, t)"
    "m_log (store t) \<noteq> m_log (store sample_start)" using sample_witnessed by blast
  from continuity_grade_sound [OF sample_reachable sample_env_ok sample_bounded run]
  obtain g where "rg_continuity r = Some (continuity_text g)"
    "case g of Witnessed \<Rightarrow> True
     | FirstSeen \<Rightarrow> get_checkpoint_witness ''log'' (store t) = Some (witness_of sample_cp)
     | Registered \<Rightarrow> get_checkpoint_witness ''log'' (store sample_start) \<noteq> None"
    unfolding Let_def by (elim exE conjE, rename_tac g, case_tac g) (auto simp: sample_cp_def)
  with run(1) show ?thesis by blast
qed

text \<open>C23: a witness tip never rolls back: along any run, pruning included, the tip of a log is the same
  checkpoint or one of strictly greater size, and it never disappears.\<close>

theorem tips_never_roll_back:
  assumes "reachable x a s" "env_ok x a" "decoders_bounded x" "run x a s t"
    and "get_checkpoint_witness l (store s) = Some p"
  shows "\<exists>q. get_checkpoint_witness l (store t) = Some q \<and> (q = p \<or> w_mmr_size p < w_mmr_size q)"
  using run_tip_le [OF assms(4) reachable_inv [OF assms(1,2)] assms(2,3)] assms(5) by (simp add: tip_le_def)

text \<open>The consistency-proof policy, for a checkpoint without a proof of a log the witness knows:
  \<open>enforce\<close> refuses a native log's checkpoint with the accepted position and touches nothing, \<open>warn\<close>
  accepts and counts it, \<open>off\<close> accepts; a foreign accumulator and the JSON form are always accepted.\<close>

theorem proof_policy:
  assumes "get_checkpoint_witness (ck_log_id cp) (store s) = Some p" and "ck_proof cp \<in> {None, Some None}"
  shows "check_checkpoint_continuity x a cp s =
    (if consistency_proof_policy_applies cp \<and> an_proof_policy a = PolicyEnforce
     then (Inl (ConsistencyProofRequiredError (w_mmr_size p) (w_mmr_root p)), s)
     else (Inr Registered,
       if consistency_proof_policy_applies cp \<and> an_proof_policy a = PolicyWarn
       then snd (bump_refusals (ck_log_id cp) s) else s)) \<and>
    (ck_proof cp = None \<or> ck_grade cp = Some grade_countersigned_observed \<longrightarrow> \<not> consistency_proof_policy_applies cp)"
  using assms
  by (cases "an_proof_policy a")
    (auto simp: check_checkpoint_continuity_def apply_consistency_proof_policy_def refuse_or_count_def
      bump_refusals_def consistency_proof_policy_applies_def)

theorem proof_policy_witness:
  "\<exists>s p. get_checkpoint_witness (ck_log_id sample_cp) (store s) = Some p \<and>
    check_checkpoint_continuity sample_ext sample_anchorer sample_cp s =
      (Inl (ConsistencyProofRequiredError (w_mmr_size p) (w_mmr_root p)), s)"
proof -
  obtain t :: svc where "get_checkpoint_witness ''log'' (store t) = Some (witness_of sample_cp)"
    using sample_witnessed by blast
  then have tip: "get_checkpoint_witness (ck_log_id sample_cp) (store t) = Some (witness_of sample_cp)"
    by (simp add: sample_cp_def)
  have "ck_proof sample_cp \<in> {None, Some None}" by (simp add: sample_cp_def)
  from proof_policy [OF tip this, of sample_ext sample_anchorer] tip show ?thesis
    by (auto simp: sample_anchorer_def consistency_proof_policy_applies_def sample_cp_def)
qed

theorem tips_never_roll_back_witness:
  "\<exists>t u p q. run sample_ext sample_anchorer t u \<and> t \<noteq> u \<and> get_checkpoint_witness ''log'' (store t) = Some p \<and>
    get_checkpoint_witness ''log'' (store u) = Some q \<and> (q = p \<or> w_mmr_size p < w_mmr_size q)"
proof -
  obtain r t where t: "witness_checkpoint sample_ext sample_anchorer (\<lambda>_. 0) sample_cp sample_start = (Inr r, t)"
    "get_checkpoint_witness ''log'' (store t) = Some (witness_of sample_cp)" using sample_witnessed by blast
  have reach: "reachable sample_ext sample_anchorer t"
    using t(1) by (intro reachable_run [OF sample_reachable] run_step [OF run_refl] call_step witness_call [of sample_cp])
      (simp_all add: well_formed_cp_def sample_cp_def)
  obtain r' u where u: "anchor sample_ext sample_anchorer (\<lambda>_. 0) None [] [] (0, 0) None t = (r', u)"
    by (cases "anchor sample_ext sample_anchorer (\<lambda>_. 0) None [] [] (0, 0) None t") auto
  have run: "run sample_ext sample_anchorer t u"
    using u by (intro run_step [OF run_refl] call_step anchor_call)
  from anchor_run [where s = t and x = sample_ext and a = sample_anchorer and now = "\<lambda>_. 0"
      and tsa = None and tid = "[]" and rh = "[]" and sr = "(0, 0)" and cid = None] u
  have "length (m_log (store u)) = Suc (length (m_log (store t)))" by auto
  then have "t \<noteq> u" by auto
  with tips_never_roll_back [OF reach sample_env_ok sample_bounded run t(2)] run t(2) show ?thesis by blast
qed

text \<open>The entry hash ignores what a third party can change: two COSE messages with the same protected
  header and embedded payload have one entry hash, whatever their signatures and unprotected headers.\<close>

theorem entry_hash_malleability:
  assumes "decode_cose_sign1 x m = Some (protected, u, Some payload, sg)"
    and "decode_cose_sign1 x m' = Some (protected, u', Some payload, sg')"
  shows "compute_entry_hash x m = compute_entry_hash x m' \<and> snd (compute_entry_hash x m) = SchemeSigStructure"
  using assms by (simp add: compute_entry_hash_def entry_hash_preimage_def)

theorem entry_hash_malleability_witness:
  "\<exists>x. compute_entry_hash x [1] = compute_entry_hash x [2] \<and> snd (compute_entry_hash x [1]) = SchemeSigStructure"
proof -
  let ?x = "sample_ext\<lparr>cbor_loads := (\<lambda>d. Some (CTag 18 (CList [CBytes [3], CMap [], CBytes [4], CBytes d])))\<rparr>"
  have "decode_cose_sign1 ?x [1] = Some ([3], [], Some [4], [1])" "decode_cose_sign1 ?x [2] = Some ([3], [], Some [4], [2])"
    by (simp_all add: decode_cose_sign1_def)
  from entry_hash_malleability [OF this] show ?thesis by blast
qed

end
