(* ===== verification/Resubmission.thy ===== *)
theory Resubmission
  imports ServiceProps
begin

text \<open>
  What the service promises about the receipt cache's retention, and what submitting the same or a
  conflicting statement a second time does: properties of runs that prune.
\<close>

section \<open>Pruning\<close>

lemma prune_run:
  assumes "store_inv x b s"
  shows "prune_statements_older_than c s =
    (Inr (int (length (filter (expired c s) (m_statements s)))),
     s\<lparr>m_statements := filter (\<lambda>p. \<not> expired c s p) (m_statements s)\<rparr>)"
proof (rule prune_eval)
  have "statements_ok (m_log s) (m_statements s)" using assms by (simp add: store_inv_def)
  then show "distinct (map fst (m_statements s))"
    "\<forall>(h, rc, i, n) \<in> set (m_statements s). 0 \<le> i \<and> i < int (length (m_log s))"
    by (force simp: statements_ok_def scitt_at_def)+
qed

text \<open>Pruning removes from the receipt cache exactly the statements whose entry is older than the
  horizon, reports how many, never fails, and leaves the log and everything else untouched.\<close>

theorem prune_exact:
  assumes "reachable x a s" "env_ok x a" "entry_retention_seconds env = Inr (Some n)"
  shows "prune_expired_statements env now s =
    (let gone = expired (now - n * 1000000) (store s) in
     (Inr (int (length (filter gone (m_statements (store s))))),
      s\<lparr>store := (store s)\<lparr>m_statements := filter (\<lambda>p. \<not> gone p) (m_statements (store s))\<rparr>\<rparr>))"
  using prune_run [OF reachable_inv [OF assms(1,2)], of "now - n * 1000000"]
  by (simp add: prune_expired_statements_def assms(3) op_bind_simps Let_def)

lemma sample_retention:
  "entry_retention_seconds [''CAPSULE_ANCHOR_ENTRY_RETENTION'' \<mapsto> ''1''] = Inr (Some 1)"
  by code_simp

lemma all_expired: "\<exists>c. \<forall>p \<in> set ps. expired c s p"
proof (induction ps)
  case (Cons p ps)
  then obtain c where c: "\<forall>p \<in> set ps. expired c s p" by blast
  obtain h rc i n where p: "p = (h, rc, i, n)" by (cases p) auto
  have "\<forall>q \<in> set (p # ps). expired (max c (logged_at (m_log s ! nat i) + 1)) s q"
    using c by (auto simp: expired_def p)
  then show ?case by blast
qed simp

lemma sample_prune:
  assumes "reachable sample_ext sample_anchorer s"
  shows "step sample_ext sample_anchorer s (s\<lparr>store := (store s)\<lparr>m_statements := []\<rparr>\<rparr>)"
proof -
  obtain c where c: "\<forall>p \<in> set (m_statements (store s)). expired c (store s) p" using all_expired by blast
  then have "filter (\<lambda>p. \<not> expired c (store s) p) (m_statements (store s)) = []" by (simp add: filter_empty_conv)
  then have "prune_expired_statements [''CAPSULE_ANCHOR_ENTRY_RETENTION'' \<mapsto> ''1''] (c + 1000000) s =
      (Inr (int (length (filter (expired c (store s)) (m_statements (store s))))),
       s\<lparr>store := (store s)\<lparr>m_statements := []\<rparr>\<rparr>)"
    using prune_run [OF reachable_inv [OF assms sample_env_ok], of c]
    by (simp add: prune_expired_statements_def sample_retention op_bind_simps)
  then show ?thesis by (rule prune_step)
qed

lemma sample_after:
  assumes "witness_checkpoint sample_ext sample_anchorer (\<lambda>_. 0) sample_cp sample_start = (r, t)"
  shows "reachable sample_ext sample_anchorer t"
  using assms by (intro reachable_run [OF sample_reachable] run_step [OF run_refl] call_step witness_call [of sample_cp])
    (simp_all add: well_formed_cp_def sample_cp_def)

theorem prune_exact_witness:
  "\<exists>s gone. m_statements (store s) \<noteq> [] \<and>
    prune_expired_statements [''CAPSULE_ANCHOR_ENTRY_RETENTION'' \<mapsto> ''1''] 0 s =
      (Inr (int (length (filter gone (m_statements (store s))))),
       s\<lparr>store := (store s)\<lparr>m_statements := filter (\<lambda>p. \<not> gone p) (m_statements (store s))\<rparr>\<rparr>)"
proof -
  obtain r t where run: "witness_checkpoint sample_ext sample_anchorer (\<lambda>_. 0) sample_cp sample_start = (Inr r, t)"
    "map_of (m_statements (store t)) (rg_entry_hash r) \<noteq> None" using sample_witnessed by blast
  have "reachable sample_ext sample_anchorer t" by (rule sample_after [OF run(1)])
  from prune_exact [OF this sample_env_ok sample_retention, of 0] run(2)
  show ?thesis by (intro exI [of _ t], intro exI) (auto simp: Let_def)
qed

text \<open>Exactly-once does not survive pruning: once the cached receipt of a statement is gone, the same
  bytes submitted again are a new registration, and a second entry with the same hash is appended.\<close>

theorem resubmission_after_pruning:
  assumes "reachable x a s" "env_ok x a" "peek_statement x a st = Inr pk"
    and "map_of (m_statements (store s)) (pk_entry_hash pk) = None" "map_of (m_statements (store s)) (pk_legacy_hash pk) = None"
    and "register_signed_statement_full x a now st grade cont s = (Inr r, t)"
  shows "\<exists>e. m_log (store t) = m_log (store s) @ [e] \<and> payload_hash e = pk_entry_hash pk"
  using reachable_inv [OF assms(1,2)] assms(2,6)
proof (cases rule: register_full_cases)
  case (registered pk' w g s1 rg)
  then show ?thesis using assms(3) registered_log [OF registered(6)] by auto
next
  case (cached pk' c)
  then show ?thesis using assms(3-5) by (auto simp: cached_statement_def get_statement_def split: if_splits)
qed simp

lemma sample_reregister:
  assumes "reachable sample_ext sample_anchorer s" "m_statements (store s) = []"
  shows "\<exists>r t. register_signed_statement_full sample_ext sample_anchorer (\<lambda>_. 0) [1] None None s = (Inr r, t)"
proof -
  let ?pk = "\<lparr>pk_preimage = [1], pk_scheme = SchemeLegacy,
     pk_entry_hash = sha256_hex [1], pk_legacy_hash = sha256_hex [1], pk_subject = None, pk_digest = None,
     pk_form = None, pk_checkpoint = None\<rparr>"
  have gates: "run_gates sample_ext sample_anchorer None ?pk s = (Inr (None, None), s)"
    by (simp add: run_gates_def)
  from register_new_run [OF reachable_inv [OF assms(1) sample_env_ok] sample_env_ok _ gates, of "\<lambda>_. 0" None]
  obtain rg st where "register_new sample_ext sample_anchorer (\<lambda>_. 0) None None ?pk s = (Inr rg, s\<lparr>store := st\<rparr>)" by auto
  moreover have "cached_statement ?pk (store s) = None"
    by (simp add: cached_statement_def get_statement_def assms(2))
  ultimately show ?thesis using sample_peek [of "[1]"] by (simp add: register_signed_statement_full_def)
qed

theorem resubmission_after_pruning_witness:
  "\<exists>r t u r' v e. register_signed_statement_full sample_ext sample_anchorer (\<lambda>_. 0) [1] None None sample_start = (Inr r, t) \<and>
    step sample_ext sample_anchorer t u \<and>
    register_signed_statement_full sample_ext sample_anchorer (\<lambda>_. 0) [1] None None u = (Inr r', v) \<and>
    m_log (store v) = m_log (store t) @ [e] \<and> payload_hash e = sha256_hex [1]"
proof -
  obtain r t where run: "register_signed_statement_full sample_ext sample_anchorer (\<lambda>_. 0) [1] None None sample_start = (Inr r, t)"
    using sample_register by blast
  have reach: "reachable sample_ext sample_anchorer t"
    using run by (intro reachable_run [OF sample_reachable] run_step [OF run_refl] call_step statement_call)
  let ?u = "t\<lparr>store := (store t)\<lparr>m_statements := []\<rparr>\<rparr>"
  note pruned = sample_prune [OF reach]
  have reach_u: "reachable sample_ext sample_anchorer ?u"
    by (rule reachable_run [OF reach run_step [OF run_refl pruned]])
  obtain r' v where again: "register_signed_statement_full sample_ext sample_anchorer (\<lambda>_. 0) [1] None None ?u = (Inr r', v)"
    using sample_reregister [OF reach_u] by auto
  have peek: "peek_statement sample_ext sample_anchorer [1] = Inr \<lparr>pk_preimage = [1], pk_scheme = SchemeLegacy,
     pk_entry_hash = sha256_hex [1], pk_legacy_hash = sha256_hex [1], pk_subject = None, pk_digest = None,
     pk_form = None, pk_checkpoint = None\<rparr>" by (rule sample_peek) simp
  from resubmission_after_pruning [OF reach_u sample_env_ok peek _ _ again] run pruned again show ?thesis by auto
qed

section \<open>Equivocation\<close>

text \<open>C22: equivocation leaves evidence that nothing removes: a checkpoint accepted at a position that holds
  another root keeps the first record, and the flagged pair stays on the read surface of every
  later state.\<close>

theorem equivocation_evidence:
  assumes "reachable x a s" "env_ok x a" "well_formed_cp cp"
    and "get_checkpoint_record (ck_log_id cp) (ck_mmr_size cp) (store s) = Some (n, first)"
    and "cr_root first \<noteq> ck_root cp"
    and "witness_checkpoint x a now cp s = (Inr r, t)" and "run x a t u"
  shows "get_checkpoint_record (ck_log_id cp) (ck_mmr_size cp) (store u) = Some (n, first) \<and>
    \<lparr>eq_mmr_size = ck_mmr_size cp, eq_first = evidence_of first,
     eq_conflicting = \<lparr>ev_root = ck_root cp, ev_entry_hash = rg_entry_hash r, ev_timestamp = ck_timestamp cp\<rparr>\<rparr>
      \<in> set (get_checkpoint_equivocations (ck_log_id cp) (store u))"
  using assms(6)
proof (cases rule: witness_checkpoint_cases)
  case (accepted rg s1)
  let ?l = "ck_log_id cp" and ?n = "ck_mmr_size cp"
  let ?ev = "\<lparr>eq_mmr_size = ?n, eq_first = evidence_of first,
     eq_conflicting = \<lparr>ev_root = ck_root cp, ev_entry_hash = rg_entry_hash r, ev_timestamp = ck_timestamp cp\<rparr>\<rparr>"
  have "evolves (store s) (store s1)"
    using hoare_same [OF register_full_stable [OF assms(2), where ?s0.0 = "store s"] _ accepted(2)]
      reachable_inv [OF assms(1,2)] by (simp add: stable_def)
  then have first: "map_of (m_records (store s1)) (?l, ?n) = Some first" and n: "n = ?n"
    using assms(4) by (auto simp: evolves_def map_le_def get_checkpoint_record_def dom_def split: option.splits)
  have flagged: "map_of (m_records (store t)) (?l, ?n) = Some first"
    "?ev \<in> set (get_checkpoint_equivocations ?l (store t))"
    using accepted(1,3) first assms(5)
    by (auto simp: record_checkpoint_read_surface_def put_checkpoint_record_def evidence_of_def
        get_checkpoint_equivocations_def Let_def split: option.splits)
  have reach: "reachable x a t"
    using assms(3,6) by (intro reachable_run [OF assms(1)] run_step [OF run_refl] call_step witness_call [of cp])
  have "evolves (store t) (store u)" by (rule run_evolves [OF assms(7) reach assms(2)])
  then have "map_of (m_records (store u)) (?l, ?n) = Some first"
    "prefix (get_checkpoint_equivocations ?l (store t)) (get_checkpoint_equivocations ?l (store u))"
    using flagged(1) by (auto simp: evolves_def map_le_def dom_def)
  moreover from this(2) flagged(2) have "?ev \<in> set (get_checkpoint_equivocations ?l (store u))"
    using set_mono_prefix by blast
  ultimately show ?thesis using n by (simp add: get_checkpoint_record_def)
qed simp

definition sample_conflict :: checkpoint where
  "sample_conflict = sample_cp\<lparr>ck_root := ''x'', ck_proof := None\<rparr>"

definition conflict_peeked :: peeked where
  "conflict_peeked = \<lparr>pk_preimage = sha256 (checkpoint_signing_body sample_conflict), pk_scheme = SchemeLegacy,
     pk_entry_hash = sha256_hex (sha256 (checkpoint_signing_body sample_conflict)),
     pk_legacy_hash = sha256_hex (sha256 (checkpoint_signing_body sample_conflict)), pk_subject = None,
     pk_digest = None, pk_form = None, pk_checkpoint = None\<rparr>"

lemma sample_conflict_accepted:
  "\<exists>s r t first c. reachable sample_ext sample_anchorer s \<and>
    get_checkpoint_record ''log'' 3 (store s) = Some (3, first) \<and> cr_root first = [] \<and>
    witness_checkpoint sample_ext sample_anchorer (\<lambda>_. 0) sample_conflict s = (Inr r, t) \<and>
    cached_statement conflict_peeked (store t) = Some c"
proof -
  obtain r1 t1 where run1: "witness_checkpoint sample_ext sample_anchorer (\<lambda>_. 0) sample_cp sample_start = (Inr r1, t1)"
    and tip: "get_checkpoint_witness ''log'' (store t1) = Some (witness_of sample_cp)"
    and rec: "\<exists>first. get_checkpoint_record ''log'' 3 (store t1) = Some (3, first) \<and> cr_root first = []"
    using sample_witnessed by blast
  let ?s = "t1\<lparr>store := (store t1)\<lparr>m_statements := []\<rparr>\<rparr>"
  note reach1 = sample_after [OF run1]
  have reach: "reachable sample_ext sample_anchorer ?s"
    by (rule reachable_run [OF reach1 run_step [OF run_refl sample_prune [OF reach1]]])
  have "check_checkpoint_continuity sample_ext sample_anchorer sample_conflict ?s = (Inr Registered, ?s)"
    using tip by (simp add: check_checkpoint_continuity_def get_checkpoint_witness_def sample_cp_def sample_conflict_def
        apply_consistency_proof_policy_def consistency_proof_policy_applies_def)
  from sample_accepts [OF reach _ this, folded conflict_peeked_def] obtain r st t
    where run: "witness_checkpoint sample_ext sample_anchorer (\<lambda>_. 0) sample_conflict ?s = (Inr r, t)"
      and read: "record_checkpoint_read_surface sample_conflict r (?s\<lparr>store := st\<rparr>) = (Inr (), t)"
      and reg: "registered_as sample_ext sample_anchorer (ck_grade sample_conflict) (Some sample_conflict) conflict_peeked
        None (Some Registered) 0 (store ?s) r st"
    by auto
  have "m_statements (store t) = m_statements st" using record_keeps [OF read] by simp
  then have "\<exists>c. cached_statement conflict_peeked (store t) = Some c"
    using registered_statements(1) [OF reg] by (simp add: cached_statement_def get_statement_def)
  moreover have "get_checkpoint_record ''log'' 3 (store ?s) = get_checkpoint_record ''log'' 3 (store t1)"
    by (simp add: get_checkpoint_record_def)
  ultimately show ?thesis using reach rec run by metis
qed

theorem equivocation_evidence_witness:
  "\<exists>s t r first. witness_checkpoint sample_ext sample_anchorer (\<lambda>_. 0) sample_conflict s = (Inr r, t) \<and>
    get_checkpoint_record ''log'' 3 (store t) = Some (3, first) \<and>
    \<lparr>eq_mmr_size = 3, eq_first = evidence_of first,
     eq_conflicting = \<lparr>ev_root = ''x'', ev_entry_hash = rg_entry_hash r, ev_timestamp = ''t''\<rparr>\<rparr>
      \<in> set (get_checkpoint_equivocations ''log'' (store t))"
proof -
  obtain s r t first where st: "reachable sample_ext sample_anchorer s"
    "get_checkpoint_record ''log'' 3 (store s) = Some (3, first)" "cr_root first = []"
    "witness_checkpoint sample_ext sample_anchorer (\<lambda>_. 0) sample_conflict s = (Inr r, t)"
    using sample_conflict_accepted by blast
  have cp: "well_formed_cp sample_conflict" "ck_log_id sample_conflict = ''log''" "ck_mmr_size sample_conflict = 3"
    "ck_root sample_conflict = ''x''" "ck_timestamp sample_conflict = ''t''"
    by (simp_all add: sample_conflict_def sample_cp_def well_formed_cp_def)
  from equivocation_evidence [OF st(1) sample_env_ok cp(1) _ _ st(4) run_refl] st cp
  show ?thesis by auto
qed

text \<open>A conflicting checkpoint submitted again is answered from the cache: the grade it gets is that of
  the record first accepted at its position, which is another checkpoint's, and the same equivocation is
  recorded once more.\<close>

theorem conflicting_resubmission:
  assumes "peek_statement x a (sha256 (checkpoint_signing_body cp)) = Inr pk"
    and "cached_statement pk (store s) = Some c"
    and "get_checkpoint_record (ck_log_id cp) (ck_mmr_size cp) (store s) = Some (n, first)"
    and "cr_root first \<noteq> ck_root cp"
  shows "\<exists>r t. witness_checkpoint x a now cp s = (Inr r, t) \<and> rg_continuity r = cr_continuity first \<and>
    get_checkpoint_equivocations (ck_log_id cp) (store t) = get_checkpoint_equivocations (ck_log_id cp) (store s) @
      [\<lparr>eq_mmr_size = ck_mmr_size cp, eq_first = evidence_of first,
        eq_conflicting = \<lparr>ev_root = ck_root cp, ev_entry_hash = rg_entry_hash r, ev_timestamp = ck_timestamp cp\<rparr>\<rparr>] \<and>
    m_log (store t) = m_log (store s)"
proof -
  let ?r = "cached_registration pk (Some cp) c (store s)"
  obtain t where rec: "record_checkpoint_read_surface cp ?r s = (Inr (), t)"
    by (simp add: record_checkpoint_read_surface_def)
  have slot: "map_of (m_records (store s)) (ck_log_id cp, ck_mmr_size cp) = Some first"
    using assms(3) by (auto simp: get_checkpoint_record_def split: option.splits)
  have "register_signed_statement_full x a now (sha256 (checkpoint_signing_body cp)) (ck_grade cp) (Some cp) s = (Inr ?r, s)"
    by (simp add: register_signed_statement_full_def assms(1,2))
  then have "witness_checkpoint x a now cp s = (Inr ?r, t)"
    using rec by (simp add: witness_checkpoint_def op_bind_simps)
  moreover have "rg_continuity ?r = cr_continuity first"
    using assms(3) by (cases c) (simp add: cached_registration_def split: prod.splits)
  moreover have "get_checkpoint_equivocations (ck_log_id cp) (store t) = get_checkpoint_equivocations (ck_log_id cp) (store s) @
      [\<lparr>eq_mmr_size = ck_mmr_size cp, eq_first = evidence_of first,
        eq_conflicting = \<lparr>ev_root = ck_root cp, ev_entry_hash = rg_entry_hash ?r, ev_timestamp = ck_timestamp cp\<rparr>\<rparr>]"
    using rec slot assms(4) by (auto simp: record_checkpoint_read_surface_def put_checkpoint_record_def evidence_of_def
        get_checkpoint_equivocations_def Let_def split: option.splits)
  ultimately show ?thesis using record_keeps [OF rec] by blast
qed

theorem conflicting_resubmission_witness:
  "\<exists>s r t first. witness_checkpoint sample_ext sample_anchorer (\<lambda>_. 0) sample_conflict s = (Inr r, t) \<and>
    get_checkpoint_record ''log'' 3 (store s) = Some (3, first) \<and> cr_root first \<noteq> ck_root sample_conflict \<and>
    rg_continuity r = cr_continuity first"
proof -
  obtain s r t first c where st: "reachable sample_ext sample_anchorer s"
    "get_checkpoint_record ''log'' 3 (store s) = Some (3, first)" "cr_root first = []"
    "witness_checkpoint sample_ext sample_anchorer (\<lambda>_. 0) sample_conflict s = (Inr r, t)"
    "cached_statement conflict_peeked (store t) = Some c"
    using sample_conflict_accepted by blast
  have cp: "well_formed_cp sample_conflict" "ck_log_id sample_conflict = ''log''" "ck_mmr_size sample_conflict = 3"
    "ck_root sample_conflict = ''x''" by (simp_all add: sample_conflict_def sample_cp_def well_formed_cp_def)
  have run: "run sample_ext sample_anchorer s t"
    using st(4) cp(1) by (intro run_step [OF run_refl] call_step witness_call)
  have "get_checkpoint_record ''log'' 3 (store t) = Some (3, first)"
    using run_evolves [OF run st(1) sample_env_ok] st(2)
    by (auto simp: evolves_def map_le_def dom_def get_checkpoint_record_def split: option.splits)
  moreover have "peek_statement sample_ext sample_anchorer (sha256 (checkpoint_signing_body sample_conflict)) = Inr conflict_peeked"
    unfolding conflict_peeked_def by (rule sample_peek) simp
  ultimately obtain r' t' where "witness_checkpoint sample_ext sample_anchorer (\<lambda>_. 0) sample_conflict t = (Inr r', t')"
    "rg_continuity r' = cr_continuity first" "get_checkpoint_record ''log'' 3 (store t) = Some (3, first)"
    using conflicting_resubmission [OF _ st(5), of sample_ext sample_anchorer sample_conflict 3 first "\<lambda>_. 0"] st(3) cp
    by auto
  with st(3) cp(4) show ?thesis
    by (intro exI [of _ t] exI [of _ r'] exI [of _ t'] exI [of _ first]) simp
qed

text \<open>A statement that embeds an \<open>mmr-checkpoint\<close> payload moves the tip of the log it names on its own
  word: after it is registered, a checkpoint with a consistency proof from any other position of that
  log is refused as a continuity mismatch.\<close>

theorem legacy_statement_moves_tip:
  assumes "reachable x a s" "env_ok x a"
    and "register_signed_statement_full x a now st None None s = (Inr r, t)" "m_log (store t) \<noteq> m_log (store s)"
    and "peek_statement x a st = Inr pk" "pk_checkpoint pk = Some f"
    and "ck_log_id cp = lc_log_id f" "ck_proof cp = Some (Some pf)"
    and "ck_prev_size cp \<noteq> lc_mmr_size f \<or> ck_prev_root cp \<noteq> lc_mmr_root f"
  shows "get_checkpoint_witness (lc_log_id f) (store t) = Some (witness_of_legacy f) \<and>
    check_checkpoint_continuity x a cp t = (Inl (ContinuityMismatchError (lc_mmr_size f) (lc_mmr_root f)), t)"
proof -
  have "get_checkpoint_witness (lc_log_id f) (store t) = Some (witness_of_legacy f)"
    using reachable_inv [OF assms(1,2)] assms(2,3)
  proof (cases rule: register_full_cases)
    case (registered pk' w g s1 rg)
    then have "pk' = pk" using assms(5) by simp
    then show ?thesis using registered_witnesses [OF registered(6)] assms(6)
      by (auto simp: store_tips_def get_checkpoint_witness_def put_checkpoint_witness_def)
  qed (use assms(4) in auto)
  then show ?thesis using assms(7-9)
    by (auto simp: check_checkpoint_continuity_def witness_of_legacy_def op_bind_simps)
qed

definition sample_legacy :: legacy_cp where
  "sample_legacy = \<lparr>lc_log_id = ''log'', lc_key_id = ''k'', lc_mmr_root = replicate 64 CHR ''0'', lc_mmr_size = 9,
     lc_prev_size = 0, lc_timestamp = ''t''\<rparr>"

definition legacy_ext :: ext where
  "legacy_ext = sample_ext\<lparr>cbor_loads := (\<lambda>d. if d = [1] then Some (CTag 18 (CList [CBytes [3], CMap [], CBytes [4], CBytes []]))
       else None),
     json_loads_utf8 := (\<lambda>d. Inr (JObj [(''artifact_type'', JStr ''mmr-checkpoint''), (''log_id'', JStr ''log''),
       (''key_id'', JStr ''k''), (''mmr_root'', JStr (replicate 64 CHR ''0'')), (''mmr_size'', JInt 9),
       (''prev_size'', JInt 0), (''timestamp'', JStr ''t'')]))\<rparr>"

lemma legacy_env_ok: "env_ok legacy_ext sample_anchorer"
proof -
  have "ed25519_ok legacy_ext" "sth_json_ok legacy_ext"
    using sample_ext_ed25519 sample_ext_json by (simp_all add: legacy_ext_def ed25519_ok_def sth_json_ok_def)
  moreover have "sample_attestor = new_attestor legacy_ext None [7]"
    by (simp add: sample_attestor_def new_attestor_def generate_keypair_def legacy_ext_def)
  ultimately show ?thesis
    using new_attestor_ok [of legacy_ext "[7]"] by (simp add: env_ok_def sample_anchorer_def)
qed

lemma peek_hash: "peek_statement x a st = Inr pk \<Longrightarrow> pk_entry_hash pk = sha256_hex (pk_preimage pk)"
  by (auto simp: peek_statement_def Let_def rbind_Inr_iff split: if_splits option.splits prod.splits)

lemma legacy_peek:
  "\<exists>pk. peek_statement legacy_ext sample_anchorer [1] = Inr pk \<and> pk_checkpoint pk = Some sample_legacy"
proof -
  have root: "is_hex64 (replicate 64 CHR ''0'')" "lower (replicate 64 CHR ''0'') = replicate 64 CHR ''0''" by code_simp+
  have dec: "decode_cose_sign1 legacy_ext [1] = Some ([3], [], Some [4], [])"
    by (simp add: decode_cose_sign1_def legacy_ext_def)
  have "parse_checkpoint_payload legacy_ext (Some [4]) = Inr (Some sample_legacy)"
    by (simp add: parse_checkpoint_payload_def legacy_ext_def sample_legacy_def root)
  then show ?thesis
    by (auto simp: peek_statement_def dec entry_hash_preimage_def max_statement_bytes_def Let_def split: prod.splits)
qed

theorem legacy_statement_moves_tip_witness:
  "\<exists>s cp r t. register_signed_statement_full legacy_ext sample_anchorer (\<lambda>_. 0) [1] None None s = (Inr r, t) \<and>
    get_checkpoint_witness ''log'' (store t) = Some (witness_of_legacy sample_legacy) \<and>
    check_checkpoint_continuity legacy_ext sample_anchorer cp t =
      (Inl (ContinuityMismatchError 9 (replicate 64 CHR ''0'')), t)"
proof -
  obtain pk where pk: "peek_statement legacy_ext sample_anchorer [1] = Inr pk" "pk_checkpoint pk = Some sample_legacy"
    using legacy_peek by blast
  have reach: "reachable legacy_ext sample_anchorer sample_start"
    by (simp add: reachable_def sample_start_def run_refl)
  have gates: "run_gates legacy_ext sample_anchorer None pk sample_start = (Inr (Some ''first-seen'', None), sample_start)"
    by (simp add: run_gates_def pk(2) check_checkpoint_consistency_def get_checkpoint_witness_def sample_start_def
        empty_store_def op_bind_simps)
  have cached: "cached_statement pk (store sample_start) = None"
    by (simp add: cached_statement_def get_statement_def sample_start_def empty_store_def)
  have "pk_entry_hash pk = sha256_hex (pk_preimage pk)" using peek_hash [OF pk(1)] .
  from register_new_run [OF reachable_inv [OF reach legacy_env_ok] legacy_env_ok this gates, of "\<lambda>_. 0" None]
  obtain rg st where new: "register_new legacy_ext sample_anchorer (\<lambda>_. 0) None None pk sample_start =
      (Inr rg, sample_start\<lparr>store := st\<rparr>)"
    and reg: "registered_as legacy_ext sample_anchorer None None pk (Some ''first-seen'') None 0 (store sample_start) rg st"
    by auto
  let ?t = "sample_start\<lparr>store := st\<rparr>"
  have run: "register_signed_statement_full legacy_ext sample_anchorer (\<lambda>_. 0) [1] None None sample_start = (Inr rg, ?t)"
    using new cached by (simp add: register_signed_statement_full_def pk(1))
  have log: "m_log (store ?t) \<noteq> m_log (store sample_start)" by (rule registered_log [OF reg]) simp
  let ?cp = "sample_cp\<lparr>ck_proof := Some (Some undefined)\<rparr>"
  have "ck_log_id ?cp = lc_log_id sample_legacy" "ck_prev_size ?cp \<noteq> lc_mmr_size sample_legacy"
    by (simp_all add: sample_cp_def sample_legacy_def)
  with legacy_statement_moves_tip [OF reach legacy_env_ok run log pk, of ?cp undefined] run
  show ?thesis
    by (intro exI [of _ sample_start] exI [of _ ?cp] exI [of _ rg] exI [of _ ?t]) (simp add: sample_legacy_def)
qed

end
