(* ===== verification/IsoTime.thy ===== *)
theory IsoTime
  imports Json
begin

text \<open>
  Timestamps as text: the SQLite backends store \<open>datetime.isoformat()\<close> in a TEXT column, compare
  such columns byte by byte, and read them back with \<open>datetime.fromisoformat\<close>. \<open>text_less\<close> is
  SQLite's BINARY collation; \<open>parse_iso\<close> is the part of \<open>fromisoformat\<close> that reads what
  \<open>isoformat\<close> writes for a UTC time.
\<close>

section \<open>The text operations\<close>

fun text_less :: "string \<Rightarrow> string \<Rightarrow> bool" where
  "text_less s [] = False"
| "text_less [] (d # t) = True"
| "text_less (c # s) (d # t) = ((of_char c :: nat) < of_char d \<or> (c = d \<and> text_less s t))"

definition number :: "string \<Rightarrow> int option" where
  "number s = (if s \<noteq> [] \<and> list_all is_digit s then Some (int (decimal_value s)) else None)"

definition field :: "nat \<Rightarrow> nat \<Rightarrow> string \<Rightarrow> string" where
  "field i n s = take n (drop i s)"

definition parse_iso :: "string \<Rightarrow> int res" where
  "parse_iso s =
     (let rest = drop 19 s in
      if length s < 25 \<or> field 4 1 s \<noteq> ''-'' \<or> field 7 1 s \<noteq> ''-'' \<or> field 10 1 s \<noteq> ''T'' \<or>
         field 13 1 s \<noteq> '':'' \<or> field 16 1 s \<noteq> '':'' \<or>
         (rest \<noteq> ''+00:00'' \<and> (field 0 1 rest \<noteq> ''.'' \<or> drop 7 rest \<noteq> ''+00:00''))
      then Inl ValueError
      else case (number (field 0 4 s), number (field 5 2 s), number (field 8 2 s), number (field 11 2 s),
                 number (field 14 2 s), number (field 17 2 s),
                 if rest = ''+00:00'' then Some 0 else number (field 1 6 rest)) of
          (Some y, Some m, Some d, Some h, Some mi, Some sec, Some us) \<Rightarrow>
            if 1 \<le> y \<and> valid_ymd (y, m, d) \<and> h < 24 \<and> mi < 60 \<and> sec < 60
            then Inr (((ymd_ord (y, m, d) - 719163) * 86400 + h * 3600 + mi * 60 + sec) * 1000000 + us)
            else Inl ValueError
        | _ \<Rightarrow> Inl ValueError)"

text \<open>What \<open>datetime\<close> can hold: years 1 to 9999.\<close>

definition datetime_range :: "int \<Rightarrow> bool" where
  "datetime_range t \<longleftrightarrow> -62135596800000000 \<le> t \<and> t < 253402300800000000"

section \<open>Decimal fields\<close>

lemma decimal_value_Nil [simp]: "decimal_value [] = 0"
  by (simp add: decimal_value_def)

lemma decimal_fold: "foldl (\<lambda>a c. 10 * a + (of_char c - 48)) k s = k * 10 ^ length s + decimal_value s"
proof (induction s arbitrary: k)
  case (Cons c s)
  have "decimal_value (c # s) = foldl (\<lambda>a c. 10 * a + (of_char c - 48)) (of_char c - 48) s"
    by (simp add: decimal_value_def)
  then show ?case by (simp add: Cons.IH add_mult_distrib)
qed simp

lemma decimal_value_Cons: "decimal_value (c # s) = (of_char c - 48) * 10 ^ length s + decimal_value s"
  using decimal_fold [of "of_char c - 48" s] by (simp add: decimal_value_def)

lemma decimal_value_bound: "list_all is_digit s \<Longrightarrow> decimal_value s < 10 ^ length s"
proof (induction s)
  case (Cons c s)
  then have "of_char c \<le> (57::nat)" by (simp add: is_digit_def Let_def)
  then have "of_char c - 48 \<le> (9::nat)" by arith
  then have "(of_char c - 48) * 10 ^ length s \<le> 9 * (10::nat) ^ length s" by (rule mult_le_mono1)
  then have "(of_char c - 48) * 10 ^ length s + decimal_value s < 9 * (10::nat) ^ length s + 10 ^ length s"
    using Cons by (intro add_le_less_mono) simp_all
  then show ?case by (simp add: decimal_value_Cons)
qed simp

lemma digits_less:
  assumes "length s = length t" "list_all is_digit s" "list_all is_digit t"
  shows "text_less (s @ r) (t @ u) \<longleftrightarrow>
    decimal_value s < decimal_value t \<or> (decimal_value s = decimal_value t \<and> text_less r u)"
  using assms
proof (induction s t rule: list_induct2)
  case (Cons c s d t)
  let ?c = "of_char c - 48 :: nat" and ?d = "of_char d - 48 :: nat"
  have lens: "length t = length s" using Cons.hyps by simp
  have b: "decimal_value s < 10 ^ length s" "decimal_value t < 10 ^ length s"
    using Cons decimal_value_bound [of s] decimal_value_bound [of t] by auto
  have c: "48 \<le> (of_char c :: nat)" "48 \<le> (of_char d :: nat)"
    using Cons.prems by (simp_all add: is_digit_def Let_def)
  have eq: "c = d \<longleftrightarrow> ?c = ?d"
    by (metis c diff_add_inverse2 le_add_diff_inverse2 of_char_eq_iff)
  have less: "?c < ?d \<Longrightarrow> ?c * 10 ^ length s + decimal_value s < ?d * 10 ^ length s + decimal_value t"
  proof -
    assume "?c < ?d"
    then have "Suc ?c * 10 ^ length s \<le> ?d * 10 ^ length s" by (intro mult_le_mono1) simp
    then show ?thesis using b by simp
  qed
  have more: "?d < ?c \<Longrightarrow> ?d * 10 ^ length s + decimal_value t < ?c * 10 ^ length s + decimal_value s"
  proof -
    assume "?d < ?c"
    then have "Suc ?d * 10 ^ length s \<le> ?c * 10 ^ length s" by (intro mult_le_mono1) simp
    then show ?thesis using b by simp
  qed
  consider "?c < ?d" | "?c = ?d" | "?d < ?c" by linarith
  then show ?case
    using Cons.IH Cons.prems less more c eq
    by cases (auto simp: decimal_value_Cons lens simp del: of_char_eq_iff dest: order.strict_implies_not_eq)
qed simp

lemma length_show_nat: "n < 10 ^ w \<Longrightarrow> 0 < w \<Longrightarrow> length (show_nat n) \<le> w"
proof (induction n arbitrary: w rule: show_nat.induct)
  case (1 n)
  show ?case
  proof (cases "n < 10")
    case True then show ?thesis using 1(3) by (subst show_nat.simps) simp
  next
    case False
    obtain v where v: "w = Suc v" using 1(3) by (cases w) auto
    have "v \<noteq> 0" using False 1(2) v by (cases v) auto
    moreover have "n div 10 < 10 ^ v" using 1(2) v by (simp add: less_mult_imp_div_less mult.commute)
    ultimately have "length (show_nat (n div 10)) \<le> v" using 1(1) [OF False] by simp
    then show ?thesis using False v by (subst show_nat.simps) simp
  qed
qed

lemma decimal_value_zeros: "decimal_value (replicate k CHR ''0'' @ s) = decimal_value s"
  by (induction k) (simp_all add: decimal_value_Cons)

lemma pad_left_props:
  assumes "0 \<le> n" "n < 10 ^ w" "0 < w"
  shows "length (pad_left w n) = w" "list_all is_digit (pad_left w n)" "int (decimal_value (pad_left w n)) = n"
proof -
  have "nat n < 10 ^ w" using assms by (simp add: nat_less_iff)
  then have "length (show_nat (nat n)) \<le> w" using length_show_nat assms(3) by blast
  then show "length (pad_left w n) = w" using assms(1) by (simp add: pad_left_def show_int_def Let_def)
  have "is_digit CHR ''0''" by (simp add: is_digit_def)
  then show "list_all is_digit (pad_left w n)" using assms(1) show_nat_digits
    by (auto simp: pad_left_def show_int_def Let_def list_all_iff)
  show "int (decimal_value (pad_left w n)) = n" using assms(1)
    by (simp add: pad_left_def show_int_def Let_def decimal_value_zeros)
qed

lemma number_pad_left: "0 \<le> n \<Longrightarrow> n < 10 ^ w \<Longrightarrow> 0 < w \<Longrightarrow> number (pad_left w n) = Some n"
  using pad_left_props [of n w] by (auto simp: number_def)

lemma pad_left_less:
  assumes "0 \<le> m" "m < 10 ^ w" "0 \<le> n" "n < 10 ^ w" "0 < w"
  shows "text_less (pad_left w m @ r) (pad_left w n @ u) \<longleftrightarrow> m < n \<or> (m = n \<and> text_less r u)"
  using digits_less [of "pad_left w m" "pad_left w n" r u] pad_left_props [of m w] pad_left_props [of n w] assms
  by (metis of_nat_eq_iff of_nat_less_iff)

section \<open>Timestamps\<close>

definition iso_fraction :: "int \<Rightarrow> string" where
  "iso_fraction us = (if us = 0 then '''' else ''.'' @ pad_left 6 us)"

lemma mod_mult_div: "0 < b \<Longrightarrow> 0 \<le> c \<Longrightarrow> a mod (b * c) div b = a div b mod (c::int)"
  by (simp add: zmod_zmult2_eq)

lemma isoformat_fields:
  assumes "ord_ymd (t div 86400000000 + 719163) = (y, m, d)"
  shows "isoformat t = pad_left 4 y @ ''-'' @ pad_left 2 m @ ''-'' @ pad_left 2 d @ ''T'' @
    pad_left 2 (t div 3600000000 mod 24) @ '':'' @ pad_left 2 (t div 60000000 mod 60) @ '':'' @
    pad_left 2 (t div 1000000 mod 60) @ iso_fraction (t mod 1000000) @ ''+00:00''"
proof -
  define n where "n = t div 1000000"
  have q: "t div 86400000000 = n div 86400" "t div 3600000000 = n div 3600" "t div 60000000 = n div 60"
    unfolding n_def by (subst zdiv_zmult2_eq [symmetric]; simp)+
  have e: "(86400::int) = 3600 * 24" "(3600::int) = 60 * 60" "(60::int) dvd 86400" "(3600::int) dvd 86400" by simp_all
  have h: "n mod 86400 div 3600 = n div 3600 mod 24" unfolding e(1) by (rule mod_mult_div) simp_all
  have s: "n mod 86400 mod 60 = n mod 60" by (rule mod_mod_cancel [OF e(3)])
  have m: "n mod 86400 mod 3600 div 60 = n div 60 mod 60"
    unfolding mod_mod_cancel [OF e(4)] unfolding e(2) by (rule mod_mult_div) simp_all
  show ?thesis using assms
    by (simp only: isoformat_def Let_def iso_fraction_def q n_def [symmetric] h m s prod.case)
qed

lemma datetime_days:
  assumes "datetime_range t"
  shows "1 \<le> t div 86400000000 + 719163" "t div 86400000000 + 719163 \<le> 3652059"
proof -
  have "- 62135596800000000 div 86400000000 \<le> t div 86400000000"
    using assms by (intro zdiv_mono1) (simp_all add: datetime_range_def)
  then show "1 \<le> t div 86400000000 + 719163" by simp
  have "t div 86400000000 \<le> 253402300799999999 div 86400000000"
    using assms by (intro zdiv_mono1) (simp_all add: datetime_range_def)
  then show "t div 86400000000 + 719163 \<le> 3652059" by simp
qed

lemma ord_ymd_range:
  assumes "1 \<le> n" "n \<le> 3652059" "ord_ymd n = (y, m, d)"
  shows "1 \<le> y" "y \<le> 9999" "1 \<le> m" "m \<le> 12" "1 \<le> d" "d \<le> 31"
proof -
  have ok: "valid_ymd (y, m, d)" "ymd_ord (y, m, d) = n" using ord_ymd_ok [of n] assms(3) by auto
  have "ymd_ord (1, 1, 1) = 1" "ymd_ord (9999, 12, 31) = 3652059" "valid_ymd (1, 1, 1)" "valid_ymd (9999, 12, 31)"
    by (simp_all add: ymd_ord_def days_before_year_def is_leap_def valid_ymd_def)
  then have "\<not> ymd_less (y, m, d) (1, 1, 1)" "\<not> ymd_less (9999, 12, 31) (y, m, d)"
    using ymd_ord_less [OF ok(1), of "(1, 1, 1)"] ymd_ord_less [OF _ ok(1), of "(9999, 12, 31)"] ok(2) assms(1,2) by auto
  then show "1 \<le> y" "y \<le> 9999" by (auto simp: ymd_less_def)
  show "1 \<le> m" and m: "m \<le> 12" and "1 \<le> d" using ok(1) by (auto simp: valid_ymd_def)
  then have "m \<in> {1, 2, 3, 4, 5, 6, 7, 8, 9, 10, 11, 12}" by (simp, presburger)
  then show "d \<le> 31" using ok(1) by (elim insertE emptyE) (simp_all add: valid_ymd_def split: if_splits)
qed

lemma mixed_radix_less:
  assumes "0 < (b::int)"
  shows "t < u \<longleftrightarrow> t div b < u div b \<or> (t div b = u div b \<and> t mod b < u mod b)"
proof -
  have t: "t = b * (t div b) + t mod b" and u: "u = b * (u div b) + u mod b" by simp_all
  have "t div b < u div b \<Longrightarrow> t < u"
  proof -
    assume "t div b < u div b"
    then have "b * (t div b + 1) \<le> b * (u div b)" using assms by (intro mult_left_mono) simp_all
    then have "b * (t div b) + b \<le> b * (u div b)" by (simp add: distrib_left)
    then show "t < u" using t u pos_mod_bound [OF assms, of t] pos_mod_sign [OF assms, of u] by linarith
  qed
  moreover have "u div b < t div b \<Longrightarrow> u < t"
  proof -
    assume "u div b < t div b"
    then have "b * (u div b + 1) \<le> b * (t div b)" using assms by (intro mult_left_mono) simp_all
    then have "b * (u div b) + b \<le> b * (t div b)" by (simp add: distrib_left)
    then show "u < t" using t u pos_mod_bound [OF assms, of u] pos_mod_sign [OF assms, of t] by linarith
  qed
  moreover have "t div b = u div b \<Longrightarrow> t < u \<longleftrightarrow> t mod b < u mod b" using t u by (metis add_less_cancel_left)
  ultimately show ?thesis by fastforce
qed

lemma mixed_radix_eq: "t = u \<longleftrightarrow> t div b = u div b \<and> t mod b = u mod (b::int)"
  by (metis mult_div_mod_eq)

lemma iso_fraction_less:
  assumes "0 \<le> m" "m < 1000000" "0 \<le> n" "n < 1000000"
  shows "text_less (iso_fraction m @ ''+00:00'') (iso_fraction n @ ''+00:00'') \<longleftrightarrow> m < n"
proof -
  have "text_less (pad_left 6 m @ ''+00:00'') (pad_left 6 n @ ''+00:00'') \<longleftrightarrow> m < n"
    using pad_left_less [of m 6 n] assms by simp
  then show ?thesis using assms by (auto simp: iso_fraction_def)
qed

lemma iso_div:
  "n div 60000000 = n div 1000000 div 60" "n div 3600000000 = n div 60000000 div 60"
  "n div 86400000000 = n div 3600000000 div (24::int)"
  by (subst zdiv_zmult2_eq [symmetric]; simp)+

text \<open>The text order of two stored timestamps is their order in time.\<close>

lemma isoformat_less:
  assumes "datetime_range t" "datetime_range u"
  shows "text_less (isoformat t) (isoformat u) \<longleftrightarrow> t < u"
proof -
  obtain y m d where p: "ord_ymd (t div 86400000000 + 719163) = (y, m, d)" by (metis prod_cases3)
  obtain y' m' d' where q: "ord_ymd (u div 86400000000 + 719163) = (y', m', d')" by (metis prod_cases3)
  note rp = ord_ymd_range [OF datetime_days [OF assms(1)] p] and rq = ord_ymd_range [OF datetime_days [OF assms(2)] q]
  have pads: "0 \<le> y" "y < 10 ^ 4" "0 \<le> y'" "y' < 10 ^ 4" "0 \<le> m" "m < 10 ^ 2" "0 \<le> m'" "m' < 10 ^ 2"
    "0 \<le> d" "d < 10 ^ 2" "0 \<le> d'" "d' < 10 ^ 2" using rp rq by simp_all
  have small: "0 \<le> n mod 24" "n mod 24 < 10 ^ 2" "0 \<le> n mod 60" "n mod 60 < 10 ^ 2" for n :: int
    using pos_mod_bound [of 24 n] pos_mod_bound [of 60 n] by simp_all
  have days: "ymd_less (y, m, d) (y', m', d') \<longleftrightarrow> t div 86400000000 < u div 86400000000"
    "(y, m, d) = (y', m', d') \<longleftrightarrow> t div 86400000000 = u div 86400000000"
    using ord_ymd_less [of "t div 86400000000 + 719163" "u div 86400000000 + 719163"] p q
      ord_ymd_ok [of "t div 86400000000 + 719163"] ord_ymd_ok [of "u div 86400000000 + 719163"] by auto

  have radix: "t div 1000000 < u div 1000000 \<longleftrightarrow> t div 60000000 < u div 60000000 \<or>
      (t div 60000000 = u div 60000000 \<and> t div 1000000 mod 60 < u div 1000000 mod 60)"
    "t div 60000000 < u div 60000000 \<longleftrightarrow> t div 3600000000 < u div 3600000000 \<or>
      (t div 3600000000 = u div 3600000000 \<and> t div 60000000 mod 60 < u div 60000000 mod 60)"
    "t div 3600000000 < u div 3600000000 \<longleftrightarrow> t div 86400000000 < u div 86400000000 \<or>
      (t div 86400000000 = u div 86400000000 \<and> t div 3600000000 mod 24 < u div 3600000000 mod 24)"
    unfolding iso_div by (rule mixed_radix_less, simp)+
  have same: "t div 1000000 = u div 1000000 \<longleftrightarrow> t div 60000000 = u div 60000000 \<and> t div 1000000 mod 60 = u div 1000000 mod 60"
    "t div 60000000 = u div 60000000 \<longleftrightarrow> t div 3600000000 = u div 3600000000 \<and> t div 60000000 mod 60 = u div 60000000 mod 60"
    "t div 3600000000 = u div 3600000000 \<longleftrightarrow> t div 86400000000 = u div 86400000000 \<and>
      t div 3600000000 mod 24 = u div 3600000000 mod 24"
    unfolding iso_div by (rule mixed_radix_eq)+
  have "text_less (isoformat t) (isoformat u) \<longleftrightarrow> ymd_less (y, m, d) (y', m', d') \<or> ((y, m, d) = (y', m', d') \<and>
      (t div 3600000000 mod 24 < u div 3600000000 mod 24 \<or> (t div 3600000000 mod 24 = u div 3600000000 mod 24 \<and>
      (t div 60000000 mod 60 < u div 60000000 mod 60 \<or> (t div 60000000 mod 60 = u div 60000000 mod 60 \<and>
      (t div 1000000 mod 60 < u div 1000000 mod 60 \<or> (t div 1000000 mod 60 = u div 1000000 mod 60 \<and>
       t mod 1000000 < u mod 1000000)))))))"
    unfolding isoformat_fields [OF p] isoformat_fields [OF q]
    by (simp add: pad_left_less pads small iso_fraction_less ymd_less_def del: power_numeral) blast
  also have "\<dots> \<longleftrightarrow> t < u"
    unfolding days mixed_radix_less [of 1000000 t u, simplified] radix(1) same(1) radix(2) same(2)
      radix(3) same(3) by blast
  finally show ?thesis .
qed

text \<open>What \<open>isoformat\<close> writes reads back.\<close>

lemma parse_iso_fields:
  assumes "length y = 4" "length m = 2" "length d = 2" "length h = 2" "length mi = 2" "length sec = 2"
    and "tail = ''+00:00'' \<or> (\<exists>f. length f = 6 \<and> tail = ''.'' @ f @ ''+00:00'')"
  shows "parse_iso (y @ ''-'' @ m @ ''-'' @ d @ ''T'' @ h @ '':'' @ mi @ '':'' @ sec @ tail) =
    (case (number y, number m, number d, number h, number mi, number sec,
       if tail = ''+00:00'' then Some 0 else number (field 1 6 tail)) of
      (Some y, Some m, Some d, Some h, Some mi, Some sec, Some us) \<Rightarrow>
        if 1 \<le> y \<and> valid_ymd (y, m, d) \<and> h < 24 \<and> mi < 60 \<and> sec < 60
        then Inr (((ymd_ord (y, m, d) - 719163) * 86400 + h * 3600 + mi * 60 + sec) * 1000000 + us)
        else Inl ValueError
    | _ \<Rightarrow> Inl ValueError)"
proof -
  let ?s = "y @ ''-'' @ m @ ''-'' @ d @ ''T'' @ h @ '':'' @ mi @ '':'' @ sec @ tail"
  have rest: "drop 19 ?s = tail" using assms by simp
  have ok: "\<not> (length ?s < 25 \<or> field 4 1 ?s \<noteq> ''-'' \<or> field 7 1 ?s \<noteq> ''-'' \<or> field 10 1 ?s \<noteq> ''T'' \<or>
      field 13 1 ?s \<noteq> '':'' \<or> field 16 1 ?s \<noteq> '':'' \<or>
      (tail \<noteq> ''+00:00'' \<and> (field 0 1 tail \<noteq> ''.'' \<or> drop 7 tail \<noteq> ''+00:00'')))"
    using assms by (auto simp: field_def)
  have fields: "field 0 4 ?s = y" "field 5 2 ?s = m" "field 8 2 ?s = d" "field 11 2 ?s = h" "field 14 2 ?s = mi"
    "field 17 2 ?s = sec"
    using assms(1-6) by (simp_all add: field_def)
  show ?thesis unfolding parse_iso_def Let_def rest fields using ok by (simp only: if_False)
qed

lemma compose_time:
  assumes "A = 60 * B + sec" "B = 60 * C + mi" "C = 24 * D + h" "t = 1000000 * A + (us::int)"
  shows "(D * 86400 + h * 3600 + mi * 60 + sec) * 1000000 + us = t"
  unfolding assms by simp

lemma parse_isoformat:
  assumes "datetime_range t"
  shows "parse_iso (isoformat t) = Inr t"
proof -
  obtain y m d where p: "ord_ymd (t div 86400000000 + 719163) = (y, m, d)" by (metis prod_cases3)
  note r = ord_ymd_range [OF datetime_days [OF assms(1)] p]
  have ok: "valid_ymd (y, m, d)" "ymd_ord (y, m, d) = t div 86400000000 + 719163"
    using ord_ymd_ok [of "t div 86400000000 + 719163"] p by auto
  define h mi sec us where "h = t div 3600000000 mod 24" and "mi = t div 60000000 mod 60"
    and "sec = t div 1000000 mod 60" and "us = t mod 1000000"
  have small: "0 \<le> h" "h < 24" "0 \<le> mi" "mi < 60" "0 \<le> sec" "sec < 60" "0 \<le> us" "us < 1000000"
    by (simp_all add: h_def mi_def sec_def us_def)
  have two: "length (pad_left 2 n) = 2" "number (pad_left 2 n) = Some n" if "0 \<le> n" "n < 100" for n
    using that pad_left_props(1) [of n 2] number_pad_left [of n 2] by simp_all
  have four: "length (pad_left 4 y) = 4" "number (pad_left 4 y) = Some y"
    using r pad_left_props(1) [of y 4] number_pad_left [of y 4] by simp_all
  have six: "length (pad_left 6 us) = 6" "number (pad_left 6 us) = Some us"
    using small pad_left_props(1) [of us 6] number_pad_left [of us 6] by simp_all
  let ?tail = "iso_fraction us @ ''+00:00''"
  have tail: "?tail = ''+00:00'' \<or> (\<exists>f. length f = 6 \<and> ?tail = ''.'' @ f @ ''+00:00'')"
    using six(1) by (auto simp: iso_fraction_def)
  have frac: "(if ?tail = ''+00:00'' then Some 0 else number (field 1 6 ?tail)) = Some us"
    using six by (auto simp: iso_fraction_def field_def)
  have time: "(t div 86400000000 * 86400 + h * 3600 + mi * 60 + sec) * 1000000 + us = t"
  proof -
    have "t div 1000000 = 60 * (t div 60000000) + sec" "t div 60000000 = 60 * (t div 3600000000) + mi"
      "t div 3600000000 = 24 * (t div 86400000000) + h"
      unfolding iso_div h_def mi_def sec_def by simp_all
    moreover have "t = 1000000 * (t div 1000000) + us" by (simp add: us_def)
    ultimately show ?thesis by (rule compose_time)
  qed
  have "parse_iso (isoformat t) = Inr ((t div 86400000000 * 86400 + h * 3600 + mi * 60 + sec) * 1000000 + us)"
    unfolding isoformat_fields [OF p] h_def [symmetric] mi_def [symmetric] sec_def [symmetric] us_def [symmetric]
    using r small ok
    by (subst parse_iso_fields [OF four(1) two(1) two(1) two(1) two(1) two(1) tail], unfold frac)
      (simp_all add: two four)
  with time show ?thesis by simp
qed

text \<open>So \<open>isoformat\<close> loses nothing.\<close>

lemma isoformat_inj: "datetime_range t \<Longrightarrow> datetime_range u \<Longrightarrow> isoformat t = isoformat u \<Longrightarrow> t = u"
  by (metis parse_isoformat sum.inject(2))

end
