(* ===== verification/Doubles.thy ===== *)
theory Doubles
  imports Complex_Main
begin

text \<open>
  \<open>int(timestamp.timestamp() * 1_000_000)\<close>, the key under which the SQL stores order signed tree
  heads: the timestamp in seconds as an IEEE double, times a million as a double, truncated. A
  double is a rational rounded to 53 bits, ties to even (no subnormals or overflow: a \<open>datetime\<close>
  is far from both). Up to the year 2041 the key is the microsecond or the one before it.
\<close>

definition round_even :: "rat \<Rightarrow> int" where
  "round_even x = (let f = \<lfloor>x\<rfloor>; r = x - of_int f in if r < 1 / 2 \<or> (r = 1 / 2 \<and> even f) then f else f + 1)"

text \<open>The \<open>k\<close> with \<open>2^k \<le> x < 2^(k+1)\<close>.\<close>

function ilog2 :: "int \<Rightarrow> nat" where
  "ilog2 n = (if n \<le> 1 then 0 else Suc (ilog2 (n div 2)))"
  by auto
termination by (relation "measure nat") auto

declare ilog2.simps [simp del]

definition expo :: "rat \<Rightarrow> int" where
  "expo x = (if 1 \<le> x then int (ilog2 \<lfloor>x\<rfloor>) else - int (Suc (ilog2 (\<lceil>1 / x\<rceil> - 1))))"

definition pow2 :: "int \<Rightarrow> rat" where
  "pow2 k = (if 0 \<le> k then 2 ^ nat k else 1 / 2 ^ nat (- k))"

definition double_pos :: "rat \<Rightarrow> rat" where
  "double_pos x = (let u = pow2 (expo x - 52) in of_int (round_even (x / u)) * u)"

definition double :: "rat \<Rightarrow> rat" where
  "double x = (if x = 0 then 0 else if x < 0 then - double_pos (- x) else double_pos x)"

definition truncate_int :: "rat \<Rightarrow> int" where
  "truncate_int x = (if x < 0 then \<lceil>x\<rceil> else \<lfloor>x\<rfloor>)"

definition epoch_us :: "int \<Rightarrow> int" where
  "epoch_us t = truncate_int (double (double (of_int t / 1000000) * 1000000))"

section \<open>The error of a rounding\<close>

lemma round_even_error: "\<bar>of_int (round_even x) - x\<bar> \<le> 1 / 2"
proof -
  define f where "f = \<lfloor>x\<rfloor>"
  have "of_int f \<le> x" "x < of_int f + 1" unfolding f_def by linarith+
  then show ?thesis unfolding round_even_def Let_def f_def [symmetric] abs_le_iff by (simp split: if_split)
qed

lemma pow2_pos [simp]: "0 < pow2 k"
  by (simp add: pow2_def)

lemma pow2_nat: "pow2 (int n) = 2 ^ n" "pow2 (- int n) = 1 / 2 ^ n"
  by (auto simp: pow2_def)

lemma pow2_shift: "pow2 (k - int n) = pow2 k / 2 ^ n"
proof (cases "0 \<le> k - int n")
  case True
  then obtain m where "k = int (m + n)" by (metis add.commute diff_add_cancel nonneg_int_cases of_nat_add)
  then show ?thesis by (simp add: pow2_def power_add nat_add_distrib)
next
  case False
  show ?thesis
  proof (cases "0 \<le> k")
    case True
    then obtain m where m: "k = int m" by (metis nonneg_int_cases)
    with False have "n = (n - m) + m" by simp
    then have "(2::rat) ^ n = 2 ^ (n - m) * 2 ^ m" by (metis power_add)
    moreover have "nat (- (k - int n)) = n - m" using m False by simp
    ultimately show ?thesis using False True m by (simp add: pow2_def)
  next
    case neg: False
    then have "nat (- (k - int n)) = nat (- k) + n" by simp
    then show ?thesis using False neg by (simp add: pow2_def power_add)
  qed
qed

lemma ilog2_bounds: "1 \<le> n \<Longrightarrow> 2 ^ ilog2 n \<le> n \<and> n < 2 ^ Suc (ilog2 n)"
proof (induction n rule: ilog2.induct)
  case (1 n)
  show ?case
  proof (cases "n \<le> 1")
    case True
    with 1(2) have "n = 1" by simp
    then show ?thesis by (simp add: ilog2.simps [of 1])
  next
    case False
    then have "2 ^ ilog2 (n div 2) \<le> n div 2" "n div 2 < 2 ^ Suc (ilog2 (n div 2))" using 1(1) by auto
    then have "2 * 2 ^ ilog2 (n div 2) \<le> n" and "n < 4 * 2 ^ ilog2 (n div 2)" unfolding power_Suc by linarith+
    then show ?thesis using False by (simp add: ilog2.simps [of n])
  qed
qed

lemma pow2_expo_le:
  assumes "0 < x"
  shows "pow2 (expo x) \<le> x"
proof (cases "1 \<le> x")
  case True
  then have "2 ^ ilog2 \<lfloor>x\<rfloor> \<le> \<lfloor>x\<rfloor>" using ilog2_bounds [of "\<lfloor>x\<rfloor>"] by (simp add: le_floor_iff)
  then have "of_int (2 ^ ilog2 \<lfloor>x\<rfloor>) \<le> x" by (simp only: le_floor_iff)
  then show ?thesis using True by (simp add: expo_def pow2_nat)
next
  case False
  define m where "m = \<lceil>1 / x\<rceil> - 1"
  have "1 < 1 / x" using False assms by simp
  then have "1 \<le> m" unfolding m_def by linarith
  then have "m + 1 \<le> 2 ^ Suc (ilog2 m)" using ilog2_bounds [of m] by simp
  then have "\<lceil>1 / x\<rceil> \<le> 2 ^ Suc (ilog2 m)" by (simp add: m_def)
  then have "1 / x \<le> of_int (2 ^ Suc (ilog2 m))" by (simp only: ceiling_le_iff)
  then have "1 / 2 ^ Suc (ilog2 m) \<le> x" using assms by (simp add: field_simps)
  then show ?thesis using False by (simp only: expo_def m_def [symmetric] pow2_nat if_False)
qed

lemma double_error:
  assumes "0 < x"
  shows "\<bar>double x - x\<bar> \<le> x / 2 ^ 53"
proof -
  define u where "u = pow2 (expo x - 52)"
  have u: "0 < u" by (simp add: u_def)
  have "double x - x = (of_int (round_even (x / u)) - x / u) * u"
    using assms u by (simp add: double_def double_pos_def u_def [symmetric] Let_def left_diff_distrib)
  then have "\<bar>double x - x\<bar> = \<bar>of_int (round_even (x / u)) - x / u\<bar> * u" using u by (simp add: abs_mult)
  also have "\<dots> \<le> 1 / 2 * u" using u by (intro mult_right_mono round_even_error) simp
  also have "\<dots> \<le> x / 2 ^ 53"
    using pow2_expo_le [OF assms] pow2_shift [of "expo x" 52] by (simp add: u_def)
  finally show ?thesis .
qed

text \<open>The stored key is the timestamp or the microsecond before it.\<close>

lemma epoch_us_close:
  assumes "0 \<le> t" "t \<le> 2 ^ 51"
  shows "epoch_us t = t \<or> epoch_us t = t - 1"
proof (cases "t = 0")
  case False
  define y d where "y = (of_int t :: rat) / 1000000" and "d = double y * 1000000"
  have t: "1 \<le> (of_int t :: rat)" "(of_int t :: rat) \<le> 2 ^ 51"
    using False assms by (simp, metis of_int_le_iff of_int_numeral of_int_power)
  have "0 < y" using t by (simp add: y_def)
  from double_error [OF this] have "\<bar>double y - y\<bar> * 1000000 \<le> y / 2 ^ 53 * 1000000" by (intro mult_right_mono) simp_all
  then have "\<bar>d - of_int t\<bar> \<le> of_int t / 2 ^ 53" by (simp add: d_def y_def abs_mult_pos left_diff_distrib abs_if split: if_splits)
  then have d: "\<bar>d - of_int t\<bar> \<le> 1 / 4" using t by simp
  then have "0 < d" "d \<le> 2 ^ 51 + 1 / 4" using t by linarith+
  with double_error [of d] have "\<bar>double d - d\<bar> \<le> 1 / 4 + 1 / 8" by simp
  with d have "\<bar>double d - of_int t\<bar> \<le> 5 / 8" by linarith
  then have "of_int t - 1 \<le> double d" "double d < of_int t + 1" "0 \<le> double d" using t by linarith+
  moreover from this have "\<lfloor>double d\<rfloor> < t + 1" by (subst floor_less_iff) simp
  ultimately have "t - 1 \<le> truncate_int (double d)" "truncate_int (double d) < t + 1"
    by (simp_all add: truncate_int_def le_floor_iff)
  then show ?thesis by (simp add: epoch_us_def d_def y_def) linarith
qed (simp add: epoch_us_def double_def truncate_int_def)

lemma epoch_us_less:
  assumes "0 \<le> t" "u \<le> 2 ^ 51" "t + 1 < u"
  shows "epoch_us t < epoch_us u"
  using epoch_us_close [of t] epoch_us_close [of u] assms by linarith

lemma epoch_us_mono:
  assumes "0 \<le> t" "u \<le> 2 ^ 51" "t \<le> u"
  shows "epoch_us t \<le> epoch_us u"
proof (cases "t = u")
  case False
  with assms show ?thesis using epoch_us_close [of t] epoch_us_close [of u] by linarith
qed simp

text \<open>Between September 2005 and January 2038 the key is the timestamp itself.\<close>

lemma round_even_unique:
  assumes "\<bar>of_int n - x\<bar> < 1 / 2"
  shows "round_even x = n"
proof -
  have "\<bar>of_int (round_even x) - (of_int n :: rat)\<bar> < 1" using assms round_even_error [of x] by linarith
  then have "\<bar>round_even x - n\<bar> < 1" by (metis of_int_diff of_int_abs of_int_less_1_iff)
  then show ?thesis by simp
qed

lemma expo_eq:
  assumes "2 ^ k \<le> x" "x < 2 ^ Suc k"
  shows "expo x = int k"
proof -
  have x: "1 \<le> x" using assms(1) by (meson one_le_numeral one_le_power order_trans)
  have "(2::int) ^ k \<le> \<lfloor>x\<rfloor>" "\<lfloor>x\<rfloor> < 2 ^ Suc k" using assms by (simp_all add: le_floor_iff floor_less_iff)
  moreover have "2 ^ ilog2 \<lfloor>x\<rfloor> \<le> \<lfloor>x\<rfloor>" "\<lfloor>x\<rfloor> < 2 ^ Suc (ilog2 \<lfloor>x\<rfloor>)" using ilog2_bounds [of "\<lfloor>x\<rfloor>"] x by simp_all
  ultimately have "(2::int) ^ k < 2 ^ Suc (ilog2 \<lfloor>x\<rfloor>)" "(2::int) ^ ilog2 \<lfloor>x\<rfloor> < 2 ^ Suc k" by linarith+
  then have "k < Suc (ilog2 \<lfloor>x\<rfloor>)" "ilog2 \<lfloor>x\<rfloor> < Suc k" by (simp_all only: power_strict_increasing_iff [of "2::int"] one_less_numeral_iff semiring_norm)
  then show ?thesis using x by (simp add: expo_def)
qed

lemma double_ulp:
  assumes "2 ^ k \<le> x" "x < 2 ^ Suc k"
  shows "\<bar>double x - x\<bar> \<le> 1 / 2 * pow2 (int k - 52)"
proof -
  define u where "u = pow2 (int k - 52)"
  have u: "0 < u" by (simp add: u_def)
  have "0 < x" using assms(1) by (rule less_le_trans [rotated]) simp
  then have "double x - x = (of_int (round_even (x / u)) - x / u) * u"
    using u by (simp add: double_def double_pos_def Let_def expo_eq [OF assms] u_def [symmetric] left_diff_distrib)
  then have "\<bar>double x - x\<bar> = \<bar>of_int (round_even (x / u)) - x / u\<bar> * u" using u by (simp add: abs_mult)
  also have "\<dots> \<le> 1 / 2 * u" using u by (intro mult_right_mono round_even_error) simp
  finally show ?thesis by (simp add: u_def)
qed

lemma epoch_us_exact:
  assumes "2 ^ 50 < t" "t < 2 ^ 31 * 1000000"
  shows "epoch_us t = t"
proof -
  define y d where "y = (of_int t :: rat) / 1000000" and "d = double y * 1000000"
  have t: "2 ^ 50 + 1 \<le> (of_int t :: rat)" "(of_int t :: rat) < 2 ^ 31 * 1000000"
  proof -
    have "of_int (2 ^ 50 + 1) \<le> (of_int t :: rat)" using assms by (simp only: of_int_le_iff)
    then show "2 ^ 50 + 1 \<le> (of_int t :: rat)" by simp
    have "(of_int t :: rat) < of_int (2 ^ 31 * 1000000)" using assms by (simp only: of_int_less_iff)
    then show "(of_int t :: rat) < 2 ^ 31 * 1000000" by simp
  qed
  then have y: "2 ^ 30 \<le> y" "y < 2 ^ Suc 30" by (simp_all add: y_def field_simps)
  have "\<bar>double y - y\<bar> \<le> 1 / 2 * pow2 (int 30 - 52)" by (rule double_ulp [OF y])
  also have "pow2 (int 30 - 52) = 1 / 4194304" by (simp add: pow2_def)
  finally have "\<bar>double y - y\<bar> * 1000000 \<le> 12 / 100" by simp
  moreover have "\<bar>double y - y\<bar> * 1000000 = \<bar>d - of_int t\<bar>"
    using abs_mult [of "double y - y" 1000000] by (simp add: d_def y_def left_diff_distrib)
  ultimately have "\<bar>d - of_int t\<bar> \<le> 12 / 100" by simp
  then have d: "of_int t - 12 / 100 \<le> d" "d \<le> of_int t + 12 / 100" by linarith+
  have "(2::rat) ^ 31 * 1000000 + 1 < 2 ^ Suc 50" by simp
  then have dr: "2 ^ 50 \<le> d" "d < 2 ^ Suc 50" using d t by linarith+
  have "\<bar>of_int (4 * t) - d * 4\<bar> < 1 / 2" unfolding abs_less_iff of_int_mult of_int_numeral using d by linarith
  then have "round_even (d * 4) = 4 * t" by (rule round_even_unique)
  moreover have "0 < d" using dr(1) by (rule less_le_trans [rotated]) simp
  ultimately have "double d = of_int t"
    by (simp add: double_def double_pos_def Let_def expo_eq [OF dr] pow2_def)
  then show ?thesis using assms by (simp add: epoch_us_def d_def y_def truncate_int_def)
qed

end
