(* ===== verification/Sql.thy ===== *)
theory Sql
  imports Store IsoTime Doubles "HOL-Library.Multiset"
begin

text \<open>
  The relational layer of the durable backends. A table is the list of its rows in insertion
  order; a row is its primary key and its other columns. Each SQL statement form the stores use
  is one function; \<open>unique\<close> is what the PRIMARY KEY constraint guarantees. The tables are
  polymorphic in the type of a timestamp column: TEXT in SQLite, TIMESTAMPTZ in Postgres.
\<close>

section \<open>Statements\<close>

type_synonym ('k, 'v) table = "('k \<times> 'v) list"

definition unique :: "('k, 'v) table \<Rightarrow> bool" where
  "unique t \<longleftrightarrow> distinct (map fst t)"

definition sql_get :: "'k \<Rightarrow> ('k, 'v) table \<Rightarrow> 'v option" where
  "sql_get k t = map_of t k"

definition sql_insert :: "'k \<Rightarrow> 'v \<Rightarrow> ('k, 'v) table \<Rightarrow> ('k, 'v) table res" where
  "sql_insert k v t = (if k \<in> set (map fst t) then Inl IntegrityError else Inr (t @ [(k, v)]))"

text \<open>\<open>INSERT OR IGNORE\<close> and \<open>ON CONFLICT DO NOTHING\<close>, with \<open>rowcount > 0\<close>.\<close>

definition sql_insert_ignore :: "'k \<Rightarrow> 'v \<Rightarrow> ('k, 'v) table \<Rightarrow> bool \<times> ('k, 'v) table" where
  "sql_insert_ignore k v t = (if k \<in> set (map fst t) then (False, t) else (True, t @ [(k, v)]))"

text \<open>\<open>INSERT OR REPLACE\<close>: the conflicting row is deleted, then the new one inserted.\<close>

definition sql_replace :: "'k \<Rightarrow> 'v \<Rightarrow> ('k, 'v) table \<Rightarrow> ('k, 'v) table" where
  "sql_replace k v t = filter (\<lambda>p. fst p \<noteq> k) t @ [(k, v)]"

text \<open>\<open>ON CONFLICT DO UPDATE SET\<close> some columns, \<open>f old new\<close> being the row that results.\<close>

definition sql_upsert :: "'k \<Rightarrow> ('v \<Rightarrow> 'v \<Rightarrow> 'v) \<Rightarrow> 'v \<Rightarrow> ('k, 'v) table \<Rightarrow> ('k, 'v) table" where
  "sql_upsert k f v t =
     (if k \<in> set (map fst t) then map (\<lambda>p. if fst p = k then (k, f (snd p) v) else p) t else t @ [(k, v)])"

text \<open>\<open>DELETE WHERE\<close>, with the \<open>rowcount\<close>.\<close>

definition sql_delete :: "('k \<times> 'v \<Rightarrow> bool) \<Rightarrow> ('k, 'v) table \<Rightarrow> int \<times> ('k, 'v) table" where
  "sql_delete P t = (int (length (filter P t)), filter (\<lambda>p. \<not> P p) t)"

text \<open>\<open>ORDER BY f LIMIT 1\<close> and \<open>ORDER BY f DESC LIMIT 1\<close>; a tie goes to the older row.\<close>

definition sql_first :: "('a \<Rightarrow> 'b::linorder) \<Rightarrow> 'a list \<Rightarrow> 'a option" where
  "sql_first f rows = (case sort_key f rows of [] \<Rightarrow> None | r # _ \<Rightarrow> Some r)"

definition sql_last :: "('a \<Rightarrow> int) \<Rightarrow> 'a list \<Rightarrow> 'a option" where
  "sql_last f rows = sql_first (\<lambda>r. - f r) rows"

text \<open>
  An integer parameter is bound to a 64-bit column: the \<open>sqlite3\<close> module raises
  \<open>OverflowError\<close> for a larger one, before the statement runs.
\<close>

definition int64 :: "int \<Rightarrow> bool" where
  "int64 n \<longleftrightarrow> - (2 ^ 63) \<le> n \<and> n < 2 ^ 63"

definition binding :: "int list \<Rightarrow> ('s, 'a) op \<Rightarrow> ('s, 'a) op" where
  "binding ns run = (if list_all int64 ns then run else op_raise OverflowError)"

definition querying :: "int list \<Rightarrow> 'a res \<Rightarrow> 'a res" where
  "querying ns result = (if list_all int64 ns then result else Inl OverflowError)"

section \<open>Their effect on the table as a map\<close>

lemma unique_Nil [simp]: "unique []"
  by (simp add: unique_def)

lemma map_add_new: "k \<notin> fst ` set t \<Longrightarrow> [k \<mapsto> v] ++ map_of t = (map_of t)(k \<mapsto> v)"
  by (auto simp: map_add_def fun_eq_iff map_of_eq_None_iff [symmetric] split: option.splits)

lemma map_of_append_new: "k \<notin> fst ` set t \<Longrightarrow> map_of (t @ [(k, v)]) = (map_of t)(k \<mapsto> v)"
  by (simp add: map_add_new)

lemma insert_ignore_map:
  "sql_insert_ignore k v t = (b, t') \<Longrightarrow>
   b = (map_of t k = None) \<and> map_of t' = (if map_of t k = None then (map_of t)(k \<mapsto> v) else map_of t) \<and>
   (unique t \<longrightarrow> unique t')"
  by (auto simp: sql_insert_ignore_def unique_def map_add_new map_of_eq_None_iff split: if_splits)

lemma map_of_filter_key: "map_of (filter (\<lambda>p. fst p \<noteq> k) t) = (map_of t)(k := None)"
  by (induction t) (auto simp: fun_eq_iff)

lemma replace_map: "map_of (sql_replace k v t) = (map_of t)(k \<mapsto> v)"
proof -
  have "k \<notin> fst ` set (filter (\<lambda>p. fst p \<noteq> k) t)" by auto
  then have "map_of (sql_replace k v t) = (map_of (filter (\<lambda>p. fst p \<noteq> k) t))(k \<mapsto> v)"
    unfolding sql_replace_def by (rule map_of_append_new)
  then show ?thesis by (simp add: map_of_filter_key)
qed

lemma replace_unique: "unique t \<Longrightarrow> unique (sql_replace k v t)"
  by (auto simp: unique_def sql_replace_def distinct_map_filter)

lemma upsert_keys: "map fst (sql_upsert k f v t) = (if k \<in> set (map fst t) then map fst t else map fst t @ [k])"
  by (auto simp: sql_upsert_def)

lemma upsert_unique: "unique t \<Longrightarrow> unique (sql_upsert k f v t)"
  by (simp add: unique_def upsert_keys del: set_map)

lemma map_of_update_row:
  "map_of (map (\<lambda>p. if fst p = k then (k, g (snd p)) else p) t) =
    (case map_of t k of None \<Rightarrow> map_of t | Some old \<Rightarrow> (map_of t)(k \<mapsto> g old))"
  by (induction t) (auto simp: fun_eq_iff split: option.splits)

lemma upsert_map:
  "map_of (sql_upsert k f v t) = (map_of t)(k \<mapsto> (case map_of t k of None \<Rightarrow> v | Some old \<Rightarrow> f old v))"
proof (cases "map_of t k")
  case None
  then have "k \<notin> fst ` set t" by (simp add: map_of_eq_None_iff)
  with None show ?thesis by (simp add: sql_upsert_def map_add_new)
next
  case (Some old)
  then have "k \<in> fst ` set t" by (metis map_of_eq_None_iff option.distinct(1))
  with Some show ?thesis using map_of_update_row [of k "\<lambda>old. f old v" t] by (simp add: sql_upsert_def)
qed

lemma unique_filter: "unique t \<Longrightarrow> unique (filter P t)"
  by (simp add: unique_def distinct_map_filter)

lemma map_of_filter_unique:
  "unique t \<Longrightarrow> map_of (filter P t) k = (case map_of t k of None \<Rightarrow> None | Some v \<Rightarrow> if P (k, v) then Some v else None)"
  by (induction t) (force simp: unique_def map_of_eq_None_iff split: option.splits)+

text \<open>Two unique tables with the same map hold the same rows.\<close>

lemma unique_set: "unique t \<Longrightarrow> p \<in> set t \<longleftrightarrow> map_of t (fst p) = Some (snd p)"
  by (cases p) (auto simp: unique_def)

lemma same_map_set: "unique t \<Longrightarrow> unique u \<Longrightarrow> map_of t = map_of u \<Longrightarrow> set t = set u"
  by (auto simp: unique_set)

lemma same_map_mset: "unique t \<Longrightarrow> unique u \<Longrightarrow> map_of t = map_of u \<Longrightarrow> mset t = mset u"
  by (intro set_eq_iff_mset_eq_distinct [THEN iffD1] same_map_set) (auto simp: unique_def distinct_map)

section \<open>Ordered reads\<close>

lemma sql_first_None [simp]: "sql_first f rows = None \<longleftrightarrow> rows = []"
  by (auto simp: sql_first_def split: list.splits) (metis length_0_conv length_sort)

lemma sql_first_Some:
  assumes "sql_first f rows = Some r"
  shows "r \<in> set rows \<and> (\<forall>x \<in> set rows. f r \<le> f x)"
proof -
  obtain rs where s: "sort_key f rows = r # rs" using assms by (auto simp: sql_first_def split: list.splits)
  then have "sorted (map f (r # rs))" by (metis sorted_sort_key)
  moreover have "set rows = set (r # rs)" using s by (metis set_sort)
  ultimately show ?thesis by auto
qed

lemma sql_last_None [simp]: "sql_last f rows = None \<longleftrightarrow> rows = []"
  by (simp add: sql_last_def)

lemma sql_last_Some: "sql_last f rows = Some r \<Longrightarrow> r \<in> set rows \<and> (\<forall>x \<in> set rows. f x \<le> f r)"
  using sql_first_Some [of "\<lambda>r. - f r" rows r] by (auto simp: sql_last_def)

text \<open>When the keys do not tie, the extremal row does not depend on the order of the rows.\<close>

lemma last_is_max_by:
  assumes "set rows = set rows'" "inj_on f (set rows)"
  shows "sql_last f rows = max_by f rows'"
proof (cases "rows' = []")
  case True
  with assms(1) have "rows = []" by auto
  then show ?thesis using True by (metis max_by_None sql_last_None)
next
  case False
  with assms(1) have "rows \<noteq> []" by auto
  obtain m where m: "max_by f rows' = Some m" using False max_by_None [of f rows'] by (cases "max_by f rows'") simp_all
  obtain r where r: "sql_last f rows = Some r" using \<open>rows \<noteq> []\<close> sql_last_None [of f rows] by (cases "sql_last f rows") simp_all
  have "f m = f r" "m \<in> set rows" "r \<in> set rows"
    using max_by_Some [OF m] sql_last_Some [OF r] assms(1) by (auto intro: antisym)
  then show ?thesis using assms(2) m r by (simp add: inj_on_def)
qed

lemma first_is_min_by:
  assumes "set rows = set rows'" "inj_on f (set rows)"
  shows "sql_first f rows = min_by f rows'"
proof (cases "rows' = []")
  case True
  with assms(1) have "rows = []" by auto
  then show ?thesis using True by (metis min_by_None sql_first_None)
next
  case False
  with assms(1) have "rows \<noteq> []" by auto
  obtain m where m: "min_by f rows' = Some m" using False min_by_None [of f rows'] by (cases "min_by f rows'") simp_all
  obtain r where r: "sql_first f rows = Some r" using \<open>rows \<noteq> []\<close> sql_first_None [of f rows] by (cases "sql_first f rows") simp_all
  have "f m = f r" "m \<in> set rows" "r \<in> set rows"
    using min_by_Some [OF m] sql_first_Some [OF r] assms(1) by (auto intro: antisym)
  then show ?thesis using assms(2) m r by (simp add: inj_on_def)
qed

lemma sort_key_determined:
  assumes "mset xs = mset ys" "inj_on f (set xs)"
  shows "sort_key f xs = sort_key f ys"
  using assms by (intro sort_key_inj_key_eq) simp_all

section \<open>The schema\<close>

record 't log_cols =
  le_logged_at :: 't
  le_kind :: string
  le_payload_hash :: string
  le_signature :: string
  le_prev :: "string option"

record 't root_cols =
  ro_seq_from :: int
  ro_seq_to :: int
  ro_attested_at :: 't
  ro_countersignature :: string

text \<open>
  \<open>signed_tree_heads\<close> holds at most the row with \<open>id = 1\<close>; its two ordering columns are NULL
  in a row written before they were added. The tables with an AUTOINCREMENT key are lists.
\<close>

record 't tables =
  t_log :: "(int, 't log_cols) table"
  t_roots :: "(string \<times> string, 't root_cols) table"
  t_bindings :: "(int, string) table"
  t_statements :: "(string, statement) table"
  t_subjects :: "(string \<times> string, string option \<times> string option) table"
  t_latest :: "(string \<times> int option \<times> int option) option"
  t_history :: "(int, string \<times> int) table"
  t_witnesses :: "(string, witness) table"
  t_records :: "(string \<times> int, cp_record) table"
  t_equivocations :: "(string \<times> equivocation) list"
  t_receipts :: "(string \<times> int \<times> string, pl_receipt) table"
  t_failures :: "(string \<times> string \<times> string) list"

definition empty_tables :: "'t tables" where
  "empty_tables = \<lparr>t_log = [], t_roots = [], t_bindings = [], t_statements = [], t_subjects = [],
     t_latest = None, t_history = [], t_witnesses = [], t_records = [], t_equivocations = [],
     t_receipts = [], t_failures = []\<rparr>"

text \<open>
  A signature column holds pydantic's \<open>model_dump_json()\<close>, read with \<open>model_validate_json\<close>: the
  library's two functions, of which the stores need that the second undoes the first.
\<close>

record sig_codec =
  sig_dump :: "sig \<Rightarrow> string"
  sig_load :: "string \<Rightarrow> sig res"

definition codec_ok :: "sig_codec \<Rightarrow> bool" where
  "codec_ok c \<longleftrightarrow> (\<forall>s. sig_load c (sig_dump c s) = Inr s)"

text \<open>The comparison of \<open>put_sth\<close>'s UPSERT, NULL counting as \<open>-1\<close>.\<close>

definition coalesce :: "int option \<Rightarrow> int" where
  "coalesce v = (case v of None \<Rightarrow> -1 | Some n \<Rightarrow> n)"

definition sth_newer :: "int \<Rightarrow> int \<Rightarrow> int option \<Rightarrow> int option \<Rightarrow> bool" where
  "sth_newer n us old_size old_us \<longleftrightarrow>
     coalesce old_size < n \<or> (n = coalesce old_size \<and> coalesce old_us < us)"

text \<open>The columns written for a model, \<open>f\<close> being the form of a timestamp.\<close>

definition log_cols_of :: "(int \<Rightarrow> 't) \<Rightarrow> sig_codec \<Rightarrow> entry \<Rightarrow> 't log_cols" where
  "log_cols_of f c e = \<lparr>le_logged_at = f (logged_at e), le_kind = kind e,
     le_payload_hash = payload_hash e, le_signature = sig_dump c (log_signature e),
     le_prev = prev_log_hash e\<rparr>"

definition root_cols_of :: "(int \<Rightarrow> 't) \<Rightarrow> sig_codec \<Rightarrow> croot \<Rightarrow> 't root_cols" where
  "root_cols_of f c r = \<lparr>ro_seq_from = fst (cr_seq_range r), ro_seq_to = snd (cr_seq_range r),
     ro_attested_at = f (attested_at r), ro_countersignature = sig_dump c (countersignature r)\<rparr>"

end
