(* ===== verification/StoreOps.thy ===== *)
theory StoreOps
  imports Sql LogChain
begin

text \<open>
  The contract the backends share: the writes of the store interface as a datatype, what the
  service guarantees when it issues one (\<open>legal\<close>), and the relation between the tables of a
  durable store and the in-memory store they must be indistinguishable from.
\<close>

section \<open>The writes\<close>

datatype store_op =
    OpAppend entry
  | OpRoot croot
  | OpCapsule int string
  | OpStatement string statement
  | OpPrune int
  | OpSubject string string "string option" "string option"
  | OpWitness string witness
  | OpRecord string int cp_record
  | OpSth string int int
  | OpReceipt pl_receipt
  | OpFailure string string string

datatype outcome = Done | Count int | Flag bool

definition outcome_of :: "('a \<Rightarrow> outcome) \<Rightarrow> ('s, 'a) op \<Rightarrow> 's \<Rightarrow> outcome res \<times> 's" where
  "outcome_of f run s = (case run s of (r, s') \<Rightarrow> (map_sum id f r, s'))"

definition done_with :: "'s \<Rightarrow> outcome res \<times> 's" where
  "done_with s = (Inr Done, s)"

fun mem_do :: "store_op \<Rightarrow> mem_store \<Rightarrow> outcome res \<times> mem_store" where
  "mem_do (OpAppend e) m = done_with (append_entry e m)"
| "mem_do (OpRoot r) m = done_with (put_root r m)"
| "mem_do (OpCapsule i k) m = done_with (put_capsule_id i k m)"
| "mem_do (OpStatement h st) m = done_with (put_statement h st m)"
| "mem_do (OpPrune cutoff) m =
     (case prune_statements_older_than cutoff m of (r, m') \<Rightarrow> (map_sum id Count r, m'))"
| "mem_do (OpSubject sub h d f) m = done_with (put_subject_index sub h d f m)"
| "mem_do (OpWitness l w) m = done_with (put_checkpoint_witness l w m)"
| "mem_do (OpRecord l n r) m = (case put_checkpoint_record l n r m of (b, m') \<Rightarrow> (Inr (Flag b), m'))"
| "mem_do (OpSth j n t) m = done_with (put_sth j n t m)"
| "mem_do (OpReceipt r) m = (case put_public_log_receipt r m of (b, m') \<Rightarrow> (Inr (Flag b), m'))"
| "mem_do (OpFailure b t e) m = done_with (put_public_log_failure b t e m)"

text \<open>
  What holds when the service issues a write: its integers fit their columns, entries are appended
  at the end, a receipt is cached only when none is, it points into the log, a head is signed
  between September 2005 and January 2038 (where the SQL ordering key is exact), one tree size has
  one root on a public log.
\<close>

fun op_ints :: "store_op \<Rightarrow> int list" where
  "op_ints (OpAppend e) = [log_index e]"
| "op_ints (OpRoot r) = [fst (cr_seq_range r), snd (cr_seq_range r)]"
| "op_ints (OpCapsule i k) = [i]"
| "op_ints (OpStatement h (rc, i, n)) = [i, n]"
| "op_ints (OpWitness l w) = [w_mmr_size w]"
| "op_ints (OpRecord l n r) = [n, cr_prev_size r, cr_leaf_index r, cr_tree_size r]"
| "op_ints (OpSth j n t) = [n, epoch_us t]"
| "op_ints (OpReceipt r) = pl_tree_size r # (case pl_log_index r of None \<Rightarrow> [] | Some i \<Rightarrow> [i])"
| "op_ints _ = []"

definition clock_range :: "int \<Rightarrow> bool" where
  "clock_range t \<longleftrightarrow> 2 ^ 50 < t \<and> t < 2 ^ 31 * 1000000"

fun issued :: "store_op \<Rightarrow> mem_store \<Rightarrow> bool" where
  "issued (OpAppend e) m \<longleftrightarrow> log_index e = store_size m \<and> datetime_range (logged_at e)"
| "issued (OpRoot r) m \<longleftrightarrow> datetime_range (attested_at r)"
| "issued (OpStatement h (rc, i, n)) m \<longleftrightarrow> get_statement h m = None \<and> 0 \<le> i \<and> i < store_size m"
| "issued (OpPrune cutoff) m \<longleftrightarrow> datetime_range cutoff"
| "issued (OpSth j n t) m \<longleftrightarrow> 0 \<le> n \<and> clock_range t"
| "issued (OpReceipt r) m \<longleftrightarrow> (\<forall>r' \<in> snd ` set (m_pl_receipts m).
     pl_backend r' = pl_backend r \<longrightarrow> pl_tree_size r' = pl_tree_size r \<longrightarrow> pl_root_hash r' = pl_root_hash r)"
| "issued _ m \<longleftrightarrow> True"

definition legal :: "store_op \<Rightarrow> mem_store \<Rightarrow> bool" where
  "legal w m \<longleftrightarrow> list_all int64 (op_ints w) \<and> issued w m"

text \<open>A run of writes: the outcomes and the final state, for any backend.\<close>

fun run_ops :: "(store_op \<Rightarrow> 's \<Rightarrow> outcome res \<times> 's) \<Rightarrow> store_op list \<Rightarrow> 's \<Rightarrow> outcome res list \<times> 's" where
  "run_ops do [] s = ([], s)"
| "run_ops do (w # ws) s =
     (case do w s of (r, s') \<Rightarrow> (case run_ops do ws s' of (rs, s'') \<Rightarrow> (r # rs, s'')))"

fun run_allowed :: "(store_op \<Rightarrow> mem_store \<Rightarrow> bool) \<Rightarrow> store_op list \<Rightarrow> mem_store \<Rightarrow> bool" where
  "run_allowed ok [] m \<longleftrightarrow> True"
| "run_allowed ok (w # ws) m \<longleftrightarrow> ok w m \<and> run_allowed ok ws (snd (mem_do w m))"

section \<open>The reads\<close>

datatype query =
    QAll
  | QAfter int
  | QSize
  | QRoot string string
  | QCapsule int
  | QCapsuleEntries string
  | QStatement string
  | QSubject string
  | QWitness string
  | QRecord string int
  | QLastRecord string
  | QEquivocations string
  | QLatestSth
  | QSthAt int
  | QReceipt string int string
  | QLatestReceipt string
  | QReceiptsSince string int
  | QReceiptCovering string int

datatype answer =
    Entries "entry list"
  | Number int
  | Croot "croot option"
  | Text "string option"
  | Receipt "statement option"
  | Subjects "subject_row list"
  | Witness "witness option"
  | Position "(int \<times> cp_record) option"
  | Conflicts "equivocation list"
  | Public "pl_receipt option"
  | Publics "pl_receipt list"

fun mem_ask :: "query \<Rightarrow> mem_store \<Rightarrow> answer" where
  "mem_ask QAll m = Entries (all_entries m)"
| "mem_ask (QAfter i) m = Entries (entries_after i m)"
| "mem_ask QSize m = Number (store_size m)"
| "mem_ask (QRoot tn rh) m = Croot (get_root tn rh m)"
| "mem_ask (QCapsule i) m = Text (get_capsule_id i m)"
| "mem_ask (QCapsuleEntries k) m = Entries (entries_for_capsule k m)"
| "mem_ask (QStatement h) m = Receipt (get_statement h m)"
| "mem_ask (QSubject sub) m = Subjects (get_by_subject sub m)"
| "mem_ask (QWitness l) m = Witness (get_checkpoint_witness l m)"
| "mem_ask (QRecord l n) m = Position (get_checkpoint_record l n m)"
| "mem_ask (QLastRecord l) m = Position (get_last_checkpoint_record l m)"
| "mem_ask (QEquivocations l) m = Conflicts (get_checkpoint_equivocations l m)"
| "mem_ask QLatestSth m = Text (get_latest_sth m)"
| "mem_ask (QSthAt n) m = Text (store_sth_at n m)"
| "mem_ask (QReceipt b n rh) m = Public (get_public_log_receipt b n rh m)"
| "mem_ask (QLatestReceipt b) m = Public (get_latest_public_log_receipt b m)"
| "mem_ask (QReceiptsSince b n) m = Publics (get_public_log_receipts_since b n m)"
| "mem_ask (QReceiptCovering b n) m = Public (get_public_log_receipt_covering b n m)"

text \<open>
  The one difference a caller may see: the SQL backends list a subject's statements by entry hash,
  the in-memory store in order of arrival.
\<close>

fun by_hash :: "answer \<Rightarrow> answer" where
  "by_hash (Subjects rows) = Subjects (sort_key fst rows)"
| "by_hash a = a"

fun query_ints :: "query \<Rightarrow> int list" where
  "query_ints (QAfter i) = [i]"
| "query_ints (QCapsule i) = [i]"
| "query_ints (QRecord l n) = [n]"
| "query_ints (QSthAt n) = [n]"
| "query_ints (QReceipt b n rh) = [n]"
| "query_ints (QReceiptsSince b n) = [n]"
| "query_ints (QReceiptCovering b n) = [n]"
| "query_ints _ = []"

section \<open>Tables that implement the in-memory store\<close>

definition log_rel :: "(int \<Rightarrow> 't) \<Rightarrow> sig_codec \<Rightarrow> (int, 't log_cols) table \<Rightarrow> entry list \<Rightarrow> bool" where
  "log_rel f c t lg \<longleftrightarrow> t = map (\<lambda>e. (log_index e, log_cols_of f c e)) lg \<and> contiguous lg \<and>
     (\<forall>e \<in> set lg. datetime_range (logged_at e))"

definition roots_rel ::
    "(int \<Rightarrow> 't) \<Rightarrow> sig_codec \<Rightarrow> (string \<times> string, 't root_cols) table \<Rightarrow> ((string \<times> string) \<times> croot) list \<Rightarrow> bool" where
  "roots_rel f c t d \<longleftrightarrow> (\<forall>k. map_of t k = map_option (root_cols_of f c) (map_of d k)) \<and>
     (\<forall>k r. map_of d k = Some r \<longrightarrow> k = (cr_tenant_id r, cr_root_hash r) \<and> datetime_range (attested_at r))"

definition table_rel :: "('k, 'v) table \<Rightarrow> ('k \<times> 'v) list \<Rightarrow> bool" where
  "table_rel t d \<longleftrightarrow> unique t \<and> unique d \<and> map_of t = map_of d"

definition statements_rel :: "(string, statement) table \<Rightarrow> (string \<times> statement) list \<Rightarrow> entry list \<Rightarrow> bool" where
  "statements_rel t d lg \<longleftrightarrow> table_rel t d \<and> (\<forall>(h, rc, i, n) \<in> set d. 0 \<le> i \<and> i < int (length lg))"

definition listed :: "('k \<times> 'v list) list \<Rightarrow> 'k \<Rightarrow> 'v list" where
  "listed d k = (case map_of d k of None \<Rightarrow> [] | Some es \<Rightarrow> es)"

definition subjects_rel ::
    "(string \<times> string, string option \<times> string option) table \<Rightarrow> (string \<times> subject_row list) list \<Rightarrow> bool" where
  "subjects_rel t d \<longleftrightarrow> unique t \<and> (\<forall>sub. distinct (map fst (listed d sub)) \<and>
     (\<forall>h v. map_of t (sub, h) = Some v \<longleftrightarrow> (h, v) \<in> set (listed d sub)))"

definition equivocations_rel :: "(string \<times> equivocation) list \<Rightarrow> (string \<times> equivocation list) list \<Rightarrow> bool" where
  "equivocations_rel t d \<longleftrightarrow> (\<forall>l. map snd (filter (\<lambda>p. fst p = l) t) =
     listed d l)"

definition latest_rel :: "(string \<times> int option \<times> int option) option \<Rightarrow> string option \<Rightarrow> (int \<times> int) option \<Rightarrow> bool" where
  "latest_rel row json key \<longleftrightarrow>
     (case (json, key) of
        (None, None) \<Rightarrow> row = None
      | (Some j, Some (n, t)) \<Rightarrow> row = Some (j, Some n, Some t) \<and> 0 \<le> n \<and> clock_range t
      | _ \<Rightarrow> False)"

definition history_rel :: "(int, string \<times> int) table \<Rightarrow> (int \<times> string) list \<Rightarrow> bool" where
  "history_rel t d \<longleftrightarrow> (\<forall>n. map_option fst (map_of t n) = map_of d n)"

definition receipts_rel ::
    "(string \<times> int \<times> string, pl_receipt) table \<Rightarrow> ((string \<times> int \<times> string) \<times> pl_receipt) list \<Rightarrow> bool" where
  "receipts_rel t d \<longleftrightarrow> table_rel t d \<and> (\<forall>(k, r) \<in> set d. k = pl_key r) \<and>
     (\<forall>r \<in> snd ` set d. \<forall>r' \<in> snd ` set d. pl_backend r = pl_backend r' \<longrightarrow> pl_tree_size r = pl_tree_size r' \<longrightarrow> r = r')"

definition implements :: "(int \<Rightarrow> 't) \<Rightarrow> sig_codec \<Rightarrow> 't tables \<Rightarrow> mem_store \<Rightarrow> bool" where
  "implements f c s m \<longleftrightarrow> log_rel f c (t_log s) (m_log m) \<and> roots_rel f c (t_roots s) (m_roots m) \<and>
     table_rel (t_bindings s) (m_capsule_ids m) \<and>
     statements_rel (t_statements s) (m_statements m) (m_log m) \<and>
     subjects_rel (t_subjects s) (m_subject_index m) \<and>
     map_of (t_witnesses s) = map_of (m_witnesses m) \<and>
     table_rel (t_records s) (m_records m) \<and>
     equivocations_rel (t_equivocations s) (m_equivocations m) \<and>
     latest_rel (t_latest s) (m_latest_sth m) (m_latest_sth_key m) \<and>
     history_rel (t_history s) (m_sth_history m) \<and>
     receipts_rel (t_receipts s) (m_pl_receipts m) \<and>
     t_failures s = m_pl_failures m"

lemma implements_empty: "implements f c empty_tables empty_store"
  by (simp add: implements_def empty_tables_def empty_store_def log_rel_def roots_rel_def table_rel_def
      statements_rel_def subjects_rel_def equivocations_rel_def latest_rel_def history_rel_def receipts_rel_def listed_def)

section \<open>A backend that keeps the relation keeps it over every run\<close>

locale durable_store =
  fixes "write" :: "store_op \<Rightarrow> 's \<Rightarrow> outcome res \<times> 's"
    and ask :: "query \<Rightarrow> 's \<Rightarrow> answer res"
    and sim :: "'s \<Rightarrow> mem_store \<Rightarrow> bool"
    and allowed :: "store_op \<Rightarrow> mem_store \<Rightarrow> bool"
    and asked :: "query \<Rightarrow> bool"
  assumes step: "sim s m \<Longrightarrow> allowed w m \<Longrightarrow>
      fst (write w s) = fst (mem_do w m) \<and> sim (snd (write w s)) (snd (mem_do w m))"
    and ask: "sim s m \<Longrightarrow> asked q \<Longrightarrow> ask q s = Inr (by_hash (mem_ask q m))"
begin

lemma simulation:
  assumes "sim s m" "run_allowed allowed ws m"
  shows "fst (run_ops write ws s) = fst (run_ops mem_do ws m) \<and>
    sim (snd (run_ops write ws s)) (snd (run_ops mem_do ws m))"
  using assms
proof (induction ws arbitrary: s m)
  case (Cons w ws)
  from step [OF Cons.prems(1), of w] Cons.prems(2)
  have "fst (write w s) = fst (mem_do w m)" "sim (snd (write w s)) (snd (mem_do w m))" by simp_all
  with Cons.IH [of "snd (write w s)" "snd (mem_do w m)"] Cons.prems(2) show ?case
    by (simp add: split_beta)
qed simp

text \<open>Whatever is written, the two backends give the same outcomes, and then the same answers.\<close>

lemma refines:
  assumes "sim start empty_store" "run_allowed allowed ws empty_store"
  shows "fst (run_ops write ws start) = fst (run_ops mem_do ws empty_store)"
    and "asked q \<Longrightarrow> ask q (snd (run_ops write ws start)) =
      Inr (by_hash (mem_ask q (snd (run_ops mem_do ws empty_store))))"
  using simulation [OF assms] ask by blast+

end

section \<open>Each statement keeps its table's relation\<close>

lemma log_rel_append:
  assumes "log_rel f c t lg" "log_index e = int (length lg)" "datetime_range (logged_at e)"
  shows "sql_insert (log_index e) (log_cols_of f c e) t = Inr (t @ [(log_index e, log_cols_of f c e)]) \<and>
    log_rel f c (t @ [(log_index e, log_cols_of f c e)]) (lg @ [e])"
proof -
  have "set (map log_index lg) = set (map int [0..<length lg])"
    using assms(1) by (simp only: log_rel_def contiguous_def)
  then have "log_index e \<notin> set (map log_index lg)" using assms(2) by auto
  moreover have "map fst t = map log_index lg" using assms(1) by (simp add: log_rel_def o_def)
  ultimately have "sql_insert (log_index e) (log_cols_of f c e) t = Inr (t @ [(log_index e, log_cols_of f c e)])"
    by (simp add: sql_insert_def del: set_map)
  moreover have "contiguous (lg @ [e])" using assms(1,2) by (simp add: log_rel_def contiguous_snoc)
  ultimately show ?thesis using assms(1,3) by (auto simp: log_rel_def)
qed

lemma log_rel_length: "log_rel f c t lg \<Longrightarrow> length t = length lg"
  by (simp add: log_rel_def)

lemma contiguous_sorted: "contiguous lg \<Longrightarrow> sorted (map log_index lg)"
  by (auto simp: contiguous_def sorted_iff_nth_mono)

lemma log_rel_sort:
  assumes "log_rel f c t lg"
  shows "sort_key fst (filter (\<lambda>r. P (fst r)) t) =
    map (\<lambda>e. (log_index e, log_cols_of f c e)) (filter (\<lambda>e. P (log_index e)) lg)"
proof -
  have t: "filter (\<lambda>r. P (fst r)) t = map (\<lambda>e. (log_index e, log_cols_of f c e)) (filter (\<lambda>e. P (log_index e)) lg)"
    using assms by (simp add: log_rel_def filter_map o_def)
  have "sorted (map log_index lg)" using assms by (simp add: log_rel_def contiguous_sorted)
  then have "sorted (map log_index (filter (\<lambda>e. P (log_index e)) lg))" by (rule sorted_filter)
  then show ?thesis unfolding t by (intro sort_key_id_if_sorted) (simp add: o_def)
qed

lemma roots_rel_replace:
  assumes "roots_rel f c t d" "datetime_range (attested_at r)"
  shows "roots_rel f c (sql_replace (cr_tenant_id r, cr_root_hash r) (root_cols_of f c r) t)
    (dict_set (cr_tenant_id r, cr_root_hash r) r d)"
  using assms by (auto simp: roots_rel_def replace_map)

lemma unique_dict_set: "unique d \<Longrightarrow> unique (dict_set k v d)"
  by (simp add: unique_def)

lemma table_rel_replace: "table_rel t d \<Longrightarrow> table_rel (sql_replace k v t) (dict_set k v d)"
  by (simp add: table_rel_def replace_map replace_unique unique_dict_set)

lemma table_rel_insert:
  assumes "table_rel t d" "map_of d k = None"
  shows "sql_insert_ignore k v t = (True, t @ [(k, v)]) \<and> sql_insert k v t = Inr (t @ [(k, v)]) \<and>
    table_rel (t @ [(k, v)]) (dict_set k v d)"
proof -
  have k: "k \<notin> fst ` set t" using assms by (simp add: table_rel_def map_of_eq_None_iff [symmetric])
  then show ?thesis using assms
    by (auto simp: table_rel_def sql_insert_ignore_def sql_insert_def unique_def map_add_def fun_eq_iff
        split: option.splits)
qed

lemma table_rel_present:
  assumes "table_rel t d" "map_of d k = Some v'"
  shows "sql_insert_ignore k v t = (False, t)"
proof -
  have "k \<in> fst ` set t" using assms unfolding table_rel_def by (metis map_of_eq_None_iff option.distinct(1))
  then show ?thesis by (simp add: sql_insert_ignore_def)
qed

lemma table_rel_set: "table_rel t d \<Longrightarrow> set t = set d"
  unfolding table_rel_def by (metis same_map_set)

lemma table_rel_mset: "table_rel t d \<Longrightarrow> mset t = mset d"
  unfolding table_rel_def by (metis same_map_mset)

lemma table_rel_filter: "table_rel t d \<Longrightarrow> table_rel (filter P t) (filter P d)"
  by (auto simp: table_rel_def unique_filter map_of_filter_unique fun_eq_iff)

lemma statements_rel_append: "statements_rel t d lg \<Longrightarrow> statements_rel t d (lg @ [e])"
  by (fastforce simp: statements_rel_def)

lemma statements_rel_insert:
  assumes "statements_rel t d lg" "map_of d h = None" "0 \<le> i" "i < int (length lg)"
  shows "statements_rel (snd (sql_insert_ignore h (rc, i, n) t)) (dict_set h (rc, i, n) d) lg"
proof -
  from table_rel_insert [OF _ assms(2), of t "(rc, i, n)"] assms(1)
  have rel: "sql_insert_ignore h (rc, i, n) t = (True, t @ [(h, (rc, i, n))])"
    "table_rel (t @ [(h, (rc, i, n))]) (dict_set h (rc, i, n) d)" by (simp_all add: statements_rel_def)
  then have "set (dict_set h (rc, i, n) d) = set t \<union> {(h, (rc, i, n))}" using table_rel_set [OF rel(2)] by simp
  moreover have "set t = set d" using assms(1) by (simp add: statements_rel_def table_rel_set)
  ultimately show ?thesis using assms rel by (auto simp: statements_rel_def)
qed

lemma listed_setdefault [simp]: "listed (dict_setdefault k [] d) = listed d"
  by (auto simp: listed_def fun_eq_iff split: option.splits)

lemma listed_set [simp]: "listed (dict_set k es d) = (listed d)(k := es)"
  by (simp add: listed_def fun_eq_iff)

lemma the_setdefault: "the (map_of (dict_setdefault k [] d) k) = listed d k"
  by (simp add: listed_def split: option.splits)

lemma subjects_rel_insert:
  assumes "subjects_rel t d"
  shows "subjects_rel (snd (sql_insert_ignore (sub, h) (dg, fm) t))
    (m_subject_index (put_subject_index sub h dg fm (m\<lparr>m_subject_index := d\<rparr>)))"
proof -
  have rel: "unique t" "distinct (map fst (listed d s))" "map_of t (s, g) = Some v \<longleftrightarrow> (g, v) \<in> set (listed d s)" for s g v
    using assms unfolding subjects_rel_def by blast+
  have present: "map_of t (sub, h) \<noteq> None \<longleftrightarrow> list_ex (\<lambda>(eh, _, _). eh = h) (listed d sub)"
    using rel(3) [of sub h] by (auto simp: list_ex_iff)
  obtain b t' where ins: "sql_insert_ignore (sub, h) (dg, fm) t = (b, t')" by fastforce
  note t' = insert_ignore_map [OF ins]
  show ?thesis
  proof (cases "list_ex (\<lambda>(eh, _, _). eh = h) (listed d sub)")
    case True
    then have "map_of t' = map_of t" "unique t'" using t' present rel(1) by auto
    with assms True show ?thesis unfolding put_subject_index_def Let_def mem_store.simps the_setdefault
      by (simp add: ins subjects_rel_def)
  next
    case False
    then have "map_of t' = (map_of t)((sub, h) \<mapsto> (dg, fm))" "unique t'" using t' present rel(1) by auto
    moreover have "h \<notin> fst ` set (listed d sub)" using False by (auto simp: list_ex_iff)
    moreover from this have "(h, v) \<notin> set (listed d sub)" for v by force
    ultimately show ?thesis using False rel unfolding put_subject_index_def Let_def mem_store.simps the_setdefault
      by (auto simp: ins subjects_rel_def)
  qed
qed

lemma equivocations_rel_append:
  assumes "equivocations_rel t d"
  shows "equivocations_rel (t @ [(l, ev)]) (let d' = dict_setdefault l [] d in dict_set l (the (map_of d' l) @ [ev]) d')"
  using assms unfolding Let_def the_setdefault by (simp add: equivocations_rel_def)

lemma history_rel_insert:
  "history_rel t d \<Longrightarrow> history_rel (snd (sql_insert_ignore n (j, us) t)) (dict_setdefault n j d)"
proof -
  assume rel: "history_rel t d"
  then have n: "map_of t n = None \<longleftrightarrow> map_of d n = None" unfolding history_rel_def by (metis map_option_is_None)
  obtain b t' where ins: "sql_insert_ignore n (j, us) t = (b, t')" by fastforce
  from insert_ignore_map [OF ins] rel n show ?thesis
    by (cases "map_of d n") (auto simp: history_rel_def ins)
qed

lemma clock_range_key [simp]: "clock_range t \<Longrightarrow> epoch_us t = t"
  by (simp add: clock_range_def epoch_us_exact)

lemma receipts_rel_insert:
  assumes "receipts_rel t d" "\<forall>r' \<in> snd ` set d. pl_backend r' = pl_backend r \<longrightarrow> pl_tree_size r' = pl_tree_size r \<longrightarrow>
    pl_root_hash r' = pl_root_hash r"
  shows "fst (sql_insert_ignore (pl_key r) r t) = (map_of d (pl_key r) = None) \<and>
    receipts_rel (snd (sql_insert_ignore (pl_key r) r t)) (if map_of d (pl_key r) = None then dict_set (pl_key r) r d else d)"
proof (cases "map_of d (pl_key r)")
  case None
  have rel: "table_rel t d" using assms(1) by (simp add: receipts_rel_def)
  note ins = table_rel_insert [OF rel None, of r]
  have rows: "set (dict_set (pl_key r) r d) = insert (pl_key r, r) (set d)"
    using ins table_rel_set [OF rel] table_rel_set [of "t @ [(pl_key r, r)]" "dict_set (pl_key r) r d"] by auto
  have "r' \<noteq> r \<longrightarrow> \<not> (pl_backend r' = pl_backend r \<and> pl_tree_size r' = pl_tree_size r)" if "r' \<in> snd ` set d" for r'
  proof (intro impI notI)
    assume "pl_backend r' = pl_backend r \<and> pl_tree_size r' = pl_tree_size r"
    with assms(2) that have "pl_key r' = pl_key r" by (auto simp: pl_key_def)
    moreover have "(pl_key r', r') \<in> set d" using assms(1) that by (force simp: receipts_rel_def)
    ultimately show False using None by (metis map_of_eq_None_iff fst_conv image_eqI)
  qed
  then have "r' = r" if "r' \<in> snd ` set d" "pl_backend r' = pl_backend r" "pl_tree_size r' = pl_tree_size r" for r'
    using that by blast
  moreover have "snd ` set (dict_set (pl_key r) r d) = insert r (snd ` set d)" using rows by simp
  moreover have "\<forall>(k, r) \<in> set d. k = pl_key r"
    "\<And>r r'. \<lbrakk>r \<in> snd ` set d; r' \<in> snd ` set d; pl_backend r = pl_backend r'; pl_tree_size r = pl_tree_size r'\<rbrakk> \<Longrightarrow> r = r'"
    using assms(1) unfolding receipts_rel_def by blast+
  ultimately have "\<forall>r1 \<in> snd ` set (dict_set (pl_key r) r d). \<forall>r2 \<in> snd ` set (dict_set (pl_key r) r d).
      pl_backend r1 = pl_backend r2 \<longrightarrow> pl_tree_size r1 = pl_tree_size r2 \<longrightarrow> r1 = r2"
    "\<forall>(k, r) \<in> set (dict_set (pl_key r) r d). k = pl_key r"
    unfolding rows by (metis insert_iff, simp)
  then have "receipts_rel (t @ [(pl_key r, r)]) (dict_set (pl_key r) r d)"
    using ins unfolding receipts_rel_def by blast
  then show ?thesis using ins None by simp
next
  case (Some v)
  then show ?thesis using assms(1) table_rel_present [of t d "pl_key r" v r] by (simp add: receipts_rel_def)
qed

lemma prune_rel:
  assumes "statements_rel t (m_statements m) (m_log m)" "contiguous (m_log m)"
    and "set old = log_index ` {e \<in> set (m_log m). logged_at e < cutoff}"
  shows "prune_statements_older_than cutoff m =
      (Inr (fst (sql_delete (\<lambda>(h, _, i, _). i \<in> set old) t)),
       m\<lparr>m_statements := filter (\<lambda>p. \<not> expired cutoff m p) (m_statements m)\<rparr>) \<and>
    statements_rel (snd (sql_delete (\<lambda>(h, _, i, _). i \<in> set old) t))
      (filter (\<lambda>p. \<not> expired cutoff m p) (m_statements m)) (m_log m)"
proof -
  have rel: "table_rel t (m_statements m)"
    "\<forall>(h, rc, i, n) \<in> set (m_statements m). 0 \<le> i \<and> i < int (length (m_log m))"
    using assms(1) by (simp_all add: statements_rel_def)
  have "i \<in> set old \<longleftrightarrow> logged_at (m_log m ! nat i) < cutoff" if "0 \<le> i" "i < int (length (m_log m))" for i
  proof -
    have "e \<in> set (m_log m) \<and> log_index e = i \<longleftrightarrow> e = m_log m ! nat i" for e
      using that contiguous_nth [OF assms(2)] by (auto simp: in_set_conv_nth intro: exI [of _ "nat i"])
    have "(i \<in> log_index ` {e \<in> set (m_log m). logged_at e < cutoff}) \<longleftrightarrow>
        (\<exists>e. (e \<in> set (m_log m) \<and> log_index e = i) \<and> logged_at e < cutoff)" by blast
    also have "\<dots> \<longleftrightarrow> logged_at (m_log m ! nat i) < cutoff"
      using \<open>\<And>e. (e \<in> set (m_log m) \<and> log_index e = i) = (e = m_log m ! nat i)\<close> by simp
    finally show ?thesis unfolding assms(3) .
  qed
  then have "(case p of (h, _, i, _) \<Rightarrow> i \<in> set old) = expired cutoff m p" if "p \<in> set (m_statements m)" for p
    using rel(2) that by (cases p) (force simp: expired_def)
  then have same: "filter (\<lambda>(h, _, i, _). i \<in> set old) t = filter (expired cutoff m) t"
    "filter (\<lambda>p. \<not> (case p of (h, _, i, _) \<Rightarrow> i \<in> set old)) t = filter (\<lambda>p. \<not> expired cutoff m p) t"
    using table_rel_set [OF rel(1)] by (auto intro!: filter_cong)
  have "mset (filter (expired cutoff m) t) = mset (filter (expired cutoff m) (m_statements m))"
    using table_rel_mset [OF rel(1)] by simp
  then have "length (filter (expired cutoff m) t) = length (filter (expired cutoff m) (m_statements m))"
    by (rule mset_eq_length)
  moreover have "distinct (map fst (m_statements m))" using rel(1) by (simp add: table_rel_def unique_def)
  moreover have "statements_rel (filter (\<lambda>p. \<not> expired cutoff m p) t)
      (filter (\<lambda>p. \<not> expired cutoff m p) (m_statements m)) (m_log m)"
    using rel table_rel_filter [OF rel(1)] by (auto simp: statements_rel_def)
  ultimately show ?thesis using prune_eval [of m cutoff] rel(2) by (simp add: sql_delete_def same)
qed

end
