(* ===== verification/StoreRefine.thy ===== *)
theory StoreRefine
  imports StoreOps
begin

text \<open>
  What the two SQL backends share in their refinement proofs: how each statement form moves the
  whole of the tables along with the in-memory store, and what each SELECT returns.
\<close>

section \<open>Writes\<close>

named_theorems implements_write \<open>a statement and the method it implements keep \<open>implements\<close>\<close>

lemma implements_append:
  assumes "implements f c s m" "log_index e = store_size m" "datetime_range (logged_at e)"
  shows "sql_insert (log_index e) (log_cols_of f c e) (t_log s) = Inr (t_log s @ [(log_index e, log_cols_of f c e)]) \<and>
    implements f c (s\<lparr>t_log := t_log s @ [(log_index e, log_cols_of f c e)]\<rparr>) (append_entry e m)"
proof -
  have rel: "log_rel f c (t_log s) (m_log m)" "statements_rel (t_statements s) (m_statements m) (m_log m)"
    using assms(1) by (simp_all add: implements_def)
  have "log_index e = int (length (m_log m))" using assms(2) by (simp add: store_size_def)
  note log_rel_append [OF rel(1) this assms(3)] statements_rel_append [OF rel(2), of e]
  then show ?thesis using assms(1) by (simp add: implements_def append_entry_def)
qed

lemma implements_root [implements_write]:
  "implements f c s m \<Longrightarrow> roots_rel f c t (dict_set (cr_tenant_id r, cr_root_hash r) r (m_roots m)) \<Longrightarrow>
   implements f c (s\<lparr>t_roots := t\<rparr>) (put_root r m)"
  by (simp add: implements_def put_root_def)

lemma implements_capsule [implements_write]:
  "implements f c s m \<Longrightarrow> table_rel t (dict_set i k (m_capsule_ids m)) \<Longrightarrow>
   implements f c (s\<lparr>t_bindings := t\<rparr>) (put_capsule_id i k m)"
  by (simp add: implements_def put_capsule_id_def)

lemma implements_statement [implements_write]:
  assumes "implements f c s m" "get_statement h m = None" "0 \<le> i" "i < store_size m"
  shows "implements f c (s\<lparr>t_statements := snd (sql_insert_ignore h (rc, i, n) (t_statements s))\<rparr>)
    (put_statement h (rc, i, n) m)"
  using assms statements_rel_insert [of "t_statements s" "m_statements m" "m_log m" h i rc n]
  by (simp add: implements_def put_statement_def get_statement_def store_size_def)

lemma implements_prune:
  assumes "implements f c s m" "set old = log_index ` {e \<in> set (m_log m). logged_at e < cutoff}"
    and "sql_delete (\<lambda>(h, _, i, _). i \<in> set old) (t_statements s) = (n, t)"
  shows "\<exists>m'. prune_statements_older_than cutoff m = (Inr n, m') \<and> implements f c (s\<lparr>t_statements := t\<rparr>) m'"
proof -
  have "statements_rel (t_statements s) (m_statements m) (m_log m)" "contiguous (m_log m)"
    using assms(1) by (simp_all add: implements_def log_rel_def)
  from prune_rel [OF this assms(2)] show ?thesis using assms(1,3) by (simp add: implements_def)
qed

lemma implements_subject [implements_write]:
  "implements f c s m \<Longrightarrow>
   implements f c (s\<lparr>t_subjects := snd (sql_insert_ignore (sub, h) (dg, fm) (t_subjects s))\<rparr>)
     (put_subject_index sub h dg fm m)"
  using subjects_rel_insert [of "t_subjects s" "m_subject_index m" sub h dg fm m]
  by (simp add: implements_def put_subject_index_def Let_def)

lemma implements_witness [implements_write]:
  "implements f c s m \<Longrightarrow> map_of t = (map_of (t_witnesses s))(l \<mapsto> w) \<Longrightarrow>
   implements f c (s\<lparr>t_witnesses := t\<rparr>) (put_checkpoint_witness l w m)"
  by (simp add: implements_def put_checkpoint_witness_def)

lemma implements_record_new:
  assumes "implements f c s m" "map_of (t_records s) (l, n) = None"
  shows "sql_insert (l, n) r (t_records s) = Inr (t_records s @ [((l, n), r)]) \<and>
    sql_insert_ignore (l, n) r (t_records s) = (True, t_records s @ [((l, n), r)]) \<and>
    put_checkpoint_record l n r m = (False, m\<lparr>m_records := dict_set (l, n) r (m_records m)\<rparr>) \<and>
    implements f c (s\<lparr>t_records := t_records s @ [((l, n), r)]\<rparr>) (m\<lparr>m_records := dict_set (l, n) r (m_records m)\<rparr>)"
proof -
  have rel: "table_rel (t_records s) (m_records m)" using assms(1) by (simp add: implements_def)
  then have "map_of (m_records m) (l, n) = None" using assms(2) by (simp add: table_rel_def)
  with table_rel_insert [OF rel this, of r] show ?thesis
    using assms(1) by (simp add: implements_def put_checkpoint_record_def)
qed

lemma implements_record_old:
  assumes "implements f c s m" "map_of (t_records s) (l, n) = Some old"
  shows "sql_insert_ignore (l, n) r (t_records s) = (False, t_records s) \<and>
    (cr_root old = cr_root r \<longrightarrow> put_checkpoint_record l n r m = (False, m)) \<and>
    (cr_root old \<noteq> cr_root r \<longrightarrow> fst (put_checkpoint_record l n r m) \<and>
      implements f c (s\<lparr>t_equivocations := t_equivocations s @
        [(l, \<lparr>eq_mmr_size = n, eq_first = evidence_of old, eq_conflicting = evidence_of r\<rparr>)]\<rparr>)
      (snd (put_checkpoint_record l n r m)))"
proof -
  have rel: "table_rel (t_records s) (m_records m)" "equivocations_rel (t_equivocations s) (m_equivocations m)"
    using assms(1) by (simp_all add: implements_def)
  then have old: "map_of (m_records m) (l, n) = Some old" using assms(2) by (simp add: table_rel_def)
  show ?thesis using table_rel_present [OF rel(1) old, of r] assms(1)
      equivocations_rel_append [OF rel(2), of l "\<lparr>eq_mmr_size = n, eq_first = evidence_of old, eq_conflicting = evidence_of r\<rparr>"]
    by (simp add: put_checkpoint_record_def old Let_def implements_def)
qed

lemma implements_sth [implements_write]:
  assumes "implements f c s m" "0 \<le> n" "clock_range tm"
  shows "implements f c
    (s\<lparr>t_latest := (case t_latest s of
         None \<Rightarrow> Some (j, Some n, Some (epoch_us tm))
       | Some (old, k, us) \<Rightarrow> if sth_newer n (epoch_us tm) k us then Some (j, Some n, Some (epoch_us tm))
                             else Some (old, k, us)),
       t_history := snd (sql_insert_ignore n (j, epoch_us tm) (t_history s))\<rparr>)
    (put_sth j n tm m)"
proof -
  have "latest_rel (t_latest s) (m_latest_sth m) (m_latest_sth_key m)" "history_rel (t_history s) (m_sth_history m)"
    using assms(1) by (simp_all add: implements_def)
  note rel = this(1) history_rel_insert [OF this(2), of n j "epoch_us tm"]
  show ?thesis
  proof (cases "m_latest_sth_key m")
    case None
    then have "m_latest_sth m = None" "t_latest s = None" using rel(1)
      by (auto simp: latest_rel_def split: option.splits)
    then show ?thesis using assms rel(2) None by (simp add: implements_def put_sth_def latest_rel_def Let_def)
  next
    case (Some k)
    then obtain j' n' t' where old: "m_latest_sth m = Some j'" "k = (n', t')" "t_latest s = Some (j', Some n', Some t')"
      using rel(1) by (cases k) (auto simp: latest_rel_def split: option.splits)
    have "sth_newer n (epoch_us tm) (Some n') (Some t') \<longleftrightarrow> \<not> sth_key_le (n, tm) (n', t')"
      using assms(3) by (auto simp: sth_newer_def sth_key_le_def coalesce_def)
    then show ?thesis using assms rel Some old
      by (simp add: implements_def put_sth_def latest_rel_def Let_def)
  qed
qed

lemma implements_receipt:
  assumes "implements f c s m" "issued (OpReceipt r) m" "sql_insert_ignore (pl_key r) r (t_receipts s) = (b, t)"
  shows "\<exists>m'. put_public_log_receipt r m = (b, m') \<and> implements f c (s\<lparr>t_receipts := t\<rparr>) m'"
proof -
  have "receipts_rel (t_receipts s) (m_pl_receipts m)" using assms(1) by (simp add: implements_def)
  moreover have "\<forall>r' \<in> snd ` set (m_pl_receipts m). pl_backend r' = pl_backend r \<longrightarrow>
      pl_tree_size r' = pl_tree_size r \<longrightarrow> pl_root_hash r' = pl_root_hash r" using assms(2) by simp
  ultimately have "b = (map_of (m_pl_receipts m) (pl_key r) = None)"
    "receipts_rel t (if b then dict_set (pl_key r) r (m_pl_receipts m) else m_pl_receipts m)"
    using receipts_rel_insert [of "t_receipts s" "m_pl_receipts m" r] assms(3) by simp_all
  then show ?thesis using assms(1)
    by (cases b) (simp_all add: implements_def put_public_log_receipt_def)
qed

lemma implements_failure [implements_write]:
  "implements f c s m \<Longrightarrow> implements f c (s\<lparr>t_failures := t_failures s @ [(b, tm, e)]\<rparr>) (put_public_log_failure b tm e m)"
  by (simp add: implements_def put_public_log_failure_def)

section \<open>Reads\<close>

named_theorems implements_read \<open>what a SELECT returns from tables that implement a store\<close>

lemma implements_rows:
  "implements f c s m \<Longrightarrow> sort_key fst (filter (\<lambda>r. P (fst r)) (t_log s)) =
    map (\<lambda>e. (log_index e, log_cols_of f c e)) (filter (\<lambda>e. P (log_index e)) (m_log m))"
  by (simp add: implements_def log_rel_sort)

lemma implements_all [implements_read]:
  "implements f c s m \<Longrightarrow> sort_key fst (t_log s) = map (\<lambda>e. (log_index e, log_cols_of f c e)) (m_log m)"
  using implements_rows [of f c s m "\<lambda>_. True"] by simp

lemma implements_size [implements_read]: "implements f c s m \<Longrightarrow> int (length (t_log s)) = store_size m"
  by (auto simp: implements_def log_rel_def store_size_def)

lemma implements_log_dates: "implements f c s m \<Longrightarrow> e \<in> set (m_log m) \<Longrightarrow> datetime_range (logged_at e)"
  by (simp add: implements_def log_rel_def)

lemma implements_get_root [implements_read]:
  "implements f c s m \<Longrightarrow> sql_get (tn, rh) (t_roots s) = map_option (root_cols_of f c) (get_root tn rh m)"
  by (simp add: implements_def roots_rel_def sql_get_def get_root_def)

lemma implements_root_key:
  "implements f c s m \<Longrightarrow> get_root tn rh m = Some r \<Longrightarrow>
   cr_tenant_id r = tn \<and> cr_root_hash r = rh \<and> datetime_range (attested_at r)"
  by (auto simp: implements_def roots_rel_def get_root_def)

lemma implements_gets [implements_read]:
  assumes "implements f c s m"
  shows "sql_get i (t_bindings s) = get_capsule_id i m"
    and "sql_get h (t_statements s) = get_statement h m"
    and "sql_get l (t_witnesses s) = get_checkpoint_witness l m"
    and "map_option (\<lambda>r. (n, r)) (sql_get (l, n) (t_records s)) = get_checkpoint_record l n m"
    and "map snd (filter (\<lambda>p. fst p = l) (t_equivocations s)) = get_checkpoint_equivocations l m"
    and "map_option fst (t_latest s) = get_latest_sth m"
    and "map_option fst (sql_get n (t_history s)) = store_sth_at n m"
    and "sql_get (b, n, rh) (t_receipts s) = get_public_log_receipt b n rh m"
  using assms
  by (auto simp: implements_def sql_get_def get_capsule_id_def get_statement_def get_checkpoint_witness_def
      get_checkpoint_record_def get_checkpoint_equivocations_def get_latest_sth_def store_sth_at_def
      get_public_log_receipt_def table_rel_def statements_rel_def receipts_rel_def equivocations_rel_def
      history_rel_def latest_rel_def listed_def split: option.splits)

lemma filter_concat_unique:
  "distinct (map fst t) \<Longrightarrow>
   concat (map (\<lambda>x. map (\<lambda>_. g x) (filter (\<lambda>b. fst b = h x \<and> snd b = k) t)) xs) =
   map g (filter (\<lambda>x. map_of t (h x) = Some k) xs)"
proof (induction xs)
  case (Cons x xs)
  have "filter (\<lambda>b. fst b = i \<and> snd b = k) t = (if map_of t i = Some k then [(i, k)] else [])" for i
    using Cons.prems by (induction t) (auto simp: filter_empty_conv rev_image_eqI)
  then show ?case using Cons by simp
qed simp

lemma implements_join [implements_read]:
  assumes "implements f c s m"
  shows "sort_key fst (concat (map (\<lambda>le. map (\<lambda>_. le) (filter (\<lambda>b. fst b = fst le \<and> snd b = k) (t_bindings s))) (t_log s))) =
    map (\<lambda>e. (log_index e, log_cols_of f c e)) (entries_for_capsule k m)"
proof -
  have rel: "table_rel (t_bindings s) (m_capsule_ids m)" using assms by (simp add: implements_def)
  have "distinct (map fst (t_bindings s))" using rel by (simp add: table_rel_def unique_def)
  then have "concat (map (\<lambda>le. map (\<lambda>_. le) (filter (\<lambda>b. fst b = fst le \<and> snd b = k) (t_bindings s))) (t_log s)) =
      filter (\<lambda>r. map_of (t_bindings s) (fst r) = Some k) (t_log s)"
    using filter_concat_unique [of "t_bindings s" "\<lambda>r. r" fst k "t_log s"] by simp
  moreover have "i \<in> fst ` {p \<in> set (m_capsule_ids m). snd p = k} \<longleftrightarrow> map_of (t_bindings s) i = Some k" for i
    using rel by (force simp: table_rel_def unique_def)
  ultimately show ?thesis using implements_rows [OF assms, of "\<lambda>i. map_of (t_bindings s) i = Some k"]
    by (simp add: entries_for_capsule_def)
qed

lemma distinct_of_keys: "distinct (map f xs) \<Longrightarrow> distinct xs"
  by (simp add: distinct_map)

lemma implements_by_subject [implements_read]:
  assumes "implements f c s m"
  shows "sort_key fst (map (\<lambda>((_, h), d, fm). (h, d, fm)) (filter (\<lambda>r. fst (fst r) = sub) (t_subjects s))) =
    sort_key fst (get_by_subject sub m)"
proof (rule sort_key_determined)
  let ?rows = "map (\<lambda>((_, h), d, fm). (h, d, fm)) (filter (\<lambda>r. fst (fst r) = sub) (t_subjects s))"
  have rel: "unique (t_subjects s)" "distinct (map fst (get_by_subject sub m))"
    "map_of (t_subjects s) (sub, h) = Some v \<longleftrightarrow> (h, v) \<in> set (get_by_subject sub m)" for h v
    using assms by (cases v; simp add: implements_def subjects_rel_def get_by_subject_def listed_def [symmetric])+
  have "map fst ?rows = map (snd \<circ> fst) (filter (\<lambda>r. fst (fst r) = sub) (t_subjects s))"
    by (simp add: case_prod_unfold o_def)
  moreover have "distinct (map (snd \<circ> fst) (filter (\<lambda>r. fst (fst r) = sub) t))" if "unique t" for t :: "((string \<times> string) \<times> 'b) list"
    using that by (induction t) (force simp: unique_def)+
  ultimately have keys: "distinct (map fst ?rows)" using rel(1) by metis
  have "(h, v) \<in> set ?rows \<longleftrightarrow> ((sub, h), v) \<in> set (t_subjects s)" for h v
    by (cases v) (force simp: image_iff)
  then have "(h, v) \<in> set ?rows \<longleftrightarrow> (h, v) \<in> set (get_by_subject sub m)" for h v
    using rel(1,3) by (simp add: unique_set)
  then have "set ?rows = set (get_by_subject sub m)" unfolding set_eq_iff split_paired_All by blast
  then show "mset ?rows = mset (get_by_subject sub m)"
    by (rule set_eq_iff_mset_eq_distinct [THEN iffD1, OF distinct_of_keys [OF keys] distinct_of_keys [OF rel(2)]])
  show "inj_on fst (set ?rows)" using keys by (simp only: distinct_map)
qed

lemma implements_last_record [implements_read]:
  assumes "implements f c s m"
  shows "sql_last fst (map (\<lambda>((_, n), r). (n, r)) (filter (\<lambda>p. fst (fst p) = l) (t_records s))) =
    get_last_checkpoint_record l m"
proof -
  let ?pick = "\<lambda>t. map (\<lambda>((_, n), r). (n, r)) (filter (\<lambda>p. fst (fst p) = l) t)"
  have rel: "table_rel (t_records s) (m_records m)" using assms by (simp add: implements_def)
  then have "set (?pick (t_records s)) = set (?pick (m_records m))" using table_rel_set [OF rel] by simp
  moreover have "inj_on fst (set (?pick (t_records s)))"
  proof (rule inj_onI)
    fix a b assume ab: "a \<in> set (?pick (t_records s))" "b \<in> set (?pick (t_records s))" "fst a = fst b"
    then have "((l, fst a), snd a) \<in> set (t_records s)" "((l, fst a), snd b) \<in> set (t_records s)" by auto
    then show "a = b" using rel ab(3) by (metis table_rel_def unique_set fst_conv snd_conv option.inject prod_eqI)
  qed
  ultimately have "sql_last fst (?pick (t_records s)) = max_by fst (?pick (m_records m))" by (rule last_is_max_by)
  then show ?thesis by (simp add: get_last_checkpoint_record_def case_prod_unfold)
qed

lemma implements_receipt_rows:
  assumes "implements f c s m"
  shows "mset (filter (\<lambda>r. pl_backend r = b \<and> P r) (map snd (t_receipts s))) =
      mset (filter (\<lambda>r. pl_backend r = b \<and> P r) (map snd (m_pl_receipts m)))" (is ?rows)
    and "inj_on pl_tree_size (set (filter (\<lambda>r. pl_backend r = b \<and> P r) (map snd (t_receipts s))))" (is ?inj)
proof -
  have rel: "table_rel (t_receipts s) (m_pl_receipts m)"
    "\<forall>r \<in> snd ` set (m_pl_receipts m). \<forall>r' \<in> snd ` set (m_pl_receipts m).
      pl_backend r = pl_backend r' \<longrightarrow> pl_tree_size r = pl_tree_size r' \<longrightarrow> r = r'"
    using assms(1) by (simp_all add: implements_def receipts_rel_def)
  show ?rows using table_rel_mset [OF rel(1)] by simp
  have "snd ` set (t_receipts s) = snd ` set (m_pl_receipts m)" using table_rel_set [OF rel(1)] by simp
  then show ?inj using rel(2) unfolding inj_on_def set_filter set_map by blast
qed

lemma implements_receipts [implements_read]:
  assumes "implements f c s m"
  shows "sql_last pl_tree_size (filter (\<lambda>r. pl_backend r = b) (map snd (t_receipts s))) =
      get_latest_public_log_receipt b m"
    and "sort_key pl_tree_size (filter (\<lambda>r. pl_backend r = b \<and> n < pl_tree_size r) (map snd (t_receipts s))) =
      get_public_log_receipts_since b n m"
    and "sql_first pl_tree_size (filter (\<lambda>r. pl_backend r = b \<and> n \<le> pl_tree_size r) (map snd (t_receipts s))) =
      get_public_log_receipt_covering b n m"
proof -
  note rows = implements_receipt_rows [OF assms, of b]
  show "sql_last pl_tree_size (filter (\<lambda>r. pl_backend r = b) (map snd (t_receipts s))) =
      get_latest_public_log_receipt b m"
    using last_is_max_by [OF mset_eq_setD [OF rows(1)] rows(2), of "\<lambda>_. True"]
    by (simp add: get_latest_public_log_receipt_def)
  show "sort_key pl_tree_size (filter (\<lambda>r. pl_backend r = b \<and> n < pl_tree_size r) (map snd (t_receipts s))) =
      get_public_log_receipts_since b n m"
    unfolding get_public_log_receipts_since_def by (rule sort_key_determined [OF rows])
  show "sql_first pl_tree_size (filter (\<lambda>r. pl_backend r = b \<and> n \<le> pl_tree_size r) (map snd (t_receipts s))) =
      get_public_log_receipt_covering b n m"
    unfolding get_public_log_receipt_covering_def by (rule first_is_min_by [OF mset_eq_setD [OF rows(1)] rows(2)])
qed

end
