(* ===== verification/SqliteStore.thy ===== *)
theory SqliteStore
  imports StoreRefine
begin

text \<open>
  \<open>SqliteLogStore\<close> of \<open>anchoring/store.py\<close>, method by method: timestamps are ISO text, signatures
  JSON text, and every method is one statement (or one transaction) on the tables. The last
  sections show that it implements the in-memory store.
\<close>

section \<open>The code\<close>

type_synonym sqlite = "string tables"

definition entry_row :: "sig_codec \<Rightarrow> entry \<Rightarrow> int \<times> string log_cols" where
  "entry_row c e = (log_index e, log_cols_of isoformat c e)"

definition row_to_entry :: "sig_codec \<Rightarrow> int \<times> string log_cols \<Rightarrow> entry res" where
  "row_to_entry c row = (case row of (i, r) \<Rightarrow>
     rbind (parse_iso (le_logged_at r)) (\<lambda>tm. rbind (sig_load c (le_signature r)) (\<lambda>sg.
       Inr \<lparr>log_index = i, logged_at = tm, kind = le_kind r, payload_hash = le_payload_hash r,
            log_signature = sg, prev_log_hash = le_prev r\<rparr>)))"

definition sqlite_append_entry :: "sig_codec \<Rightarrow> entry \<Rightarrow> (sqlite, unit) op" where
  "sqlite_append_entry c e = binding [log_index e] (\<lambda>s.
     case sql_insert (fst (entry_row c e)) (snd (entry_row c e)) (t_log s) of
        Inl ex \<Rightarrow> (Inl ex, s)
      | Inr t \<Rightarrow> (Inr (), s\<lparr>t_log := t\<rparr>))"

definition sqlite_all_entries :: "sig_codec \<Rightarrow> sqlite \<Rightarrow> entry list res" where
  "sqlite_all_entries c s = rmap (row_to_entry c) (sort_key fst (t_log s))"

definition sqlite_entries_after :: "sig_codec \<Rightarrow> int \<Rightarrow> sqlite \<Rightarrow> entry list res" where
  "sqlite_entries_after c after_index s = querying [after_index]
     (rmap (row_to_entry c) (sort_key fst (filter (\<lambda>r. after_index \<le> fst r) (t_log s))))"

definition sqlite_size :: "sqlite \<Rightarrow> int" where
  "sqlite_size s = int (length (t_log s))"

definition sqlite_put_root :: "sig_codec \<Rightarrow> croot \<Rightarrow> (sqlite, unit) op" where
  "sqlite_put_root c r = binding [fst (cr_seq_range r), snd (cr_seq_range r)] (op_modify (\<lambda>s.
     s\<lparr>t_roots := sql_replace (cr_tenant_id r, cr_root_hash r) (root_cols_of isoformat c r) (t_roots s)\<rparr>))"

definition sqlite_get_root :: "sig_codec \<Rightarrow> string \<Rightarrow> string \<Rightarrow> sqlite \<Rightarrow> croot option res" where
  "sqlite_get_root c tenant_id root_hash s =
     (case sql_get (tenant_id, root_hash) (t_roots s) of
        None \<Rightarrow> Inr None
      | Some r \<Rightarrow> rbind (parse_iso (ro_attested_at r)) (\<lambda>tm. rbind (sig_load c (ro_countersignature r)) (\<lambda>sg.
          Inr (Some \<lparr>cr_tenant_id = tenant_id, cr_root_hash = root_hash,
            cr_seq_range = (ro_seq_from r, ro_seq_to r), attested_at = tm, countersignature = sg\<rparr>))))"

definition sqlite_put_capsule_id :: "int \<Rightarrow> string \<Rightarrow> (sqlite, unit) op" where
  "sqlite_put_capsule_id i capsule_id = binding [i] (op_modify (\<lambda>s.
     s\<lparr>t_bindings := sql_replace i capsule_id (t_bindings s)\<rparr>))"

definition sqlite_get_capsule_id :: "int \<Rightarrow> sqlite \<Rightarrow> string option res" where
  "sqlite_get_capsule_id i s = querying [i] (Inr (sql_get i (t_bindings s)))"

definition sqlite_entries_for_capsule :: "sig_codec \<Rightarrow> string \<Rightarrow> sqlite \<Rightarrow> entry list res" where
  "sqlite_entries_for_capsule c capsule_id s = rmap (row_to_entry c) (sort_key fst
     (concat (map (\<lambda>le. map (\<lambda>_. le) (filter (\<lambda>b. fst b = fst le \<and> snd b = capsule_id) (t_bindings s)))
       (t_log s))))"

definition sqlite_put_statement :: "string \<Rightarrow> statement \<Rightarrow> (sqlite, unit) op" where
  "sqlite_put_statement h st = (case st of (receipt, leaf_index, tree_size) \<Rightarrow>
     binding [leaf_index, tree_size] (op_modify (\<lambda>s.
       s\<lparr>t_statements := snd (sql_insert_ignore h (receipt, leaf_index, tree_size) (t_statements s))\<rparr>)))"

definition sqlite_get_statement :: "string \<Rightarrow> sqlite \<Rightarrow> statement option" where
  "sqlite_get_statement h s = sql_get h (t_statements s)"

definition sqlite_prune :: "int \<Rightarrow> (sqlite, int) op" where
  "sqlite_prune cutoff s =
     (let old = map fst (filter (\<lambda>r. text_less (le_logged_at (snd r)) (isoformat cutoff)) (t_log s));
          (n, t) = sql_delete (\<lambda>(h, _, leaf_index, _). leaf_index \<in> set old) (t_statements s)
      in (Inr n, s\<lparr>t_statements := t\<rparr>))"

definition sqlite_put_subject_index ::
    "string \<Rightarrow> string \<Rightarrow> string option \<Rightarrow> string option \<Rightarrow> (sqlite, unit) op" where
  "sqlite_put_subject_index subject h digest form = op_modify (\<lambda>s.
     s\<lparr>t_subjects := snd (sql_insert_ignore (subject, h) (digest, form) (t_subjects s))\<rparr>)"

definition sqlite_get_by_subject :: "string \<Rightarrow> sqlite \<Rightarrow> subject_row list" where
  "sqlite_get_by_subject subject s =
     sort_key fst (map (\<lambda>((_, h), d, f). (h, d, f)) (filter (\<lambda>r. fst (fst r) = subject) (t_subjects s)))"

definition sqlite_put_checkpoint_witness :: "string \<Rightarrow> witness \<Rightarrow> (sqlite, unit) op" where
  "sqlite_put_checkpoint_witness log_id w = binding [w_mmr_size w] (op_modify (\<lambda>s.
     s\<lparr>t_witnesses := sql_replace log_id w (t_witnesses s)\<rparr>))"

definition sqlite_get_checkpoint_witness :: "string \<Rightarrow> sqlite \<Rightarrow> witness option" where
  "sqlite_get_checkpoint_witness log_id s = sql_get log_id (t_witnesses s)"

definition sqlite_put_checkpoint_record :: "string \<Rightarrow> int \<Rightarrow> cp_record \<Rightarrow> (sqlite, bool) op" where
  "sqlite_put_checkpoint_record log_id mmr_size r = binding [mmr_size] (\<lambda>s.
     case sql_get (log_id, mmr_size) (t_records s) of
        None \<Rightarrow> binding [cr_prev_size r, cr_leaf_index r, cr_tree_size r] (\<lambda>s.
          case sql_insert (log_id, mmr_size) r (t_records s) of
             Inl ex \<Rightarrow> (Inl ex, s)
           | Inr t \<Rightarrow> (Inr False, s\<lparr>t_records := t\<rparr>)) s
      | Some existing \<Rightarrow>
          if cr_root existing = cr_root r then (Inr False, s)
          else (Inr True, s\<lparr>t_equivocations := t_equivocations s @
            [(log_id, \<lparr>eq_mmr_size = mmr_size, eq_first = evidence_of existing, eq_conflicting = evidence_of r\<rparr>)]\<rparr>))"

definition sqlite_get_checkpoint_record :: "string \<Rightarrow> int \<Rightarrow> sqlite \<Rightarrow> (int \<times> cp_record) option res" where
  "sqlite_get_checkpoint_record log_id mmr_size s = querying [mmr_size]
     (Inr (map_option (\<lambda>r. (mmr_size, r)) (sql_get (log_id, mmr_size) (t_records s))))"

definition sqlite_get_last_checkpoint_record :: "string \<Rightarrow> sqlite \<Rightarrow> (int \<times> cp_record) option" where
  "sqlite_get_last_checkpoint_record log_id s =
     sql_last fst (map (\<lambda>((_, n), r). (n, r)) (filter (\<lambda>p. fst (fst p) = log_id) (t_records s)))"

definition sqlite_get_equivocations :: "string \<Rightarrow> sqlite \<Rightarrow> equivocation list" where
  "sqlite_get_equivocations log_id s = map snd (filter (\<lambda>p. fst p = log_id) (t_equivocations s))"

definition sqlite_put_sth :: "string \<Rightarrow> int \<Rightarrow> int \<Rightarrow> (sqlite, unit) op" where
  "sqlite_put_sth sth_json tree_size timestamp =
     (let ts_us = epoch_us timestamp in
      binding [tree_size, ts_us] (op_modify (\<lambda>s.
        s\<lparr>t_latest := (case t_latest s of
              None \<Rightarrow> Some (sth_json, Some tree_size, Some ts_us)
            | Some (old, n, us) \<Rightarrow> if sth_newer tree_size ts_us n us then Some (sth_json, Some tree_size, Some ts_us)
                                  else Some (old, n, us)),
          t_history := snd (sql_insert_ignore tree_size (sth_json, ts_us) (t_history s))\<rparr>)))"

definition sqlite_get_latest_sth :: "sqlite \<Rightarrow> string option" where
  "sqlite_get_latest_sth s = map_option fst (t_latest s)"

definition sqlite_get_sth_at :: "int \<Rightarrow> sqlite \<Rightarrow> string option res" where
  "sqlite_get_sth_at tree_size s =
     querying [tree_size] (Inr (map_option fst (sql_get tree_size (t_history s))))"

definition sqlite_put_public_log_receipt :: "pl_receipt \<Rightarrow> (sqlite, bool) op" where
  "sqlite_put_public_log_receipt r =
     binding (pl_tree_size r # (case pl_log_index r of None \<Rightarrow> [] | Some i \<Rightarrow> [i])) (\<lambda>s.
       case sql_insert_ignore (pl_key r) r (t_receipts s) of (inserted, t) \<Rightarrow> (Inr inserted, s\<lparr>t_receipts := t\<rparr>))"

definition sqlite_get_public_log_receipt :: "string \<Rightarrow> int \<Rightarrow> string \<Rightarrow> sqlite \<Rightarrow> pl_receipt option res" where
  "sqlite_get_public_log_receipt backend n rh s =
     querying [n] (Inr (sql_get (backend, n, rh) (t_receipts s)))"

definition sqlite_get_latest_public_log_receipt :: "string \<Rightarrow> sqlite \<Rightarrow> pl_receipt option" where
  "sqlite_get_latest_public_log_receipt backend s =
     sql_last pl_tree_size (filter (\<lambda>r. pl_backend r = backend) (map snd (t_receipts s)))"

definition sqlite_get_public_log_receipts_since :: "string \<Rightarrow> int \<Rightarrow> sqlite \<Rightarrow> pl_receipt list res" where
  "sqlite_get_public_log_receipts_since backend since s = querying [since] (Inr
     (sort_key pl_tree_size (filter (\<lambda>r. pl_backend r = backend \<and> since < pl_tree_size r) (map snd (t_receipts s)))))"

definition sqlite_get_public_log_receipt_covering :: "string \<Rightarrow> int \<Rightarrow> sqlite \<Rightarrow> pl_receipt option res" where
  "sqlite_get_public_log_receipt_covering backend min_size s = querying [min_size] (Inr
     (sql_first pl_tree_size (filter (\<lambda>r. pl_backend r = backend \<and> min_size \<le> pl_tree_size r) (map snd (t_receipts s)))))"

definition sqlite_put_public_log_failure :: "string \<Rightarrow> string \<Rightarrow> string \<Rightarrow> (sqlite, unit) op" where
  "sqlite_put_public_log_failure backend occurred_at error = op_modify (\<lambda>s.
     s\<lparr>t_failures := t_failures s @ [(backend, occurred_at, error)]\<rparr>)"

section \<open>It implements the in-memory store\<close>


fun sqlite_do :: "sig_codec \<Rightarrow> store_op \<Rightarrow> sqlite \<Rightarrow> outcome res \<times> sqlite" where
  "sqlite_do c (OpAppend e) = outcome_of (\<lambda>_. Done) (sqlite_append_entry c e)"
| "sqlite_do c (OpRoot r) = outcome_of (\<lambda>_. Done) (sqlite_put_root c r)"
| "sqlite_do c (OpCapsule i k) = outcome_of (\<lambda>_. Done) (sqlite_put_capsule_id i k)"
| "sqlite_do c (OpStatement h st) = outcome_of (\<lambda>_. Done) (sqlite_put_statement h st)"
| "sqlite_do c (OpPrune cutoff) = outcome_of Count (sqlite_prune cutoff)"
| "sqlite_do c (OpSubject sub h d f) = outcome_of (\<lambda>_. Done) (sqlite_put_subject_index sub h d f)"
| "sqlite_do c (OpWitness l w) = outcome_of (\<lambda>_. Done) (sqlite_put_checkpoint_witness l w)"
| "sqlite_do c (OpRecord l n r) = outcome_of Flag (sqlite_put_checkpoint_record l n r)"
| "sqlite_do c (OpSth j n t) = outcome_of (\<lambda>_. Done) (sqlite_put_sth j n t)"
| "sqlite_do c (OpReceipt r) = outcome_of Flag (sqlite_put_public_log_receipt r)"
| "sqlite_do c (OpFailure b t e) = outcome_of (\<lambda>_. Done) (sqlite_put_public_log_failure b t e)"

fun sqlite_ask :: "sig_codec \<Rightarrow> query \<Rightarrow> sqlite \<Rightarrow> answer res" where
  "sqlite_ask c QAll s = map_sum id Entries (sqlite_all_entries c s)"
| "sqlite_ask c (QAfter i) s = map_sum id Entries (sqlite_entries_after c i s)"
| "sqlite_ask c QSize s = Inr (Number (sqlite_size s))"
| "sqlite_ask c (QRoot tn rh) s = map_sum id Croot (sqlite_get_root c tn rh s)"
| "sqlite_ask c (QCapsule i) s = map_sum id Text (sqlite_get_capsule_id i s)"
| "sqlite_ask c (QCapsuleEntries k) s = map_sum id Entries (sqlite_entries_for_capsule c k s)"
| "sqlite_ask c (QStatement h) s = Inr (Receipt (sqlite_get_statement h s))"
| "sqlite_ask c (QSubject sub) s = Inr (Subjects (sqlite_get_by_subject sub s))"
| "sqlite_ask c (QWitness l) s = Inr (Witness (sqlite_get_checkpoint_witness l s))"
| "sqlite_ask c (QRecord l n) s = map_sum id Position (sqlite_get_checkpoint_record l n s)"
| "sqlite_ask c (QLastRecord l) s = Inr (Position (sqlite_get_last_checkpoint_record l s))"
| "sqlite_ask c (QEquivocations l) s = Inr (Conflicts (sqlite_get_equivocations l s))"
| "sqlite_ask c QLatestSth s = Inr (Text (sqlite_get_latest_sth s))"
| "sqlite_ask c (QSthAt n) s = map_sum id Text (sqlite_get_sth_at n s)"
| "sqlite_ask c (QReceipt b n rh) s = map_sum id Public (sqlite_get_public_log_receipt b n rh s)"
| "sqlite_ask c (QLatestReceipt b) s = Inr (Public (sqlite_get_latest_public_log_receipt b s))"
| "sqlite_ask c (QReceiptsSince b n) s = map_sum id Publics (sqlite_get_public_log_receipts_since b n s)"
| "sqlite_ask c (QReceiptCovering b n) s = map_sum id Public (sqlite_get_public_log_receipt_covering b n s)"

lemma row_to_entry_row:
  "codec_ok c \<Longrightarrow> datetime_range (logged_at e) \<Longrightarrow> row_to_entry c (log_index e, log_cols_of isoformat c e) = Inr e"
  by (simp add: row_to_entry_def log_cols_of_def parse_isoformat codec_ok_def)

lemma rows_to_entries:
  assumes "codec_ok c" "implements isoformat c s m" "set es \<subseteq> set (m_log m)"
  shows "rmap (row_to_entry c) (map (\<lambda>e. (log_index e, log_cols_of isoformat c e)) es) = Inr es"
proof -
  have "rmap (row_to_entry c) (map (\<lambda>e. (log_index e, log_cols_of isoformat c e)) es) =
      rmap (\<lambda>e. row_to_entry c (log_index e, log_cols_of isoformat c e)) es"
    by (induction es) simp_all
  also have "\<dots> = Inr (map (\<lambda>e. e) es)"
    by (rule rmap_Inr) (use assms implements_log_dates [OF assms(2)] in \<open>auto intro: row_to_entry_row\<close>)
  finally show ?thesis by simp
qed

lemma sqlite_pruned_rows:
  assumes "implements isoformat c s m" "datetime_range cutoff"
  shows "set (map fst (filter (\<lambda>r. text_less (le_logged_at (snd r)) (isoformat cutoff)) (t_log s))) =
    log_index ` {e \<in> set (m_log m). logged_at e < cutoff}"
proof -
  have "t_log s = map (\<lambda>e. (log_index e, log_cols_of isoformat c e)) (m_log m)"
    using assms(1) by (simp add: implements_def log_rel_def)
  moreover have "text_less (isoformat (logged_at e)) (isoformat cutoff) \<longleftrightarrow> logged_at e < cutoff" if "e \<in> set (m_log m)" for e
    using isoformat_less implements_log_dates [OF assms(1) that] assms(2) by blast
  ultimately show ?thesis by (force simp: log_cols_of_def)
qed

lemma sqlite_step:
  assumes "implements isoformat c s m" "legal w m"
  shows "fst (sqlite_do c w s) = fst (mem_do w m) \<and> implements isoformat c (snd (sqlite_do c w s)) (snd (mem_do w m))"
proof (cases w)
  case (OpAppend e)
  then have "log_index e = store_size m" "datetime_range (logged_at e)" "int64 (store_size m)"
    using assms(2) by (auto simp: legal_def)
  then show ?thesis using implements_append [OF assms(1), of e] OpAppend
    by (simp add: sqlite_append_entry_def outcome_of_def binding_def done_with_def entry_row_def)
next
  case (OpRoot r)
  have "roots_rel isoformat c (t_roots s) (m_roots m)" using assms(1) by (simp add: implements_def)
  with assms(2) OpRoot have "roots_rel isoformat c (sql_replace (cr_tenant_id r, cr_root_hash r) (root_cols_of isoformat c r) (t_roots s))
      (dict_set (cr_tenant_id r, cr_root_hash r) r (m_roots m))"
    by (intro roots_rel_replace) (simp_all add: legal_def)
  with assms OpRoot show ?thesis
    by (simp add: legal_def sqlite_put_root_def outcome_of_def binding_def done_with_def implements_write)
next
  case (OpStatement h st)
  then show ?thesis using assms
    by (cases st) (simp add: legal_def sqlite_put_statement_def outcome_of_def binding_def done_with_def implements_write)
next
  case (OpPrune cutoff)
  have "datetime_range cutoff" using assms(2) OpPrune by (simp add: legal_def)
  note old = sqlite_pruned_rows [OF assms(1) this]
  show ?thesis using implements_prune [OF assms(1) old] OpPrune
    by (fastforce simp: sqlite_prune_def outcome_of_def Let_def split: prod.splits)
next
  case (OpRecord l n r)
  show ?thesis
  proof (cases "map_of (t_records s) (l, n)")
    case None
    then show ?thesis using assms OpRecord implements_record_new [OF assms(1) None, of r]
      by (simp add: legal_def sqlite_put_checkpoint_record_def sql_get_def outcome_of_def binding_def)
  next
    case (Some old)
    then show ?thesis using assms OpRecord implements_record_old [OF assms(1) Some, of r]
      by (cases "put_checkpoint_record l n r m") (auto simp: legal_def sqlite_put_checkpoint_record_def sql_get_def outcome_of_def binding_def)
  qed
next
  case (OpReceipt r)
  obtain b t where ins: "sql_insert_ignore (pl_key r) r (t_receipts s) = (b, t)" by fastforce
  from implements_receipt [OF assms(1) _ ins] assms(2) OpReceipt show ?thesis
    by (auto simp: legal_def sqlite_put_public_log_receipt_def outcome_of_def binding_def ins)
next
  case (OpCapsule i k)
  have "table_rel (t_bindings s) (m_capsule_ids m)" using assms(1) by (simp add: implements_def)
  then have "table_rel (sql_replace i k (t_bindings s)) (dict_set i k (m_capsule_ids m))" by (rule table_rel_replace)
  then show ?thesis using assms OpCapsule
    by (simp add: legal_def sqlite_put_capsule_id_def outcome_of_def binding_def done_with_def implements_write)
next
  case (OpWitness l w)
  then show ?thesis using assms
    by (simp add: legal_def sqlite_put_checkpoint_witness_def outcome_of_def binding_def done_with_def implements_write replace_map)
next
  case (OpSth j n tm)
  then have "0 \<le> n" "clock_range tm" "int64 n" "int64 (epoch_us tm)" using assms(2) by (auto simp: legal_def)
  then show ?thesis using implements_sth [OF assms(1), of n tm j] OpSth
    by (simp add: sqlite_put_sth_def outcome_of_def binding_def done_with_def Let_def del: clock_range_key)
qed (use assms in \<open>simp_all add: sqlite_put_subject_index_def sqlite_put_public_log_failure_def
       outcome_of_def done_with_def implements_write\<close>)

lemma sqlite_answer:
  assumes "codec_ok c" "implements isoformat c s m" "list_all int64 (query_ints q)"
  shows "sqlite_ask c q s = Inr (by_hash (mem_ask q m))"
proof (cases q)
  case QAll
  then show ?thesis using rows_to_entries [OF assms(1,2), of "m_log m"]
    by (simp add: sqlite_all_entries_def implements_all [OF assms(2)] all_entries_def)
next
  case (QAfter i)
  then show ?thesis using assms(3) rows_to_entries [OF assms(1,2), of "filter (\<lambda>e. i \<le> log_index e) (m_log m)"]
    by (simp add: sqlite_entries_after_def implements_rows [OF assms(2), of "\<lambda>n. i \<le> n"] entries_after_def querying_def)
next
  case (QCapsuleEntries k)
  then show ?thesis using rows_to_entries [OF assms(1,2), of "entries_for_capsule k m"]
    by (simp add: sqlite_entries_for_capsule_def implements_join [OF assms(2)] entries_for_capsule_def Let_def)
next
  case (QSubject sub)
  then show ?thesis using implements_by_subject [OF assms(2), of sub] by (simp add: sqlite_get_by_subject_def)
next
  case (QRoot tn rh)
  show ?thesis
  proof (cases "get_root tn rh m")
    case (Some r)
    note key = implements_root_key [OF assms(2) Some]
    show ?thesis using key assms(1)
      by (simp add: QRoot Some sqlite_get_root_def implements_get_root [OF assms(2)] root_cols_of_def parse_isoformat codec_ok_def)
  qed (simp add: QRoot sqlite_get_root_def implements_get_root [OF assms(2)])
qed (use assms(3) in \<open>simp_all add: querying_def sqlite_size_def sqlite_get_capsule_id_def sqlite_get_statement_def
       sqlite_get_by_subject_def sqlite_get_checkpoint_witness_def sqlite_get_checkpoint_record_def
       sqlite_get_last_checkpoint_record_def sqlite_get_equivocations_def sqlite_get_latest_sth_def
       sqlite_get_sth_at_def sqlite_get_public_log_receipt_def sqlite_get_latest_public_log_receipt_def
       sqlite_get_public_log_receipts_since_def sqlite_get_public_log_receipt_covering_def
       implements_read [OF assms(2)]\<close>)

interpretation sqlite: durable_store "sqlite_do c" "sqlite_ask c" "implements isoformat c" legal
    "\<lambda>q. codec_ok c \<and> list_all int64 (query_ints q)" for c
  by unfold_locales (auto simp: sqlite_step sqlite_answer)

text \<open>A concrete codec and a concrete run, with a conflicting checkpoint record.\<close>

definition sample_codec :: sig_codec where
  "sample_codec = \<lparr>
     sig_dump = (\<lambda>g. pack_one (sig_hex g) @ pack_one (sig_key_id g) @ pack_one (sig_alg g) @ pack_one (unary (created_at g))),
     sig_load = (\<lambda>s0. let (h, s1) = unpack_one s0; (k, s2) = unpack_one s1; (a, s3) = unpack_one s2; (t, s4) = unpack_one s3
        in Inr \<lparr>sig_hex = h, sig_key_id = k, sig_alg = a, created_at = unary_value t\<rparr>)\<rparr>"

lemma sample_codec_ok: "codec_ok sample_codec"
proof -
  have last: "unpack_one (pack_one s) = (s, [])" for s using unpack_pack [of s "[]"] by simp
  show ?thesis by (simp add: codec_ok_def sample_codec_def last)
qed

definition sample_signed :: sig where
  "sample_signed = \<lparr>sig_hex = ''00'', sig_key_id = ''k'', sig_alg = ''ed25519'', created_at = 1600000000000000\<rparr>"

definition sample_entry :: entry where
  "sample_entry = \<lparr>log_index = 0, logged_at = 1600000000000000, kind = ''checkpoint'', payload_hash = ''aa'',
     log_signature = sample_signed, prev_log_hash = None\<rparr>"

definition sample_record :: "string \<Rightarrow> cp_record" where
  "sample_record rh = \<lparr>cr_root = rh, cr_prev_size = 0, cr_prev_root = [], cr_key_id = ''k'',
     cr_timestamp = ''t'', cr_grade = None, cr_entry_hash = ''aa'', cr_scheme = ''scitt'', cr_leaf_index = 0,
     cr_tree_size = 1, cr_receipt = [1], cr_continuity = None\<rparr>"

definition sample_writes :: "store_op list" where
  "sample_writes = [OpAppend sample_entry, OpStatement ''aa'' ([1], 0, 1), OpSubject ''s'' ''bb'' None None,
     OpSubject ''s'' ''aa'' None None, OpRecord ''l'' 7 (sample_record ''r''), OpRecord ''l'' 7 (sample_record ''q''),
     OpSth ''{}'' 1 1600000000000000, OpPrune 1600000000000001]"

lemma sample_writes_allowed: "run_allowed legal sample_writes empty_store"
  by (simp add: sample_writes_def sample_entry_def sample_signed_def sample_record_def legal_def int64_def
      datetime_range_def clock_range_def append_entry_def store_size_def put_statement_def get_statement_def
      empty_store_def put_subject_index_def done_with_def put_checkpoint_record_def evidence_of_def put_sth_def Let_def)

lemma sample_conflict_seen:
  "mem_ask (QEquivocations ''l'') (snd (run_ops mem_do sample_writes empty_store)) \<noteq> Conflicts []"
  by code_simp

text \<open>An operation that raises without a trace.\<close>

definition atomic :: "('s, 'a) op \<Rightarrow> bool" where
  "atomic run \<longleftrightarrow> (\<forall>s e s'. run s = (Inl e, s') \<longrightarrow> s' = s)"

lemma atomic_modify [simp]: "atomic (op_modify f)"
  by (simp add: atomic_def)

lemma atomic_binding: "atomic run \<Longrightarrow> atomic (binding ns run)"
  by (simp add: atomic_def binding_def)

lemma atomic_outcome: "atomic run \<Longrightarrow> atomic (outcome_of f run)"
  by (auto simp: atomic_def outcome_of_def map_sum_def split: prod.splits sum.splits)

lemma sqlite_record_atomic: "atomic (sqlite_put_checkpoint_record l n r)"
  unfolding sqlite_put_checkpoint_record_def
  by (rule atomic_binding) (auto simp: atomic_def binding_def split: option.splits sum.splits if_splits)

lemma sqlite_append_atomic: "atomic (sqlite_append_entry c e)"
  unfolding sqlite_append_entry_def by (rule atomic_binding) (auto simp: atomic_def split: sum.splits)

lemma sqlite_receipt_atomic: "atomic (sqlite_put_public_log_receipt r)"
  unfolding sqlite_put_public_log_receipt_def by (rule atomic_binding) (auto simp: atomic_def split: prod.splits)

lemma sqlite_do_atomic: "atomic (sqlite_do c w)"
proof (cases w)
  case (OpPrune cutoff)
  then show ?thesis by (auto simp: sqlite_prune_def atomic_def outcome_of_def Let_def split: prod.splits)
qed (auto simp: sqlite_put_root_def sqlite_put_capsule_id_def sqlite_put_subject_index_def sqlite_put_statement_def
      sqlite_put_checkpoint_witness_def sqlite_put_sth_def sqlite_put_public_log_failure_def Let_def
      intro!: atomic_outcome atomic_binding sqlite_record_atomic sqlite_append_atomic sqlite_receipt_atomic split: prod.splits)

section \<open>Properties\<close>

text \<open>C27: the SQLite store refines the in-memory one: from empty tables, any sequence of legal writes gives the same
  outcomes, and every read with arguments of 64 bits then returns what the in-memory store returns, up to the
  order of a subject's statements. A write is \<open>legal\<close> when its integers have 64 bits and it is as the service
  issues it (\<open>issued\<close>): an entry at the next index, a statement not cached yet with an index of the log, times the
  clock can give, one root for each published size of a backend.\<close>

theorem sqlite_refines_memory:
  assumes "codec_ok c" "run_allowed legal ws empty_store" "list_all int64 (query_ints q)"
  shows "fst (run_ops (sqlite_do c) ws empty_tables) = fst (run_ops mem_do ws empty_store) \<and>
    sqlite_ask c q (snd (run_ops (sqlite_do c) ws empty_tables)) =
      Inr (by_hash (mem_ask q (snd (run_ops mem_do ws empty_store))))"
  using sqlite.refines [OF implements_empty assms(2)] assms(1,3) by blast

theorem sqlite_refines_memory_witness:
  "fst (run_ops (sqlite_do sample_codec) sample_writes empty_tables) = fst (run_ops mem_do sample_writes empty_store) \<and>
   sqlite_ask sample_codec (QEquivocations ''l'') (snd (run_ops (sqlite_do sample_codec) sample_writes empty_tables)) =
     Inr (by_hash (mem_ask (QEquivocations ''l'') (snd (run_ops mem_do sample_writes empty_store)))) \<and>
   mem_ask (QEquivocations ''l'') (snd (run_ops mem_do sample_writes empty_store)) \<noteq> Conflicts []"
  using sqlite_refines_memory [OF sample_codec_ok sample_writes_allowed, of "QEquivocations ''l''"] sample_conflict_seen
  by simp

text \<open>A write to the SQLite store that raises leaves the database as it was, whichever write it is:
  a duplicate index, or an integer beyond 64 bits.\<close>

theorem sqlite_write_atomic:
  assumes "fst (sqlite_do c w s) = Inl e"
  shows "snd (sqlite_do c w s) = s"
  using sqlite_do_atomic [of c w] assms by (cases "sqlite_do c w s") (simp add: atomic_def)

theorem sqlite_write_atomic_witness:
  "fst (sqlite_do sample_codec (OpRecord ''l'' (2 ^ 63) (sample_record ''r'')) empty_tables) = Inl OverflowError \<and>
   snd (sqlite_do sample_codec (OpRecord ''l'' (2 ^ 63) (sample_record ''r'')) empty_tables) = empty_tables"
proof -
  have "fst (sqlite_do sample_codec (OpRecord ''l'' (2 ^ 63) (sample_record ''r'')) empty_tables) = Inl OverflowError"
    by (simp add: sqlite_put_checkpoint_record_def binding_def outcome_of_def int64_def)
  then show ?thesis using sqlite_write_atomic by blast
qed

end
