(* ===== verification/PostgresStore.thy ===== *)
theory PostgresStore
  imports SqliteStore
begin

text \<open>
  \<open>PostgresLogStore\<close> of \<open>anchoring/store.py\<close>: the same tables with TIMESTAMPTZ columns, reached over
  a connection that may be lost. Every method takes the fate of the connection during its call.
\<close>

section \<open>The connection\<close>

text \<open>
  What happens to one attempt: it is carried out and answered, the connection is found closed
  before the server acts (an idle timeout; a transaction cut before its commit is rolled back), or
  it is closed after the commit and the acknowledgement is lost. A call makes a first attempt, on
  \<open>OperationalError\<close> reconnects, which may fail, and makes a second one.
\<close>

datatype link = Up | LostBefore | LostAfter

record wire =
  first_try :: link
  reconnects :: bool
  second_try :: link

type_synonym pg = "int tables"

definition attempt :: "link \<Rightarrow> ('s, 'a) op \<Rightarrow> ('s, 'a) op" where
  "attempt l run s =
     (case l of
        LostBefore \<Rightarrow> (Inl OperationalError, s)
      | _ \<Rightarrow> (case run s of
          (Inl e, _) \<Rightarrow> (Inl e, s)
        | (Inr x, s') \<Rightarrow> (if l = LostAfter then Inl OperationalError else Inr x, s')))"

definition transact :: "wire \<Rightarrow> ('s, 'a) op \<Rightarrow> ('s, 'a) op" where
  "transact w run s =
     (case attempt (first_try w) run s of
        (Inl OperationalError, s') \<Rightarrow>
          if reconnects w then attempt (second_try w) run s' else (Inl OperationalError, s')
      | outcome \<Rightarrow> outcome)"

definition pg_read :: "wire \<Rightarrow> ('s \<Rightarrow> 'a res) \<Rightarrow> 's \<Rightarrow> 'a res" where
  "pg_read w run s = fst (transact w (\<lambda>s. (run s, s)) s)"

text \<open>
  A text parameter with a NUL is refused by psycopg, an integer beyond BIGINT by the server: both
  are a \<open>DataError\<close>. In a WHERE clause a large integer is compared as NUMERIC and does no harm.
\<close>

definition text_ok :: "string \<Rightarrow> bool" where
  "text_ok t \<longleftrightarrow> CHR 0x00 \<notin> set t"

definition texts :: "string option \<Rightarrow> string list" where
  "texts v = (case v of None \<Rightarrow> [] | Some t \<Rightarrow> [t])"

definition pg_execute :: "int list \<Rightarrow> string list \<Rightarrow> ('s, 'a) op \<Rightarrow> ('s, 'a) op" where
  "pg_execute ns ts run = (if list_all int64 ns \<and> list_all text_ok ts then run else op_raise DataError)"

definition pg_select :: "string list \<Rightarrow> ('s \<Rightarrow> 'a res) \<Rightarrow> 's \<Rightarrow> 'a res" where
  "pg_select ts run s = (if list_all text_ok ts then run s else Inl DataError)"

section \<open>The code\<close>

definition pg_row_to_entry :: "sig_codec \<Rightarrow> int \<times> int log_cols \<Rightarrow> entry res" where
  "pg_row_to_entry c row = (case row of (i, r) \<Rightarrow> rbind (sig_load c (le_signature r)) (\<lambda>sg.
     Inr \<lparr>log_index = i, logged_at = le_logged_at r, kind = le_kind r, payload_hash = le_payload_hash r,
          log_signature = sg, prev_log_hash = le_prev r\<rparr>))"

definition pg_append_entry :: "sig_codec \<Rightarrow> wire \<Rightarrow> entry \<Rightarrow> (pg, unit) op" where
  "pg_append_entry c w e =
     (let cols = log_cols_of (\<lambda>t. t) c e in
      transact w (pg_execute [log_index e] ([le_kind cols, le_payload_hash cols, le_signature cols] @ texts (le_prev cols)) (\<lambda>s.
        case sql_insert (log_index e) cols (t_log s) of
          Inl ex \<Rightarrow> (Inl ex, s)
        | Inr t \<Rightarrow> (Inr (), s\<lparr>t_log := t\<rparr>))))"

definition pg_all_entries :: "sig_codec \<Rightarrow> wire \<Rightarrow> pg \<Rightarrow> entry list res" where
  "pg_all_entries c w = pg_read w (\<lambda>s. rmap (pg_row_to_entry c) (sort_key fst (t_log s)))"

definition pg_entries_after :: "sig_codec \<Rightarrow> wire \<Rightarrow> int \<Rightarrow> pg \<Rightarrow> entry list res" where
  "pg_entries_after c w after_index = pg_read w (\<lambda>s.
     rmap (pg_row_to_entry c) (sort_key fst (filter (\<lambda>r. after_index \<le> fst r) (t_log s))))"

definition pg_size :: "wire \<Rightarrow> pg \<Rightarrow> int res" where
  "pg_size w = pg_read w (\<lambda>s. Inr (int (length (t_log s))))"

text \<open>The UPSERT of a root updates its time and signature, and keeps the old sequence range.\<close>

definition pg_put_root :: "sig_codec \<Rightarrow> wire \<Rightarrow> croot \<Rightarrow> (pg, unit) op" where
  "pg_put_root c w r =
     (let cols = root_cols_of (\<lambda>t. t) c r in
      transact w (pg_execute [ro_seq_from cols, ro_seq_to cols] [cr_tenant_id r, cr_root_hash r, ro_countersignature cols]
        (op_modify (\<lambda>s. s\<lparr>t_roots := sql_upsert (cr_tenant_id r, cr_root_hash r)
          (\<lambda>old new. old\<lparr>ro_attested_at := ro_attested_at new, ro_countersignature := ro_countersignature new\<rparr>)
          cols (t_roots s)\<rparr>))))"

definition pg_get_root :: "sig_codec \<Rightarrow> wire \<Rightarrow> string \<Rightarrow> string \<Rightarrow> pg \<Rightarrow> croot option res" where
  "pg_get_root c w tenant_id root_hash = pg_select [tenant_id, root_hash] (pg_read w (\<lambda>s.
     case sql_get (tenant_id, root_hash) (t_roots s) of
       None \<Rightarrow> Inr None
     | Some r \<Rightarrow> rbind (sig_load c (ro_countersignature r)) (\<lambda>sg.
         Inr (Some \<lparr>cr_tenant_id = tenant_id, cr_root_hash = root_hash,
           cr_seq_range = (ro_seq_from r, ro_seq_to r), attested_at = ro_attested_at r, countersignature = sg\<rparr>))))"

definition pg_put_capsule_id :: "wire \<Rightarrow> int \<Rightarrow> string \<Rightarrow> (pg, unit) op" where
  "pg_put_capsule_id w i capsule_id = transact w (pg_execute [i] [capsule_id] (op_modify (\<lambda>s.
     s\<lparr>t_bindings := sql_upsert i (\<lambda>old new. new) capsule_id (t_bindings s)\<rparr>)))"

definition pg_get_capsule_id :: "wire \<Rightarrow> int \<Rightarrow> pg \<Rightarrow> string option res" where
  "pg_get_capsule_id w i = pg_read w (\<lambda>s. Inr (sql_get i (t_bindings s)))"

definition pg_entries_for_capsule :: "sig_codec \<Rightarrow> wire \<Rightarrow> string \<Rightarrow> pg \<Rightarrow> entry list res" where
  "pg_entries_for_capsule c w capsule_id = pg_select [capsule_id] (pg_read w (\<lambda>s.
     rmap (pg_row_to_entry c) (sort_key fst
       (concat (map (\<lambda>le. map (\<lambda>_. le) (filter (\<lambda>b. fst b = fst le \<and> snd b = capsule_id) (t_bindings s)))
         (t_log s))))))"

definition pg_put_statement :: "wire \<Rightarrow> string \<Rightarrow> statement \<Rightarrow> (pg, unit) op" where
  "pg_put_statement w h st = (case st of (receipt, leaf_index, tree_size) \<Rightarrow>
     transact w (pg_execute [leaf_index, tree_size] [h] (op_modify (\<lambda>s.
       s\<lparr>t_statements := snd (sql_insert_ignore h (receipt, leaf_index, tree_size) (t_statements s))\<rparr>))))"

definition pg_get_statement :: "wire \<Rightarrow> string \<Rightarrow> pg \<Rightarrow> statement option res" where
  "pg_get_statement w h = pg_select [h] (pg_read w (\<lambda>s. Inr (sql_get h (t_statements s))))"

definition pg_prune :: "wire \<Rightarrow> int \<Rightarrow> (pg, int) op" where
  "pg_prune w cutoff = transact w (\<lambda>s.
     let old = map fst (filter (\<lambda>r. le_logged_at (snd r) < cutoff) (t_log s));
         (n, t) = sql_delete (\<lambda>(h, _, leaf_index, _). leaf_index \<in> set old) (t_statements s)
     in (Inr n, s\<lparr>t_statements := t\<rparr>))"

definition pg_put_subject_index :: "wire \<Rightarrow> string \<Rightarrow> string \<Rightarrow> string option \<Rightarrow> string option \<Rightarrow> (pg, unit) op" where
  "pg_put_subject_index w subject h digest form =
     transact w (pg_execute [] ([subject, h] @ texts digest @ texts form) (op_modify (\<lambda>s.
       s\<lparr>t_subjects := snd (sql_insert_ignore (subject, h) (digest, form) (t_subjects s))\<rparr>)))"

text \<open>\<open>ORDER BY entry_hash\<close>: on hexadecimal digits every collation agrees with the character order.\<close>

definition pg_get_by_subject :: "wire \<Rightarrow> string \<Rightarrow> pg \<Rightarrow> subject_row list res" where
  "pg_get_by_subject w subject = pg_select [subject] (pg_read w (\<lambda>s. Inr
     (sort_key fst (map (\<lambda>((_, h), d, f). (h, d, f)) (filter (\<lambda>r. fst (fst r) = subject) (t_subjects s))))))"

definition pg_put_checkpoint_witness :: "wire \<Rightarrow> string \<Rightarrow> witness \<Rightarrow> (pg, unit) op" where
  "pg_put_checkpoint_witness w log_id v =
     transact w (pg_execute [w_mmr_size v] [log_id, w_mmr_root v, w_key_id v, w_timestamp v] (op_modify (\<lambda>s.
       s\<lparr>t_witnesses := sql_upsert log_id (\<lambda>old new. new) v (t_witnesses s)\<rparr>)))"

definition pg_get_checkpoint_witness :: "wire \<Rightarrow> string \<Rightarrow> pg \<Rightarrow> witness option res" where
  "pg_get_checkpoint_witness w log_id = pg_select [log_id] (pg_read w (\<lambda>s. Inr (sql_get log_id (t_witnesses s))))"

definition record_texts :: "string \<Rightarrow> cp_record \<Rightarrow> string list" where
  "record_texts log_id r = [log_id, cr_root r, cr_prev_root r, cr_key_id r, cr_timestamp r] @ texts (cr_grade r) @
     [cr_entry_hash r, cr_scheme r] @ texts (cr_continuity r)"

text \<open>The existing row is read after the INSERT found it; \<open>None\<close> there would be a \<open>TypeError\<close>.\<close>

definition pg_put_checkpoint_record :: "wire \<Rightarrow> string \<Rightarrow> int \<Rightarrow> cp_record \<Rightarrow> (pg, bool) op" where
  "pg_put_checkpoint_record w log_id mmr_size r = transact w
     (pg_execute [mmr_size, cr_prev_size r, cr_leaf_index r, cr_tree_size r] (record_texts log_id r) (\<lambda>s.
        case sql_insert_ignore (log_id, mmr_size) r (t_records s) of (inserted, t) \<Rightarrow>
          if inserted then (Inr False, s\<lparr>t_records := t\<rparr>)
          else (case sql_get (log_id, mmr_size) t of
              None \<Rightarrow> (Inl TypeError, s)
            | Some existing \<Rightarrow>
                if cr_root existing = cr_root r then (Inr False, s)
                else (Inr True, s\<lparr>t_equivocations := t_equivocations s @
                  [(log_id, \<lparr>eq_mmr_size = mmr_size, eq_first = evidence_of existing, eq_conflicting = evidence_of r\<rparr>)]\<rparr>))))"

definition pg_get_checkpoint_record :: "wire \<Rightarrow> string \<Rightarrow> int \<Rightarrow> pg \<Rightarrow> (int \<times> cp_record) option res" where
  "pg_get_checkpoint_record w log_id mmr_size = pg_select [log_id] (pg_read w (\<lambda>s.
     Inr (map_option (\<lambda>r. (mmr_size, r)) (sql_get (log_id, mmr_size) (t_records s)))))"

definition pg_get_last_checkpoint_record :: "wire \<Rightarrow> string \<Rightarrow> pg \<Rightarrow> (int \<times> cp_record) option res" where
  "pg_get_last_checkpoint_record w log_id = pg_select [log_id] (pg_read w (\<lambda>s. Inr
     (sql_last fst (map (\<lambda>((_, n), r). (n, r)) (filter (\<lambda>p. fst (fst p) = log_id) (t_records s))))))"

definition pg_get_equivocations :: "wire \<Rightarrow> string \<Rightarrow> pg \<Rightarrow> equivocation list res" where
  "pg_get_equivocations w log_id = pg_select [log_id] (pg_read w (\<lambda>s. Inr
     (map snd (filter (\<lambda>p. fst p = log_id) (t_equivocations s)))))"

definition pg_put_sth :: "wire \<Rightarrow> string \<Rightarrow> int \<Rightarrow> int \<Rightarrow> (pg, unit) op" where
  "pg_put_sth w sth_json tree_size timestamp =
     (let ts_us = epoch_us timestamp in
      transact w (pg_execute [tree_size, ts_us] [sth_json] (op_modify (\<lambda>s.
        s\<lparr>t_latest := (case t_latest s of
              None \<Rightarrow> Some (sth_json, Some tree_size, Some ts_us)
            | Some (old, n, us) \<Rightarrow> if sth_newer tree_size ts_us n us then Some (sth_json, Some tree_size, Some ts_us)
                                  else Some (old, n, us)),
          t_history := snd (sql_insert_ignore tree_size (sth_json, ts_us) (t_history s))\<rparr>))))"

definition pg_get_latest_sth :: "wire \<Rightarrow> pg \<Rightarrow> string option res" where
  "pg_get_latest_sth w = pg_read w (\<lambda>s. Inr (map_option fst (t_latest s)))"

definition pg_get_sth_at :: "wire \<Rightarrow> int \<Rightarrow> pg \<Rightarrow> string option res" where
  "pg_get_sth_at w tree_size = pg_read w (\<lambda>s. Inr (map_option fst (sql_get tree_size (t_history s))))"

definition pg_put_public_log_receipt :: "wire \<Rightarrow> pl_receipt \<Rightarrow> (pg, bool) op" where
  "pg_put_public_log_receipt w r = transact w
     (pg_execute (pl_tree_size r # (case pl_log_index r of None \<Rightarrow> [] | Some i \<Rightarrow> [i]))
        ([pl_backend r, pl_root_hash r, pl_sth_timestamp r, pl_uuid r] @ texts (pl_integrated_time r) @
          texts (pl_set r) @ [pl_raw_response r, pl_submitted_at r]) (\<lambda>s.
        case sql_insert_ignore (pl_key r) r (t_receipts s) of (inserted, t) \<Rightarrow> (Inr inserted, s\<lparr>t_receipts := t\<rparr>)))"

definition pg_get_public_log_receipt :: "wire \<Rightarrow> string \<Rightarrow> int \<Rightarrow> string \<Rightarrow> pg \<Rightarrow> pl_receipt option res" where
  "pg_get_public_log_receipt w backend n rh = pg_select [backend, rh] (pg_read w (\<lambda>s.
     Inr (sql_get (backend, n, rh) (t_receipts s))))"

definition pg_get_latest_public_log_receipt :: "wire \<Rightarrow> string \<Rightarrow> pg \<Rightarrow> pl_receipt option res" where
  "pg_get_latest_public_log_receipt w backend = pg_select [backend] (pg_read w (\<lambda>s. Inr
     (sql_last pl_tree_size (filter (\<lambda>r. pl_backend r = backend) (map snd (t_receipts s))))))"

definition pg_get_public_log_receipts_since :: "wire \<Rightarrow> string \<Rightarrow> int \<Rightarrow> pg \<Rightarrow> pl_receipt list res" where
  "pg_get_public_log_receipts_since w backend since = pg_select [backend] (pg_read w (\<lambda>s. Inr
     (sort_key pl_tree_size (filter (\<lambda>r. pl_backend r = backend \<and> since < pl_tree_size r) (map snd (t_receipts s))))))"

definition pg_get_public_log_receipt_covering :: "wire \<Rightarrow> string \<Rightarrow> int \<Rightarrow> pg \<Rightarrow> pl_receipt option res" where
  "pg_get_public_log_receipt_covering w backend min_size = pg_select [backend] (pg_read w (\<lambda>s. Inr
     (sql_first pl_tree_size (filter (\<lambda>r. pl_backend r = backend \<and> min_size \<le> pl_tree_size r) (map snd (t_receipts s))))))"

definition pg_put_public_log_failure :: "wire \<Rightarrow> string \<Rightarrow> string \<Rightarrow> string \<Rightarrow> (pg, unit) op" where
  "pg_put_public_log_failure w backend occurred_at error =
     transact w (pg_execute [] [backend, occurred_at, error] (op_modify (\<lambda>s.
       s\<lparr>t_failures := t_failures s @ [(backend, occurred_at, error)]\<rparr>)))"

section \<open>It implements the in-memory store\<close>

text \<open>The calls the class promises to hide: nothing happened, or an idle timeout and one reconnect.\<close>

definition calm :: "wire \<Rightarrow> bool" where
  "calm w \<longleftrightarrow> first_try w = Up \<or> (first_try w = LostBefore \<and> reconnects w \<and> second_try w = Up)"

definition answered :: "('s, 'a) op \<Rightarrow> bool" where
  "answered run \<longleftrightarrow> (\<forall>s e s'. run s = (Inl e, s') \<longrightarrow> s' = s \<and> e \<noteq> OperationalError)"

lemma answered_intros:
  "answered (op_modify f)"
  "answered run \<Longrightarrow> answered (pg_execute ns ts run)"
  by (simp_all add: answered_def pg_execute_def)

lemma transact_calm:
  assumes "calm w" "answered run"
  shows "transact w run = run"
proof
  fix s
  obtain r s' where run: "run s = (r, s')" by fastforce
  then have "attempt Up run s = run s" using assms(2)
    by (cases r) (auto simp: attempt_def answered_def)
  moreover have "r \<noteq> Inl OperationalError" using assms(2) run by (auto simp: answered_def)
  ultimately show "transact w run s = run s" using assms(1) run
    by (auto simp: transact_def calm_def attempt_def split: exn.split sum.split)
qed

fun pg_do :: "sig_codec \<Rightarrow> wire \<Rightarrow> store_op \<Rightarrow> pg \<Rightarrow> outcome res \<times> pg" where
  "pg_do c w (OpAppend e) = outcome_of (\<lambda>_. Done) (pg_append_entry c w e)"
| "pg_do c w (OpRoot r) = outcome_of (\<lambda>_. Done) (pg_put_root c w r)"
| "pg_do c w (OpCapsule i k) = outcome_of (\<lambda>_. Done) (pg_put_capsule_id w i k)"
| "pg_do c w (OpStatement h st) = outcome_of (\<lambda>_. Done) (pg_put_statement w h st)"
| "pg_do c w (OpPrune cutoff) = outcome_of Count (pg_prune w cutoff)"
| "pg_do c w (OpSubject sub h d f) = outcome_of (\<lambda>_. Done) (pg_put_subject_index w sub h d f)"
| "pg_do c w (OpWitness l v) = outcome_of (\<lambda>_. Done) (pg_put_checkpoint_witness w l v)"
| "pg_do c w (OpRecord l n r) = outcome_of Flag (pg_put_checkpoint_record w l n r)"
| "pg_do c w (OpSth j n t) = outcome_of (\<lambda>_. Done) (pg_put_sth w j n t)"
| "pg_do c w (OpReceipt r) = outcome_of Flag (pg_put_public_log_receipt w r)"
| "pg_do c w (OpFailure b t e) = outcome_of (\<lambda>_. Done) (pg_put_public_log_failure w b t e)"

fun pg_ask :: "sig_codec \<Rightarrow> wire \<Rightarrow> query \<Rightarrow> pg \<Rightarrow> answer res" where
  "pg_ask c w QAll s = map_sum id Entries (pg_all_entries c w s)"
| "pg_ask c w (QAfter i) s = map_sum id Entries (pg_entries_after c w i s)"
| "pg_ask c w QSize s = map_sum id Number (pg_size w s)"
| "pg_ask c w (QRoot tn rh) s = map_sum id Croot (pg_get_root c w tn rh s)"
| "pg_ask c w (QCapsule i) s = map_sum id Text (pg_get_capsule_id w i s)"
| "pg_ask c w (QCapsuleEntries k) s = map_sum id Entries (pg_entries_for_capsule c w k s)"
| "pg_ask c w (QStatement h) s = map_sum id Receipt (pg_get_statement w h s)"
| "pg_ask c w (QSubject sub) s = map_sum id Subjects (pg_get_by_subject w sub s)"
| "pg_ask c w (QWitness l) s = map_sum id Witness (pg_get_checkpoint_witness w l s)"
| "pg_ask c w (QRecord l n) s = map_sum id Position (pg_get_checkpoint_record w l n s)"
| "pg_ask c w (QLastRecord l) s = map_sum id Position (pg_get_last_checkpoint_record w l s)"
| "pg_ask c w (QEquivocations l) s = map_sum id Conflicts (pg_get_equivocations w l s)"
| "pg_ask c w QLatestSth s = map_sum id Text (pg_get_latest_sth w s)"
| "pg_ask c w (QSthAt n) s = map_sum id Text (pg_get_sth_at w n s)"
| "pg_ask c w (QReceipt b n rh) s = map_sum id Public (pg_get_public_log_receipt w b n rh s)"
| "pg_ask c w (QLatestReceipt b) s = map_sum id Public (pg_get_latest_public_log_receipt w b s)"
| "pg_ask c w (QReceiptsSince b n) s = map_sum id Publics (pg_get_public_log_receipts_since w b n s)"
| "pg_ask c w (QReceiptCovering b n) s = map_sum id Public (pg_get_public_log_receipt_covering w b n s)"

text \<open>
  What Postgres asks of the caller beyond \<open>legal\<close>: no NUL in a text, and a root anchored again
  keeps its sequence range.
\<close>

fun op_texts :: "sig_codec \<Rightarrow> store_op \<Rightarrow> string list" where
  "op_texts c (OpAppend e) = [kind e, payload_hash e, sig_dump c (log_signature e)] @ texts (prev_log_hash e)"
| "op_texts c (OpRoot r) = [cr_tenant_id r, cr_root_hash r, sig_dump c (countersignature r)]"
| "op_texts c (OpCapsule i k) = [k]"
| "op_texts c (OpStatement h st) = [h]"
| "op_texts c (OpPrune cutoff) = []"
| "op_texts c (OpSubject sub h d f) = [sub, h] @ texts d @ texts f"
| "op_texts c (OpWitness l v) = [l, w_mmr_root v, w_key_id v, w_timestamp v]"
| "op_texts c (OpRecord l n r) = record_texts l r"
| "op_texts c (OpSth j n t) = [j]"
| "op_texts c (OpReceipt r) = [pl_backend r, pl_root_hash r, pl_sth_timestamp r, pl_uuid r] @
     texts (pl_integrated_time r) @ texts (pl_set r) @ [pl_raw_response r, pl_submitted_at r]"
| "op_texts c (OpFailure b t e) = [b, t, e]"

fun same_range :: "store_op \<Rightarrow> mem_store \<Rightarrow> bool" where
  "same_range (OpRoot r) m \<longleftrightarrow> (case get_root (cr_tenant_id r) (cr_root_hash r) m of
     None \<Rightarrow> True | Some old \<Rightarrow> cr_seq_range old = cr_seq_range r)"
| "same_range _ m \<longleftrightarrow> True"

definition pg_legal :: "sig_codec \<Rightarrow> store_op \<Rightarrow> mem_store \<Rightarrow> bool" where
  "pg_legal c w m \<longleftrightarrow> legal w m \<and> list_all text_ok (op_texts c w) \<and> same_range w m"

fun query_texts :: "query \<Rightarrow> string list" where
  "query_texts (QRoot tn rh) = [tn, rh]"
| "query_texts (QCapsuleEntries k) = [k]"
| "query_texts (QStatement h) = [h]"
| "query_texts (QSubject sub) = [sub]"
| "query_texts (QWitness l) = [l]"
| "query_texts (QRecord l n) = [l]"
| "query_texts (QLastRecord l) = [l]"
| "query_texts (QEquivocations l) = [l]"
| "query_texts (QReceipt b n rh) = [b, rh]"
| "query_texts (QLatestReceipt b) = [b]"
| "query_texts (QReceiptsSince b n) = [b]"
| "query_texts (QReceiptCovering b n) = [b]"
| "query_texts _ = []"

lemma transact_run: "calm w \<Longrightarrow> run s = (Inr x, s') \<Longrightarrow> transact w run s = (Inr x, s')"
  by (auto simp: transact_def calm_def attempt_def)

lemma execute_run:
  "calm w \<Longrightarrow> list_all int64 ns \<Longrightarrow> list_all text_ok ts \<Longrightarrow> run s = (Inr x, s') \<Longrightarrow>
   transact w (pg_execute ns ts run) s = (Inr x, s')"
  by (simp add: transact_run pg_execute_def)

lemma execute_modify:
  "calm w \<Longrightarrow> list_all int64 ns \<Longrightarrow> list_all text_ok ts \<Longrightarrow>
   transact w (pg_execute ns ts (op_modify f)) s = (Inr (), f s)"
  by (simp add: execute_run)

lemma read_run: "calm w \<Longrightarrow> run s = Inr x \<Longrightarrow> pg_read w run s = Inr x"
  by (simp add: pg_read_def transact_run)

lemma roots_rel_upsert:
  assumes "roots_rel f c t d" "datetime_range (attested_at r)"
    and "case map_of d (cr_tenant_id r, cr_root_hash r) of None \<Rightarrow> True | Some old \<Rightarrow> cr_seq_range old = cr_seq_range r"
  shows "roots_rel f c (sql_upsert (cr_tenant_id r, cr_root_hash r)
      (\<lambda>old new. old\<lparr>ro_attested_at := ro_attested_at new, ro_countersignature := ro_countersignature new\<rparr>)
      (root_cols_of f c r) t)
    (dict_set (cr_tenant_id r, cr_root_hash r) r d)"
  using assms by (auto simp: roots_rel_def upsert_map root_cols_of_def split: option.splits)

lemma table_rel_upsert: "table_rel t d \<Longrightarrow> table_rel (sql_upsert k (\<lambda>old new. new) v t) (dict_set k v d)"
  by (auto simp: table_rel_def upsert_map upsert_unique unique_dict_set split: option.splits)

lemma pg_pruned_rows:
  assumes "implements (\<lambda>t. t) c s m"
  shows "set (map fst (filter (\<lambda>r. le_logged_at (snd r) < cutoff) (t_log s))) =
    log_index ` {e \<in> set (m_log m). logged_at e < cutoff}"
proof -
  have "t_log s = map (\<lambda>e. (log_index e, log_cols_of (\<lambda>t. t) c e)) (m_log m)"
    using assms by (simp add: implements_def log_rel_def)
  then show ?thesis by (force simp: log_cols_of_def)
qed

lemma pg_record_step:
  assumes "calm w" "implements (\<lambda>t. t) c s m" "pg_legal c (OpRecord l n r) m"
  shows "\<exists>b m'. put_checkpoint_record l n r m = (b, m') \<and>
    (\<exists>s'. pg_put_checkpoint_record w l n r s = (Inr b, s') \<and> implements (\<lambda>t. t) c s' m')"
proof -
  have ok: "list_all int64 [n, cr_prev_size r, cr_leaf_index r, cr_tree_size r]" "list_all text_ok (record_texts l r)"
    using assms(3) by (simp_all add: pg_legal_def legal_def)
  show ?thesis
  proof (cases "map_of (t_records s) (l, n)")
    case None
    note new = implements_record_new [OF assms(2) None, of r]
    have "pg_put_checkpoint_record w l n r s = (Inr False, s\<lparr>t_records := t_records s @ [((l, n), r)]\<rparr>)"
      unfolding pg_put_checkpoint_record_def by (rule execute_run [OF assms(1) ok]) (simp add: new)
    with new show ?thesis by blast
  next
    case (Some old)
    note seen = implements_record_old [OF assms(2) Some, of r]
    have run: "pg_put_checkpoint_record w l n r s = (if cr_root old = cr_root r then (Inr False, s)
        else (Inr True, s\<lparr>t_equivocations := t_equivocations s @
          [(l, \<lparr>eq_mmr_size = n, eq_first = evidence_of old, eq_conflicting = evidence_of r\<rparr>)]\<rparr>))"
      (is "_ = ?outcome")
    proof (cases "cr_root old = cr_root r")
      case True
      show ?thesis unfolding pg_put_checkpoint_record_def if_P [OF True]
        by (rule execute_run [OF assms(1) ok]) (simp add: seen sql_get_def Some True)
    next
      case False
      show ?thesis unfolding pg_put_checkpoint_record_def if_not_P [OF False]
        by (rule execute_run [OF assms(1) ok]) (simp add: seen sql_get_def Some False)
    qed
    show ?thesis using seen assms(2) by (cases "put_checkpoint_record l n r m") (auto simp: run)
  qed
qed

lemma pg_receipt_step:
  assumes "calm w" "implements (\<lambda>t. t) c s m" "pg_legal c (OpReceipt r) m"
  shows "\<exists>b m' s'. put_public_log_receipt r m = (b, m') \<and>
    pg_put_public_log_receipt w r s = (Inr b, s') \<and> implements (\<lambda>t. t) c s' m'"
proof -
  obtain b t where ins: "sql_insert_ignore (pl_key r) r (t_receipts s) = (b, t)" by fastforce
  have ok: "issued (OpReceipt r) m" using assms(3) unfolding pg_legal_def legal_def by blast
  have ints: "list_all int64 (pl_tree_size r # (case pl_log_index r of None \<Rightarrow> [] | Some i \<Rightarrow> [i]))"
    using assms(3) by (simp add: pg_legal_def legal_def)
  have "pg_put_public_log_receipt w r s = (Inr b, s\<lparr>t_receipts := t\<rparr>)" unfolding pg_put_public_log_receipt_def
    by (rule execute_run [OF assms(1) ints]) (use assms(3) in \<open>simp_all add: pg_legal_def ins\<close>)
  with implements_receipt [OF assms(2) ok ins] show ?thesis by blast
qed

lemma pg_step:
  assumes "calm w" "implements (\<lambda>t. t) c s m" "pg_legal c a m"
  shows "fst (pg_do c w a s) = fst (mem_do a m) \<and> implements (\<lambda>t. t) c (snd (pg_do c w a s)) (snd (mem_do a m))"
proof (cases a)
  case (OpAppend e)
  then have "log_index e = store_size m" "datetime_range (logged_at e)" "int64 (store_size m)"
    and texts: "list_all text_ok (op_texts c a)"
    using assms(3) by (auto simp: pg_legal_def legal_def)
  note app = implements_append [OF assms(2) this(1,2)]
  have index: "list_all int64 [log_index e]" using \<open>log_index e = store_size m\<close> \<open>int64 (store_size m)\<close> by simp
  have "pg_append_entry c w e s = (Inr (), s\<lparr>t_log := t_log s @ [(log_index e, log_cols_of (\<lambda>t. t) c e)]\<rparr>)"
    unfolding pg_append_entry_def Let_def
    by (rule execute_run [OF assms(1) index]) (use app texts OpAppend in \<open>simp_all add: log_cols_of_def\<close>)
  with app OpAppend show ?thesis by (simp add: outcome_of_def done_with_def)
next
  case (OpRoot r)
  then have ok: "datetime_range (attested_at r)" "case map_of (m_roots m) (cr_tenant_id r, cr_root_hash r) of
      None \<Rightarrow> True | Some old \<Rightarrow> cr_seq_range old = cr_seq_range r"
    using assms(3) by (simp_all add: pg_legal_def legal_def get_root_def)
  have "roots_rel (\<lambda>t. t) c (t_roots s) (m_roots m)" using assms(2) by (simp add: implements_def)
  note root = implements_root [OF assms(2) roots_rel_upsert [OF this ok]]
  have "pg_put_root c w r s = (Inr (), s\<lparr>t_roots := sql_upsert (cr_tenant_id r, cr_root_hash r)
      (\<lambda>old new. old\<lparr>ro_attested_at := ro_attested_at new, ro_countersignature := ro_countersignature new\<rparr>)
      (root_cols_of (\<lambda>t. t) c r) (t_roots s)\<rparr>)"
    unfolding pg_put_root_def Let_def
    by (rule execute_modify [OF assms(1)]) (use assms(3) OpRoot in \<open>simp_all add: pg_legal_def legal_def root_cols_of_def\<close>)
  with root OpRoot show ?thesis by (simp add: outcome_of_def done_with_def)
next
  case (OpStatement h st)
  then show ?thesis using assms
    by (cases st) (simp add: pg_legal_def legal_def pg_put_statement_def outcome_of_def execute_modify done_with_def implements_write)
next
  case (OpPrune cutoff)
  note old = pg_pruned_rows [OF assms(2), of cutoff]
  obtain n t where del: "sql_delete (\<lambda>(h, _, i, _). i \<in> set (map fst (filter (\<lambda>r. le_logged_at (snd r) < cutoff) (t_log s))))
      (t_statements s) = (n, t)" by fastforce
  have "pg_prune w cutoff s = (Inr n, s\<lparr>t_statements := t\<rparr>)" unfolding pg_prune_def
    by (rule transact_run [OF assms(1)]) (use del in \<open>simp add: Let_def\<close>)
  with implements_prune [OF assms(2) old del] OpPrune show ?thesis by (auto simp: outcome_of_def)
next
  case (OpRecord l n r)
  with pg_record_step [OF assms(1,2), of l n r] assms(3) show ?thesis by (auto simp: outcome_of_def)
next
  case (OpReceipt r)
  with pg_receipt_step [OF assms(1,2), of r] assms(3) show ?thesis by (auto simp: outcome_of_def)
next
  case (OpCapsule i k)
  have "table_rel (t_bindings s) (m_capsule_ids m)" using assms(2) by (simp add: implements_def)
  then have "table_rel (sql_upsert i (\<lambda>old new. new) k (t_bindings s)) (dict_set i k (m_capsule_ids m))"
    by (rule table_rel_upsert)
  then show ?thesis using assms OpCapsule
    by (simp add: pg_legal_def legal_def pg_put_capsule_id_def outcome_of_def execute_modify done_with_def implements_write)
next
  case (OpWitness l v)
  have "map_of (sql_upsert l (\<lambda>old new. new) v (t_witnesses s)) = (map_of (t_witnesses s))(l \<mapsto> v)"
    by (simp add: upsert_map split: option.split)
  then show ?thesis using assms OpWitness
    by (simp add: pg_legal_def legal_def pg_put_checkpoint_witness_def outcome_of_def execute_modify done_with_def implements_write)
next
  case (OpSth j n tm)
  then have "0 \<le> n" "clock_range tm" "list_all int64 [n, epoch_us tm]" "list_all text_ok [j]"
    using assms(3) by (simp_all add: pg_legal_def legal_def del: clock_range_key)
  note sth = implements_sth [OF assms(2) this(1,2), of j] execute_modify [OF assms(1) this(3,4)]
  show ?thesis using sth(1) unfolding OpSth pg_do.simps mem_do.simps outcome_of_def pg_put_sth_def Let_def sth(2) done_with_def
    by simp
next
  case (OpSubject sub h d f)
  then show ?thesis using assms
    by (simp add: pg_legal_def pg_put_subject_index_def outcome_of_def execute_modify done_with_def implements_write)
next
  case (OpFailure b t e)
  then show ?thesis using assms
    by (simp add: pg_legal_def pg_put_public_log_failure_def outcome_of_def execute_modify done_with_def implements_write)
qed

lemma pg_rows_to_entries:
  "codec_ok c \<Longrightarrow> rmap (pg_row_to_entry c) (map (\<lambda>e. (log_index e, log_cols_of (\<lambda>t. t) c e)) es) = Inr es"
  by (induction es) (simp_all add: pg_row_to_entry_def log_cols_of_def codec_ok_def)

lemma pg_answer:
  assumes "calm w" "codec_ok c" "implements (\<lambda>t. t) c s m" "list_all text_ok (query_texts q)"
  shows "pg_ask c w q s = Inr (by_hash (mem_ask q m))"
proof -
  note read = read_run [OF assms(1)] and entries = pg_rows_to_entries [OF assms(2)]
  show ?thesis
  proof (cases q)
    case QAll
    have "pg_all_entries c w s = Inr (m_log m)" unfolding pg_all_entries_def
      by (rule read) (simp add: implements_all [OF assms(3)] entries)
    then show ?thesis using QAll by (simp add: all_entries_def)
  next
    case (QAfter i)
    have "pg_entries_after c w i s = Inr (entries_after i m)" unfolding pg_entries_after_def
      by (rule read) (simp add: implements_rows [OF assms(3), of "\<lambda>n. i \<le> n"] entries entries_after_def)
    then show ?thesis using QAfter by simp
  next
    case (QCapsuleEntries k)
    have "pg_entries_for_capsule c w k s = Inr (entries_for_capsule k m)" unfolding pg_entries_for_capsule_def
      using QCapsuleEntries assms(4)
      by (simp add: pg_select_def) (rule read, simp add: implements_join [OF assms(3)] entries)
    then show ?thesis using QCapsuleEntries by simp
  next
    case (QRoot tn rh)
    have "pg_get_root c w tn rh s = Inr (get_root tn rh m)" unfolding pg_get_root_def
      using QRoot assms(4)
    proof (simp add: pg_select_def, intro read)
      show "(case sql_get (tn, rh) (t_roots s) of None \<Rightarrow> Inr None
          | Some r \<Rightarrow> rbind (sig_load c (ro_countersignature r)) (\<lambda>sg.
              Inr (Some \<lparr>cr_tenant_id = tn, cr_root_hash = rh, cr_seq_range = (ro_seq_from r, ro_seq_to r),
                attested_at = ro_attested_at r, countersignature = sg\<rparr>))) = Inr (get_root tn rh m)"
        using implements_root_key [OF assms(3), of tn rh] assms(2)
        by (cases "get_root tn rh m") (simp_all add: implements_get_root [OF assms(3)] root_cols_of_def codec_ok_def)
    qed
    then show ?thesis using QRoot by simp
  next
    case (QSubject sub)
    then show ?thesis using implements_by_subject [OF assms(3), of sub] assms(4)
      by (simp add: pg_get_by_subject_def pg_select_def read)
  qed (use assms(4) in \<open>simp_all add: read pg_select_def pg_size_def pg_get_capsule_id_def pg_get_statement_def
         pg_get_checkpoint_witness_def pg_get_checkpoint_record_def pg_get_last_checkpoint_record_def
         pg_get_equivocations_def pg_get_latest_sth_def pg_get_sth_at_def pg_get_public_log_receipt_def
         pg_get_latest_public_log_receipt_def pg_get_public_log_receipts_since_def
         pg_get_public_log_receipt_covering_def implements_read [OF assms(3)]\<close>)
qed

section \<open>A session: every call meets the next fate of the connection\<close>

type_synonym pg_session = "wire list \<times> pg"

definition steady :: wire where
  "steady = \<lparr>first_try = Up, reconnects = True, second_try = Up\<rparr>"

fun fate :: "wire list \<Rightarrow> wire \<times> wire list" where
  "fate [] = (steady, [])"
| "fate (w # ws) = (w, ws)"

definition session_do :: "sig_codec \<Rightarrow> store_op \<Rightarrow> pg_session \<Rightarrow> outcome res \<times> pg_session" where
  "session_do c a s = (case fate (fst s) of (w, ws) \<Rightarrow> (case pg_do c w a (snd s) of (r, t) \<Rightarrow> (r, ws, t)))"

definition session_ask :: "sig_codec \<Rightarrow> query \<Rightarrow> pg_session \<Rightarrow> answer res" where
  "session_ask c q s = pg_ask c (fst (fate (fst s))) q (snd s)"

lemma fate_calm: "list_all calm ws \<Longrightarrow> fate ws = (w, ws') \<Longrightarrow> calm w \<and> list_all calm ws'"
  by (cases ws) (auto simp: steady_def calm_def)

interpretation postgres: durable_store "session_do c" "session_ask c"
    "\<lambda>s m. list_all calm (fst s) \<and> implements (\<lambda>t. t) c (snd s) m" "pg_legal c"
    "\<lambda>q. codec_ok c \<and> list_all text_ok (query_texts q)" for c
proof unfold_locales
  fix s :: pg_session and m a
  assume s: "list_all calm (fst s) \<and> implements (\<lambda>t. t) c (snd s) m" and ok: "pg_legal c a m"
  obtain w ws where w: "fate (fst s) = (w, ws)" by fastforce
  with s have "calm w" "list_all calm ws" using fate_calm by blast+
  with pg_step [OF this(1) conjunct2 [OF s] ok] w show
    "fst (session_do c a s) = fst (mem_do a m) \<and>
     list_all calm (fst (snd (session_do c a s))) \<and> implements (\<lambda>t. t) c (snd (snd (session_do c a s))) (snd (mem_do a m))"
    by (simp add: session_do_def split_beta)
next
  fix s :: pg_session and m q
  assume s: "list_all calm (fst s) \<and> implements (\<lambda>t. t) c (snd s) m" and q: "codec_ok c \<and> list_all text_ok (query_texts q)"
  obtain w ws where w: "fate (fst s) = (w, ws)" by fastforce
  with s have "calm w" using fate_calm by blast
  from pg_answer [OF this conjunct1 [OF q] conjunct2 [OF s] conjunct2 [OF q]] w
  show "session_ask c q s = Inr (by_hash (mem_ask q m))" by (simp add: session_ask_def)
qed

section \<open>Properties\<close>

text \<open>C28: the Postgres store refines the in-memory one, also when any of its calls finds the connection
  closed by an idle timeout and reconnects (\<open>calm\<close>: a connection is lost before the write, never between
  the write and its acknowledgement): any sequence of legal writes, without NUL in a text and with a root anchored
  again only with the same sequence range, has the same outcomes, and then every read without NUL in its arguments
  has the same answer up to the order of a subject's statements.\<close>

theorem postgres_refines_memory:
  assumes "codec_ok c" "list_all calm ws" "run_allowed (pg_legal c) writes empty_store" "list_all text_ok (query_texts q)"
  shows "fst (run_ops (session_do c) writes (ws, empty_tables)) = fst (run_ops mem_do writes empty_store) \<and>
    session_ask c q (snd (run_ops (session_do c) writes (ws, empty_tables))) =
      Inr (by_hash (mem_ask q (snd (run_ops mem_do writes empty_store))))"
  using assms by (intro conjI postgres.refines) (simp_all add: implements_empty)

definition sample_wires :: "wire list" where
  "sample_wires = [steady, \<lparr>first_try = LostBefore, reconnects = True, second_try = Up\<rparr>]"

lemma sample_wires_calm: "list_all calm sample_wires"
  by (simp add: sample_wires_def steady_def calm_def)

definition sample_pg_writes :: "store_op list" where
  "sample_pg_writes = [OpRecord ''l'' 7 (sample_record ''r''), OpRecord ''l'' 7 (sample_record ''q''), OpCapsule 0 ''k'']"

lemma sample_pg_writes_legal: "run_allowed (pg_legal c) sample_pg_writes empty_store"
  by (simp add: sample_pg_writes_def pg_legal_def legal_def int64_def sample_record_def record_texts_def texts_def text_ok_def)

lemma sample_pg_conflict: "mem_ask (QEquivocations ''l'') (snd (run_ops mem_do sample_pg_writes empty_store)) \<noteq> Conflicts []"
  by code_simp

theorem postgres_refines_memory_witness:
  "fst (run_ops (session_do sample_codec) sample_pg_writes (sample_wires, empty_tables)) =
     fst (run_ops mem_do sample_pg_writes empty_store) \<and>
   session_ask sample_codec (QEquivocations ''l'')
       (snd (run_ops (session_do sample_codec) sample_pg_writes (sample_wires, empty_tables))) \<noteq> Inr (Conflicts [])"
proof -
  have "list_all text_ok (query_texts (QEquivocations ''l''))" by (simp add: text_ok_def)
  from postgres_refines_memory [OF sample_codec_ok sample_wires_calm sample_pg_writes_legal this]
  show ?thesis using sample_pg_conflict by (simp add: sample_pg_writes_def)
qed

lemma pg_reads_back: "pg_get_root c steady tn rh s = pg_select [tn, rh] (\<lambda>s.
     case sql_get (tn, rh) (t_roots s) of
       None \<Rightarrow> Inr None
     | Some r \<Rightarrow> rbind (sig_load c (ro_countersignature r)) (\<lambda>sg.
         Inr (Some \<lparr>cr_tenant_id = tn, cr_root_hash = rh,
           cr_seq_range = (ro_seq_from r, ro_seq_to r), attested_at = ro_attested_at r, countersignature = sg\<rparr>))) s"
  by (auto simp: pg_get_root_def pg_select_def pg_read_def transact_def steady_def attempt_def split: sum.splits exn.splits)

text \<open>On Postgres a root anchored again with another sequence range comes back with the new time and
  signature but the old range: a countersigned root the service never signed. (On SQLite and in memory
  the new root replaces the old one.)\<close>

theorem postgres_reanchor_keeps_range:
  assumes "codec_ok c" "list_all int64 (op_ints (OpRoot old))" "list_all int64 (op_ints (OpRoot new))"
    and "list_all text_ok (op_texts c (OpRoot old))" "list_all text_ok (op_texts c (OpRoot new))"
    and "cr_tenant_id new = cr_tenant_id old" "cr_root_hash new = cr_root_hash old"
  shows "pg_get_root c steady (cr_tenant_id old) (cr_root_hash old)
      (snd (pg_do c steady (OpRoot new) (snd (pg_do c steady (OpRoot old) empty_tables)))) =
    Inr (Some (new\<lparr>cr_seq_range := cr_seq_range old\<rparr>))"
proof -
  have steady: "calm steady" by (simp add: steady_def calm_def)
  have "pg_do c steady (OpRoot r) s = (Inr Done, s\<lparr>t_roots := sql_upsert (cr_tenant_id r, cr_root_hash r)
      (\<lambda>old new. old\<lparr>ro_attested_at := ro_attested_at new, ro_countersignature := ro_countersignature new\<rparr>)
      (root_cols_of (\<lambda>t. t) c r) (t_roots s)\<rparr>)" if "r \<in> {old, new}" for r s
    using assms that by (auto simp: outcome_of_def pg_put_root_def execute_modify [OF steady] root_cols_of_def Let_def)
  then show ?thesis using assms
    by (simp add: pg_reads_back pg_select_def empty_tables_def sql_upsert_def sql_get_def root_cols_of_def codec_ok_def)
qed

definition sample_root :: "int \<Rightarrow> croot" where
  "sample_root hi = \<lparr>cr_tenant_id = ''t'', cr_root_hash = ''aa'', cr_seq_range = (0, hi),
     attested_at = 1600000000000000 + hi, countersignature = sample_signed\<rparr>"

theorem postgres_reanchor_keeps_range_witness:
  "pg_get_root sample_codec steady ''t'' ''aa'' (snd (pg_do sample_codec steady (OpRoot (sample_root 9))
      (snd (pg_do sample_codec steady (OpRoot (sample_root 5)) empty_tables)))) =
    Inr (Some ((sample_root 9)\<lparr>cr_seq_range := (0, 5)\<rparr>))"
proof -
  have dump: "text_ok (sig_dump sample_codec sample_signed)"
    by (simp add: text_ok_def sample_codec_def sample_signed_def pack_one_def unary_def)
  show ?thesis
    using postgres_reanchor_keeps_range [OF sample_codec_ok, of "sample_root 5" "sample_root 9"] dump
    by (simp add: sample_root_def int64_def text_ok_def)
qed

section \<open>Losing the connection\<close>

lemma answered_record: "answered (\<lambda>s. case sql_insert_ignore (l, n) r (t_records s) of (inserted, t) \<Rightarrow>
    if inserted then (Inr False, s\<lparr>t_records := t\<rparr>)
    else (case sql_get (l, n) t of
        None \<Rightarrow> (Inl TypeError, s)
      | Some existing \<Rightarrow> if cr_root existing = cr_root r then (Inr False, s)
          else (Inr True, s\<lparr>t_equivocations := t_equivocations s @
            [(l, \<lparr>eq_mmr_size = n, eq_first = evidence_of existing, eq_conflicting = evidence_of r\<rparr>)]\<rparr>)))"
  by (auto simp: answered_def split: prod.splits if_splits option.splits)

lemma answered_append: "answered (\<lambda>s. case sql_insert k v (t_log s) of
    Inl ex \<Rightarrow> (Inl ex, s) | Inr t \<Rightarrow> (Inr (), s\<lparr>t_log := t\<rparr>))"
  by (auto simp: answered_def sql_insert_def)

lemma answered_receipt: "answered (\<lambda>s. case sql_insert_ignore k v (t_receipts s) of
    (inserted, t) \<Rightarrow> (Inr inserted, s\<lparr>t_receipts := t\<rparr>))"
  by (auto simp: answered_def split: prod.splits)

lemma answered_prune: "answered (\<lambda>s. let old = g s; (n, t) = sql_delete (P old) (t_statements s)
    in (Inr n, s\<lparr>t_statements := t\<rparr>))"
  by (auto simp: answered_def Let_def split: prod.splits)

lemma steady_calm: "calm steady"
  by (simp add: steady_def calm_def)

lemma transact_steady: "calm w \<Longrightarrow> answered run \<Longrightarrow> transact w run = transact steady run"
  by (simp add: transact_calm steady_calm)

text \<open>The reconnect policy is transparent: a write that finds the connection closed by an idle timeout
  has, on every state and with every outcome, errors included, the effect it has on a live connection.\<close>

theorem postgres_idle_timeout_transparent:
  assumes "calm w"
  shows "pg_do c w a s = pg_do c steady a s"
proof -
  note same = transact_steady [OF assms] and ok = answered_intros answered_record answered_append answered_receipt answered_prune
  show ?thesis
  proof (cases a)
    case (OpStatement h st)
    then show ?thesis by (cases st) (simp add: outcome_of_def pg_put_statement_def same ok)
  next
    case (OpPrune cutoff)
    show ?thesis by (simp only: OpPrune pg_do.simps outcome_of_def pg_prune_def same [OF answered_prune])
  qed (simp_all add: outcome_of_def same ok pg_append_entry_def pg_put_root_def pg_put_capsule_id_def
      pg_put_subject_index_def pg_put_checkpoint_witness_def pg_put_checkpoint_record_def
      pg_put_sth_def pg_put_public_log_receipt_def pg_put_public_log_failure_def Let_def)
qed

theorem postgres_idle_timeout_transparent_witness:
  "first_try (hd (tl sample_wires)) = LostBefore \<and>
   pg_do sample_codec (hd (tl sample_wires)) (OpCapsule 0 ''k'') empty_tables =
     pg_do sample_codec steady (OpCapsule 0 ''k'') empty_tables"
proof (rule conjI)
  show "first_try (hd (tl sample_wires)) = LostBefore" by (simp add: sample_wires_def)
  show "pg_do sample_codec (hd (tl sample_wires)) (OpCapsule 0 ''k'') empty_tables =
     pg_do sample_codec steady (OpCapsule 0 ''k'') empty_tables"
    by (rule postgres_idle_timeout_transparent) (use sample_wires_calm in \<open>simp add: sample_wires_def\<close>)
qed

text \<open>A lost acknowledgement is not: when the connection breaks after the commit, the retry of an
  append meets its own row, so the caller gets \<open>IntegrityError\<close> although the entry is stored.\<close>

theorem postgres_append_lost_acknowledgement:
  assumes "first_try w = LostAfter" "reconnects w" "second_try w = Up"
    and "pg_do c steady (OpAppend e) s = (Inr Done, s')"
  shows "pg_do c w (OpAppend e) s = (Inl IntegrityError, s')"
proof -
  have "list_all int64 [log_index e]"
    "list_all text_ok ([kind e, payload_hash e, sig_dump c (log_signature e)] @ texts (prev_log_hash e))"
    "log_index e \<notin> fst ` set (t_log s)"
    "s' = s\<lparr>t_log := t_log s @ [(log_index e, log_cols_of (\<lambda>t. t) c e)]\<rparr>"
    using assms(4) by (auto simp: outcome_of_def pg_append_entry_def Let_def transact_def steady_def attempt_def
        pg_execute_def sql_insert_def log_cols_of_def split: if_splits sum.splits exn.splits prod.splits)
  then show ?thesis using assms(1-3)
    by (simp add: outcome_of_def pg_append_entry_def Let_def transact_def attempt_def pg_execute_def sql_insert_def log_cols_of_def)
qed

theorem postgres_append_lost_acknowledgement_witness:
  "\<exists>s'. t_log s' \<noteq> [] \<and> pg_do sample_codec \<lparr>first_try = LostAfter, reconnects = True, second_try = Up\<rparr>
     (OpAppend sample_entry) empty_tables = (Inl IntegrityError, s')"
proof -
  have "text_ok (sig_dump sample_codec sample_signed)"
    by (simp add: text_ok_def sample_codec_def sample_signed_def pack_one_def unary_def)
  then have "pg_do sample_codec steady (OpAppend sample_entry) empty_tables =
      (Inr Done, empty_tables\<lparr>t_log := [(0, log_cols_of (\<lambda>t. t) sample_codec sample_entry)]\<rparr>)"
    by (simp add: outcome_of_def pg_append_entry_def Let_def transact_def steady_def attempt_def pg_execute_def
        sql_insert_def log_cols_of_def sample_entry_def int64_def text_ok_def texts_def empty_tables_def)
  from postgres_append_lost_acknowledgement [OF _ _ _ this, of "\<lparr>first_try = LostAfter, reconnects = True, second_try = Up\<rparr>"]
  show ?thesis by fastforce
qed

end
