(* ===== verification/Schema.thy ===== *)
theory Schema
  imports Sql
begin

text \<open>
  \<open>_init_schema\<close> of the three SQL backends: the tables they create and the columns they add to a
  database that an older version left behind. Opening a database twice changes nothing, and an old
  one comes out with the current columns, its rows kept and \<open>NULL\<close> in what was added.
\<close>

section \<open>Data definition statements\<close>

datatype sql_type = INTEGER | BIGINT | TEXT | BLOB | BYTEA | TIMESTAMPTZ | AUTOINCREMENT

text \<open>A column: its name, its type and whether it is NOT NULL. A row lists the cells by column.\<close>

type_synonym column = "string \<times> sql_type \<times> bool"

record 'v relation =
  cols :: "column list"
  primary :: "string list"
  contents :: "(string \<times> 'v option) list list"

type_synonym 'v database = "(string \<times> 'v relation) list"

datatype ddl =
    Create string "column list" "string list"
  | AddColumn string string sql_type

definition col_names :: "'v relation \<Rightarrow> string list" where
  "col_names d = map fst (cols d)"

definition add_column :: "string \<Rightarrow> sql_type \<Rightarrow> 'v relation \<Rightarrow> 'v relation" where
  "add_column c ty d = (if c \<in> set (col_names d) then d
     else d\<lparr>cols := cols d @ [(c, ty, False)], contents := map (\<lambda>r. r @ [(c, None)]) (contents d)\<rparr>)"

text \<open>\<open>CREATE TABLE IF NOT EXISTS\<close>; \<open>ADD COLUMN IF NOT EXISTS\<close>, or the test of \<open>PRAGMA table_info\<close>.\<close>

fun exec_ddl :: "ddl \<Rightarrow> 'v database \<Rightarrow> 'v database" where
  "exec_ddl (Create n cs key) db =
     (if n \<in> set (map fst db) then db else db @ [(n, \<lparr>cols = cs, primary = key, contents = []\<rparr>)])"
| "exec_ddl (AddColumn n c ty) db = map (\<lambda>(m, d). (m, if m = n then add_column c ty d else d)) db"

definition run_ddl :: "ddl list \<Rightarrow> 'v database \<Rightarrow> 'v database" where
  "run_ddl script db = fold exec_ddl script db"

abbreviation needed :: "string \<Rightarrow> sql_type \<Rightarrow> column" where
  "needed c ty \<equiv> (c, ty, True)"

abbreviation nullable :: "string \<Rightarrow> sql_type \<Rightarrow> column" where
  "nullable c ty \<equiv> (c, ty, False)"

section \<open>The scripts\<close>

definition sqlite_log_tables :: "ddl list" where
  "sqlite_log_tables =
    [Create ''log_entries''
       [nullable ''log_index'' INTEGER, needed ''logged_at'' TEXT, needed ''kind'' TEXT, needed ''payload_hash'' TEXT,
        needed ''log_signature'' TEXT, nullable ''prev_log_hash'' TEXT] [''log_index''],
     Create ''countersigned_roots''
       [needed ''tenant_id'' TEXT, needed ''root_hash'' TEXT, needed ''seq_from'' INTEGER, needed ''seq_to'' INTEGER,
        needed ''attested_at'' TEXT, needed ''countersignature'' TEXT] [''tenant_id'', ''root_hash''],
     Create ''log_capsule_bindings''
       [nullable ''log_index'' INTEGER, needed ''capsule_id'' TEXT] [''log_index''],
     Create ''submitted_statements''
       [nullable ''entry_hash'' TEXT, needed ''receipt'' BLOB, needed ''leaf_index'' INTEGER, needed ''tree_size'' INTEGER]
       [''entry_hash''],
     Create ''subject_index''
       [needed ''subject'' TEXT, needed ''entry_hash'' TEXT, nullable ''capsule_id_digest'' TEXT,
        nullable ''payload_form'' TEXT] [''subject'', ''entry_hash''],
     AddColumn ''subject_index'' ''payload_form'' TEXT,
     Create ''signed_tree_heads''
       [nullable ''id'' INTEGER, needed ''sth_json'' TEXT, needed ''tree_size'' INTEGER, needed ''ts_epoch_us'' INTEGER]
       [''id''],
     AddColumn ''signed_tree_heads'' ''tree_size'' INTEGER,
     AddColumn ''signed_tree_heads'' ''ts_epoch_us'' INTEGER,
     Create ''signed_tree_head_history''
       [nullable ''tree_size'' INTEGER, needed ''sth_json'' TEXT, needed ''ts_epoch_us'' INTEGER] [''tree_size'']]"

definition sqlite_checkpoint_tables :: "ddl list" where
  "sqlite_checkpoint_tables =
    [Create ''checkpoint_witnesses''
       [nullable ''log_id'' TEXT, needed ''mmr_size'' INTEGER, needed ''mmr_root'' TEXT, needed ''key_id'' TEXT,
        needed ''timestamp'' TEXT] [''log_id''],
     Create ''checkpoint_records''
       [needed ''log_id'' TEXT, needed ''mmr_size'' INTEGER, needed ''root'' TEXT, needed ''prev_size'' INTEGER,
        needed ''prev_root'' TEXT, needed ''key_id'' TEXT, needed ''timestamp'' TEXT, nullable ''grade'' TEXT,
        needed ''entry_hash'' TEXT, needed ''entry_hash_scheme'' TEXT, needed ''leaf_index'' INTEGER,
        needed ''tree_size'' INTEGER, needed ''receipt'' BLOB] [''log_id'', ''mmr_size''],
     AddColumn ''checkpoint_records'' ''continuity_grade'' TEXT,
     Create ''checkpoint_equivocations''
       [nullable ''id'' AUTOINCREMENT, needed ''log_id'' TEXT, needed ''mmr_size'' INTEGER, needed ''first_root'' TEXT,
        needed ''first_entry_hash'' TEXT, needed ''first_timestamp'' TEXT, needed ''conflicting_root'' TEXT,
        needed ''conflicting_entry_hash'' TEXT, needed ''conflicting_timestamp'' TEXT] [''id''],
     Create ''public_log_receipts''
       [needed ''backend'' TEXT, needed ''sth_tree_size'' INTEGER, needed ''sth_root_hash'' TEXT,
        needed ''sth_timestamp'' TEXT, needed ''uuid'' TEXT, nullable ''log_index'' INTEGER,
        nullable ''integrated_time'' TEXT, nullable ''signed_entry_timestamp'' TEXT, needed ''raw_response'' TEXT,
        needed ''submitted_at'' TEXT] [''backend'', ''sth_tree_size'', ''sth_root_hash''],
     Create ''public_log_failures''
       [nullable ''id'' AUTOINCREMENT, needed ''backend'' TEXT, needed ''occurred_at'' TEXT, needed ''error'' TEXT] [''id'']]"

definition sqlite_init_schema :: "'v database \<Rightarrow> 'v database" where
  "sqlite_init_schema db = run_ddl (sqlite_log_tables @ sqlite_checkpoint_tables) db"

definition pg_log_tables :: "ddl list" where
  "pg_log_tables =
    [Create ''log_entries''
       [nullable ''log_index'' BIGINT, needed ''logged_at'' TIMESTAMPTZ, needed ''kind'' TEXT, needed ''payload_hash'' TEXT,
        needed ''log_signature'' TEXT, nullable ''prev_log_hash'' TEXT] [''log_index''],
     Create ''countersigned_roots''
       [needed ''tenant_id'' TEXT, needed ''root_hash'' TEXT, needed ''seq_from'' BIGINT, needed ''seq_to'' BIGINT,
        needed ''attested_at'' TIMESTAMPTZ, needed ''countersignature'' TEXT] [''tenant_id'', ''root_hash''],
     Create ''log_capsule_bindings''
       [nullable ''log_index'' BIGINT, needed ''capsule_id'' TEXT] [''log_index''],
     Create ''submitted_statements''
       [nullable ''entry_hash'' TEXT, needed ''receipt'' BYTEA, needed ''leaf_index'' BIGINT, needed ''tree_size'' BIGINT]
       [''entry_hash''],
     Create ''subject_index''
       [needed ''subject'' TEXT, needed ''entry_hash'' TEXT, nullable ''capsule_id_digest'' TEXT,
        nullable ''payload_form'' TEXT] [''subject'', ''entry_hash''],
     AddColumn ''subject_index'' ''payload_form'' TEXT,
     Create ''signed_tree_heads''
       [nullable ''id'' INTEGER, needed ''sth_json'' TEXT, needed ''tree_size'' BIGINT, needed ''ts_epoch_us'' BIGINT]
       [''id''],
     AddColumn ''signed_tree_heads'' ''tree_size'' BIGINT,
     AddColumn ''signed_tree_heads'' ''ts_epoch_us'' BIGINT,
     Create ''signed_tree_head_history''
       [nullable ''tree_size'' BIGINT, needed ''sth_json'' TEXT, needed ''ts_epoch_us'' BIGINT] [''tree_size'']]"

definition pg_checkpoint_tables :: "ddl list" where
  "pg_checkpoint_tables =
    [Create ''checkpoint_witnesses''
       [nullable ''log_id'' TEXT, needed ''mmr_size'' BIGINT, needed ''mmr_root'' TEXT, needed ''key_id'' TEXT,
        needed ''timestamp'' TEXT] [''log_id''],
     Create ''checkpoint_records''
       [needed ''log_id'' TEXT, needed ''mmr_size'' BIGINT, needed ''root'' TEXT, needed ''prev_size'' BIGINT,
        needed ''prev_root'' TEXT, needed ''key_id'' TEXT, needed ''timestamp'' TEXT, nullable ''grade'' TEXT,
        needed ''entry_hash'' TEXT, needed ''entry_hash_scheme'' TEXT, needed ''leaf_index'' BIGINT,
        needed ''tree_size'' BIGINT, needed ''receipt'' BYTEA] [''log_id'', ''mmr_size''],
     AddColumn ''checkpoint_records'' ''continuity_grade'' TEXT,
     Create ''checkpoint_equivocations''
       [nullable ''id'' AUTOINCREMENT, needed ''log_id'' TEXT, needed ''mmr_size'' BIGINT, needed ''first_root'' TEXT,
        needed ''first_entry_hash'' TEXT, needed ''first_timestamp'' TEXT, needed ''conflicting_root'' TEXT,
        needed ''conflicting_entry_hash'' TEXT, needed ''conflicting_timestamp'' TEXT] [''id''],
     Create ''public_log_receipts''
       [needed ''backend'' TEXT, needed ''sth_tree_size'' BIGINT, needed ''sth_root_hash'' TEXT,
        needed ''sth_timestamp'' TEXT, needed ''uuid'' TEXT, nullable ''log_index'' BIGINT,
        nullable ''integrated_time'' TEXT, nullable ''signed_entry_timestamp'' TEXT, needed ''raw_response'' TEXT,
        needed ''submitted_at'' TEXT] [''backend'', ''sth_tree_size'', ''sth_root_hash''],
     Create ''public_log_failures''
       [nullable ''id'' AUTOINCREMENT, needed ''backend'' TEXT, needed ''occurred_at'' TEXT, needed ''error'' TEXT] [''id'']]"

definition pg_init_schema :: "'v database \<Rightarrow> 'v database" where
  "pg_init_schema db = run_ddl (pg_log_tables @ pg_checkpoint_tables) db"

text \<open>SQLAlchemy's \<open>create_all\<close>, which also skips the tables that exist.\<close>

definition core_create_all :: "'v database \<Rightarrow> 'v database" where
  "core_create_all db = run_ddl
    [Create ''anchor_log_entries''
       [needed ''log_index'' INTEGER, needed ''logged_at'' TEXT, needed ''kind'' TEXT, needed ''payload_hash'' TEXT,
        needed ''log_signature'' TEXT, nullable ''prev_log_hash'' TEXT] [''log_index''],
     Create ''anchor_countersigned_roots''
       [needed ''tenant_id'' TEXT, needed ''root_hash'' TEXT, needed ''seq_from'' INTEGER, needed ''seq_to'' INTEGER,
        needed ''attested_at'' TEXT, needed ''countersignature'' TEXT] [''tenant_id'', ''root_hash''],
     Create ''anchor_log_capsule_bindings''
       [needed ''log_index'' INTEGER, needed ''capsule_id'' TEXT] [''log_index'']] db"

section \<open>What a script does to a database\<close>

definition settled :: "ddl \<Rightarrow> 'v database \<Rightarrow> bool" where
  "settled i db \<longleftrightarrow> (case i of
     Create n _ _ \<Rightarrow> n \<in> set (map fst db)
   | AddColumn n c _ \<Rightarrow> (\<forall>(m, d) \<in> set db. m = n \<longrightarrow> c \<in> set (col_names d)))"

definition keeps :: "ddl \<Rightarrow> ddl \<Rightarrow> bool" where
  "keeps i j \<longleftrightarrow> (case (i, j) of (AddColumn n _ _, Create m _ _) \<Rightarrow> n \<noteq> m | _ \<Rightarrow> True)"

fun ordered :: "ddl list \<Rightarrow> bool" where
  "ordered [] \<longleftrightarrow> True"
| "ordered (i # is) \<longleftrightarrow> list_all (keeps i) is \<and> ordered is"

lemma scripts_ordered:
  "ordered (sqlite_log_tables @ sqlite_checkpoint_tables)" "ordered (pg_log_tables @ pg_checkpoint_tables)"
  by code_simp+

lemma add_column_names: "set (col_names (add_column c ty d)) = insert c (set (col_names d))"
  by (auto simp: add_column_def col_names_def)

lemma exec_names: "set (map fst db) \<subseteq> set (map fst (exec_ddl i db))"
  by (cases i) force+

lemma settled_exec: "settled i (exec_ddl i db)"
  by (cases i) (auto simp: settled_def add_column_names)

lemma exec_settled: "settled i db \<Longrightarrow> exec_ddl i db = db"
  by (cases i) (auto simp: settled_def add_column_def intro!: map_idI)

lemma settled_keep:
  assumes "settled i db" "keeps i j"
  shows "settled i (exec_ddl j db)"
proof (cases i)
  case (Create n cs key)
  then show ?thesis using assms(1) exec_names [of db j] by (auto simp: settled_def)
next
  case (AddColumn n c ty)
  then show ?thesis using assms
    by (cases j) (fastforce simp: settled_def keeps_def add_column_names)+
qed

lemma run_ddl_Cons: "run_ddl (i # is) db = run_ddl is (exec_ddl i db)"
  by (simp add: run_ddl_def)

lemma run_keeps: "settled i db \<Longrightarrow> list_all (keeps i) is \<Longrightarrow> settled i (run_ddl is db)"
  by (induction "is" arbitrary: db) (simp_all add: run_ddl_Cons run_ddl_def settled_keep)

lemma run_settles: "ordered script \<Longrightarrow> i \<in> set script \<Longrightarrow> settled i (run_ddl script db)"
  by (induction script arbitrary: db) (auto simp: run_ddl_Cons intro: run_keeps settled_exec)

lemma run_settled: "\<forall>i \<in> set script. settled i db \<Longrightarrow> run_ddl script db = db"
  by (induction script) (simp_all add: run_ddl_def exec_settled)

lemma run_idempotent: "ordered script \<Longrightarrow> run_ddl script (run_ddl script db) = run_ddl script db"
  by (simp add: run_settled run_settles)

text \<open>A table only grows: new columns at the end, \<open>NULL\<close> in every row it has.\<close>

definition grown :: "'v relation \<Rightarrow> 'v relation \<Rightarrow> bool" where
  "grown d d' \<longleftrightarrow> (\<exists>new. col_names d' = col_names d @ new \<and> primary d' = primary d \<and>
     contents d' = map (\<lambda>r. r @ map (\<lambda>c. (c, None)) new) (contents d))"

lemma grown_refl: "grown d d"
  unfolding grown_def by (rule exI [of _ "[]"]) simp

lemma grown_trans: "grown d e \<Longrightarrow> grown e g \<Longrightarrow> grown d g"
  unfolding grown_def by (elim exE conjE, rule_tac x = "new @ newa" in exI) simp

lemma grown_add: "grown d (add_column c ty d)"
proof (cases "c \<in> set (col_names d)")
  case False
  then show ?thesis unfolding grown_def
    by (intro exI [of _ "[c]"]) (simp add: add_column_def col_names_def)
qed (simp add: add_column_def grown_refl)

lemma map_of_map_value: "map_of (map (\<lambda>(m, d). (m, f m d)) db) n = map_option (f n) (map_of db n)"
  by (induction db) auto

lemma exec_grows: "map_of db n = Some d \<Longrightarrow> \<exists>d'. map_of (exec_ddl i db) n = Some d' \<and> grown d d'"
proof (cases i)
  case (AddColumn m c ty)
  assume "map_of db n = Some d"
  with AddColumn show ?thesis by (simp add: map_of_map_value grown_refl grown_add)
next
  case (Create m cs key)
  assume "map_of db n = Some d"
  with Create show ?thesis by (simp add: map_add_def grown_refl)
qed

lemma run_grows: "map_of db n = Some d \<Longrightarrow> \<exists>d'. map_of (run_ddl script db) n = Some d' \<and> grown d d'"
proof (induction script arbitrary: db d)
  case (Cons i script)
  from exec_grows [OF Cons.prems] Cons.IH show ?case by (metis run_ddl_Cons grown_trans)
qed (simp add: run_ddl_def grown_refl)

lemma grown_columns: "grown d d' \<Longrightarrow> set (col_names d) \<subseteq> set (col_names d')"
  by (auto simp: grown_def)

text \<open>
  The columns a script adds to a table; a database of an older version has, of every table it holds,
  at least the columns that were there from the start.
\<close>

definition added :: "ddl list \<Rightarrow> string \<Rightarrow> string list" where
  "added script n = concat (map (\<lambda>i. case i of AddColumn m c _ \<Rightarrow> if m = n then [c] else [] | _ \<Rightarrow> []) script)"

definition older :: "ddl list \<Rightarrow> 'v database \<Rightarrow> bool" where
  "older script db \<longleftrightarrow> list_all (\<lambda>(n, d). list_all (\<lambda>i. case i of
     Create m cs _ \<Rightarrow> m = n \<longrightarrow> set (map fst cs) \<subseteq> set (col_names d) \<union> set (added script n)
   | _ \<Rightarrow> True) script) db"

lemma added_present:
  assumes "ordered script" "c \<in> set (added script n)" "map_of (run_ddl script db) n = Some d"
  shows "c \<in> set (col_names d)"
proof -
  obtain ty where "AddColumn n c ty \<in> set script"
    using assms(2) by (auto simp: added_def split: ddl.splits if_splits)
  from run_settles [OF assms(1) this, of db] map_of_SomeD [OF assms(3)] show ?thesis
    by (auto simp: settled_def)
qed

definition creates_once :: "ddl list \<Rightarrow> bool" where
  "creates_once script \<longleftrightarrow> distinct (concat (map (\<lambda>i. case i of Create n _ _ \<Rightarrow> [n] | _ \<Rightarrow> []) script))"

lemma scripts_create_once:
  "creates_once (sqlite_log_tables @ sqlite_checkpoint_tables)" "creates_once (pg_log_tables @ pg_checkpoint_tables)"
  by code_simp+

lemma creates_once_unique:
  "creates_once script \<Longrightarrow> Create n cs key \<in> set script \<Longrightarrow> Create n cs' key' \<in> set script \<Longrightarrow> cs = cs'"
  by (induction script) (force simp: creates_once_def split: ddl.splits)+

lemma olderI:
  "(\<And>n d cs key. (n, d) \<in> set db \<Longrightarrow> Create n cs key \<in> set script \<Longrightarrow>
     set (map fst cs) \<subseteq> set (col_names d) \<union> set (added script n)) \<Longrightarrow> older script db"
  unfolding older_def list_all_iff by (clarify, split ddl.split) blast

lemma olderD:
  "older script db \<Longrightarrow> (n, d) \<in> set db \<Longrightarrow> Create n cs key \<in> set script \<Longrightarrow>
   set (map fst cs) \<subseteq> set (col_names d) \<union> set (added script n)"
  by (fastforce simp: older_def list_all_iff split: ddl.splits)

lemma exec_older:
  assumes "older script db" "creates_once script" "i \<in> set script"
  shows "older script (exec_ddl i db)"
proof (rule olderI)
  fix n d cs key assume d: "(n, d) \<in> set (exec_ddl i db)" and c: "Create n cs key \<in> set script"
  show "set (map fst cs) \<subseteq> set (col_names d) \<union> set (added script n)"
  proof (cases "(n, d) \<in> set db")
    case True
    then show ?thesis using olderD [OF assms(1) _ c] by blast
  next
    case False
    show ?thesis
    proof (cases i)
      case (AddColumn m col ty)
      with d obtain d0 where "(n, d0) \<in> set db" "d = (if n = m then add_column col ty d0 else d0)" by auto
      with olderD [OF assms(1) this(1) c] show ?thesis by (auto simp: add_column_names)
    next
      case (Create m cs' key')
      with d False have "n = m" "col_names d = map fst cs'" by (auto simp: col_names_def split: if_splits)
      then show ?thesis using creates_once_unique [OF assms(2) c] assms(3) Create by simp
    qed
  qed
qed

lemma run_older:
  assumes "older script db" "creates_once script" "set is \<subseteq> set script"
  shows "older script (run_ddl is db)"
  using assms(1,3)
proof (induction "is" arbitrary: db)
  case (Cons i "is")
  then have "older script (exec_ddl i db)" using assms(2) by (intro exec_older) auto
  with Cons show ?case by (simp add: run_ddl_Cons)
qed (simp add: run_ddl_def)

lemma run_current:
  assumes "older script db" "creates_once script" "ordered script" "Create n cs key \<in> set script"
  shows "\<exists>d. map_of (run_ddl script db) n = Some d \<and> set (map fst cs) \<union> set (added script n) \<subseteq> set (col_names d)"
proof -
  have "n \<in> set (map fst (run_ddl script db))" using run_settles [OF assms(3,4), of db] by (simp add: settled_def)
  then obtain d where d: "map_of (run_ddl script db) n = Some d" using weak_map_of_SomeI by fastforce
  have new: "set (added script n) \<subseteq> set (col_names d)" using added_present [OF assms(3) _ d] by blast
  have "(n, d) \<in> set (run_ddl script db)" by (rule map_of_SomeD [OF d])
  from olderD [OF run_older [OF assms(1,2) order_refl] this assms(4)] new d show ?thesis by blast
qed

text \<open>
  What opening must do: every table there with every column the code uses, the old tables grown,
  nothing left to do.
\<close>

definition migrated :: "ddl list \<Rightarrow> 'v database \<Rightarrow> 'v database \<Rightarrow> bool" where
  "migrated script db db' \<longleftrightarrow>
     (\<forall>n cs key. Create n cs key \<in> set script \<longrightarrow> (\<exists>d. map_of db' n = Some d \<and>
       set (map fst cs) \<union> set (added script n) \<subseteq> set (col_names d))) \<and>
     (\<forall>n d. map_of db n = Some d \<longrightarrow> (\<exists>d'. map_of db' n = Some d' \<and> grown d d')) \<and>
     run_ddl script db' = db'"

lemma migrated_columns:
  "migrated script db db' \<Longrightarrow> Create n cs key \<in> set script \<Longrightarrow> c \<in> set (map fst cs) \<Longrightarrow>
   \<exists>d. map_of db' n = Some d \<and> c \<in> set (col_names d)"
  unfolding migrated_def by blast

lemma migrated_grown:
  "migrated script db db' \<Longrightarrow> map_of db n = Some d \<Longrightarrow> map_of db' n = Some d' \<Longrightarrow> grown d d'"
  unfolding migrated_def by fastforce

lemma run_migrated:
  assumes "older script db" "creates_once script" "ordered script"
  shows "migrated script db (run_ddl script db)"
  unfolding migrated_def using run_current [OF assms] run_grows run_idempotent [OF assms(3)] by blast

section \<open>Properties\<close>


text \<open>A database from before the ordering columns of the signed tree heads, holding one head.\<close>

definition legacy_database :: "string database" where
  "legacy_database = [(''signed_tree_heads'', \<lparr>cols = [nullable ''id'' INTEGER, needed ''sth_json'' TEXT],
     primary = [''id''], contents = [[(''id'', Some ''1''), (''sth_json'', Some ''{}'')]]\<rparr>)]"

lemma legacy_database_older:
  "older (sqlite_log_tables @ sqlite_checkpoint_tables) legacy_database"
  "older (pg_log_tables @ pg_checkpoint_tables) legacy_database"
  by code_simp+


end
