(* ===== verification/CoreStore.thy ===== *)
theory CoreStore
  imports PostgresStore
begin

text \<open>
  \<open>SqlLogStore\<close> of \<open>anchoring/sql_store.py\<close>, over SQLAlchemy Core: three tables, on SQLite or on
  Postgres. It has the log, the roots and the capsule bindings, and no other method.
\<close>

section \<open>The code\<close>

text \<open>A column \<open>Integer\<close> holds 64 bits on SQLite and 32 bits on Postgres.\<close>

datatype dialect = On_sqlite | On_postgres

definition int32 :: "int \<Rightarrow> bool" where
  "int32 n \<longleftrightarrow> - (2 ^ 31) \<le> n \<and> n < 2 ^ 31"

definition core_execute :: "dialect \<Rightarrow> int list \<Rightarrow> string list \<Rightarrow> ('s, 'a) op \<Rightarrow> ('s, 'a) op" where
  "core_execute dl ns ts run =
     (case dl of
        On_sqlite \<Rightarrow> binding ns run
      | On_postgres \<Rightarrow> if list_all int32 ns \<and> list_all text_ok ts then run else op_raise DataError)"

definition core_select :: "dialect \<Rightarrow> int list \<Rightarrow> string list \<Rightarrow> 'a res \<Rightarrow> 'a res" where
  "core_select dl ns ts result =
     (case dl of
        On_sqlite \<Rightarrow> querying ns result
      | On_postgres \<Rightarrow> if list_all text_ok ts then result else Inl DataError)"

record core_store =
  q_log :: "(int, string log_cols) table"
  q_roots :: "(string \<times> string, string root_cols) table"
  q_bindings :: "(int, string) table"

definition core_row_to_entry :: "sig_codec \<Rightarrow> int \<times> string log_cols \<Rightarrow> entry res" where
  "core_row_to_entry c row = (case row of (i, r) \<Rightarrow>
     rbind (parse_iso (le_logged_at r)) (\<lambda>tm. rbind (sig_load c (le_signature r)) (\<lambda>sg.
       Inr \<lparr>log_index = i, logged_at = tm, kind = le_kind r, payload_hash = le_payload_hash r,
            log_signature = sg, prev_log_hash = le_prev r\<rparr>)))"

definition core_append_entry :: "dialect \<Rightarrow> sig_codec \<Rightarrow> entry \<Rightarrow> (core_store, unit) op" where
  "core_append_entry dl c e =
     (let cols = log_cols_of isoformat c e in
      core_execute dl [log_index e]
        ([le_logged_at cols, le_kind cols, le_payload_hash cols, le_signature cols] @ texts (le_prev cols)) (\<lambda>s.
        case sql_insert (log_index e) cols (q_log s) of
          Inl ex \<Rightarrow> (Inl ex, s)
        | Inr t \<Rightarrow> (Inr (), s\<lparr>q_log := t\<rparr>)))"

definition core_all_entries :: "sig_codec \<Rightarrow> core_store \<Rightarrow> entry list res" where
  "core_all_entries c s = rmap (core_row_to_entry c) (sort_key fst (q_log s))"

definition core_entries_after :: "dialect \<Rightarrow> sig_codec \<Rightarrow> int \<Rightarrow> core_store \<Rightarrow> entry list res" where
  "core_entries_after dl c after_index s = core_select dl [after_index] []
     (rmap (core_row_to_entry c) (sort_key fst (filter (\<lambda>r. after_index \<le> fst r) (q_log s))))"

definition core_size :: "core_store \<Rightarrow> int" where
  "core_size s = int (length (q_log s))"

text \<open>SELECT, then INSERT or UPDATE of every other column, in one transaction.\<close>

definition core_put_root :: "dialect \<Rightarrow> sig_codec \<Rightarrow> croot \<Rightarrow> (core_store, unit) op" where
  "core_put_root dl c r =
     (let vals = root_cols_of isoformat c r; key = (cr_tenant_id r, cr_root_hash r) in
      core_execute dl [ro_seq_from vals, ro_seq_to vals]
        [cr_tenant_id r, cr_root_hash r, ro_attested_at vals, ro_countersignature vals] (\<lambda>s.
        case sql_get key (q_roots s) of
          None \<Rightarrow> (case sql_insert key vals (q_roots s) of
              Inl ex \<Rightarrow> (Inl ex, s)
            | Inr t \<Rightarrow> (Inr (), s\<lparr>q_roots := t\<rparr>))
        | Some _ \<Rightarrow> (Inr (), s\<lparr>q_roots := map (\<lambda>p. if fst p = key then (key, vals) else p) (q_roots s)\<rparr>)))"

definition core_get_root :: "dialect \<Rightarrow> sig_codec \<Rightarrow> string \<Rightarrow> string \<Rightarrow> core_store \<Rightarrow> croot option res" where
  "core_get_root dl c tenant_id root_hash s = core_select dl [] [tenant_id, root_hash]
     (case sql_get (tenant_id, root_hash) (q_roots s) of
        None \<Rightarrow> Inr None
      | Some r \<Rightarrow> rbind (parse_iso (ro_attested_at r)) (\<lambda>tm. rbind (sig_load c (ro_countersignature r)) (\<lambda>sg.
          Inr (Some \<lparr>cr_tenant_id = tenant_id, cr_root_hash = root_hash,
            cr_seq_range = (ro_seq_from r, ro_seq_to r), attested_at = tm, countersignature = sg\<rparr>))))"

definition core_put_capsule_id :: "dialect \<Rightarrow> int \<Rightarrow> string \<Rightarrow> (core_store, unit) op" where
  "core_put_capsule_id dl i capsule_id = core_execute dl [i] [capsule_id] (\<lambda>s.
     case sql_get i (q_bindings s) of
       None \<Rightarrow> (case sql_insert i capsule_id (q_bindings s) of
           Inl ex \<Rightarrow> (Inl ex, s)
         | Inr t \<Rightarrow> (Inr (), s\<lparr>q_bindings := t\<rparr>))
     | Some _ \<Rightarrow> (Inr (), s\<lparr>q_bindings := map (\<lambda>p. if fst p = i then (i, capsule_id) else p) (q_bindings s)\<rparr>))"

definition core_get_capsule_id :: "dialect \<Rightarrow> int \<Rightarrow> core_store \<Rightarrow> string option res" where
  "core_get_capsule_id dl i s = core_select dl [i] [] (Inr (sql_get i (q_bindings s)))"

definition core_entries_for_capsule :: "dialect \<Rightarrow> sig_codec \<Rightarrow> string \<Rightarrow> core_store \<Rightarrow> entry list res" where
  "core_entries_for_capsule dl c capsule_id s = core_select dl [] [capsule_id]
     (rmap (core_row_to_entry c) (sort_key fst
       (concat (map (\<lambda>le. map (\<lambda>_. le) (filter (\<lambda>b. fst b = fst le \<and> snd b = capsule_id) (q_bindings s)))
         (q_log s)))))"

text \<open>Any other method of the interface is missing from the class: an \<open>AttributeError\<close>.\<close>

fun core_do :: "dialect \<Rightarrow> sig_codec \<Rightarrow> store_op \<Rightarrow> core_store \<Rightarrow> outcome res \<times> core_store" where
  "core_do dl c (OpAppend e) = outcome_of (\<lambda>_. Done) (core_append_entry dl c e)"
| "core_do dl c (OpRoot r) = outcome_of (\<lambda>_. Done) (core_put_root dl c r)"
| "core_do dl c (OpCapsule i k) = outcome_of (\<lambda>_. Done) (core_put_capsule_id dl i k)"
| "core_do dl c _ = op_raise AttributeError"

fun core_ask :: "dialect \<Rightarrow> sig_codec \<Rightarrow> query \<Rightarrow> core_store \<Rightarrow> answer res" where
  "core_ask dl c QAll s = map_sum id Entries (core_all_entries c s)"
| "core_ask dl c (QAfter i) s = map_sum id Entries (core_entries_after dl c i s)"
| "core_ask dl c QSize s = Inr (Number (core_size s))"
| "core_ask dl c (QRoot tn rh) s = map_sum id Croot (core_get_root dl c tn rh s)"
| "core_ask dl c (QCapsule i) s = map_sum id Text (core_get_capsule_id dl i s)"
| "core_ask dl c (QCapsuleEntries k) s = map_sum id Entries (core_entries_for_capsule dl c k s)"
| "core_ask dl c _ s = Inl AttributeError"

text \<open>What the class has.\<close>

fun core_has_op :: "store_op \<Rightarrow> bool" where
  "core_has_op (OpAppend _) = True"
| "core_has_op (OpRoot _) = True"
| "core_has_op (OpCapsule _ _) = True"
| "core_has_op _ = False"

fun core_has_query :: "query \<Rightarrow> bool" where
  "core_has_query QAll = True"
| "core_has_query (QAfter _) = True"
| "core_has_query QSize = True"
| "core_has_query (QRoot _ _) = True"
| "core_has_query (QCapsule _) = True"
| "core_has_query (QCapsuleEntries _) = True"
| "core_has_query _ = False"

lemma core_lacks:
  "\<not> core_has_op w \<Longrightarrow> core_do dl c w s = (Inl AttributeError, s)"
  "\<not> core_has_query q \<Longrightarrow> core_ask dl c q s = Inl AttributeError"
  by (cases w; simp) (cases q; simp)

section \<open>On its three tables it implements the in-memory store\<close>

definition core_rel :: "sig_codec \<Rightarrow> core_store \<Rightarrow> mem_store \<Rightarrow> bool" where
  "core_rel c s m \<longleftrightarrow> log_rel isoformat c (q_log s) (m_log m) \<and> roots_rel isoformat c (q_roots s) (m_roots m) \<and>
     table_rel (q_bindings s) (m_capsule_ids m)"

fun core_texts :: "sig_codec \<Rightarrow> store_op \<Rightarrow> string list" where
  "core_texts c (OpAppend e) = isoformat (logged_at e) # op_texts c (OpAppend e)"
| "core_texts c (OpRoot r) = isoformat (attested_at r) # op_texts c (OpRoot r)"
| "core_texts c w = op_texts c w"

definition core_fits :: "dialect \<Rightarrow> int list \<Rightarrow> string list \<Rightarrow> bool" where
  "core_fits dl ns ts \<longleftrightarrow> (case dl of
     On_sqlite \<Rightarrow> list_all int64 ns | On_postgres \<Rightarrow> list_all int32 ns \<and> list_all text_ok ts)"

text \<open>The three writes it has, the way the service issues them and within what its columns hold.\<close>

definition core_legal :: "dialect \<Rightarrow> sig_codec \<Rightarrow> store_op \<Rightarrow> mem_store \<Rightarrow> bool" where
  "core_legal dl c w m \<longleftrightarrow> issued w m \<and> core_fits dl (op_ints w) (core_texts c w) \<and> core_has_op w"

definition core_asked :: "dialect \<Rightarrow> query \<Rightarrow> bool" where
  "core_asked dl q \<longleftrightarrow> list_all int64 (query_ints q) \<and> (dl = On_postgres \<longrightarrow> list_all text_ok (query_texts q)) \<and> core_has_query q"

text \<open>The tables of the other two backends, with these three and nothing else.\<close>

definition widen :: "core_store \<Rightarrow> string tables" where
  "widen s = empty_tables\<lparr>t_log := q_log s, t_roots := q_roots s, t_bindings := q_bindings s\<rparr>"

definition narrow :: "mem_store \<Rightarrow> mem_store" where
  "narrow m = empty_store\<lparr>m_log := m_log m, m_roots := m_roots m, m_capsule_ids := m_capsule_ids m\<rparr>"

lemma widen_implements: "core_rel c s m \<longleftrightarrow> implements isoformat c (widen s) (narrow m)"
  by (simp add: core_rel_def implements_def widen_def narrow_def empty_tables_def empty_store_def table_rel_def
      statements_rel_def subjects_rel_def equivocations_rel_def latest_rel_def history_rel_def receipts_rel_def listed_def)

lemma core_execute_run: "core_fits dl ns ts \<Longrightarrow> core_execute dl ns ts run = run"
  by (cases dl) (simp_all add: core_fits_def core_execute_def binding_def)

lemma update_map: "map_of t k = Some old \<Longrightarrow> map_of (map (\<lambda>p. if fst p = k then (k, v) else p) t) = (map_of t)(k \<mapsto> v)"
  using map_of_update_row [of k "\<lambda>_. v" t] by simp

lemma update_unique: "unique t \<Longrightarrow> unique (map (\<lambda>p. if fst p = k then (k, v) else p) t)"
proof -
  have "map fst (map (\<lambda>p. if fst p = k then (k, v) else p) t) = map fst t" by (induction t) auto
  then show "unique t \<Longrightarrow> unique (map (\<lambda>p. if fst p = k then (k, v) else p) t)" unfolding unique_def by (simp only:)
qed

lemma core_put_root_run:
  assumes "core_rel c s m" "core_legal dl c (OpRoot r) m"
  shows "\<exists>s'. core_put_root dl c r s = (Inr (), s') \<and> core_rel c s' (put_root r m)"
proof -
  let ?key = "(cr_tenant_id r, cr_root_hash r)" and ?vals = "root_cols_of isoformat c r"
  have "core_fits dl [ro_seq_from ?vals, ro_seq_to ?vals]
      [cr_tenant_id r, cr_root_hash r, ro_attested_at ?vals, ro_countersignature ?vals]"
    using assms(2) by (cases dl) (simp_all add: core_legal_def core_fits_def root_cols_of_def)
  note run = core_execute_run [OF this]
  have rel: "roots_rel isoformat c (q_roots s) (m_roots m)" "datetime_range (attested_at r)"
    using assms by (simp_all add: core_rel_def core_legal_def)
  have new: "roots_rel isoformat c t (dict_set ?key r (m_roots m))" if "map_of t = (map_of (q_roots s))(?key \<mapsto> ?vals)" for t
    using rel that by (auto simp: roots_rel_def)
  show ?thesis
  proof (cases "map_of (q_roots s) ?key")
    case None
    then have fresh: "?key \<notin> fst ` set (q_roots s)" by (simp add: map_of_eq_None_iff)
    then have "core_put_root dl c r s = (Inr (), s\<lparr>q_roots := q_roots s @ [(?key, ?vals)]\<rparr>)"
      using None by (simp add: core_put_root_def Let_def run sql_get_def sql_insert_def)
    with new [OF map_of_append_new [OF fresh]] assms(1) show ?thesis by (simp add: core_rel_def put_root_def)
  next
    case (Some old)
    then have "core_put_root dl c r s =
        (Inr (), s\<lparr>q_roots := map (\<lambda>p. if fst p = ?key then (?key, ?vals) else p) (q_roots s)\<rparr>)"
      by (simp add: core_put_root_def Let_def run sql_get_def)
    with new [OF update_map [OF Some]] assms(1) show ?thesis by (simp add: core_rel_def put_root_def)
  qed
qed

lemma core_put_capsule_run:
  assumes "core_rel c s m" "core_legal dl c (OpCapsule i k) m"
  shows "\<exists>s'. core_put_capsule_id dl i k s = (Inr (), s') \<and> core_rel c s' (put_capsule_id i k m)"
proof -
  have "core_fits dl [i] [k]" using assms(2) by (cases dl) (simp_all add: core_legal_def core_fits_def)
  note run = core_execute_run [OF this]
  have rel: "table_rel (q_bindings s) (m_capsule_ids m)" using assms(1) by (simp add: core_rel_def)
  show ?thesis
  proof (cases "map_of (q_bindings s) i")
    case None
    then have "map_of (m_capsule_ids m) i = None" using rel by (simp add: table_rel_def)
    note ins = table_rel_insert [OF rel this, of k]
    then have "core_put_capsule_id dl i k s = (Inr (), s\<lparr>q_bindings := q_bindings s @ [(i, k)]\<rparr>)"
      using None by (simp add: core_put_capsule_id_def run sql_get_def)
    with ins assms(1) show ?thesis by (simp add: core_rel_def put_capsule_id_def)
  next
    case (Some old)
    then have "core_put_capsule_id dl i k s =
        (Inr (), s\<lparr>q_bindings := map (\<lambda>p. if fst p = i then (i, k) else p) (q_bindings s)\<rparr>)"
      by (simp add: core_put_capsule_id_def run sql_get_def)
    moreover have "table_rel (map (\<lambda>p. if fst p = i then (i, k) else p) (q_bindings s)) (dict_set i k (m_capsule_ids m))"
      using rel by (simp add: table_rel_def update_map [OF Some] update_unique unique_dict_set)
    ultimately show ?thesis using assms(1) by (simp add: core_rel_def put_capsule_id_def)
  qed
qed

lemma core_append_run:
  assumes "core_rel c s m" "core_legal dl c (OpAppend e) m"
  shows "\<exists>s'. core_append_entry dl c e s = (Inr (), s') \<and> core_rel c s' (append_entry e m)"
proof -
  let ?cols = "log_cols_of isoformat c e"
  have "core_fits dl [log_index e] ([le_logged_at ?cols, le_kind ?cols, le_payload_hash ?cols, le_signature ?cols] @ texts (le_prev ?cols))"
    using assms(2) unfolding core_legal_def core_fits_def log_cols_of_def by (cases dl) auto
  note run = core_execute_run [OF this]
  have "log_index e = int (length (m_log m))" "datetime_range (logged_at e)" "log_rel isoformat c (q_log s) (m_log m)"
    using assms by (simp_all add: core_legal_def core_rel_def store_size_def)
  note app = log_rel_append [OF this(3,1,2)]
  have "core_append_entry dl c e s = (Inr (), s\<lparr>q_log := q_log s @ [(log_index e, ?cols)]\<rparr>)"
    unfolding core_append_entry_def Let_def run using app by simp
  with app assms(1) show ?thesis by (simp add: core_rel_def append_entry_def)
qed

lemma core_step:
  assumes "core_rel c s m" "core_legal dl c w m"
  shows "fst (core_do dl c w s) = fst (mem_do w m) \<and> core_rel c (snd (core_do dl c w s)) (snd (mem_do w m))"
proof (cases w)
  case (OpAppend e)
  with core_append_run [OF assms(1), of dl e] assms(2) show ?thesis by (auto simp: outcome_of_def done_with_def)
next
  case (OpRoot r)
  with core_put_root_run [OF assms(1), of dl r] assms(2) show ?thesis by (auto simp: outcome_of_def done_with_def)
next
  case (OpCapsule i k)
  with core_put_capsule_run [OF assms(1), of dl i k] assms(2) show ?thesis by (auto simp: outcome_of_def done_with_def)
qed (use assms(2) in \<open>simp_all add: core_legal_def\<close>)

text \<open>Its reads are SQLite's, on the widened tables.\<close>

lemma core_row: "core_row_to_entry = row_to_entry"
  by (simp add: core_row_to_entry_def row_to_entry_def fun_eq_iff)

lemma core_ask_widen:
  assumes "core_asked dl q"
  shows "core_ask dl c q s = sqlite_ask c q (widen s)"
  using assms
  by (cases q; cases dl)
    (auto simp: core_asked_def core_select_def querying_def core_all_entries_def sqlite_all_entries_def
      core_entries_after_def sqlite_entries_after_def core_size_def sqlite_size_def core_get_root_def sqlite_get_root_def
      core_get_capsule_id_def sqlite_get_capsule_id_def core_entries_for_capsule_def sqlite_entries_for_capsule_def
      core_row widen_def)

lemma narrow_ask: "core_asked dl q \<Longrightarrow> mem_ask q (narrow m) = mem_ask q m"
  by (cases q) (simp_all add: core_asked_def narrow_def all_entries_def entries_after_def store_size_def get_root_def
      get_capsule_id_def entries_for_capsule_def)

interpretation core: durable_store "core_do dl c" "core_ask dl c" "core_rel c" "core_legal dl c"
    "\<lambda>q. codec_ok c \<and> core_asked dl q" for dl c
proof unfold_locales
  fix s m w assume "core_rel c s m" "core_legal dl c w m"
  then show "fst (core_do dl c w s) = fst (mem_do w m) \<and> core_rel c (snd (core_do dl c w s)) (snd (mem_do w m))"
    by (rule core_step)
next
  fix s m q assume s: "core_rel c s m" and q: "codec_ok c \<and> core_asked dl q"
  have "list_all int64 (query_ints q)" using q by (simp add: core_asked_def)
  with s q show "core_ask dl c q s = Inr (by_hash (mem_ask q m))"
    using sqlite_answer [of c "widen s" "narrow m" q] core_ask_widen [of dl q c s] narrow_ask [of dl q m]
    by (simp add: widen_implements)
qed

definition empty_core :: core_store where
  "empty_core = \<lparr>q_log = [], q_roots = [], q_bindings = []\<rparr>"

section \<open>Properties\<close>


definition sample_core_writes :: "store_op list" where
  "sample_core_writes = [OpCapsule 0 ''k'', OpCapsule 0 ''j'', OpCapsule 1 ''j'']"

lemma sample_core_legal: "run_allowed (core_legal On_postgres c) sample_core_writes empty_store"
  by (simp add: sample_core_writes_def core_legal_def core_fits_def int32_def text_ok_def)


end
