(* ===== verification/Submitters.thy ===== *)
theory Submitters
  imports External PyText
begin

text \<open>
  \<open>anchoring/submitters.py\<close>: the allowlist of enrolled checkpoint submitters, its validation and
  what a start-up that got through it can rely on.
\<close>

section \<open>Entries\<close>

datatype accumulator = NativeMmr | Foreign

datatype wire_form = CoseSign1 | JsonEd25519

definition accumulators :: "(string \<times> accumulator) list" where
  "accumulators = [(''native_mmr'', NativeMmr), (''foreign'', Foreign)]"

definition wire_forms :: "(string \<times> wire_form) list" where
  "wire_forms = [(''cose'', CoseSign1), (''json-ed25519'', JsonEd25519)]"

definition json_checkpoint_signing_fields :: "string list" where
  "json_checkpoint_signing_fields =
     [''v'', ''kind'', ''log_id'', ''mmr_size'', ''root'', ''prev_size'', ''prev_root'', ''key_id'', ''timestamp'']"

definition json_checkpoint_all_fields :: "string list" where
  "json_checkpoint_all_fields = json_checkpoint_signing_fields @ [''signature'']"

type_synonym field_map = "(string \<times> string) list"

definition identity_field_map :: field_map where
  "identity_field_map = map (\<lambda>k. (k, k)) json_checkpoint_all_fields"

record submitter =
  sb_log_id :: string
  sb_pubkey :: bytes
  sb_accumulator :: accumulator
  sb_rate_limit :: int
  sb_wire_form :: wire_form
  sb_field_map :: "field_map option"

definition grade_of :: "submitter \<Rightarrow> string" where
  "grade_of e = (if sb_accumulator e = Foreign then ''countersigned-observed'' else ''mmr-verified'')"

section \<open>The allowlist\<close>

type_synonym allowlist = "(string \<times> submitter) list"

definition allowlist_get :: "string \<Rightarrow> allowlist \<Rightarrow> submitter option" where
  "allowlist_get log_id al = map_of al log_id"

definition entries_by_wire_form :: "wire_form \<Rightarrow> allowlist \<Rightarrow> submitter list" where
  "entries_by_wire_form w al = filter (\<lambda>e. sb_wire_form e = w) (map snd al)"

text \<open>\<open>item.get(key, default)\<close>, a JSON \<open>null\<close> being a value.\<close>

definition item_get :: "string \<Rightarrow> json \<Rightarrow> (string \<times> json) list \<Rightarrow> json" where
  "item_get k d item = (case map_of item k of None \<Rightarrow> d | Some v \<Rightarrow> v)"

fun merge_field_map :: "(string \<times> json) list \<Rightarrow> field_map \<Rightarrow> field_map res" where
  "merge_field_map [] fm = Inr fm"
| "merge_field_map ((our_key, their_key) # rest) fm =
     (if our_key \<notin> set json_checkpoint_all_fields then Inl SubmitterConfigError
      else case their_key of
        JStr t \<Rightarrow> if t = [] then Inl SubmitterConfigError else merge_field_map rest (dict_set our_key t fm)
      | _ \<Rightarrow> Inl SubmitterConfigError)"

definition read_field_map :: "wire_form \<Rightarrow> json \<Rightarrow> field_map option res" where
  "read_field_map w raw =
     (case w of
        CoseSign1 \<Rightarrow> if raw \<noteq> JNull then Inl SubmitterConfigError else Inr None
      | JsonEd25519 \<Rightarrow>
          rbind (case raw of JNull \<Rightarrow> Inr [] | JObj kvs \<Rightarrow> Inr kvs | _ \<Rightarrow> Inl SubmitterConfigError) (\<lambda>kvs.
          rbind (merge_field_map kvs identity_field_map) (\<lambda>fm.
            if distinct (map snd fm) then Inr (Some fm) else Inl SubmitterConfigError)))"

definition read_log_id :: "json \<Rightarrow> string res" where
  "read_log_id v = (case v of
     JStr s \<Rightarrow> if s = [] then Inl SubmitterConfigError else Inr s
   | _ \<Rightarrow> Inl SubmitterConfigError)"

definition read_choice :: "(string \<times> 'a) list \<Rightarrow> json \<Rightarrow> 'a res" where
  "read_choice valid v = (case v of
     JStr s \<Rightarrow> (case map_of valid s of None \<Rightarrow> Inl SubmitterConfigError | Some c \<Rightarrow> Inr c)
   | _ \<Rightarrow> Inl SubmitterConfigError)"

definition read_pubkey :: "json \<Rightarrow> bytes res" where
  "read_pubkey v = (case v of
     JStr h \<Rightarrow> (case fromhex h of
         Inl _ \<Rightarrow> Inl SubmitterConfigError
       | Inr b \<Rightarrow> if length b \<noteq> 32 then Inl SubmitterConfigError else Inr b)
   | _ \<Rightarrow> Inl SubmitterConfigError)"

definition read_rate_limit :: "json \<Rightarrow> int res" where
  "read_rate_limit v = (case v of
     JInt n \<Rightarrow> if n \<le> 0 then Inl SubmitterConfigError else Inr n
   | _ \<Rightarrow> Inl SubmitterConfigError)"

text \<open>One item of the array. An item that is not an object fails \<open>item["log_id"]\<close> with \<open>TypeError\<close>.\<close>

definition read_entry :: "json \<Rightarrow> submitter res" where
  "read_entry raw =
     (case raw of
        JObj item \<Rightarrow>
          (case (map_of item ''log_id'', map_of item ''pubkey_hex'') of
             (Some raw_log_id, Some pubkey_hex) \<Rightarrow>
               rbind (read_log_id raw_log_id) (\<lambda>log_id.
               rbind (read_choice accumulators (item_get ''accumulator'' (JStr ''foreign'') item)) (\<lambda>accumulator.
               rbind (read_pubkey pubkey_hex) (\<lambda>pubkey.
               rbind (read_rate_limit (item_get ''rate_limit_per_min'' (JInt 60) item)) (\<lambda>rate_limit.
               rbind (read_choice wire_forms (item_get ''wire_form'' (JStr ''cose'') item)) (\<lambda>wire_form.
               rbind (read_field_map wire_form (item_get ''field_map'' JNull item)) (\<lambda>field_map.
               Inr \<lparr>sb_log_id = log_id, sb_pubkey = pubkey, sb_accumulator = accumulator,
                    sb_rate_limit = rate_limit, sb_wire_form = wire_form, sb_field_map = field_map\<rparr>))))))
           | _ \<Rightarrow> Inl SubmitterConfigError)
      | _ \<Rightarrow> Inl TypeError)"

fun from_items :: "json list \<Rightarrow> allowlist \<Rightarrow> allowlist res" where
  "from_items [] entries = Inr entries"
| "from_items (raw # rest) entries =
     rbind (read_entry raw) (\<lambda>e.
       if map_of entries (sb_log_id e) \<noteq> None then Inl SubmitterConfigError
       else from_items rest (dict_set (sb_log_id e) e entries))"

definition from_list :: "json list \<Rightarrow> allowlist res" where
  "from_list raw = from_items raw []"

text \<open>
  The file system, and \<open>json.loads\<close> of a file's UTF-8 text with what it raises, are arguments.
\<close>

definition load_allowlist :: "(string \<Rightarrow> bytes option) \<Rightarrow> (bytes \<Rightarrow> json res) \<Rightarrow> string \<Rightarrow> allowlist res" where
  "load_allowlist files loads path =
     (case files path of
        None \<Rightarrow> Inl OSError
      | Some content \<Rightarrow> (case loads content of
            Inl e \<Rightarrow> Inl e
          | Inr (JArr items) \<Rightarrow> from_list items
          | Inr _ \<Rightarrow> Inl SubmitterConfigError))"

definition from_env_or_default ::
    "(string \<Rightarrow> bytes option) \<Rightarrow> (bytes \<Rightarrow> json res) \<Rightarrow> string \<Rightarrow> environ \<Rightarrow> allowlist res" where
  "from_env_or_default files loads default_path env =
     (case env ''CAPSULE_ANCHOR_CHECKPOINT_SUBMITTERS_FILE'' of
        Some (c # cs) \<Rightarrow> load_allowlist files loads (c # cs)
      | _ \<Rightarrow> if files default_path \<noteq> None then load_allowlist files loads default_path else Inr [])"

section \<open>What a loaded allowlist is\<close>

definition field_map_ok :: "field_map \<Rightarrow> bool" where
  "field_map_ok fm \<longleftrightarrow> map fst fm = json_checkpoint_all_fields \<and> distinct (map snd fm) \<and> list_all (\<lambda>p. snd p \<noteq> []) fm"

definition submitter_ok :: "submitter \<Rightarrow> bool" where
  "submitter_ok e \<longleftrightarrow> sb_log_id e \<noteq> [] \<and> length (sb_pubkey e) = 32 \<and> 0 < sb_rate_limit e \<and>
     (case sb_wire_form e of
        CoseSign1 \<Rightarrow> sb_field_map e = None
      | JsonEd25519 \<Rightarrow> (case sb_field_map e of None \<Rightarrow> False | Some fm \<Rightarrow> field_map_ok fm))"

definition keyed :: "allowlist \<Rightarrow> bool" where
  "keyed al \<longleftrightarrow> list_all (\<lambda>(l, e). l = sb_log_id e) al"

lemma fst_dict_set_old: "k \<in> set (map fst d) \<Longrightarrow> map fst (dict_set k v d) = map fst d"
  by (induction d) (auto simp: rev_image_eqI)

lemma dict_set_new: "k \<notin> set (map fst d) \<Longrightarrow> dict_set k v d = d @ [(k, v)]"
  by (induction d) auto

lemma dict_set_all: "list_all (\<lambda>p. P (snd p)) d \<Longrightarrow> P v \<Longrightarrow> list_all (\<lambda>p. P (snd p)) (dict_set k v d)"
  by (induction d) auto

lemma merge_field_map_keeps:
  assumes "merge_field_map kvs fm = Inr fm'" "map fst fm = json_checkpoint_all_fields" "list_all (\<lambda>p. snd p \<noteq> []) fm"
  shows "map fst fm' = json_checkpoint_all_fields \<and> list_all (\<lambda>p. snd p \<noteq> []) fm'"
  using assms
proof (induction kvs fm rule: merge_field_map.induct)
  case (2 our_key their_key kvs fm)
  from 2(2) obtain t where t: "our_key \<in> set json_checkpoint_all_fields" "their_key = JStr t" "t \<noteq> []"
    "merge_field_map kvs (dict_set our_key t fm) = Inr fm'"
    by (auto split: if_splits json.splits)
  have "map fst (dict_set our_key t fm) = json_checkpoint_all_fields"
    using t(1) 2(3) fst_dict_set_old [of our_key fm t] by (simp only:)
  moreover have "list_all (\<lambda>p. snd p \<noteq> []) (dict_set our_key t fm)" using dict_set_all [OF 2(4), of t our_key] t(3) by simp
  ultimately show ?case using 2(1) t by simp
qed simp

lemma read_field_map_ok:
  "read_field_map w raw = Inr r \<Longrightarrow>
   (case w of CoseSign1 \<Rightarrow> r = None | JsonEd25519 \<Rightarrow> (case r of None \<Rightarrow> False | Some fm \<Rightarrow> field_map_ok fm))"
proof (cases w)
  case JsonEd25519
  assume "read_field_map w raw = Inr r"
  with JsonEd25519 obtain kvs fm where fm: "merge_field_map kvs identity_field_map = Inr fm" "distinct (map snd fm)" "r = Some fm"
    by (auto simp: read_field_map_def rbind_Inr_iff split: if_splits)
  have "map fst identity_field_map = json_checkpoint_all_fields" "list_all (\<lambda>p. snd p \<noteq> []) identity_field_map"
    by (simp_all add: identity_field_map_def json_checkpoint_all_fields_def json_checkpoint_signing_fields_def)
  from merge_field_map_keeps [OF fm(1) this] fm JsonEd25519 show ?thesis by (simp add: field_map_ok_def)
qed (simp add: read_field_map_def split: if_splits)

lemma read_field_ok:
  "read_log_id v = Inr l \<Longrightarrow> l \<noteq> []"
  "read_pubkey v = Inr k \<Longrightarrow> length k = 32"
  "read_rate_limit v = Inr n \<Longrightarrow> 0 < n"
  by (auto simp: read_log_id_def read_pubkey_def read_rate_limit_def split: json.splits if_splits sum.splits)

lemma read_entry_ok:
  assumes "read_entry raw = Inr e"
  shows "submitter_ok e"
proof -
  obtain vl vk vn vf l k n f w a where "read_log_id vl = Inr l" "read_pubkey vk = Inr k" "read_rate_limit vn = Inr n"
    "read_field_map w vf = Inr f" "e = \<lparr>sb_log_id = l, sb_pubkey = k, sb_accumulator = a, sb_rate_limit = n,
      sb_wire_form = w, sb_field_map = f\<rparr>"
    using assms by (cases raw) (auto simp: read_entry_def rbind_Inr_iff split: option.splits)
  then show ?thesis using read_field_ok read_field_map_ok [of w vf f] by (cases w) (simp_all add: submitter_ok_def)
qed

lemma from_items_spec:
  assumes "keyed al"
  shows "from_items raw al = Inr al' \<longleftrightarrow>
    (\<exists>es. rmap read_entry raw = Inr es \<and> distinct (map sb_log_id es) \<and>
      set (map sb_log_id es) \<inter> set (map fst al) = {} \<and> al' = al @ map (\<lambda>e. (sb_log_id e, e)) es)"
  using assms
proof (induction raw arbitrary: al)
  case (Cons r raw)
  show ?case
  proof (cases "read_entry r")
    case (Inr e)
    have rhs: "(\<exists>es. rmap read_entry (r # raw) = Inr es \<and> Q es) \<longleftrightarrow>
        (\<exists>es. rmap read_entry raw = Inr es \<and> Q (e # es))" for Q
      by (simp add: Inr rbind_Inr_iff) blast
    show ?thesis
    proof (cases "sb_log_id e \<in> set (map fst al)")
      case True
      then have "map_of al (sb_log_id e) \<noteq> None" by (simp add: map_of_eq_None_iff)
      then have "from_items (r # raw) al \<noteq> Inr al'" by (simp add: Inr)
      then show ?thesis unfolding rhs using True by auto
    next
      case False
      then have "map_of al (sb_log_id e) = None" "dict_set (sb_log_id e) e al = al @ [(sb_log_id e, e)]"
        by (simp_all add: map_of_eq_None_iff dict_set_new)
      then have run: "from_items (r # raw) al = from_items raw (al @ [(sb_log_id e, e)])" by (simp add: Inr)
      have "keyed (al @ [(sb_log_id e, e)])" using Cons.prems by (simp add: keyed_def)
      from Cons.IH [OF this] show ?thesis unfolding rhs run
      proof (rule trans, intro ex_cong1)
        fix es
        have "distinct (map sb_log_id (e # es)) \<and> set (map sb_log_id (e # es)) \<inter> set (map fst al) = {} \<longleftrightarrow>
            distinct (map sb_log_id es) \<and> set (map sb_log_id es) \<inter> set (map fst (al @ [(sb_log_id e, e)])) = {}"
          using False by auto
        then show "(rmap read_entry raw = Inr es \<and> distinct (map sb_log_id es) \<and>
            set (map sb_log_id es) \<inter> set (map fst (al @ [(sb_log_id e, e)])) = {} \<and>
            al' = (al @ [(sb_log_id e, e)]) @ map (\<lambda>e. (sb_log_id e, e)) es) \<longleftrightarrow>
          (rmap read_entry raw = Inr es \<and> distinct (map sb_log_id (e # es)) \<and>
            set (map sb_log_id (e # es)) \<inter> set (map fst al) = {} \<and>
            al' = al @ map (\<lambda>e. (sb_log_id e, e)) (e # es))"
          by simp blast
      qed
    qed
  qed simp
qed auto

lemma from_list_spec:
  "from_list raw = Inr al \<longleftrightarrow>
     (\<exists>es. rmap read_entry raw = Inr es \<and> distinct (map sb_log_id es) \<and>
       list_all submitter_ok es \<and> al = map (\<lambda>e. (sb_log_id e, e)) es)"
proof -
  have "list_all submitter_ok es" if "rmap read_entry raw = Inr es" for es
    using that by (induction raw arbitrary: es) (auto simp: rbind_Inr_iff read_entry_ok)
  then show ?thesis using from_items_spec [of "[]" raw al] by (auto simp: from_list_def keyed_def)
qed

lemma allowlist_entry:
  assumes "from_list raw = Inr al" "allowlist_get l al = Some e"
  shows "sb_log_id e = l \<and> submitter_ok e"
  using assms from_list_spec [of raw al] map_of_SomeD [of al l e]
  by (auto simp: allowlist_get_def list_all_iff)

section \<open>Properties\<close>

text \<open>C31: the submitters file is accepted exactly when every item is valid and no log id occurs twice; then
  the allowlist holds each item once under its log id, and every entry has a 32-byte key, a positive rate
  limit and, for the JSON wire form, a field map that names every field once. Anything else stops start-up.\<close>

theorem allowlist_fails_closed:
  "from_list raw = Inr al \<longleftrightarrow>
     (\<exists>es. rmap read_entry raw = Inr es \<and> distinct (map sb_log_id es) \<and>
       list_all submitter_ok es \<and> al = map (\<lambda>e. (sb_log_id e, e)) es)"
  by (rule from_list_spec)

end
