(* ===== verification/CheckpointWire.thy ===== *)
theory CheckpointWire
  imports Submitters ServiceInv
begin

text \<open>
  \<open>anchoring/checkpoint_cose.py\<close> and \<open>anchoring/checkpoint_json.py\<close>: the two parsers of
  \<open>POST /checkpoints\<close>. What they accept is signed by the right key and well formed, which is what
  the service's theorems about checkpoints ask for.
\<close>

section \<open>\<open>scitt_cose\<close> and the key loader\<close>

record parsed =
  pd_verified :: bool
  pd_issuer :: "string option"
  pd_subject :: "string option"
  pd_payload :: "bytes option"

text \<open>
  \<open>strict_decode\<close> is \<open>None\<close> on a \<open>CoseError\<close>; \<open>parse_signed\<close> takes the statement and the raw public
  key; \<open>key_loads\<close> tells whether \<open>Ed25519PublicKey.from_public_bytes\<close> succeeds.
\<close>

record cose_lib =
  strict_decode :: "bytes \<Rightarrow> cbor option"
  parse_signed :: "bytes \<Rightarrow> bytes \<Rightarrow> parsed res"
  key_loads :: "bytes \<Rightarrow> bool"

section \<open>Peak lists\<close>

text \<open>The \<open>while\<close> loop pops the last two hashes and pushes the hash of the pair.\<close>

function pair_peaks :: "bytes list \<Rightarrow> bytes list" where
  "pair_peaks hashes =
     (if 1 < length hashes
      then pair_peaks (butlast (butlast hashes) @ [sha256 (last hashes @ last (butlast hashes))])
      else hashes)"
  by auto

termination by (relation "measure length") auto

declare pair_peaks.simps [simp del]

definition root_from_peaks :: "bytes list \<Rightarrow> bytes" where
  "root_from_peaks peak_hashes = (if peak_hashes = [] then replicate 32 0 else hd (pair_peaks peak_hashes))"

definition peak_hash :: "cbor \<Rightarrow> bytes res" where
  "peak_hash v = (case v of
     CBytes p \<Rightarrow> if length p = 32 then Inr p else Inl NotACheckpointError
   | _ \<Rightarrow> Inl NotACheckpointError)"

definition peak_list :: "cbor \<Rightarrow> bytes list res" where
  "peak_list v = (case v of CList ps \<Rightarrow> rmap peak_hash ps | _ \<Rightarrow> Inl NotACheckpointError)"

definition decode_commitment :: "ext \<Rightarrow> bytes \<Rightarrow> bytes list res" where
  "decode_commitment x raw =
     (case cbor_loads x raw of None \<Rightarrow> Inl NotACheckpointError | Some v \<Rightarrow> peak_list v)"

definition size_field :: "cbor option \<Rightarrow> int res" where
  "size_field v = (case v of
     Some (CInt n) \<Rightarrow> if n < 0 then Inl NotACheckpointError else Inr n
   | _ \<Rightarrow> Inl NotACheckpointError)"

definition decode_consistency_proof :: "cbor \<Rightarrow> mmr_proof res" where
  "decode_consistency_proof raw =
     (case raw of
        CMap m \<Rightarrow>
          (case (cbor_get (CText ''old_peaks'') m, cbor_get (CText ''witness'') m, cbor_get (CText ''new_peaks'') m) of
             (Some old, Some (CList ws), Some new) \<Rightarrow>
               rbind (size_field (cbor_get (CText ''size_a'') m)) (\<lambda>size_a.
               rbind (size_field (cbor_get (CText ''size_b'') m)) (\<lambda>size_b.
               rbind (peak_list old) (\<lambda>old_peaks.
               rbind (peak_list new) (\<lambda>new_peaks.
               rbind (rmap peak_list ws) (\<lambda>witness.
               Inr \<lparr>mp_size_a = size_a, mp_size_b = size_b, mp_old_peaks = map hex old_peaks,
                    mp_witness = map (map hex) witness, mp_new_peaks = map hex new_peaks\<rparr>)))))
           | _ \<Rightarrow> Inl NotACheckpointError)
      | _ \<Rightarrow> Inl NotACheckpointError)"

section \<open>The COSE wire\<close>

text \<open>Python's truth value of a decoded item, and \<open>bytes(v)\<close>.\<close>

definition truthy :: "cbor \<Rightarrow> bool" where
  "truthy v = (case v of
     CInt n \<Rightarrow> n \<noteq> 0 | CBytes b \<Rightarrow> b \<noteq> [] | CText t \<Rightarrow> t \<noteq> [] | CList l \<Rightarrow> l \<noteq> [] | CMap m \<Rightarrow> m \<noteq> []
   | CBool b \<Rightarrow> b | CNull \<Rightarrow> False | CVoid \<Rightarrow> False | _ \<Rightarrow> True)"

definition byte_of :: "cbor \<Rightarrow> byte res" where
  "byte_of v = (case norm_key v of
     CInt n \<Rightarrow> if 0 \<le> n \<and> n < 256 then Inr (of_int n) else Inl ValueError
   | _ \<Rightarrow> Inl TypeError)"

definition py_bytes :: "cbor \<Rightarrow> bytes res" where
  "py_bytes v = (case norm_key v of
     CBytes b \<Rightarrow> Inr b
   | CInt n \<Rightarrow> if n < 0 then Inl ValueError else Inr (replicate (nat n) 0)
   | CList l \<Rightarrow> rmap byte_of l
   | CMap m \<Rightarrow> rmap byte_of (map fst m)
   | _ \<Rightarrow> Inl TypeError)"

definition protected_header :: "ext \<Rightarrow> cbor \<Rightarrow> (cbor \<times> cbor) list res" where
  "protected_header x v =
     (if truthy v then rbind (py_bytes v) (\<lambda>b.
        case cbor_loads x b of None \<Rightarrow> Inl CBORDecodeError | Some (CMap m) \<Rightarrow> Inr m | Some _ \<Rightarrow> Inr [])
      else Inr [])"

definition peek_unauthenticated_issuer :: "ext \<Rightarrow> (cbor \<times> cbor) list \<Rightarrow> string option" where
  "peek_unauthenticated_issuer x protected = peek_claim x 1 protected"

text \<open>A content type that is neither text nor bytes equals no string, as \<open>None\<close> does.\<close>

definition extract_protected_fields ::
    "ext \<Rightarrow> cose_lib \<Rightarrow> bytes \<Rightarrow> (bytes option \<times> string option \<times> string option) res" where
  "extract_protected_fields x lib cose_bytes =
     (case strict_decode lib cose_bytes of
        Some (CList [protected_bstr, _, _, _]) \<Rightarrow>
          rbind (protected_header x protected_bstr) (\<lambda>protected.
            Inr (case cbor_get (CInt 4) protected of Some (CBytes b) \<Rightarrow> Some b | _ \<Rightarrow> None,
                 case cbor_get (CInt 3) protected of
                   Some (CBytes b) \<Rightarrow> Some (decode_replace x b) | Some (CText t) \<Rightarrow> Some t | _ \<Rightarrow> None,
                 peek_unauthenticated_issuer x protected))
      | _ \<Rightarrow> Inl NotACheckpointError)"

definition enrolled :: "allowlist option \<Rightarrow> string option \<Rightarrow> submitter option" where
  "enrolled al iss = (case (al, iss) of
     (Some l, Some i) \<Rightarrow> if i = [] then None else allowlist_get i l | _ \<Rightarrow> None)"

text \<open>The claims map of a verified statement; \<open>entry\<close> and \<open>key\<close> are what the signature was checked with.\<close>

definition commitment_root :: "ext \<Rightarrow> cbor option \<Rightarrow> string res" where
  "commitment_root x v = (case v of
     Some (CBytes b) \<Rightarrow> rbind (decode_commitment x b) (\<lambda>peaks. Inr (hex (root_from_peaks peaks)))
   | _ \<Rightarrow> Inl NotACheckpointError)"

definition prev_commitment_root :: "ext \<Rightarrow> cbor option \<Rightarrow> string res" where
  "prev_commitment_root x v = (case v of
     None \<Rightarrow> Inr []
   | Some c \<Rightarrow> if truthy c then commitment_root x (Some c) else Inr [])"

definition claimed_proof :: "cbor option \<Rightarrow> int \<Rightarrow> int \<Rightarrow> mmr_proof option res" where
  "claimed_proof v prev_size mmr_size =
     (case v of
        None \<Rightarrow> Inr None
      | Some CNull \<Rightarrow> Inr None
      | Some raw \<Rightarrow> rbind (decode_consistency_proof raw) (\<lambda>p.
          if mp_size_a p \<noteq> prev_size \<or> mp_size_b p \<noteq> mmr_size then Inl NotACheckpointError else Inr (Some p)))"

definition claim_int :: "cbor option \<Rightarrow> int \<Rightarrow> int res" where
  "claim_int v least = (case v of
     Some (CInt n) \<Rightarrow> if n < least then Inl NotACheckpointError else Inr n | _ \<Rightarrow> Inl NotACheckpointError)"

definition claim_text :: "cbor option \<Rightarrow> string res" where
  "claim_text v = (case v of Some (CText t) \<Rightarrow> Inr t | _ \<Rightarrow> Inl NotACheckpointError)"

definition claims_map :: "ext \<Rightarrow> bytes option \<Rightarrow> (cbor \<times> cbor) list res" where
  "claims_map x payload = (case (case payload of None \<Rightarrow> None | Some p \<Rightarrow> cbor_loads x p) of
     Some (CMap claims) \<Rightarrow> Inr claims | _ \<Rightarrow> Inl NotACheckpointError)"

definition read_claims ::
    "ext \<Rightarrow> submitter option \<Rightarrow> bytes \<Rightarrow> string \<Rightarrow> string option \<Rightarrow> bytes option \<Rightarrow> checkpoint res" where
  "read_claims x entry key issuer subject payload =
     rbind (claims_map x payload) (\<lambda>claims.
     if cbor_get (CText ''kind'') claims \<noteq> Some (CText ''cll-checkpoint'') then Inl NotACheckpointError
     else rbind (claim_int (cbor_get (CText ''log_size'') claims) 1) (\<lambda>mmr_size.
     rbind (claim_int (cbor_get (CText ''prev_size'') claims) 0) (\<lambda>prev_size.
     if mmr_size \<le> prev_size then Inl NotACheckpointError
     else rbind (commitment_root x (cbor_get (CText ''commitment'') claims)) (\<lambda>root.
     rbind (prev_commitment_root x (cbor_get (CText ''prev_commitment'') claims)) (\<lambda>prev_root.
     rbind (claim_text (cbor_get (CText ''issued_at'') claims)) (\<lambda>issued_at.
     rbind (claimed_proof (cbor_get (CText ''consistency_proof'') claims) prev_size mmr_size) (\<lambda>pf.
     if subject \<noteq> Some (issuer @ ''#'' @ show_int mmr_size) then Inl NotACheckpointError
     else Inr \<lparr>ck_v = 1, ck_kind = ''mmr_checkpoint'', ck_log_id = issuer, ck_mmr_size = mmr_size,
       ck_root = root, ck_prev_size = prev_size, ck_prev_root = prev_root, ck_key_id = hex key,
       ck_timestamp = issued_at, ck_grade = map_option grade_of entry, ck_proof = Some pf\<rparr>)))))))"

definition verify_statement :: "ext \<Rightarrow> cose_lib \<Rightarrow> submitter option \<Rightarrow> bytes \<Rightarrow> bytes \<Rightarrow> checkpoint res" where
  "verify_statement x lib entry kid cose_bytes =
     (let key = (case entry of None \<Rightarrow> kid | Some e \<Rightarrow> sb_pubkey e) in
      if \<not> key_loads lib key then Inl NotACheckpointError
      else rbind (parse_signed lib cose_bytes key) (\<lambda>p.
        if \<not> pd_verified p then Inl CheckpointSignatureError
        else (case pd_issuer p of
          None \<Rightarrow> Inl NotACheckpointError
        | Some issuer \<Rightarrow>
            if issuer = [] then Inl NotACheckpointError
            else if (case entry of None \<Rightarrow> False | Some e \<Rightarrow> issuer \<noteq> sb_log_id e) then Inl NotACheckpointError
            else read_claims x entry key issuer (pd_subject p) (pd_payload p))))"

definition parse_checkpoint_cose :: "ext \<Rightarrow> cose_lib \<Rightarrow> allowlist option \<Rightarrow> bytes \<Rightarrow> checkpoint res" where
  "parse_checkpoint_cose x lib al cose_bytes =
     rbind (extract_protected_fields x lib cose_bytes) (\<lambda>(kid, content_type, iss).
       if content_type \<noteq> Some ''application/cll-checkpoint+cbor'' then Inl NotACheckpointError
       else (case kid of
         None \<Rightarrow> Inl NotACheckpointError
       | Some k \<Rightarrow>
           if length k \<noteq> 32 then Inl NotACheckpointError
           else verify_statement x lib (enrolled al iss) k cose_bytes))"

section \<open>The JSON wire\<close>

definition is_hex_of_len :: "json option \<Rightarrow> nat \<Rightarrow> bool" where
  "is_hex_of_len v n \<longleftrightarrow> (case v of
     Some (JStr s) \<Rightarrow> length s = n * 2 \<and> list_all (\<lambda>c. hex_value c \<noteq> None) s | _ \<Rightarrow> False)"

text \<open>An entry without a field map would be a \<open>TypeError\<close>, a map without the field a \<open>KeyError\<close>.\<close>

definition their_key :: "submitter \<Rightarrow> string \<Rightarrow> string res" where
  "their_key e our_key =
     (case sb_field_map e of
        None \<Rightarrow> Inl TypeError
      | Some fm \<Rightarrow> (case map_of fm our_key of None \<Rightarrow> Inl KeyError | Some k \<Rightarrow> Inr k))"

fun extract_log_id :: "(string \<times> json) list \<Rightarrow> submitter list \<Rightarrow> submitter res" where
  "extract_log_id obj [] = Inl NotACheckpointError"
| "extract_log_id obj (e # es) =
     rbind (their_key e ''log_id'') (\<lambda>key.
       if map_of obj key = Some (JStr (sb_log_id e)) then Inr e else extract_log_id obj es)"

definition json_text :: "json option \<Rightarrow> string res" where
  "json_text v = (case v of
     Some (JStr s) \<Rightarrow> if s = [] then Inl NotACheckpointError else Inr s | _ \<Rightarrow> Inl NotACheckpointError)"

definition json_int :: "json option \<Rightarrow> int \<Rightarrow> int res" where
  "json_int v least = (case v of
     Some (JInt n) \<Rightarrow> if n < least then Inl NotACheckpointError else Inr n | _ \<Rightarrow> Inl NotACheckpointError)"

definition json_root :: "json option \<Rightarrow> string res" where
  "json_root v = (case v of
     Some (JStr s) \<Rightarrow> if is_hex_of_len v 32 then Inr (lower s) else Inl NotACheckpointError
   | _ \<Rightarrow> Inl NotACheckpointError)"

definition json_prev_root :: "int \<Rightarrow> json option \<Rightarrow> string res" where
  "json_prev_root prev_size v = (if prev_size = 0 \<and> v = Some (JStr []) then Inr [] else json_root v)"

definition json_signature :: "json option \<Rightarrow> bytes res" where
  "json_signature v = rbind (json_text v) (\<lambda>s.
     case fromhex s of Inl _ \<Rightarrow> Inl NotACheckpointError | Inr b \<Rightarrow> Inr b)"

text \<open>\<open>field\<close> reads a canonical field of the submitted object through the entry's map.\<close>

definition read_json_checkpoint :: "submitter \<Rightarrow> (string \<Rightarrow> json option) \<Rightarrow> (checkpoint \<times> bytes) res" where
  "read_json_checkpoint e field =
     rbind (json_int (field ''v'') 1) (\<lambda>v.
     if field ''kind'' \<noteq> Some (JStr ''mmr_checkpoint'') \<or> field ''log_id'' \<noteq> Some (JStr (sb_log_id e))
     then Inl NotACheckpointError
     else rbind (json_text (field ''key_id'')) (\<lambda>key_id.
     rbind (json_root (field ''root'')) (\<lambda>root.
     rbind (json_int (field ''mmr_size'') 1) (\<lambda>mmr_size.
     rbind (json_int (field ''prev_size'') 0) (\<lambda>prev_size.
     if mmr_size \<le> prev_size then Inl NotACheckpointError
     else rbind (json_prev_root prev_size (field ''prev_root'')) (\<lambda>prev_root.
     rbind (json_text (field ''timestamp'')) (\<lambda>timestamp.
     rbind (json_signature (field ''signature'')) (\<lambda>sg.
     Inr (\<lparr>ck_v = v, ck_kind = ''mmr_checkpoint'', ck_log_id = sb_log_id e, ck_mmr_size = mmr_size,
         ck_root = root, ck_prev_size = prev_size, ck_prev_root = prev_root, ck_key_id = key_id,
         ck_timestamp = timestamp, ck_grade = None, ck_proof = None\<rparr>, sg)))))))))"

definition parse_checkpoint_json :: "ext \<Rightarrow> allowlist \<Rightarrow> bytes \<Rightarrow> checkpoint res" where
  "parse_checkpoint_json x al json_bytes =
     (case json_loads x json_bytes of
        Inr (JObj obj) \<Rightarrow>
          rbind (extract_log_id obj (entries_by_wire_form JsonEd25519 al)) (\<lambda>e.
          rbind (rmap (their_key e) json_checkpoint_all_fields) (\<lambda>keys.
          if \<not> list_all (\<lambda>k. map_of obj k \<noteq> None) keys then Inl NotACheckpointError
          else rbind (read_json_checkpoint e
                (\<lambda>our_key. case their_key e our_key of Inl _ \<Rightarrow> None | Inr k \<Rightarrow> map_of obj k)) (\<lambda>(cp, sg).
            if ed_verify x (sb_pubkey e) sg (ascii_bytes (checkpoint_digest cp))
            then Inr (cp\<lparr>ck_grade := Some (grade_of e)\<rparr>)
            else Inl CheckpointSignatureError)))
      | Inl e \<Rightarrow> Inl (if e \<in> {JSONDecodeError, UnicodeDecodeError} then NotACheckpointError else e)
      | _ \<Rightarrow> Inl NotACheckpointError)"

section \<open>What the parsers guarantee\<close>

lemma pair_peaks_stop [simp]: "length hashes \<le> 1 \<Longrightarrow> pair_peaks hashes = hashes"
  by (subst pair_peaks.simps) simp

lemma pair_peaks_step: "pair_peaks (hs @ [l, r]) = pair_peaks (hs @ [sha256 (r @ l)])"
  by (subst pair_peaks.simps) (simp add: butlast_append)

lemma pair_peaks_fold: "pair_peaks (hs @ [acc]) = [foldl (\<lambda>a p. sha256 (a @ p)) acc (rev hs)]"
proof (induction hs arbitrary: acc rule: rev_induct)
  case (snoc h hs)
  then show ?case using pair_peaks_step [of hs h acc] by simp
qed simp

text \<open>The loop that rebuilds a checkpoint's root from its peaks terminates and computes the right-to-left
  fold: the last peak, with each earlier peak hashed in on its right; no peaks give 32 zero bytes.\<close>

theorem root_from_peaks_fold:
  "root_from_peaks ps = (if ps = [] then replicate 32 0
     else foldl (\<lambda>acc peak. sha256 (acc @ peak)) (last ps) (rev (butlast ps)))"
proof (cases ps rule: rev_cases)
  case (snoc hs h)
  then show ?thesis by (simp add: root_from_peaks_def pair_peaks_fold)
qed (simp add: root_from_peaks_def)

lemma claim_int_least: "claim_int v least = Inr n \<Longrightarrow> least \<le> n"
  by (auto simp: claim_int_def split: option.splits cbor.splits if_splits)

lemma claimed_proof_sizes: "claimed_proof v a b = Inr (Some p) \<Longrightarrow> mp_size_a p = a \<and> mp_size_b p = b"
  by (auto simp: claimed_proof_def rbind_Inr_iff split: option.splits cbor.splits if_splits)

lemma wf_claims:
  assumes "read_claims x entry key issuer subject payload = Inr cp"
  shows "well_formed_cp cp \<and> ck_log_id cp = issuer \<and> ck_key_id cp = hex key \<and>
    ck_grade cp = map_option grade_of entry \<and> subject = Some (ck_log_id cp @ ''#'' @ show_int (ck_mmr_size cp)) \<and>
    (\<forall>p. ck_proof cp = Some (Some p) \<longrightarrow> mp_size_a p = ck_prev_size cp \<and> mp_size_b p = ck_mmr_size cp)"
proof -
  obtain claims mmr_size prev_size root prev_root issued_at pf where
    c: "claim_int (cbor_get (CText ''log_size'') claims) 1 = Inr mmr_size"
      "claim_int (cbor_get (CText ''prev_size'') claims) 0 = Inr prev_size" "prev_size < mmr_size"
      "claimed_proof (cbor_get (CText ''consistency_proof'') claims) prev_size mmr_size = Inr pf"
      "subject = Some (issuer @ ''#'' @ show_int mmr_size)"
      "cp = \<lparr>ck_v = 1, ck_kind = ''mmr_checkpoint'', ck_log_id = issuer, ck_mmr_size = mmr_size,
         ck_root = root, ck_prev_size = prev_size, ck_prev_root = prev_root, ck_key_id = hex key,
         ck_timestamp = issued_at, ck_grade = map_option grade_of entry, ck_proof = Some pf\<rparr>"
    using assms unfolding read_claims_def by (auto simp: rbind_Inr_iff split: if_splits)
  have "mp_size_a p = prev_size \<and> mp_size_b p = mmr_size" if "pf = Some p" for p
    using claimed_proof_sizes c(4) that by blast
  with c claim_int_least [OF c(2)] show ?thesis by (auto simp: well_formed_cp_def)
qed

text \<open>What \<open>parse_signed_statement\<close> must do: report the issuer of the protected header the peek read.\<close>

definition issuer_read_back :: "ext \<Rightarrow> cose_lib \<Rightarrow> bool" where
  "issuer_read_back x lib \<longleftrightarrow> (\<forall>b key p kid ct iss. parse_signed lib b key = Inr p \<longrightarrow> pd_verified p \<longrightarrow>
     extract_protected_fields x lib b = Inr (kid, ct, iss) \<longrightarrow> pd_issuer p = iss)"

lemma cose_parse_accepted:
  assumes "parse_checkpoint_cose x lib al b = Inr cp"
  obtains kid iss p key where "extract_protected_fields x lib b = Inr (Some kid, Some ''application/cll-checkpoint+cbor'', iss)"
    "length kid = 32" "key = (case enrolled al iss of None \<Rightarrow> kid | Some e \<Rightarrow> sb_pubkey e)"
    "parse_signed lib b key = Inr p" "pd_verified p" "pd_issuer p = Some (ck_log_id cp)" "ck_log_id cp \<noteq> []"
    "read_claims x (enrolled al iss) key (ck_log_id cp) (pd_subject p) (pd_payload p) = Inr cp"
    "\<And>e. enrolled al iss = Some e \<Longrightarrow> ck_log_id cp = sb_log_id e"
proof -
  obtain kid ct iss where e: "extract_protected_fields x lib b = Inr (kid, ct, iss)"
    using assms by (auto simp: parse_checkpoint_cose_def rbind_Inr_iff)
  from assms obtain k where k: "kid = Some k" "length k = 32" "ct = Some ''application/cll-checkpoint+cbor''"
    by (auto simp: parse_checkpoint_cose_def e split: if_splits option.splits)
  let ?key = "case enrolled al iss of None \<Rightarrow> k | Some e \<Rightarrow> sb_pubkey e"
  from assms obtain p issuer where p: "parse_signed lib b ?key = Inr p" "pd_verified p" "pd_issuer p = Some issuer"
    "issuer \<noteq> []" "\<not> (case enrolled al iss of None \<Rightarrow> False | Some e \<Rightarrow> issuer \<noteq> sb_log_id e)"
    "read_claims x (enrolled al iss) ?key issuer (pd_subject p) (pd_payload p) = Inr cp"
    by (cases "pd_issuer (projr (parse_signed lib b ?key))")
      (auto simp: parse_checkpoint_cose_def verify_statement_def e k Let_def rbind_Inr_iff split: if_splits)
  have i: "ck_log_id cp = issuer" using wf_claims [OF p(6)] by simp
  have "issuer = sb_log_id e" if "enrolled al iss = Some e" for e using p(5) that by simp
  with that [of k iss ?key p] e k p i show ?thesis by simp
qed

lemma extract_log_id_found:
  "extract_log_id obj es = Inr e \<Longrightarrow> e \<in> set es"
  by (induction es) (auto simp: rbind_Inr_iff split: if_splits)

lemma extract_log_id_first:
  "extract_log_id obj es = Inr e \<Longrightarrow> \<exists>key. their_key e ''log_id'' = Inr key \<and> map_of obj key = Some (JStr (sb_log_id e))"
  by (induction es) (auto simp: rbind_Inr_iff split: if_splits)

definition hex_root :: "string \<Rightarrow> bool" where
  "hex_root s \<longleftrightarrow> length s = 64 \<and> lower s = s"

lemma lower_char_hex: "hex_value c \<noteq> None \<Longrightarrow> lower_char (lower_char c) = lower_char c"
  by (auto simp: lower_char_def Let_def)

lemma json_root_ok: "json_root v = Inr r \<Longrightarrow> hex_root r"
  by (auto simp: json_root_def is_hex_of_len_def hex_root_def lower_def list_all_iff lower_char_hex
      split: option.splits json.splits if_splits)

lemma json_int_least: "json_int v least = Inr n \<Longrightarrow> least \<le> n"
  by (auto simp: json_int_def split: option.splits json.splits if_splits)

lemma read_json_ok:
  assumes "read_json_checkpoint e field = Inr (cp, sg)"
  shows "well_formed_cp cp \<and> ck_log_id cp = sb_log_id e \<and> hex_root (ck_root cp) \<and>
    (hex_root (ck_prev_root cp) \<or> ck_prev_root cp = [] \<and> ck_prev_size cp = 0) \<and> ck_proof cp = None \<and>
    1 \<le> ck_v cp \<and> ck_kind cp = ''mmr_checkpoint''"
proof -
  obtain v key_id root mmr_size prev_size prev_root timestamp where
    c: "json_int (field ''v'') 1 = Inr v" "json_root (field ''root'') = Inr root"
      "json_int (field ''mmr_size'') 1 = Inr mmr_size" "json_int (field ''prev_size'') 0 = Inr prev_size"
      "prev_size < mmr_size" "json_prev_root prev_size (field ''prev_root'') = Inr prev_root"
      "cp = \<lparr>ck_v = v, ck_kind = ''mmr_checkpoint'', ck_log_id = sb_log_id e, ck_mmr_size = mmr_size,
         ck_root = root, ck_prev_size = prev_size, ck_prev_root = prev_root, ck_key_id = key_id,
         ck_timestamp = timestamp, ck_grade = None, ck_proof = None\<rparr>"
    using assms unfolding read_json_checkpoint_def by (auto simp: rbind_Inr_iff split: if_splits sum.splits)
  have "hex_root prev_root \<or> prev_root = [] \<and> prev_size = 0"
    using c(6) json_root_ok by (auto simp: json_prev_root_def split: if_splits)
  with c json_int_least [OF c(1)] json_int_least [OF c(4)] json_root_ok [OF c(2)] show ?thesis
    by (simp add: well_formed_cp_def)
qed

lemma json_parse_accepted:
  assumes "parse_checkpoint_json x al b = Inr cp"
  obtains e field cp0 sg where "e \<in> set (entries_by_wire_form JsonEd25519 al)"
    "read_json_checkpoint e field = Inr (cp0, sg)" "cp = cp0\<lparr>ck_grade := Some (grade_of e)\<rparr>"
    "ed_verify x (sb_pubkey e) sg (ascii_bytes (checkpoint_digest cp))"
proof -
  from assms obtain obj where obj: "json_loads x b = Inr (JObj obj)"
    by (auto simp: parse_checkpoint_json_def split: sum.splits json.splits)
  from assms obtain e cp0 sg where "extract_log_id obj (entries_by_wire_form JsonEd25519 al) = Inr e"
    "read_json_checkpoint e (\<lambda>our_key. case their_key e our_key of Inl _ \<Rightarrow> None | Inr k \<Rightarrow> map_of obj k) = Inr (cp0, sg)"
    "ed_verify x (sb_pubkey e) sg (ascii_bytes (checkpoint_digest cp0))" "cp = cp0\<lparr>ck_grade := Some (grade_of e)\<rparr>"
    by (auto simp: parse_checkpoint_json_def obj rbind_Inr_iff split: if_splits)
  moreover from this(4) have "checkpoint_digest cp = checkpoint_digest cp0"
    by (simp add: checkpoint_digest_def checkpoint_signing_body_def)
  ultimately show ?thesis using that extract_log_id_found by metis
qed

section \<open>Properties of the parsers\<close>

lemma cose_accept_authentic:
  assumes "parse_checkpoint_cose x lib (Some al) b = Inr cp" "issuer_read_back x lib"
  shows "well_formed_cp cp \<and> (\<exists>key p. parse_signed lib b key = Inr p \<and> pd_verified p \<and>
    pd_issuer p = Some (ck_log_id cp) \<and> ck_key_id cp = hex key \<and>
    (case allowlist_get (ck_log_id cp) al of
       Some e \<Rightarrow> key = sb_pubkey e \<and> ck_grade cp = Some (grade_of e)
     | None \<Rightarrow> length key = 32 \<and> ck_grade cp = None))"
proof -
  obtain kid iss p key where c: "extract_protected_fields x lib b = Inr (Some kid, Some ''application/cll-checkpoint+cbor'', iss)"
    "length kid = 32" "key = (case enrolled (Some al) iss of None \<Rightarrow> kid | Some e \<Rightarrow> sb_pubkey e)"
    "parse_signed lib b key = Inr p" "pd_verified p" "pd_issuer p = Some (ck_log_id cp)" "ck_log_id cp \<noteq> []"
    "read_claims x (enrolled (Some al) iss) key (ck_log_id cp) (pd_subject p) (pd_payload p) = Inr cp"
    using cose_parse_accepted [OF assms(1)] by metis
  have "iss = Some (ck_log_id cp)" using assms(2) c(1,4,5,6) unfolding issuer_read_back_def by metis
  then have "enrolled (Some al) iss = allowlist_get (ck_log_id cp) al" using c(7) by (simp add: enrolled_def)
  with c wf_claims [OF c(8)] show ?thesis by (auto split: option.splits)
qed

lemma json_accept_authentic:
  assumes "from_list raw = Inr al" "parse_checkpoint_json x al b = Inr cp"
  shows "\<exists>e sg. allowlist_get (ck_log_id cp) al = Some e \<and> sb_wire_form e = JsonEd25519 \<and>
    ed_verify x (sb_pubkey e) sg (ascii_bytes (checkpoint_digest cp)) \<and> ck_grade cp = Some (grade_of e) \<and>
    well_formed_cp cp \<and> hex_root (ck_root cp) \<and>
    (hex_root (ck_prev_root cp) \<or> ck_prev_root cp = [] \<and> ck_prev_size cp = 0)"
proof -
  obtain e field cp0 sg where c: "e \<in> set (entries_by_wire_form JsonEd25519 al)"
    "read_json_checkpoint e field = Inr (cp0, sg)" "cp = cp0\<lparr>ck_grade := Some (grade_of e)\<rparr>"
    "ed_verify x (sb_pubkey e) sg (ascii_bytes (checkpoint_digest cp))"
    by (rule json_parse_accepted [OF assms(2)])
  note ok = read_json_ok [OF c(2)]
  obtain es where "distinct (map sb_log_id es)" "al = map (\<lambda>e. (sb_log_id e, e)) es"
    using assms(1) by (auto simp: from_list_spec)
  then have "distinct (map fst al)" "(sb_log_id e, e) \<in> set al" "sb_wire_form e = JsonEd25519"
    using c(1) by (auto simp: entries_by_wire_form_def o_def)
  then have "allowlist_get (sb_log_id e) al = Some e" by (simp add: allowlist_get_def)
  with c ok \<open>sb_wire_form e = JsonEd25519\<close> show ?thesis by (auto simp: well_formed_cp_def)
qed

text \<open>C32: an enrolled log id is a protected identity on the COSE wire: a checkpoint it accepts is well
  formed, carries a signature that verified under the pinned key of the log id when that is enrolled, and
  under the statement's own 32-byte key otherwise; the key id and the grade it reports are that key's.\<close>

theorem cose_checkpoint_authentic:
  assumes "parse_checkpoint_cose x lib (Some al) b = Inr cp" "issuer_read_back x lib"
  shows "well_formed_cp cp \<and> (\<exists>key p. parse_signed lib b key = Inr p \<and> pd_verified p \<and>
    pd_issuer p = Some (ck_log_id cp) \<and> ck_key_id cp = hex key \<and>
    (case allowlist_get (ck_log_id cp) al of
       Some e \<Rightarrow> key = sb_pubkey e \<and> ck_grade cp = Some (grade_of e)
     | None \<Rightarrow> length key = 32 \<and> ck_grade cp = None))"
  by (rule cose_accept_authentic [OF assms])

text \<open>The COSE parser never looks at the wire form an entry declares: an enrolled log that declared
  JSON is served all the same when it submits COSE.\<close>

theorem cose_ignores_wire_form:
  "parse_checkpoint_cose x lib (Some (map (\<lambda>(l, e). (l, e\<lparr>sb_wire_form := w, sb_field_map := fm\<rparr>)) al)) b =
   parse_checkpoint_cose x lib (Some al) b"
proof -
  let ?f = "\<lambda>e. e\<lparr>sb_wire_form := w, sb_field_map := fm\<rparr>"
  let ?al = "map (\<lambda>(l, e). (l, ?f e)) al"
  have enrol: "enrolled (Some ?al) iss = map_option ?f (enrolled (Some al) iss)" for iss
    by (cases iss) (simp_all add: enrolled_def allowlist_get_def map_of_map)
  have claims: "read_claims x (Some (?f e)) key issuer subject payload = read_claims x (Some e) key issuer subject payload"
    for e key issuer subject payload
  proof -
    have "map_option grade_of (Some (?f e)) = map_option grade_of (Some e)" by (simp add: grade_of_def)
    then show ?thesis unfolding read_claims_def by (simp only:)
  qed
  have pinned: "sb_pubkey (?f e) = sb_pubkey e" "sb_log_id (?f e) = sb_log_id e" for e by simp_all
  have verify: "verify_statement x lib (Some (?f e)) k b = verify_statement x lib (Some e) k b" for e k
    unfolding verify_statement_def option.case claims pinned ..
  have "verify_statement x lib (enrolled (Some ?al) iss) k b = verify_statement x lib (enrolled (Some al) iss) k b" for iss k
    unfolding enrol by (cases "enrolled (Some al) iss") (simp_all add: verify)
  then show ?thesis unfolding parse_checkpoint_cose_def by (simp only:)
qed

text \<open>C33: the JSON wire serves enrolled logs that declared it and no other: a checkpoint it accepts belongs
  to such an entry, is signed over its digest under the entry's pinned key, whatever key it names, and is
  well formed with hexadecimal roots.\<close>

theorem json_checkpoint_authentic:
  assumes "from_list raw = Inr al" "parse_checkpoint_json x al b = Inr cp"
  shows "\<exists>e sg. allowlist_get (ck_log_id cp) al = Some e \<and> sb_wire_form e = JsonEd25519 \<and>
    ed_verify x (sb_pubkey e) sg (ascii_bytes (checkpoint_digest cp)) \<and> ck_grade cp = Some (grade_of e) \<and>
    well_formed_cp cp \<and> hex_root (ck_root cp) \<and>
    (hex_root (ck_prev_root cp) \<or> ck_prev_root cp = [] \<and> ck_prev_size cp = 0)"
  by (rule json_accept_authentic [OF assms])

section \<open>Concrete submissions\<close>

text \<open>
  A statement library in which the bytes of a statement decide the decoded header, and a signature
  verifies when the last byte is the first byte of the key.
\<close>

definition sample_key :: "byte \<Rightarrow> bytes" where
  "sample_key b = b # replicate 31 0"

definition sample_claims :: cbor where
  "sample_claims = CMap [(CText ''kind'', CText ''cll-checkpoint''), (CText ''log_size'', CInt 3),
     (CText ''prev_size'', CInt 0), (CText ''commitment'', CBytes [2]), (CText ''issued_at'', CText ''t'')]"

definition sample_header :: cbor where
  "sample_header = CMap [(CInt 3, CText ''application/cll-checkpoint+cbor''), (CInt 4, CBytes (sample_key 9)),
     (CInt 15, CMap [(CInt 1, CText ''log'')])]"

definition sample_wire_ext :: ext where
  "sample_wire_ext = sample_ext\<lparr>cbor_loads := (\<lambda>b. if b = [1] then Some sample_header
     else if b = [2] then Some (CList [CBytes (sample_key 5)]) else if b = [3] then Some sample_claims else None),
     json_loads := (\<lambda>b. Inr (JObj [(''v'', JInt 1), (''kind'', JStr ''mmr_checkpoint''), (''log_id'', JStr ''log''),
       (''mmr_size'', JInt 3), (''root'', JStr (replicate 64 (CHR ''A''))), (''prev_size'', JInt 0), (''prev_root'', JStr []),
       (''key_id'', JStr ''k''), (''timestamp'', JStr ''t''), (''signature'', JStr ''00'')])),
     ed_verify := (\<lambda>pk sg m. pk = sample_key 7)\<rparr>"

definition sample_lib :: cose_lib where
  "sample_lib = \<lparr>strict_decode = (\<lambda>b. Some (CList [CBytes [1], CMap [], CBytes [3], CBytes b])),
     parse_signed = (\<lambda>b key. Inr \<lparr>pd_verified = (b \<noteq> [] \<and> hd b = hd key), pd_issuer = Some ''log'',
       pd_subject = Some ''log#3'', pd_payload = Some [3]\<rparr>),
     key_loads = (\<lambda>k. length k = 32)\<rparr>"

definition sample_submitters :: "json list" where
  "sample_submitters = [JObj [(''log_id'', JStr ''log''), (''pubkey_hex'', JStr (hex (sample_key 7))),
     (''wire_form'', JStr ''json-ed25519'')]]"

definition sample_submitter :: submitter where
  "sample_submitter = \<lparr>sb_log_id = ''log'', sb_pubkey = sample_key 7, sb_accumulator = Foreign, sb_rate_limit = 60,
     sb_wire_form = JsonEd25519, sb_field_map = Some identity_field_map\<rparr>"

lemma sample_allowlist: "from_list sample_submitters = Inr [(''log'', sample_submitter)]"
proof -
  have "distinct (map snd identity_field_map)"
    by (simp add: identity_field_map_def json_checkpoint_all_fields_def json_checkpoint_signing_fields_def)
  then show ?thesis
    by (simp add: from_list_def sample_submitters_def read_entry_def read_log_id_def read_choice_def item_get_def
        read_pubkey_def read_rate_limit_def read_field_map_def sample_key_def sample_submitter_def accumulators_def
        wire_forms_def)
qed

lemma sample_cose_accepted:
  "\<exists>cp. parse_checkpoint_cose sample_wire_ext sample_lib (Some [(''log'', sample_submitter)]) [7] = Inr cp \<and> ck_log_id cp = ''log''"
proof -
  have "show_int 3 = ''3''" by code_simp
  then show ?thesis
    by (simp add: parse_checkpoint_cose_def extract_protected_fields_def protected_header_def truthy_def py_bytes_def
        norm_key_def cbor_get_def sample_lib_def sample_wire_ext_def sample_header_def peek_unauthenticated_issuer_def
        peek_claim_def enrolled_def allowlist_get_def verify_statement_def sample_submitter_def sample_key_def
        read_claims_def claims_map_def sample_claims_def claim_int_def claim_text_def commitment_root_def
        decode_commitment_def peak_list_def peak_hash_def prev_commitment_root_def claimed_proof_def Let_def)
qed

lemma sample_issuer: "issuer_read_back sample_wire_ext sample_lib"
  by (simp add: issuer_read_back_def extract_protected_fields_def protected_header_def truthy_def py_bytes_def
      norm_key_def cbor_get_def sample_lib_def sample_wire_ext_def sample_header_def peek_unauthenticated_issuer_def
      peek_claim_def)

theorem cose_checkpoint_authentic_witness:
  "\<exists>cp. parse_checkpoint_cose sample_wire_ext sample_lib (Some [(''log'', sample_submitter)]) [7] = Inr cp \<and>
     well_formed_cp cp \<and> ck_key_id cp = hex (sample_key 7)"
proof -
  obtain cp where cp: "parse_checkpoint_cose sample_wire_ext sample_lib (Some [(''log'', sample_submitter)]) [7] = Inr cp"
    "ck_log_id cp = ''log''" using sample_cose_accepted by blast
  from cose_checkpoint_authentic [OF cp(1) sample_issuer] cp show ?thesis
    by (auto simp: allowlist_get_def sample_submitter_def)
qed

lemma sample_json_accepted: "\<exists>cp. parse_checkpoint_json sample_wire_ext [(''log'', sample_submitter)] [] = Inr cp"
proof -
  have wire: "is_hex_of_len (Some (JStr (replicate 64 (CHR ''A'')))) 32" "fromhex ''00'' = Inr [0]" by code_simp+
  show ?thesis
    by (simp add: parse_checkpoint_json_def sample_wire_ext_def entries_by_wire_form_def sample_submitter_def
        their_key_def identity_field_map_def json_checkpoint_all_fields_def json_checkpoint_signing_fields_def
        read_json_checkpoint_def json_int_def json_text_def json_root_def json_prev_root_def
        json_signature_def wire del: fromhex.simps)
qed

theorem json_checkpoint_authentic_witness:
  "\<exists>cp e. parse_checkpoint_json sample_wire_ext [(''log'', sample_submitter)] [] = Inr cp \<and>
     allowlist_get (ck_log_id cp) [(''log'', sample_submitter)] = Some e \<and> hex_root (ck_root cp)"
proof -
  obtain cp where cp: "parse_checkpoint_json sample_wire_ext [(''log'', sample_submitter)] [] = Inr cp"
    using sample_json_accepted by blast
  from json_checkpoint_authentic [OF sample_allowlist cp] cp show ?thesis by blast
qed

end
