(* ===== verification/Base64.thy ===== *)
theory Base64
  imports Prelude
begin

text \<open>
  The standard library's \<open>base64\<close>: \<open>b64encode\<close>, and \<open>b64decode\<close> in its lenient mode (other characters
  are skipped) and its strict one (\<open>validate=True\<close>), with the padding rules of \<open>binascii\<close>. What is
  encoded reads back in both.
\<close>

section \<open>The alphabet\<close>

definition b64_alphabet :: string where
  "b64_alphabet = ''ABCDEFGHIJKLMNOPQRSTUVWXYZabcdefghijklmnopqrstuvwxyz0123456789+/''"

definition b64_char :: "nat \<Rightarrow> char" where
  "b64_char n = b64_alphabet ! n"

definition b64_value :: "char \<Rightarrow> nat option" where
  "b64_value c = (let n = of_char c :: nat in
     if 65 \<le> n \<and> n \<le> 90 then Some (n - 65)
     else if 97 \<le> n \<and> n \<le> 122 then Some (n - 71)
     else if 48 \<le> n \<and> n \<le> 57 then Some (n + 4)
     else if n = 43 then Some 62
     else if n = 47 then Some 63
     else None)"

definition pad_char :: char where
  "pad_char = CHR ''=''"

lemma b64_alphabet_values: "map b64_value b64_alphabet = map Some [0..<64]" "pad_char \<notin> set b64_alphabet"
  "\<forall>c \<in> set b64_alphabet. (of_char c :: nat) < 128"
  by (simp_all add: b64_alphabet_def b64_value_def pad_char_def upt_conv_Cons)

lemma b64_char_in: "n < 64 \<Longrightarrow> b64_char n \<in> set b64_alphabet"
  using arg_cong [OF b64_alphabet_values(1), of length] by (simp add: b64_char_def)

lemma b64_value_char [simp]: "n < 64 \<Longrightarrow> b64_value (b64_char n) = Some n"
  "n < 64 \<Longrightarrow> b64_char n \<noteq> pad_char"
proof -
  have "length b64_alphabet = 64" using arg_cong [OF b64_alphabet_values(1), of length] by simp
  then show "n < 64 \<Longrightarrow> b64_value (b64_char n) = Some n"
    using arg_cong [OF b64_alphabet_values(1), of "\<lambda>l. l ! n"] by (simp add: b64_char_def)
  show "n < 64 \<Longrightarrow> b64_char n \<noteq> pad_char" using b64_char_in [of n] b64_alphabet_values(2) by auto
qed

lemma b64_value_pad: "b64_value pad_char = None"
  by code_simp

section \<open>Encoding and decoding\<close>

fun b64encode :: "bytes \<Rightarrow> string" where
  "b64encode [] = []"
| "b64encode [a] = [b64_char (unat a div 4), b64_char (unat a mod 4 * 16), pad_char, pad_char]"
| "b64encode [a, b] = [b64_char (unat a div 4), b64_char (unat a mod 4 * 16 + unat b div 16),
     b64_char (unat b mod 16 * 4), pad_char]"
| "b64encode (a # b # c # r) = [b64_char (unat a div 4), b64_char (unat a mod 4 * 16 + unat b div 16),
     b64_char (unat b mod 16 * 4 + unat c div 64), b64_char (unat c mod 64)] @ b64encode r"

text \<open>
  The decoder's state: the position in the group of four, the bits left over, the pads counted and
  whether a pad was seen.
\<close>

fun a2b :: "bool \<Rightarrow> nat \<Rightarrow> nat \<Rightarrow> nat \<Rightarrow> bool \<Rightarrow> string \<Rightarrow> bytes res" where
  "a2b strict quad left pads padded [] = (if quad = 0 then Inr [] else Inl ValueError)"
| "a2b strict quad left pads padded (c # s) =
     (if c = pad_char then
        (if 2 \<le> quad \<and> 4 \<le> quad + pads + 1
         then (if strict \<and> s \<noteq> [] then Inl ValueError else Inr [])
         else a2b strict quad left (if 2 \<le> quad then pads + 1 else pads) True s)
      else case b64_value c of
          None \<Rightarrow> if strict then Inl ValueError else a2b strict quad left pads padded s
        | Some v \<Rightarrow>
            if strict \<and> padded then Inl ValueError
            else if quad = 0 then a2b strict 1 v 0 padded s
            else if quad = 1 then rbind (a2b strict 2 (v mod 16) 0 padded s) (\<lambda>r. Inr (of_nat (left * 4 + v div 16) # r))
            else if quad = 2 then rbind (a2b strict 3 (v mod 4) 0 padded s) (\<lambda>r. Inr (of_nat (left * 16 + v div 4) # r))
            else rbind (a2b strict 0 0 0 padded s) (\<lambda>r. Inr (of_nat (left * 64 + v) # r)))"

definition b64decode :: "bool \<Rightarrow> string \<Rightarrow> bytes res" where
  "b64decode validate s =
     (if list_ex (\<lambda>c. 128 \<le> (of_char c :: nat)) s then Inl ValueError
      else if validate \<and> (case s of [] \<Rightarrow> False | c # _ \<Rightarrow> c = pad_char) then Inl ValueError
      else a2b validate 0 0 0 False s)"

section \<open>Reading back\<close>

lemma byte_split:
  fixes a :: byte
  shows "unat a div 4 < 64" "unat a div 16 < 16" "unat a div 64 < 4" "unat a < 256"
proof -
  have "unat a < 256" using unsigned_less [of a] by simp
  then show "unat a div 4 < 64" "unat a div 16 < 16" "unat a div 64 < 4" "unat a < 256" by auto
qed

lemma b64_sextet:
  fixes a b :: byte
  shows "unat a mod 4 * 16 + unat b div 16 < 64" "unat a mod 16 * 4 + unat b div 64 < 64"
    "unat a mod 4 * 16 < 64" "unat a mod 16 * 4 < 64"
proof -
  have "unat a mod 4 < 4" "unat a mod 16 < 16" by simp_all
  with byte_split(2,3) [of b] show "unat a mod 4 * 16 + unat b div 16 < 64" "unat a mod 16 * 4 + unat b div 64 < 64"
    "unat a mod 4 * 16 < 64" "unat a mod 16 * 4 < 64" by linarith+
qed

lemma byteI: "n = unat a \<Longrightarrow> of_nat n = (a :: byte)"
  by simp

lemma byte_join:
  fixes a b c :: byte
  shows "of_nat (unat a div 4 * 4 + (unat a mod 4 * 16 + unat b div 16) div 16) = a"
    "of_nat (unat a div 4 * 4 + unat a mod 4 * 16 div 16) = a"
    "of_nat ((unat a mod 4 * 16 + unat b div 16) mod 16 * 16 + (unat b mod 16 * 4 + unat c div 64) div 4) = b"
    "of_nat ((unat a mod 4 * 16 + unat b div 16) mod 16 * 16 + unat b mod 16 * 4 div 4) = b"
    "of_nat ((unat b mod 16 * 4 + unat c div 64) mod 4 * 64 + unat c mod 64) = c"
proof -
  have sixteen: "(n * 16 + unat b div 16) mod 16 = unat b div 16" "(n * 16 + unat b div 16) div 16 = n" for n
    using byte_split(2) [of b] by simp_all
  have four: "(n * 4 + unat c div 64) mod 4 = unat c div 64" "(n * 4 + unat c div 64) div 4 = n" for n
    using byte_split(3) [of c] by simp_all
  have whole: "n * k div k = n" if "0 < k" for n k :: nat using that by simp
  note join = sixteen four whole div_mult_mod_eq
  show "of_nat (unat a div 4 * 4 + (unat a mod 4 * 16 + unat b div 16) div 16) = a" by (rule byteI) (simp only: join)
  show "of_nat (unat a div 4 * 4 + unat a mod 4 * 16 div 16) = a"
    by (rule byteI) (simp only: join zero_less_numeral)
  show "of_nat ((unat a mod 4 * 16 + unat b div 16) mod 16 * 16 + (unat b mod 16 * 4 + unat c div 64) div 4) = b"
    by (rule byteI) (simp only: join)
  show "of_nat ((unat a mod 4 * 16 + unat b div 16) mod 16 * 16 + unat b mod 16 * 4 div 4) = b"
    by (rule byteI) (simp only: join zero_less_numeral)
  show "of_nat ((unat b mod 16 * 4 + unat c div 64) mod 4 * 64 + unat c mod 64) = c" by (rule byteI) (simp only: join)
qed

text \<open>One group of four characters.\<close>

lemma a2b_group:
  shows "p < 64 \<Longrightarrow> q < 64 \<Longrightarrow> r < 64 \<Longrightarrow> s < 64 \<Longrightarrow>
    a2b strict 0 0 0 False (b64_char p # b64_char q # b64_char r # b64_char s # rest) =
      rbind (a2b strict 0 0 0 False rest) (\<lambda>t. Inr (of_nat (p * 4 + q div 16) # of_nat (q mod 16 * 16 + r div 4) #
        of_nat (r mod 4 * 64 + s) # t))"
    "p < 64 \<Longrightarrow> q < 64 \<Longrightarrow> r < 64 \<Longrightarrow> a2b strict 0 0 0 False [b64_char p, b64_char q, b64_char r, pad_char] =
      Inr [of_nat (p * 4 + q div 16), of_nat (q mod 16 * 16 + r div 4)]"
    "p < 64 \<Longrightarrow> q < 64 \<Longrightarrow> a2b strict 0 0 0 False [b64_char p, b64_char q, pad_char, pad_char] = Inr [of_nat (p * 4 + q div 16)]"
  by (simp_all add: rbind_assoc del: of_nat_add of_nat_mult)

lemma a2b_encode: "a2b strict 0 0 0 False (b64encode bs) = Inr bs"
proof (induction bs rule: b64encode.induct)
  case (4 a b c r)
  have "unat c mod 64 < 64" by simp
  with 4 show ?case
    by (simp only: b64encode.simps append_Cons append_Nil a2b_group byte_split(1) b64_sextet byte_join rbind_simps)
qed (simp, (simp only: b64encode.simps a2b_group byte_split(1) b64_sextet byte_join)+)

lemma b64_char_ascii: "n < 64 \<Longrightarrow> (of_char (b64_char n) :: nat) < 128"
  using b64_char_in b64_alphabet_values(3) by blast

lemma b64encode_ascii: "\<not> list_ex (\<lambda>c. 128 \<le> (of_char c :: nat)) (b64encode bs)"
proof (induction bs rule: b64encode.induct)
  case (4 a b c r)
  have "unat c mod 64 < 64" by simp
  with 4 show ?case using b64_char_ascii by (simp add: byte_split b64_sextet linorder_not_le)
qed (simp_all add: byte_split b64_sextet b64_char_ascii pad_char_def linorder_not_le)

lemma b64_roundtrip [simp]: "b64decode validate (b64encode bs) = Inr bs"
proof -
  have "\<not> (case b64encode bs of [] \<Rightarrow> False | c # _ \<Rightarrow> c = pad_char)"
    by (induction bs rule: b64encode.induct) (simp_all add: byte_split)
  then show ?thesis by (simp add: b64decode_def b64encode_ascii a2b_encode)
qed

lemma b64encode_inj: "b64encode a = b64encode b \<longleftrightarrow> a = b"
  by (metis Inr_inject b64_roundtrip)

end
