(* ===== verification/PublicLog.thy ===== *)
theory PublicLog
  imports ServiceProps CheckpointWire Base64 "HOL-Library.Countable"
begin

text \<open>
  \<open>public_log/\<close>: the publisher that submits signed tree heads to an external log and keeps its
  receipts (\<open>scheduler.py\<close>), the in-memory log (\<open>in_memory.py\<close>), the entries and the answers of
  Rekor (\<open>rekor.py\<close>), the evidence added to a receipt (\<open>receipt_augment.py\<close>) and the inline
  wrapper (\<open>wrapper.py\<close>). The HTTP exchange is an argument.
\<close>

section \<open>What a log answers\<close>

text \<open>
  The receipt dict of \<open>PublicLog.submit\<close>: the keys the publisher reads, each \<open>None\<close> when it is
  absent or \<open>None\<close>, and the JSON text of the whole. A Rekor \<open>integratedTime\<close> is kept as text, the
  type of its column.
\<close>

record pl_result =
  plr_uuid :: "string option"
  plr_location :: "string option"
  plr_log_index :: "int option"
  plr_integrated_time :: "string option"
  plr_set :: "string option"
  plr_raw :: string

text \<open>A backend: its name and what submitting signed bytes does.\<close>

record public_log =
  log_name :: string
  log_submit :: "bytes \<Rightarrow> sig \<Rightarrow> pl_result res"

section \<open>The publisher\<close>

record publisher =
  pb_svc :: svc
  pb_failures :: nat
  pb_degraded_after :: nat

definition degraded :: "publisher \<Rightarrow> bool" where
  "degraded p \<longleftrightarrow> pb_degraded_after p \<le> pb_failures p"

text \<open>\<open>str(receipt.get("uuid") or receipt.get("location") or "")\<close>.\<close>

definition receipt_uuid :: "pl_result \<Rightarrow> string" where
  "receipt_uuid r = (case plr_uuid r of
     Some (c # s) \<Rightarrow> c # s
   | _ \<Rightarrow> (case plr_location r of None \<Rightarrow> [] | Some l \<Rightarrow> l))"

definition receipt_row :: "string \<Rightarrow> sth \<Rightarrow> pl_result \<Rightarrow> int \<Rightarrow> pl_receipt" where
  "receipt_row backend h r submitted_at =
     \<lparr>pl_backend = backend, pl_tree_size = sth_tree_size h, pl_root_hash = sth_root_hash h,
      pl_sth_timestamp = isoformat (sth_timestamp h), pl_uuid = receipt_uuid r, pl_log_index = plr_log_index r,
      pl_integrated_time = plr_integrated_time r, pl_set = plr_set r, pl_raw_response = plr_raw r,
      pl_submitted_at = isoformat submitted_at\<rparr>"

text \<open>The \<open>try\<close> block; \<open>None\<close> when there is nothing to publish.\<close>

definition read_and_submit :: "ext \<Rightarrow> anchorer \<Rightarrow> clock \<Rightarrow> public_log \<Rightarrow> (svc, (sth \<times> pl_result) option) op" where
  "read_and_submit x a now lg =
     op_bind (op_get store) (\<lambda>st.
       if store_size st = 0 then op_return None
       else op_bind (get_sth x a now) (\<lambda>h.
            op_bind (op_get store) (\<lambda>st'.
              if get_public_log_receipt (log_name lg) (sth_tree_size h) (sth_root_hash h) st' \<noteq> None
              then op_return None
              else op_bind (op_lift (log_submit lg
                     (sth_payload (sth_tree_size h) (sth_root_hash h) (sth_timestamp h)) (sth_signature h)))
                   (\<lambda>r. op_return (Some (h, r))))))"

text \<open>
  \<open>show_exn\<close> is \<open>str(exc)\<close>. The two writes may raise on a durable store: \<open>put_receipt\<close> and
  \<open>put_failure\<close> are the store's, and what \<open>put_failure\<close> raises is swallowed.
\<close>

definition record_failure ::
    "(exn \<Rightarrow> string) \<Rightarrow> (string \<Rightarrow> string \<Rightarrow> string \<Rightarrow> (svc, unit) op) \<Rightarrow> public_log \<Rightarrow> int \<Rightarrow> exn
      \<Rightarrow> publisher \<Rightarrow> publisher" where
  "record_failure show_exn put_failure lg at e p =
     p\<lparr>pb_failures := pb_failures p + 1,
       pb_svc := snd (put_failure (log_name lg) (isoformat at) (show_exn e) (pb_svc p))\<rparr>"

definition publish_if_new ::
    "ext \<Rightarrow> anchorer \<Rightarrow> clock \<Rightarrow> public_log \<Rightarrow> (exn \<Rightarrow> string) \<Rightarrow> (pl_receipt \<Rightarrow> (svc, unit) op)
      \<Rightarrow> (string \<Rightarrow> string \<Rightarrow> string \<Rightarrow> (svc, unit) op) \<Rightarrow> (publisher, bool) op" where
  "publish_if_new x a now lg show_exn put_receipt put_failure = (\<lambda>p.
     case read_and_submit x a now lg (pb_svc p) of
       (Inl e, s) \<Rightarrow> (Inr False, record_failure show_exn put_failure lg (now 2) e (p\<lparr>pb_svc := s\<rparr>))
     | (Inr None, s) \<Rightarrow> (Inr False, p\<lparr>pb_svc := s\<rparr>)
     | (Inr (Some (h, r)), s) \<Rightarrow>
         (case put_receipt (receipt_row (log_name lg) h r (now 2)) s of
            (Inl e, s') \<Rightarrow> (Inl e, p\<lparr>pb_svc := s'\<rparr>)
          | (Inr _, s') \<Rightarrow> (Inr True, p\<lparr>pb_svc := s', pb_failures := 0\<rparr>)))"

text \<open>The writes of the in-memory store, which do not raise.\<close>

definition mem_put_receipt :: "pl_receipt \<Rightarrow> (svc, unit) op" where
  "mem_put_receipt row = on_store (\<lambda>st. snd (put_public_log_receipt row st))"

definition mem_put_failure :: "string \<Rightarrow> string \<Rightarrow> string \<Rightarrow> (svc, unit) op" where
  "mem_put_failure backend at e = on_store (put_public_log_failure backend at e)"

section \<open>The in-memory log\<close>

record im_entry =
  im_payload :: bytes
  im_signature :: string
  im_payload_hash :: string
  im_time :: string

type_synonym im_log = "im_entry list"

definition im_submit :: "bytes \<Rightarrow> sig \<Rightarrow> int \<Rightarrow> im_log \<Rightarrow> (string \<times> json) list \<times> im_log" where
  "im_submit payload sg at es =
     (let i = int (length es); h = sha256_hex payload; t = isoformat at in
      ([(''location'', JStr (''in-memory://'' @ show_int i)), (''log_index'', JInt i), (''integrated_time'', JStr t),
        (''payload_sha256'', JStr h), (''signature'', JStr (sig_hex sg)), (''key_id'', JStr (sig_key_id sg))],
       es @ [\<lparr>im_payload = payload, im_signature = sig_hex sg, im_payload_hash = h, im_time = t\<rparr>]))"

text \<open>\<open>int(v)\<close> of a JSON value; \<open>trunc\<close> is \<open>int\<close> on a float literal.\<close>

definition int_of_json :: "(string \<Rightarrow> int res) \<Rightarrow> json option \<Rightarrow> int res" where
  "int_of_json trunc v = (case v of
     None \<Rightarrow> Inl KeyError
   | Some (JInt n) \<Rightarrow> Inr n
   | Some (JBool b) \<Rightarrow> Inr (if b then 1 else 0)
   | Some (JStr s) \<Rightarrow> py_int s
   | Some (JFloat f) \<Rightarrow> trunc f
   | Some _ \<Rightarrow> Inl TypeError)"

definition im_verify :: "(string \<Rightarrow> int res) \<Rightarrow> (string \<times> json) list \<Rightarrow> im_log \<Rightarrow> bool res" where
  "im_verify trunc receipt es =
     (case int_of_json trunc (map_of receipt ''log_index'') of
        Inl e \<Rightarrow> if e \<in> {KeyError, TypeError, ValueError} then Inr False else Inl e
      | Inr i \<Rightarrow> Inr (0 \<le> i \<and> i < int (length es) \<and>
          (let e = es ! nat i in
            map_of receipt ''location'' = Some (JStr (''in-memory://'' @ show_int i)) \<and>
            map_of receipt ''payload_sha256'' = Some (JStr (im_payload_hash e)) \<and>
            map_of receipt ''signature'' = Some (JStr (im_signature e)) \<and>
            map_of receipt ''integrated_time'' = Some (JStr (im_time e)))))"

section \<open>Rekor\<close>

definition ed25519_raw_to_pem :: "bytes \<Rightarrow> bytes res" where
  "ed25519_raw_to_pem raw_pubkey =
     (if length raw_pubkey \<noteq> 32 then Inl ValueError
      else let der = [0x30, 0x2a, 0x30, 0x05, 0x06, 0x03, 0x2b, 0x65, 0x70, 0x03, 0x21, 0x00] @ raw_pubkey in
        Inr (ascii_bytes (''-----BEGIN PUBLIC KEY-----'' @ [CHR 0x0A] @ b64encode der @ [CHR 0x0A] @
          ''-----END PUBLIC KEY-----'' @ [CHR 0x0A])))"

definition rekor_bundle :: "bytes \<Rightarrow> sig \<Rightarrow> bytes \<Rightarrow> json res" where
  "rekor_bundle payload sg raw_pubkey =
     rbind (fromhex (sig_hex sg)) (\<lambda>sig_bytes.
     rbind (ed25519_raw_to_pem raw_pubkey) (\<lambda>pem_pubkey.
     Inr (JObj [(''apiVersion'', JStr ''0.0.1''), (''kind'', JStr ''hashedrekord''),
       (''spec'', JObj
         [(''data'', JObj [(''hash'', JObj [(''algorithm'', JStr ''sha256''), (''value'', JStr (sha256_hex payload))])]),
          (''signature'', JObj [(''content'', JStr (b64encode sig_bytes)),
             (''publicKey'', JObj [(''content'', JStr (b64encode pem_pubkey))])])])])))"

definition sth_payload_type :: string where
  "sth_payload_type = ''application/vnd.capsule-anchor.sth+json''"

definition dsse_pae :: "string \<Rightarrow> bytes \<Rightarrow> bytes" where
  "dsse_pae payload_type payload =
     (let t = utf8 payload_type in
      ascii_bytes (''DSSEv1 '' @ show_int (int (length t)) @ '' '') @ t @
      ascii_bytes ('' '' @ show_int (int (length payload)) @ '' '') @ payload)"

text \<open>\<open>json.dumps\<close> without \<open>sort_keys\<close>: the members in the order they were written, between the two separators.\<close>

fun join_with :: "string \<Rightarrow> string list \<Rightarrow> string" where
  "join_with sep [] = []"
| "join_with sep [s] = s"
| "join_with sep (s # t # ss) = s @ sep @ join_with sep (t # ss)"

fun dumps_with :: "string \<Rightarrow> string \<Rightarrow> json \<Rightarrow> string" where
  "dumps_with item colon (JArr xs) = ''['' @ join_with item (map (dumps_with item colon) xs) @ '']''"
| "dumps_with item colon (JObj kvs) =
     ''{'' @ join_with item (map (\<lambda>(k, v). json_string k @ colon @ dumps_with item colon v) kvs) @ ''}''"
| "dumps_with item colon j = json_dumps j"

definition dsse_envelope :: "bytes \<Rightarrow> string \<Rightarrow> string \<Rightarrow> bytes \<Rightarrow> string" where
  "dsse_envelope payload payload_type key_id sig_bytes = dumps_with '','' '':'' (JObj
     [(''payloadType'', JStr payload_type), (''payload'', JStr (b64encode payload)),
      (''signatures'', JArr [JObj [(''keyid'', JStr key_id), (''sig'', JStr (b64encode sig_bytes))]])])"

definition dsse_bundle :: "bytes \<Rightarrow> string \<Rightarrow> sig \<Rightarrow> bytes \<Rightarrow> json res" where
  "dsse_bundle payload payload_type sg raw_pubkey =
     rbind (fromhex (sig_hex sg)) (\<lambda>sig_bytes.
     rbind (ed25519_raw_to_pem raw_pubkey) (\<lambda>pem_pubkey.
     Inr (JObj [(''apiVersion'', JStr ''0.0.1''), (''kind'', JStr ''dsse''),
       (''spec'', JObj [(''proposedContent'', JObj
          [(''envelope'', JStr (dsse_envelope payload payload_type (sig_key_id sg) sig_bytes)),
           (''verifiers'', JArr [JStr (b64encode pem_pubkey)])])])])))"

text \<open>The literal of a float that is zero.\<close>

definition zero_float :: "string \<Rightarrow> bool" where
  "zero_float f \<longleftrightarrow> list_all (\<lambda>c. c \<in> set ''-0.'') (takeWhile (\<lambda>c. c \<notin> set ''eE'') f)"

text \<open>\<open>v or {}\<close>, then \<open>.get\<close>: an empty value is the empty dict, another non-dict has no \<open>get\<close>.\<close>

definition dict_or_empty :: "json option \<Rightarrow> (string \<times> json) list res" where
  "dict_or_empty v = (case v of
     Some (JObj kvs) \<Rightarrow> Inr kvs
   | Some (JStr (_ # _)) \<Rightarrow> Inl AttributeError
   | Some (JArr (_ # _)) \<Rightarrow> Inl AttributeError
   | Some (JBool True) \<Rightarrow> Inl AttributeError
   | Some (JInt n) \<Rightarrow> if n = 0 then Inr [] else Inl AttributeError
   | Some (JFloat f) \<Rightarrow> if zero_float f then Inr [] else Inl AttributeError
   | _ \<Rightarrow> Inr [])"

definition text_of_json :: "json option \<Rightarrow> string option" where
  "text_of_json v = (case v of None \<Rightarrow> None | Some JNull \<Rightarrow> None | Some (JStr s) \<Rightarrow> Some s | Some j \<Rightarrow> Some (json_dumps j))"

text \<open>The response: its status and its parsed body, \<open>None\<close> when that is not JSON.\<close>

definition rekor_receipt :: "(string \<Rightarrow> int res) \<Rightarrow> string \<Rightarrow> int \<times> json option \<Rightarrow> pl_result res" where
  "rekor_receipt trunc url resp =
     (case resp of (status, parsed) \<Rightarrow>
      if status \<noteq> 200 \<and> status \<noteq> 201 then Inl RuntimeError
      else case parsed of
          None \<Rightarrow> Inl ValueError
        | Some (JObj ((uuid, entry) # _)) \<Rightarrow>
            (case entry of
               JObj kvs \<Rightarrow>
                 rbind (int_of_json trunc (Some (case map_of kvs ''logIndex'' of None \<Rightarrow> JInt (- 1) | Some v \<Rightarrow> v))) (\<lambda>i.
                 rbind (dict_or_empty (map_of kvs ''verification'')) (\<lambda>verification.
                 let location = url @ ''/api/v1/log/entries/'' @ uuid;
                     integrated = map_of kvs ''integratedTime'';
                     stamp = map_of verification ''signedEntryTimestamp'' in
                 Inr \<lparr>plr_uuid = Some uuid, plr_location = Some location, plr_log_index = Some i,
                   plr_integrated_time = text_of_json integrated, plr_set = text_of_json stamp,
                   plr_raw = dumps_with '', '' '': '' (JObj [(''uuid'', JStr uuid), (''log_index'', JInt i),
                     (''integrated_time'', case integrated of None \<Rightarrow> JNull | Some v \<Rightarrow> v),
                     (''signed_entry_timestamp'', case stamp of None \<Rightarrow> JNull | Some v \<Rightarrow> v),
                     (''location'', JStr location), (''log'', JStr ''rekor-public'')])\<rparr>))
             | _ \<Rightarrow> Inl AttributeError)
        | Some _ \<Rightarrow> Inl RuntimeError)"

text \<open>\<open>post\<close> is the HTTP client: what the request body gets. \<open>sign\<close> is the authority's \<open>attest\<close>, when given.\<close>

definition rekor_submit ::
    "(string \<Rightarrow> int res) \<Rightarrow> bytes \<Rightarrow> string \<Rightarrow> (bytes \<Rightarrow> sig) option \<Rightarrow> (json \<Rightarrow> (int \<times> json option) res)
      \<Rightarrow> bytes \<Rightarrow> sig \<Rightarrow> pl_result res" where
  "rekor_submit trunc pubkey url sign post payload sg =
     rbind (case sign of
         Some f \<Rightarrow> dsse_bundle payload sth_payload_type (f (dsse_pae sth_payload_type payload)) pubkey
       | None \<Rightarrow> rekor_bundle payload sg pubkey) (\<lambda>body.
     rbind (post body) (\<lambda>resp. rekor_receipt trunc url resp))"

definition truthy_json :: "json option \<Rightarrow> bool" where
  "truthy_json v = (case v of
     None \<Rightarrow> False | Some JNull \<Rightarrow> False | Some (JBool b) \<Rightarrow> b | Some (JInt n) \<Rightarrow> n \<noteq> 0 | Some (JStr s) \<Rightarrow> s \<noteq> []
   | Some (JFloat f) \<Rightarrow> \<not> zero_float f | Some (JArr l) \<Rightarrow> l \<noteq> [] | Some (JObj m) \<Rightarrow> m \<noteq> [])"

text \<open>\<open>fetch\<close> is the GET of an entry: \<open>None\<close> is an HTTP error, a body \<open>None\<close> one that is not JSON.\<close>

definition rekor_verify ::
    "(string \<Rightarrow> (int \<times> json option) option) \<Rightarrow> string option \<Rightarrow> json option \<Rightarrow> bool res" where
  "rekor_verify fetch uuid receipt_set =
     (case uuid of
        Some (c # u) \<Rightarrow>
          (case fetch (c # u) of
             Some (status, Some (JObj parsed)) \<Rightarrow>
               if status \<noteq> 200 then Inr False
               else (case map_of parsed (c # u) of
                   None \<Rightarrow> Inr False
                 | Some (JObj entry) \<Rightarrow>
                     rbind (dict_or_empty (map_of entry ''verification'')) (\<lambda>verification.
                     let set_value = map_of verification ''signedEntryTimestamp'' in
                     Inr (truthy_json set_value \<and>
                       \<not> (receipt_set \<noteq> None \<and> receipt_set \<noteq> Some JNull \<and> receipt_set \<noteq> set_value)))
                 | Some _ \<Rightarrow> Inl AttributeError)
           | _ \<Rightarrow> Inr False)
      | _ \<Rightarrow> Inr False)"

section \<open>Evidence in a receipt\<close>

text \<open>\<open>dict(v)\<close> of a sequence of pairs.\<close>

definition dict_pair :: "cbor \<Rightarrow> (cbor \<times> cbor) res" where
  "dict_pair v = (case v of
     CList [k, w] \<Rightarrow> (case k of CList _ \<Rightarrow> Inl TypeError | CMap _ \<Rightarrow> Inl TypeError | _ \<Rightarrow> Inr (k, w))
   | CText [c, d] \<Rightarrow> Inr (CText [c], CText [d])
   | CBytes [b, c] \<Rightarrow> Inr (CInt (uint b), CInt (uint c))
   | CMap [(k, _), (l, _)] \<Rightarrow> Inr (k, l)
   | CList _ \<Rightarrow> Inl ValueError | CText _ \<Rightarrow> Inl ValueError | CBytes _ \<Rightarrow> Inl ValueError | CMap _ \<Rightarrow> Inl ValueError
   | _ \<Rightarrow> Inl TypeError)"

definition dict_of :: "cbor \<Rightarrow> (cbor \<times> cbor) list res" where
  "dict_of v = (case v of
     CMap m \<Rightarrow> Inr m
   | CList l \<Rightarrow> rbind (rmap dict_pair l) (\<lambda>ps. Inr (fold (\<lambda>(k, w). dict_set k w) ps []))
   | CText (_ # _) \<Rightarrow> Inl ValueError
   | _ \<Rightarrow> if truthy v then Inl TypeError else Inr [])"

definition augment_receipt :: "ext \<Rightarrow> bytes \<Rightarrow> cbor \<Rightarrow> bytes res" where
  "augment_receipt x receipt public_log_entry =
     (case cbor_loads x receipt of
        None \<Rightarrow> Inl CBORDecodeError
      | Some (CTag t (CList [protected_bstr, unprotected, payload, signature])) \<Rightarrow>
          if t \<noteq> 18 then Inl ValueError
          else rbind (dict_of unprotected) (\<lambda>m.
            Inr (cbor_dumps x (CTag 18 (CList [protected_bstr, CMap (dict_set (CInt 397) public_log_entry m),
              payload, signature]))))
      | Some _ \<Rightarrow> Inl ValueError)"

section \<open>The inline wrapper\<close>

record public_proof =
  pp_backend :: string
  pp_receipt :: pl_result
  pp_tree_size :: int
  pp_root_hash :: string

text \<open>The flag \<open>_public_log_attached\<close>: attaching twice raises.\<close>

definition attach_public_log :: "(bool, unit) op" where
  "attach_public_log = op_bind (op_get id) (\<lambda>attached. if attached then op_raise RuntimeError else op_modify (\<lambda>_. True))"

definition anchor_with_public_log ::
    "ext \<Rightarrow> anchorer \<Rightarrow> clock \<Rightarrow> clock \<Rightarrow> (bytes \<Rightarrow> bytes option) option \<Rightarrow> public_log \<Rightarrow> string \<Rightarrow> string
      \<Rightarrow> int \<times> int \<Rightarrow> (svc, anchor_receipt \<times> public_proof) op" where
  "anchor_with_public_log x a now later tsa lg tenant_id root_hash seq_range =
     op_bind (anchor x a now tsa tenant_id root_hash seq_range None) (\<lambda>receipt.
     op_bind (get_sth x a later) (\<lambda>h.
     op_bind (op_lift (log_submit lg (sth_payload (sth_tree_size h) (sth_root_hash h) (sth_timestamp h))
       (sth_signature h))) (\<lambda>r.
     op_return (receipt, \<lparr>pp_backend = log_name lg, pp_receipt = r, pp_tree_size = sth_tree_size h,
       pp_root_hash = sth_root_hash h\<rparr>))))"

section \<open>A tree head that covers the log is served again\<close>

definition head_is :: "ext \<Rightarrow> sth \<Rightarrow> mem_store \<Rightarrow> bool" where
  "head_is x h st \<longleftrightarrow> (\<exists>j. get_latest_sth st = Some j \<and> sth_of_json x j = Inr h) \<and> store_size st \<le> sth_tree_size h"

lemma get_sth_again: "head_is x h (store s) \<Longrightarrow> get_sth x a now s = (Inr h, s)"
  by (auto simp: head_is_def get_sth_def)

lemma get_sth_head:
  assumes inv: "store_inv x (an_attestor a) (store s)" and env: "env_ok x a"
  shows "\<exists>h t. get_sth x a now s = (Inr h, t) \<and> head_is x h (store t) \<and> verify_sth x a h \<and>
    sth_tree_size h = store_size (store s) \<and> ct_root None s = Inr (sth_root_hash h) \<and>
    store_inv x (an_attestor a) (store t) \<and> m_log (store t) = m_log (store s) \<and>
    m_pl_receipts (store t) = m_pl_receipts (store s) \<and> m_statements (store t) = m_statements (store s)"
proof -
  obtain h t where run: "get_sth x a now s = (Inr h, t)" "m_log (store t) = m_log (store s)"
    "sth_tree_size h = store_size (store s)" "ct_root None s = Inr (sth_root_hash h)" "verify_sth x a h"
    using get_sth_run [OF inv env, of now] by blast
  have "stable x a (store s) s" using inv by (simp add: stable_def)
  then have "stable x a (store s) t" by (rule hoare_same [OF get_sth_stable [OF env]]) (rule run(1))
  then have keep: "store_inv x (an_attestor a) (store t)" by (simp add: stable_def)
  obtain g where g: "sign_and_persist_sth x (an_attestor a) (now 0) (now 1) s =
      (Inr g, s\<lparr>store := put_sth (sth_to_json x g) (sth_tree_size g) (sth_timestamp g) (store s)\<rparr>)"
    "sth_tree_size g = int (length (m_log (store s)))"
    using sign_run [OF inv env] by blast
  let ?u = "put_sth (sth_to_json x g) (sth_tree_size g) (sth_timestamp g) (store s)"
  have j: "sth_of_json x (sth_to_json x g) = Inr g" using env by (simp add: env_ok_def sth_json_ok_def)
  have "head_is x h (store t) \<and> m_pl_receipts (store t) = m_pl_receipts (store s) \<and> m_statements (store t) = m_statements (store s)"
  proof (cases "m_latest_sth (store s)")
    case None
    then have "m_latest_sth_key (store s) = None" using inv by (simp add: store_inv_def latest_ok_def)
    with None run(1) g j show ?thesis
      by (auto simp: get_sth_def get_latest_sth_def head_is_def put_sth_def store_size_def)
  next
    case (Some k)
    then obtain f where f: "sth_of_json x k = Inr f" "m_latest_sth_key (store s) = Some (sth_tree_size f, sth_timestamp f)"
      using inv by (auto simp: store_inv_def latest_ok_def)
    show ?thesis
    proof (cases "store_size (store s) \<le> sth_tree_size f")
      case True
      with Some f run(1) show ?thesis by (auto simp: get_sth_def get_latest_sth_def head_is_def)
    next
      case False
      with Some f run(1) g j show ?thesis
        by (auto simp: get_sth_def get_latest_sth_def head_is_def put_sth_def store_size_def sth_key_le_def)
    qed
  qed
  with run keep show ?thesis by blast
qed

section \<open>The publishing loop\<close>

text \<open>The rounds of \<open>_run\<close>; what \<open>publish_if_new\<close> raises ends the thread.\<close>

fun publish_rounds ::
    "ext \<Rightarrow> anchorer \<Rightarrow> (exn \<Rightarrow> string) \<Rightarrow> (pl_receipt \<Rightarrow> (svc, unit) op) \<Rightarrow> (string \<Rightarrow> string \<Rightarrow> string \<Rightarrow> (svc, unit) op)
      \<Rightarrow> (clock \<times> public_log) list \<Rightarrow> publisher \<Rightarrow> bool \<times> publisher" where
  "publish_rounds x a show_exn put_receipt put_failure [] p = (True, p)"
| "publish_rounds x a show_exn put_receipt put_failure ((now, lg) # rounds) p =
     (case publish_if_new x a now lg show_exn put_receipt put_failure p of
        (Inl e, p') \<Rightarrow> (False, p')
      | (Inr _, p') \<Rightarrow> publish_rounds x a show_exn put_receipt put_failure rounds p')"

lemma mem_put_run:
  "mem_put_receipt row s = (Inr (), s\<lparr>store := snd (put_public_log_receipt row (store s))\<rparr>)"
  "mem_put_failure b at e s = (Inr (), s\<lparr>store := put_public_log_failure b at e (store s)\<rparr>)"
  by (simp_all add: mem_put_receipt_def mem_put_failure_def)

lemma pl_frame [store_simps]:
  "store_inv x k (snd (put_public_log_receipt row s)) = store_inv x k s"
  "store_inv x k (put_public_log_failure b at e s) = store_inv x k s"
  "head_is x h (snd (put_public_log_receipt row s)) = head_is x h s"
  "head_is x h (put_public_log_failure b at e s) = head_is x h s"
  "m_log (snd (put_public_log_receipt row s)) = m_log s"
  "m_log (put_public_log_failure b at e s) = m_log s"
  "m_statements (put_public_log_failure b at e s) = m_statements s"
  "m_pl_receipts (put_public_log_failure b at e s) = m_pl_receipts s"
  by (simp_all add: store_inv_def head_is_def get_latest_sth_def store_size_def put_public_log_receipt_def
      put_public_log_failure_def split: option.splits)

lemma read_and_submit_run:
  assumes inv: "store_inv x (an_attestor a) (store s)" and env: "env_ok x a" and log: "m_log (store s) \<noteq> []"
  shows "\<exists>h t. head_is x h (store t) \<and> verify_sth x a h \<and> sth_tree_size h = store_size (store s) \<and>
    ct_root None s = Inr (sth_root_hash h) \<and> store_inv x (an_attestor a) (store t) \<and>
    m_log (store t) = m_log (store s) \<and> m_pl_receipts (store t) = m_pl_receipts (store s) \<and>
    m_statements (store t) = m_statements (store s) \<and>
    (\<forall>lg. read_and_submit x a now lg s =
      (if get_public_log_receipt (log_name lg) (sth_tree_size h) (sth_root_hash h) (store s) \<noteq> None then (Inr None, t)
       else case log_submit lg (sth_payload (sth_tree_size h) (sth_root_hash h) (sth_timestamp h)) (sth_signature h) of
           Inl e \<Rightarrow> (Inl e, t) | Inr r \<Rightarrow> (Inr (Some (h, r)), t)))"
proof -
  obtain h t where run: "get_sth x a now s = (Inr h, t)" "head_is x h (store t)" "verify_sth x a h"
    "sth_tree_size h = store_size (store s)" "ct_root None s = Inr (sth_root_hash h)"
    "store_inv x (an_attestor a) (store t)" "m_log (store t) = m_log (store s)"
    "m_pl_receipts (store t) = m_pl_receipts (store s)" "m_statements (store t) = m_statements (store s)"
    using get_sth_head [OF inv env, of now] by blast
  have "read_and_submit x a now lg s =
      (if get_public_log_receipt (log_name lg) (sth_tree_size h) (sth_root_hash h) (store s) \<noteq> None then (Inr None, t)
       else case log_submit lg (sth_payload (sth_tree_size h) (sth_root_hash h) (sth_timestamp h)) (sth_signature h) of
           Inl e \<Rightarrow> (Inl e, t) | Inr r \<Rightarrow> (Inr (Some (h, r)), t))" for lg
    using run(1,8) log
    by (auto simp: read_and_submit_def op_bind_simps store_size_def get_public_log_receipt_def split: sum.splits)
  with run show ?thesis by blast
qed

lemma published_once:
  assumes reach: "reachable x a (pb_svc p)" and env: "env_ok x a"
    and run: "publish_if_new x a now lg show_exn mem_put_receipt mem_put_failure p = (Inr True, p')"
  shows "m_log (store (pb_svc p')) = m_log (store (pb_svc p)) \<and> \<not> pb_failures p' > 0 \<and>
    (\<exists>h row. verify_sth x a h \<and> sth_tree_size h = store_size (store (pb_svc p')) \<and>
      get_public_log_receipt (log_name lg) (sth_tree_size h) (sth_root_hash h) (store (pb_svc p')) = Some row) \<and>
    (\<forall>now' lg' show'. log_name lg' = log_name lg \<longrightarrow>
      publish_if_new x a now' lg' show' mem_put_receipt mem_put_failure p' = (Inr False, p'))"
proof -
  let ?s = "pb_svc p"
  have inv: "store_inv x (an_attestor a) (store ?s)" by (rule reachable_inv [OF reach env])
  have log: "m_log (store ?s) \<noteq> []"
    using run by (auto simp: publish_if_new_def read_and_submit_def store_size_def)
  obtain h t where h: "head_is x h (store t)" "verify_sth x a h" "sth_tree_size h = store_size (store ?s)"
    "m_log (store t) = m_log (store ?s)" "m_pl_receipts (store t) = m_pl_receipts (store ?s)"
    "read_and_submit x a now lg ?s =
      (if get_public_log_receipt (log_name lg) (sth_tree_size h) (sth_root_hash h) (store ?s) \<noteq> None then (Inr None, t)
       else case log_submit lg (sth_payload (sth_tree_size h) (sth_root_hash h) (sth_timestamp h)) (sth_signature h) of
           Inl e \<Rightarrow> (Inl e, t) | Inr r \<Rightarrow> (Inr (Some (h, r)), t))"
    using read_and_submit_run [OF inv env log, of now] by blast
  from run h(6) obtain r where r: "get_public_log_receipt (log_name lg) (sth_tree_size h) (sth_root_hash h) (store ?s) = None"
    "p' = p\<lparr>pb_svc := t\<lparr>store := snd (put_public_log_receipt (receipt_row (log_name lg) h r (now 2)) (store t))\<rparr>, pb_failures := 0\<rparr>"
    by (auto simp: publish_if_new_def mem_put_run split: if_splits sum.splits)
  let ?u = "store (pb_svc p')"
  have u: "?u = snd (put_public_log_receipt (receipt_row (log_name lg) h r (now 2)) (store t))" using r(2) by simp
  have row: "get_public_log_receipt (log_name lg) (sth_tree_size h) (sth_root_hash h) ?u = Some (receipt_row (log_name lg) h r (now 2))"
    using r(1) h(5) unfolding u
    by (simp add: put_public_log_receipt_def get_public_log_receipt_def pl_key_def receipt_row_def)
  have len: "m_log ?u = m_log (store ?s)" unfolding u by (simp add: store_simps h(4))
  have "get_sth x a now' (pb_svc p') = (Inr h, pb_svc p')" for now'
    by (rule get_sth_again) (simp add: u store_simps h(1))
  then have "read_and_submit x a now' lg' (pb_svc p') = (Inr None, pb_svc p')" if "log_name lg' = log_name lg" for now' lg'
    using that row len log by (simp add: read_and_submit_def op_bind_simps store_size_def)
  with r(2) row len h(2,3) show ?thesis
    by (auto simp: publish_if_new_def store_size_def)
qed

section \<open>An outage\<close>

lemma read_and_submit_state:
  "read_and_submit x a now lg s = (r, t) \<Longrightarrow> t = s \<or> t = snd (get_sth x a now s)"
  by (cases "get_sth x a now s")
    (auto simp: read_and_submit_def op_bind_def op_get_def op_return_def op_lift_def split: if_splits sum.splits prod.splits)

text \<open>What the calls of the service leave alone.\<close>

definition keeps_receipts :: "(svc, 'a) op \<Rightarrow> bool" where
  "keeps_receipts m \<longleftrightarrow> (\<forall>s r t. m s = (r, t) \<longrightarrow> m_pl_receipts (store t) = m_pl_receipts (store s))"

lemma keeps_receiptsD: "keeps_receipts m \<Longrightarrow> m s = (r, t) \<Longrightarrow> m_pl_receipts (store t) = m_pl_receipts (store s)"
  by (simp add: keeps_receipts_def)

lemma kept_bind: "keeps_receipts m \<Longrightarrow> (\<And>y. keeps_receipts (f y)) \<Longrightarrow> keeps_receipts (op_bind m f)"
  unfolding keeps_receipts_def op_bind_def by (auto split: prod.splits sum.splits)

lemma kept_same_store: "same_store m \<Longrightarrow> keeps_receipts m"
  by (simp add: same_store_def keeps_receipts_def)

lemma kept_on_store: "(\<And>st. m_pl_receipts (f st) = m_pl_receipts st) \<Longrightarrow> keeps_receipts (on_store f)"
  by (simp add: keeps_receipts_def on_store_def)

lemma kept_basic [simp]:
  "keeps_receipts (op_return v)" "keeps_receipts (op_lift w)" "keeps_receipts (op_get g)" "keeps_receipts (Pair q)"
  "keeps_receipts (run_gates x a cont pk)"
  by (auto intro: kept_same_store)

lemma kept_stores [simp]:
  "keeps_receipts (on_store (append_entry e))" "keeps_receipts (on_store (put_root cr))"
  "keeps_receipts (on_store (put_capsule_id i c))" "keeps_receipts (on_store (put_sth j n tm))"
  "keeps_receipts (on_store (put_statement h st))" "keeps_receipts (on_store (put_subject_index sub h d fm))"
  "keeps_receipts (on_store (put_checkpoint_witness l w))" "keeps_receipts (record_checkpoint_read_surface cp rg)"
  by (auto simp: record_checkpoint_read_surface_def append_entry_def put_root_def put_capsule_id_def put_sth_def put_statement_def
      put_subject_index_def put_checkpoint_witness_def put_checkpoint_record_def Let_def intro!: kept_on_store split: option.splits)

lemma kept_sign [simp]: "keeps_receipts (sign_and_persist_sth x b t1 t2)"
  by (auto simp: sign_and_persist_sth_def Let_def intro!: kept_bind)

lemma kept_register [simp]: "keeps_receipts (register_signed_statement_full x a now st grade cont)"
  unfolding register_signed_statement_full_def register_new_def append_log_def commit_registration_def when_some_def
  by (auto intro!: kept_bind split: option.splits)

lemma kept_operations:
  "keeps_receipts (anchor x a now tsa tid rh sr cid)" "keeps_receipts (get_sth x a now)"
  "keeps_receipts (refresh_sth x a now)" "keeps_receipts (witness_checkpoint x a now cp)"
  by (auto simp: anchor_def append_log_def get_sth_def refresh_sth_def witness_checkpoint_def Let_def intro!: kept_bind
      split: option.splits)

lemma step_keeps_receipts:
  assumes "step x a s t"
  shows "m_pl_receipts (store t) = m_pl_receipts (store s)"
  using assms
proof (cases rule: step.cases)
  case call_step
  then show ?thesis
    by (cases rule: call.cases) (auto dest: kept_operations [THEN keeps_receiptsD] kept_register [THEN keeps_receiptsD]
        kept_stores(8) [THEN keeps_receiptsD])
next
  case (prune_step env time n)
  then show ?thesis
    by (auto simp: prune_expired_statements_def op_bind_def prune_statements_older_than_def
        split: prod.splits sum.splits option.splits)
qed

text \<open>
  What a round of an outage may write: kept tree heads and rows of failures, nothing else of the service.
\<close>

definition outage_writes :: "svc \<Rightarrow> svc \<Rightarrow> bool" where
  "outage_writes s t \<longleftrightarrow> would_refuse t = would_refuse s \<and>
     store t = (store s)\<lparr>m_sth_history := m_sth_history (store t), m_latest_sth := m_latest_sth (store t),
       m_latest_sth_key := m_latest_sth_key (store t), m_pl_failures := m_pl_failures (store t)\<rparr>"

lemma outage_writes_refl: "outage_writes s s"
  by (simp add: outage_writes_def)

lemma outage_writesI:
  "would_refuse t = would_refuse s \<Longrightarrow>
   store t = (store s)\<lparr>m_sth_history := hi, m_latest_sth := la, m_latest_sth_key := k, m_pl_failures := f\<rparr> \<Longrightarrow> outage_writes s t"
  by (simp add: outage_writes_def)

lemma outage_writesE:
  assumes "outage_writes s t"
  obtains hi la k f where "would_refuse t = would_refuse s"
    "store t = (store s)\<lparr>m_sth_history := hi, m_latest_sth := la, m_latest_sth_key := k, m_pl_failures := f\<rparr>"
  using assms unfolding outage_writes_def by blast

lemma outage_writes_trans: "outage_writes s t \<Longrightarrow> outage_writes t u \<Longrightarrow> outage_writes s u"
  by (elim outage_writesE) (rule outage_writesI, simp_all)

lemma outage_writes_failure: "outage_writes s t \<Longrightarrow> outage_writes s (t\<lparr>store := put_public_log_failure b m e (store t)\<rparr>)"
  by (elim outage_writesE) (rule outage_writesI, simp_all add: put_public_log_failure_def)

lemma outage_writes_same:
  assumes "outage_writes s t"
  shows "m_log (store t) = m_log (store s)" "m_pl_receipts (store t) = m_pl_receipts (store s)"
  using assms by (elim outage_writesE; simp)+

text \<open>A backend by its name, every submission to which raises.\<close>

definition down :: "string \<Rightarrow> public_log \<Rightarrow> bool" where
  "down backend lg \<longleftrightarrow> log_name lg = backend \<and> (\<forall>b g. \<exists>e. log_submit lg b g = Inl e)"

text \<open>There is a log, and no head of it or of a longer log has been published.\<close>

definition unpublished :: "string \<Rightarrow> mem_store \<Rightarrow> bool" where
  "unpublished backend s \<longleftrightarrow> m_log s \<noteq> [] \<and> (\<forall>n r. store_size s \<le> n \<longrightarrow> get_public_log_receipt backend n r s = None)"

lemma unpublished_later:
  "unpublished backend s \<Longrightarrow> prefix (m_log s) (m_log t) \<Longrightarrow> m_pl_receipts t = m_pl_receipts s \<Longrightarrow> unpublished backend t"
  by (auto simp: unpublished_def get_public_log_receipt_def store_size_def dest!: prefix_length_le)

lemma down_round:
  assumes inv: "store_inv x (an_attestor a) (store (pb_svc p))" and env: "env_ok x a" and down: "down backend lg"
  shows "\<exists>u. publish_if_new x a now lg show_exn mem_put_receipt mem_put_failure p = (Inr False, u) \<and>
    outage_writes (pb_svc p) (pb_svc u) \<and> pb_degraded_after u = pb_degraded_after p \<and>
    store_inv x (an_attestor a) (store (pb_svc u)) \<and> pb_failures p \<le> pb_failures u \<and> pb_failures u \<le> Suc (pb_failures p) \<and>
    (unpublished backend (store (pb_svc p)) \<longrightarrow> pb_failures u = Suc (pb_failures p))"
proof (cases "m_log (store (pb_svc p)) = []")
  case True
  then show ?thesis
    using inv by (simp add: publish_if_new_def read_and_submit_def store_size_def outage_writes_refl unpublished_def)
next
  case False
  obtain h t where h: "sth_tree_size h = store_size (store (pb_svc p))" "store_inv x (an_attestor a) (store t)"
    "m_pl_receipts (store t) = m_pl_receipts (store (pb_svc p))"
    and run: "read_and_submit x a now lg (pb_svc p) =
      (if get_public_log_receipt (log_name lg) (sth_tree_size h) (sth_root_hash h) (store (pb_svc p)) \<noteq> None then (Inr None, t)
       else case log_submit lg (sth_payload (sth_tree_size h) (sth_root_hash h) (sth_timestamp h)) (sth_signature h) of
           Inl e \<Rightarrow> (Inl e, t) | Inr r \<Rightarrow> (Inr (Some (h, r)), t))"
    using read_and_submit_run [OF inv env False, of now] by blast
  obtain e where e: "log_submit lg (sth_payload (sth_tree_size h) (sth_root_hash h) (sth_timestamp h)) (sth_signature h) = Inl e"
    using down unfolding down_def by blast
  have "t = pb_svc p \<or> t = snd (get_sth x a now (pb_svc p))"
    using run by (cases "read_and_submit x a now lg (pb_svc p)")
      (auto simp: e dest!: read_and_submit_state split: if_splits)
  then have w: "outage_writes (pb_svc p) t"
    using get_sth_heads [of x a now "pb_svc p" _ t]
    by (cases "get_sth x a now (pb_svc p)") (auto simp: outage_writes_refl outage_writes_def heads_differ_def)
  note w' = outage_writes_failure [OF w]
  have "get_public_log_receipt (log_name lg) (sth_tree_size h) (sth_root_hash h) (store (pb_svc p)) = None"
    if "unpublished backend (store (pb_svc p))" using that down h(1) by (simp add: unpublished_def down_def)
  with run e w w' h(2) show ?thesis
    by (auto simp: publish_if_new_def record_failure_def mem_put_run store_simps)
qed

lemma down_rounds:
  assumes "env_ok x a" "store_inv x (an_attestor a) (store (pb_svc p))" "list_all (down backend) (map snd rounds)"
  shows "\<exists>u. publish_rounds x a show_exn mem_put_receipt mem_put_failure rounds p = (True, u) \<and>
    outage_writes (pb_svc p) (pb_svc u) \<and> pb_degraded_after u = pb_degraded_after p \<and>
    store_inv x (an_attestor a) (store (pb_svc u)) \<and> pb_failures p \<le> pb_failures u \<and>
    pb_failures u \<le> pb_failures p + length rounds \<and>
    (unpublished backend (store (pb_svc p)) \<longrightarrow> pb_failures u = pb_failures p + length rounds)"
  using assms(2-)
proof (induction rounds arbitrary: p)
  case (Cons r rounds)
  obtain now lg where r: "r = (now, lg)" by (cases r)
  then have "down backend lg" using Cons.prems(2) by simp
  from down_round [OF Cons.prems(1) assms(1) this, of now show_exn] obtain q where q:
    "publish_if_new x a now lg show_exn mem_put_receipt mem_put_failure p = (Inr False, q)"
    "outage_writes (pb_svc p) (pb_svc q)" "pb_degraded_after q = pb_degraded_after p"
    "store_inv x (an_attestor a) (store (pb_svc q))" "pb_failures p \<le> pb_failures q" "pb_failures q \<le> Suc (pb_failures p)"
    "unpublished backend (store (pb_svc p)) \<longrightarrow> pb_failures q = Suc (pb_failures p)" by blast
  note same = outage_writes_same [OF q(2)]
  have "unpublished backend (store (pb_svc p)) \<longrightarrow> unpublished backend (store (pb_svc q))"
    using same by (simp add: unpublished_def get_public_log_receipt_def store_size_def)
  moreover obtain u where u: "publish_rounds x a show_exn mem_put_receipt mem_put_failure rounds q = (True, u)"
    "outage_writes (pb_svc q) (pb_svc u)" "pb_degraded_after u = pb_degraded_after q"
    "store_inv x (an_attestor a) (store (pb_svc u))" "pb_failures q \<le> pb_failures u"
    "pb_failures u \<le> pb_failures q + length rounds"
    "unpublished backend (store (pb_svc q)) \<longrightarrow> pb_failures u = pb_failures q + length rounds"
    using Cons.IH [OF q(4)] Cons.prems(2) by auto
  moreover have "publish_rounds x a show_exn mem_put_receipt mem_put_failure (r # rounds) p = (True, u)"
    using q(1) u(1) r by simp
  ultimately show ?case
    using q(3,5-7) outage_writes_trans [OF q(2) u(2)] by (intro exI [of _ u] conjI) auto
qed (auto simp: outage_writes_refl)

text \<open>
  An outage: rounds of the publishing thread, all against the backend while it is down, and between them
  whatever calls of the service requests make. \<open>n\<close> counts the rounds.
\<close>

inductive outage :: "ext \<Rightarrow> anchorer \<Rightarrow> (exn \<Rightarrow> string) \<Rightarrow> string \<Rightarrow> publisher \<Rightarrow> nat \<Rightarrow> publisher \<Rightarrow> bool"
    for x a show_exn backend p where
  outage_start: "outage x a show_exn backend p 0 p"
| outage_rounds: "outage x a show_exn backend p n q \<Longrightarrow> list_all (down backend) (map snd rounds) \<Longrightarrow>
    publish_rounds x a show_exn mem_put_receipt mem_put_failure rounds q = (alive, u) \<Longrightarrow>
    outage x a show_exn backend p (n + length rounds) u"
| outage_call: "outage x a show_exn backend p n q \<Longrightarrow> step x a (pb_svc q) s \<Longrightarrow>
    outage x a show_exn backend p n (q\<lparr>pb_svc := s\<rparr>)"

lemma outage_inv:
  assumes "outage x a show_exn backend p n q" "env_ok x a" "store_inv x (an_attestor a) (store (pb_svc p))"
  shows "store_inv x (an_attestor a) (store (pb_svc q)) \<and> pb_degraded_after q = pb_degraded_after p \<and>
    prefix (m_log (store (pb_svc p))) (m_log (store (pb_svc q))) \<and>
    m_pl_receipts (store (pb_svc q)) = m_pl_receipts (store (pb_svc p)) \<and>
    pb_failures p \<le> pb_failures q \<and> pb_failures q \<le> pb_failures p + n \<and>
    (unpublished backend (store (pb_svc p)) \<longrightarrow> pb_failures q = pb_failures p + n)"
  using assms
proof (induction rule: outage.induct)
  case outage_start
  then show ?case by simp
next
  case (outage_rounds n q rounds alive u)
  note q = outage_rounds.IH [OF outage_rounds.prems]
  have "unpublished backend (store (pb_svc p)) \<longrightarrow> unpublished backend (store (pb_svc q))"
    using q unpublished_later by blast
  moreover from down_rounds [OF assms(2) _ outage_rounds.hyps(2)] q outage_rounds.hyps(3) have
    "outage_writes (pb_svc q) (pb_svc u)" "pb_degraded_after u = pb_degraded_after q"
    "store_inv x (an_attestor a) (store (pb_svc u))" "pb_failures q \<le> pb_failures u" "pb_failures u \<le> pb_failures q + length rounds"
    "unpublished backend (store (pb_svc q)) \<longrightarrow> pb_failures u = pb_failures q + length rounds"
    by (metis prod.inject)+
  moreover note outage_writes_same [OF this(1)]
  ultimately show ?case using q by auto
next
  case (outage_call n q s)
  note q = outage_call.IH [OF outage_call.prems]
  have "stable x a (store (pb_svc q)) (pb_svc q)" using q by (simp add: stable_def)
  from step_stable [OF outage_call.hyps(2) assms(2) this]
  have "store_inv x (an_attestor a) (store s)" "prefix (m_log (store (pb_svc q))) (m_log (store s))"
    by (simp_all add: stable_def evolves_def)
  with q step_keeps_receipts [OF outage_call.hyps(2)] show ?case by (auto intro: prefix_order.trans)
qed

section \<open>Properties\<close>


text \<open>Only signed tree heads leave the service: two backends that answer alike on tree heads the authority
  verifies cannot be told apart by the publisher, so nothing else is ever submitted to either.\<close>

theorem publishes_only_tree_heads:
  assumes "reachable x a s" "env_ok x a" "log_name lg' = log_name lg"
    and "\<forall>h. verify_sth x a h \<longrightarrow>
      log_submit lg' (sth_payload (sth_tree_size h) (sth_root_hash h) (sth_timestamp h)) (sth_signature h) =
      log_submit lg (sth_payload (sth_tree_size h) (sth_root_hash h) (sth_timestamp h)) (sth_signature h)"
  shows "read_and_submit x a now lg' s = read_and_submit x a now lg s"
proof (cases "m_log (store s) = []")
  case True
  then show ?thesis by (simp add: read_and_submit_def store_size_def)
next
  case False
  obtain h t where h: "verify_sth x a h" and run: "\<forall>lg. read_and_submit x a now lg s =
      (if get_public_log_receipt (log_name lg) (sth_tree_size h) (sth_root_hash h) (store s) \<noteq> None then (Inr None, t)
       else case log_submit lg (sth_payload (sth_tree_size h) (sth_root_hash h) (sth_timestamp h)) (sth_signature h) of
           Inl e \<Rightarrow> (Inl e, t) | Inr r \<Rightarrow> (Inr (Some (h, r)), t))"
    using read_and_submit_run [OF reachable_inv [OF assms(1,2)] assms(2) False, of now] by blast
  have "log_submit lg' (sth_payload (sth_tree_size h) (sth_root_hash h) (sth_timestamp h)) (sth_signature h) =
      log_submit lg (sth_payload (sth_tree_size h) (sth_root_hash h) (sth_timestamp h)) (sth_signature h)"
    using assms(4) h by blast
  then show ?thesis unfolding run [rule_format] assms(3) by (simp only:)
qed


text \<open>The one way an exception leaves \<open>publish_if_new\<close> is the store's write of the receipt, after the
  submission: every other failure is counted and swallowed.\<close>

theorem publish_raises_iff:
  "fst (publish_if_new x a now lg show_exn put_receipt put_failure p) = Inl e \<longleftrightarrow>
   (\<exists>h r s s'. read_and_submit x a now lg (pb_svc p) = (Inr (Some (h, r)), s) \<and>
      put_receipt (receipt_row (log_name lg) h r (now 2)) s = (Inl e, s'))"
  by (auto simp: publish_if_new_def split: prod.splits sum.splits option.splits)

text \<open>A receipt of the in-memory log verifies against it for ever, however many entries follow.\<close>

theorem in_memory_receipt_verifies:
  "im_verify trunc (fst (im_submit payload sg at es)) (snd (im_submit payload sg at es) @ later) = Inr True"
  by (simp add: im_submit_def im_verify_def int_of_json_def Let_def nth_append)

lemma digit_byte: "b \<in> set (ascii_bytes (show_nat n)) \<Longrightarrow> b \<noteq> 32"
proof -
  assume "b \<in> set (ascii_bytes (show_nat n))"
  then obtain c where c: "c \<in> set (show_nat n)" "b = of_nat (of_char c)" unfolding ascii_bytes_def by auto
  from show_nat_digits [OF c(1)] have "48 \<le> (of_char c :: nat)" "(of_char c :: nat) < 256"
    by (simp_all add: is_digit_def Let_def)
  with c(2) show "b \<noteq> 32" using of_nat_byte_inj [of "of_char c" 32] by auto
qed

lemma decimal_bytes:
  "takeWhile (\<lambda>b. b \<noteq> 32) (ascii_bytes (show_int (int n) @ '' '') @ r) = ascii_bytes (show_int (int n))"
proof -
  have "ascii_bytes (show_int (int n) @ '' '') @ r = ascii_bytes (show_nat n) @ 32 # r"
    by (simp add: show_int_def) (simp add: ascii_bytes_def)
  moreover have "takeWhile (\<lambda>b. b \<noteq> 32) (ascii_bytes (show_nat n) @ 32 # r) = ascii_bytes (show_nat n)"
    using digit_byte by (subst takeWhile_append2) auto
  ultimately show ?thesis by (simp add: show_int_def)
qed

lemma length_prefixed:
  assumes "ascii_bytes (show_int (int (length s)) @ '' '') @ s @ u = ascii_bytes (show_int (int (length t)) @ '' '') @ t @ v"
  shows "s = t \<and> u = v"
proof -
  have "ascii_bytes (show_int (int (length s))) = ascii_bytes (show_int (int (length t)))"
    using decimal_bytes [of "length s" "s @ u"] decimal_bytes [of "length t" "t @ v"] assms by simp
  then have "length s = length t" by (metis ascii_bytes_eq_iff decimal_value_show_nat nat_int of_nat_less_0_iff show_int_def)
  with assms show ?thesis by simp
qed

text \<open>The DSSE pre-authentication encoding binds the payload type and the payload: no two pairs share one.\<close>

theorem dsse_pae_binds: "dsse_pae t p = dsse_pae t' p' \<longleftrightarrow> t = t' \<and> p = p'"
proof
  assume "dsse_pae t p = dsse_pae t' p'"
  then have "ascii_bytes (show_int (int (length (utf8 t))) @ '' '') @ utf8 t @ ascii_bytes '' '' @ ascii_bytes (show_int (int (length p)) @ '' '') @ p @ [] =
      ascii_bytes (show_int (int (length (utf8 t'))) @ '' '') @ utf8 t' @ ascii_bytes '' '' @ ascii_bytes (show_int (int (length p')) @ '' '') @ p' @ []"
    by (simp add: dsse_pae_def Let_def ascii_bytes_def)
  from length_prefixed [OF this] have "utf8 t = utf8 t'"
    "ascii_bytes (show_int (int (length p)) @ '' '') @ p @ [] = ascii_bytes (show_int (int (length p')) @ '' '') @ p' @ []"
    by auto
  with length_prefixed [of p "[]" p' "[]"] show "t = t' \<and> p = p'" by simp
qed simp

text \<open>Adding the public-log evidence to a receipt touches its unprotected header only: the protected
  header, the payload and the signature are the ones issued, and so is everything that was signed.\<close>

theorem augment_keeps_signed:
  assumes "decode_cose_sign1 x receipt = Some (protected_bstr, unprotected, payload, signature)"
    and "\<forall>v. cbor_loads x (cbor_dumps x (CTag 18 v)) = Some (CTag 18 v)"
  shows "\<exists>b. augment_receipt x receipt entry = Inr b \<and>
    decode_cose_sign1 x b = Some (protected_bstr, dict_set (CInt 397) entry unprotected, payload, signature) \<and>
    (payload \<noteq> None \<longrightarrow> compute_entry_hash x b = compute_entry_hash x receipt)"
proof -
  obtain pl where msg: "cbor_loads x receipt = Some (CTag 18 (CList [CBytes protected_bstr, CMap unprotected, pl, CBytes signature]))"
    "(pl = CNull \<and> payload = None) \<or> (\<exists>q. pl = CBytes q \<and> payload = Some q)"
    using assms(1) by (auto simp: decode_cose_sign1_def split: option.splits cbor.splits list.splits if_splits)
  let ?v = "CTag 18 (CList [CBytes protected_bstr, CMap (dict_set (CInt 397) entry unprotected), pl, CBytes signature])"
  have "augment_receipt x receipt entry = Inr (cbor_dumps x ?v)" using msg(1) by (simp add: augment_receipt_def dict_of_def)
  moreover have "decode_cose_sign1 x (cbor_dumps x ?v) = Some (protected_bstr, dict_set (CInt 397) entry unprotected, payload, signature)"
    using msg(2) assms(2) by (auto simp: decode_cose_sign1_def)
  ultimately show ?thesis using assms(1)
    by (auto simp: compute_entry_hash_def entry_hash_preimage_def split: option.splits)
qed

section \<open>Concrete runs\<close>

definition sample_result :: pl_result where
  "sample_result = \<lparr>plr_uuid = Some ''u'', plr_location = None, plr_log_index = Some 5, plr_integrated_time = None,
     plr_set = None, plr_raw = ''{}''\<rparr>"

definition sample_log :: public_log where
  "sample_log = \<lparr>log_name = ''in-memory'', log_submit = (\<lambda>b g. Inr sample_result)\<rparr>"

definition sample_outage :: public_log where
  "sample_outage = \<lparr>log_name = ''rekor-public'', log_submit = (\<lambda>b g. Inl RuntimeError)\<rparr>"

lemma sample_log_started:
  "\<exists>s. reachable sample_ext sample_anchorer s \<and> m_log (store s) \<noteq> [] \<and> m_pl_receipts (store s) = []"
proof -
  have gate: "check_checkpoint_continuity sample_ext sample_anchorer sample_cp sample_start = (Inr FirstSeen, sample_start)"
    by (simp add: check_checkpoint_continuity_def get_checkpoint_witness_def sample_start_def empty_store_def)
  have "m_statements (store sample_start) = []" by (simp add: sample_start_def empty_store_def)
  from sample_accepts [OF sample_reachable this gate]
  obtain rg st t pk where run: "witness_checkpoint sample_ext sample_anchorer (\<lambda>_. 0) sample_cp sample_start = (Inr rg, t)"
    and rec: "record_checkpoint_read_surface sample_cp rg (sample_start\<lparr>store := st\<rparr>) = (Inr (), t)"
    and reg: "registered_as sample_ext sample_anchorer (ck_grade sample_cp) (Some sample_cp) pk None (Some FirstSeen) 0
      (store sample_start) rg st"
    by blast
  have "well_formed_cp sample_cp" by (simp add: well_formed_cp_def sample_cp_def)
  from witness_call [OF this run] have "run sample_ext sample_anchorer sample_start t"
    by (blast intro: run.intros step.intros)
  moreover have "m_pl_receipts st = []"
    using reg by (auto simp: registered_as_def store_tips_def store_subject_def put_sth_def put_statement_def
        put_subject_index_def put_checkpoint_witness_def append_entry_def Let_def sample_start_def empty_store_def
        split: option.splits)
  then have "m_pl_receipts (store t) = []"
    using rec by (auto simp: record_checkpoint_read_surface_def on_store_def put_checkpoint_record_def Let_def split: option.splits)
  moreover have "m_log st \<noteq> m_log (store sample_start)" by (rule registered_log [OF reg]) simp
  then have "m_log (store t) \<noteq> []" using record_keeps [OF rec] by (simp add: sample_start_def empty_store_def)
  ultimately show ?thesis using reachable_run [OF sample_reachable] by blast
qed


theorem publishes_only_tree_heads_witness:
  "read_and_submit sample_ext sample_anchorer (\<lambda>_. 0) (sample_log\<lparr>log_submit := (\<lambda>b g.
       if attestor_verify sample_ext sample_attestor b g then Inr sample_result else Inl ValueError)\<rparr>) sample_start =
   read_and_submit sample_ext sample_anchorer (\<lambda>_. 0) sample_log sample_start"
  by (rule publishes_only_tree_heads [OF sample_reachable sample_env_ok])
    (simp_all add: sample_log_def verify_sth_def sample_anchorer_def)


definition sample_receipt_message :: cbor where
  "sample_receipt_message = CTag 18 (CList [CBytes [1], CMap [(CInt 396, CNull)], CBytes [2], CBytes [3]])"

instance cbor :: countable
  by countable_datatype

theorem augment_keeps_signed_witness:
  "\<exists>x b. augment_receipt x [7] (CText ''rekor'') = Inr b \<and>
     decode_cose_sign1 x b = Some ([1], [(CInt 396, CNull), (CInt 397, CText ''rekor'')], Some [2], [3])"
proof -
  define enc :: "cbor \<Rightarrow> bytes" where "enc v = replicate (to_nat v) 0" for v
  have enc: "inj enc" by (auto simp: enc_def inj_def dest: arg_cong [where f = length])
  let ?x = "sample_ext\<lparr>cbor_dumps := (\<lambda>v. 0 # enc v),
     cbor_loads := (\<lambda>b. if b = [7] then Some sample_receipt_message
        else case b of [] \<Rightarrow> None | _ # r \<Rightarrow> Some (inv enc r))\<rparr>"
  have "decode_cose_sign1 ?x [7] = Some ([1], [(CInt 396, CNull)], Some [2], [3])"
    by (simp add: decode_cose_sign1_def sample_receipt_message_def)
  from augment_keeps_signed [OF this, of "CText ''rekor''"] enc show ?thesis
    by (intro exI [of _ ?x]) auto
qed

end
