(* ===== verification/RateLimiter.thy ===== *)
theory RateLimiter
  imports Prelude
begin

text \<open>
  The sliding-window limiter of \<open>anchoring/router.py\<close> and the limiters it keeps per enrolled
  submitter. Time is the monotonic clock in whole ticks; the lock makes a call one step. \<open>is_allowed\<close> reads
  the clock before it takes the lock, so two calls that race may enter with their readings swapped: the
  properties are of calls whose readings are in lock order (\<open>sorted\<close>). The limiter keeps one queue of call times per key and drops what has left the window; the reference keeps every
  accepted call and counts.
\<close>

section \<open>The limiter\<close>

record limiter =
  lm_max :: int
  lm_window :: int
  lm_windows :: "(string \<times> int list) list"

definition new_limiter :: "int \<Rightarrow> int \<Rightarrow> limiter" where
  "new_limiter max_calls window = \<lparr>lm_max = max_calls, lm_window = window, lm_windows = []\<rparr>"

definition window_of :: "string \<Rightarrow> limiter \<Rightarrow> int list" where
  "window_of key l = (case map_of (lm_windows l) key of None \<Rightarrow> [] | Some dq \<Rightarrow> dq)"

definition set_window :: "string \<Rightarrow> int list \<Rightarrow> limiter \<Rightarrow> limiter" where
  "set_window key dq l = l\<lparr>lm_windows := dict_set key dq (lm_windows l)\<rparr>"

definition is_allowed :: "string \<Rightarrow> int \<Rightarrow> limiter \<Rightarrow> bool \<times> limiter" where
  "is_allowed key now l =
     (let cutoff = now - lm_window l;
          dq = dropWhile (\<lambda>t. t < cutoff) (window_of key l)
      in if lm_max l \<le> int (length dq) then (False, set_window key dq l)
         else (True, set_window key (dq @ [now]) l))"

text \<open>The limiter of a submitter is made at its first call, from its own limit per minute.\<close>

definition submitter_rate_limit_ok ::
    "int \<Rightarrow> string \<Rightarrow> int \<Rightarrow> int \<Rightarrow> (string \<times> limiter) list \<Rightarrow> bool \<times> (string \<times> limiter) list" where
  "submitter_rate_limit_ok minute log_id max_calls now limiters =
     (let l = (case map_of limiters log_id of None \<Rightarrow> new_limiter max_calls minute | Some l \<Rightarrow> l)
      in case is_allowed log_id now l of (allowed, l') \<Rightarrow> (allowed, dict_set log_id l' limiters))"

section \<open>A run of calls, and the reference\<close>

text \<open>The accepted calls of a run, in order.\<close>

fun accepted :: "(string \<times> int) list \<Rightarrow> limiter \<Rightarrow> (string \<times> int) list" where
  "accepted [] l = []"
| "accepted ((key, now) # calls) l =
     (case is_allowed key now l of (allowed, l') \<Rightarrow>
        if allowed then (key, now) # accepted calls l' else accepted calls l')"

definition in_window :: "int \<Rightarrow> int \<Rightarrow> (string \<times> int) list \<Rightarrow> string \<Rightarrow> int list" where
  "in_window start till history key = map snd (filter (\<lambda>(k, t). k = key \<and> start \<le> t \<and> t \<le> till) history)"

fun reference :: "int \<Rightarrow> int \<Rightarrow> (string \<times> int) list \<Rightarrow> (string \<times> int) list \<Rightarrow> (string \<times> int) list" where
  "reference max_calls window history [] = []"
| "reference max_calls window history ((key, now) # calls) =
     (if int (length (in_window (now - window) now history key)) < max_calls
      then (key, now) # reference max_calls window (history @ [(key, now)]) calls
      else reference max_calls window history calls)"

section \<open>Equivalence\<close>

text \<open>Each queue is the part of the key's history since some time before the window of any later call.\<close>

definition tracks :: "int \<Rightarrow> limiter \<Rightarrow> (string \<times> int) list \<Rightarrow> bool" where
  "tracks now l history \<longleftrightarrow> sorted (map snd history) \<and> list_all (\<lambda>(k, t). t \<le> now) history \<and>
     (\<forall>key. \<exists>start \<le> now - lm_window l. window_of key l = in_window start now history key)"

lemma window_of_set [simp]: "window_of key (set_window key' dq l) = (if key = key' then dq else window_of key l)"
  by (simp add: window_of_def set_window_def)

lemma lm_set_window [simp]: "lm_max (set_window key dq l) = lm_max l" "lm_window (set_window key dq l) = lm_window l"
  by (simp_all add: set_window_def)

lemma dropWhile_sorted: "sorted ts \<Longrightarrow> dropWhile (\<lambda>t. t < c) ts = filter (\<lambda>t. c \<le> t) ts" for ts :: "int list"
proof (induction ts)
  case (Cons t ts)
  show ?case
  proof (cases "t < c")
    case False
    with Cons.prems have "\<forall>u \<in> set (t # ts). c \<le> u" by auto
    then have "filter (\<lambda>u. c \<le> u) (t # ts) = t # ts" by (simp only: filter_id_conv)
    with False show ?thesis by simp
  qed (use Cons in simp)
qed simp

lemma sorted_in_window: "sorted (map snd history) \<Longrightarrow> sorted (in_window a b history key)"
  by (simp add: in_window_def sorted_filter case_prod_beta)

lemma in_window_later:
  assumes "list_all (\<lambda>(k, t). t \<le> before) history" "before \<le> now"
  shows "in_window start now history key = in_window start before history key"
  using assms by (auto simp: in_window_def list_all_iff intro!: arg_cong [where f = "map snd"] filter_cong)

lemma filter_in_window: "start \<le> c \<Longrightarrow> filter (\<lambda>t. c \<le> t) (in_window start now history key) = in_window c now history key"
  by (auto simp: in_window_def filter_map o_def intro!: arg_cong [where f = "map snd"] filter_cong)

lemma tracks_step:
  assumes "tracks before l history" "before \<le> now"
  shows "dropWhile (\<lambda>t. t < now - lm_window l) (window_of key l) = in_window (now - lm_window l) now history key"
proof -
  obtain start where f: "start \<le> before - lm_window l" "window_of key l = in_window start before history key"
    using assms(1) by (auto simp: tracks_def)
  have "in_window start before history key = in_window start now history key"
    using in_window_later [OF _ assms(2)] assms(1) by (simp add: tracks_def)
  moreover have "sorted (in_window start now history key)" using assms(1) by (simp add: tracks_def sorted_in_window)
  ultimately show ?thesis using f assms(2) by (simp add: dropWhile_sorted filter_in_window)
qed

lemma tracks_advance:
  assumes "tracks before l history" "before \<le> now" "0 \<le> lm_window l"
    and "new = [] \<or> new = [(key, now)]"
  shows "tracks now (set_window key (in_window (now - lm_window l) now history key @ map snd new) l) (history @ new)"
proof -
  have hist: "sorted (map snd history)" "list_all (\<lambda>(k, t). t \<le> before) history"
    using assms(1) by (simp_all add: tracks_def)
  then have old: "list_all (\<lambda>(k, t). t \<le> now) history" using assms(2) by (fastforce simp: list_all_iff)
  have app: "in_window a now (history @ new) k = in_window a now history k @ (if k = key \<and> a \<le> now then map snd new else [])"
    for a k using assms(4) by (auto simp: in_window_def)
  have "\<exists>start \<le> now - lm_window l. window_of k l = in_window start now history k" for k
  proof -
    obtain start where "start \<le> before - lm_window l" "window_of k l = in_window start before history k"
      using assms(1) by (auto simp: tracks_def)
    with in_window_later [OF hist(2) assms(2)] assms(2) show ?thesis by (intro exI [of _ start]) auto
  qed
  moreover have "sorted (map snd (history @ new))" using hist old assms(4) by (auto simp: sorted_append list_all_iff)
  moreover have "list_all (\<lambda>(k, t). t \<le> now) (history @ new)" using old assms(4) by auto
  ultimately show ?thesis using app assms(3) by (auto simp: tracks_def intro: exI [of _ "now - lm_window l"])
qed

lemma accepted_reference:
  assumes "tracks before l history" "0 \<le> lm_window l" "sorted (before # map snd calls)"
  shows "accepted calls l = reference (lm_max l) (lm_window l) history calls"
  using assms
proof (induction calls arbitrary: before l history)
  case (Cons c calls)
  obtain key now where c: "c = (key, now)" by (cases c)
  have le: "before \<le> now" "sorted (now # map snd calls)" using Cons.prems(3) c by auto
  note dq = tracks_step [OF Cons.prems(1) le(1), of key]
  let ?dq = "in_window (now - lm_window l) now history key"
  have "accepted calls (set_window key ?dq l) = reference (lm_max l) (lm_window l) history calls"
    using Cons.IH [OF tracks_advance [OF Cons.prems(1) le(1) Cons.prems(2), of "[]" key]] Cons.prems(2) le(2) by simp
  moreover have "accepted calls (set_window key (?dq @ [now]) l) =
      reference (lm_max l) (lm_window l) (history @ [(key, now)]) calls"
    using Cons.IH [OF tracks_advance [OF Cons.prems(1) le(1) Cons.prems(2), of "[(key, now)]" key]] Cons.prems(2) le(2) by simp
  ultimately show ?case by (simp add: c is_allowed_def dq)
qed simp

lemma tracks_new: "0 \<le> window \<Longrightarrow> tracks now (new_limiter max_calls window) []"
  by (auto simp: tracks_def new_limiter_def window_of_def in_window_def intro: exI [of _ "now - window"])

section \<open>The bound\<close>

lemma in_window_append: "in_window a b (h @ h') key = in_window a b h key @ in_window a b h' key"
  by (simp add: in_window_def)

lemma reference_bound:
  assumes "sorted (map snd (history @ calls))" "0 \<le> window" "0 \<le> max_calls"
    and "\<forall>start. int (length (in_window start (start + window) history key)) \<le> max_calls"
  shows "int (length (in_window start (start + window) (history @ reference max_calls window history calls) key)) \<le> max_calls"
  using assms
proof (induction calls arbitrary: history start)
  case (Cons c calls)
  obtain k now where c: "c = (k, now)" by (cases c)
  have "sorted (map snd (history @ calls))" "\<forall>t \<in> set (map snd history). t \<le> now"
    using Cons.prems(1) c by (auto simp: sorted_append)
  note old = this
  show ?case
  proof (cases "int (length (in_window (now - window) now history k)) < max_calls")
    case True
    let ?h = "history @ [(k, now)]"
    have "int (length (in_window u (u + window) ?h key)) \<le> max_calls" for u
    proof (cases "k = key \<and> u \<le> now \<and> now \<le> u + window")
      case True
      then have "in_window u (u + window) history key = filter (\<lambda>t. u \<le> t) (in_window (now - window) now history key)"
        using old(2) by (auto simp: in_window_def filter_map o_def intro!: arg_cong [where f = "map snd"] filter_cong)
      then have "length (in_window u (u + window) history key) \<le> length (in_window (now - window) now history key)"
        by simp
      with True \<open>int (length (in_window (now - window) now history k)) < max_calls\<close> show ?thesis
        by (simp add: in_window_append) (simp add: in_window_def)
    next
      case False
      then have "in_window u (u + window) [(k, now)] key = []" by (auto simp: in_window_def)
      with Cons.prems(4) show ?thesis by (simp add: in_window_append)
    qed
    with Cons.IH [of ?h start] Cons.prems(1,2,3) c True show ?thesis by simp
  next
    case False
    with Cons.IH [OF old(1) Cons.prems(2-4), of start] c show ?thesis by simp
  qed
qed simp

section \<open>Properties\<close>

text \<open>C20: on calls whose clock readings come in the order of the lock, the limiter with its trimmed queues accepts exactly the calls the specification accepts: a call
  passes when fewer than the maximum of the accepted calls of its key lie in the closed window before it;
  rejected calls do not count, and keys do not interfere.\<close>

theorem limiter_equals_reference:
  assumes "sorted (map snd calls)" "0 \<le> window"
  shows "accepted calls (new_limiter max_calls window) = reference max_calls window [] calls"
proof (cases calls)
  case (Cons c cs)
  have "sorted (snd c # map snd calls)" using assms(1) Cons by simp
  from accepted_reference [OF tracks_new [OF assms(2)] _ this] show ?thesis
    using assms(2) by (simp add: new_limiter_def)
qed simp

text \<open>C21: whatever the traffic, with clock readings in the order of the lock, no closed window holds more accepted calls of one key than the maximum.\<close>

theorem limiter_bound:
  assumes "sorted (map snd calls)" "0 \<le> window" "0 \<le> max_calls"
  shows "int (length (in_window start (start + window) (accepted calls (new_limiter max_calls window)) key)) \<le> max_calls"
proof (cases calls)
  case Nil
  with assms(3) show ?thesis by (simp add: in_window_def)
next
  case (Cons c cs)
  have "sorted (snd c # map snd calls)" using assms(1) Cons by simp
  from accepted_reference [OF tracks_new [OF assms(2)] _ this]
  have "accepted calls (new_limiter max_calls window) = reference max_calls window [] calls"
    using assms(2) by (simp add: new_limiter_def)
  with reference_bound [of "[]" calls window max_calls key start] assms show ?thesis by (simp add: in_window_def)
qed

theorem limiter_equals_reference_witness:
  "accepted [(''g'', 0), (''g'', 1), (''s'', 1), (''g'', 2), (''g'', 70)] (new_limiter 2 60) =
     [(''g'', 0), (''g'', 1), (''s'', 1), (''g'', 70)]"
  using limiter_equals_reference [of "[(''g'', 0), (''g'', 1), (''s'', 1), (''g'', 2), (''g'', 70)]" 60 2]
  by (simp add: in_window_def)

theorem limiter_bound_witness:
  "int (length (in_window 0 60 (accepted [(''g'', 0), (''g'', 1), (''g'', 2)] (new_limiter 2 60)) ''g'')) \<le> 2"
  using limiter_bound [of "[(''g'', 0), (''g'', 1), (''g'', 2)]" 60 2 0 "''g''"] by simp

end
