(* ===== verification/Router.thy ===== *)
theory Router
  imports PublicLog RateLimiter
begin

text \<open>
  The HTTP routes of \<open>anchoring/router.py\<close>, one definition per handler, and \<open>serve\<close>, which sends a
  request to its handler. The state is the process's: the service, the limiter every POST shares and
  the limiters of the enrolled submitters. A \<open>site\<close> is what the application factory installs. Request
  bodies arrive parsed (pydantic's own 422 is not modelled).
\<close>

section \<open>State and responses\<close>

record site =
  st_ext :: ext
  st_lib :: cose_lib
  st_anchorer :: anchorer
  st_allowlist :: allowlist
  st_tsa :: "(bytes \<Rightarrow> bytes option) option"
  st_publisher :: "string option"

record app =
  ap_svc :: svc
  ap_post :: limiter
  ap_submitters :: "(string \<times> limiter) list"

text \<open>A minute in ticks of the monotonic clock.\<close>

definition minute :: int where
  "minute = 60000000"

definition new_app :: "svc \<Rightarrow> app" where
  "new_app s = \<lparr>ap_svc = s, ap_post = new_limiter 300 minute, ap_submitters = []\<rparr>"

text \<open>
  What a handler answers instead of a body: an \<open>HTTPException\<close>, a 409 that names the last accepted
  checkpoint (and the code of a required proof), or an exception no handler catches.
\<close>

datatype http_error = HttpError int | ConflictError int string bool | ServerError exn

type_synonym 'a handler = "app \<Rightarrow> (http_error + 'a) \<times> app"

definition hbind :: "'a handler \<Rightarrow> ('a \<Rightarrow> 'b handler) \<Rightarrow> 'b handler" where
  "hbind m f = (\<lambda>s. case m s of (Inl e, s') \<Rightarrow> (Inl e, s') | (Inr y, s') \<Rightarrow> f y s')"

definition hreturn :: "'a \<Rightarrow> 'a handler" where
  "hreturn y = (\<lambda>s. (Inr y, s))"

definition hfail :: "http_error \<Rightarrow> 'a handler" where
  "hfail e = (\<lambda>s. (Inl e, s))"

text \<open>A value read from the service, and a call of it; \<open>catch\<close> are the \<open>except\<close> clauses.\<close>

definition hread :: "(exn \<Rightarrow> http_error) \<Rightarrow> (svc \<Rightarrow> 'a res) \<Rightarrow> 'a handler" where
  "hread catch f = (\<lambda>s. (case f (ap_svc s) of Inl e \<Rightarrow> Inl (catch e) | Inr y \<Rightarrow> Inr y, s))"

definition hcall :: "(exn \<Rightarrow> http_error) \<Rightarrow> (svc, 'a) op \<Rightarrow> 'a handler" where
  "hcall catch f = (\<lambda>s. case f (ap_svc s) of (r, t) \<Rightarrow>
     (case r of Inl e \<Rightarrow> Inl (catch e) | Inr y \<Rightarrow> Inr y, s\<lparr>ap_svc := t\<rparr>))"

record registered_response =
  rr_receipt_b64 :: string
  rr_entry_hash :: string
  rr_scheme :: string
  rr_leaf_index :: int
  rr_tree_size :: int
  rr_witness :: "(legacy_cp \<times> string) option"
  rr_subject :: "string option"

record subject_entry =
  se_entry_hash :: string
  se_digest :: "string option"
  se_form :: "string option"
  se_receipt_b64 :: string
  se_leaf_index :: int
  se_tree_size :: int

record inclusion_response =
  ir_capsule_id :: string
  ir_entry_hash :: string
  ir_leaf_index :: int
  ir_tree_size :: int
  ir_leaf_hash :: string
  ir_audit_path :: "string list"
  ir_root_hash :: string
  ir_receipt_b64 :: string

record public_entry =
  pe_backend :: string
  pe_uuid :: string
  pe_log_index :: "int option"
  pe_tree_size :: int

record stamp_response =
  sr_receipt_b64 :: string
  sr_entry_hash :: string
  sr_scheme :: string
  sr_leaf_index :: int
  sr_tree_size :: int
  sr_grade :: "string option"
  sr_continuity :: "string option"
  sr_public_log :: "public_entry option"

record readback_response =
  rb_log_id :: string
  rb_mmr_size :: int
  rb_record :: cp_record
  rb_receipt_b64 :: string
  rb_equivocations :: "equivocation list"

section \<open>The operator and monitor routes\<close>

definition anchor_route ::
    "site \<Rightarrow> clock \<Rightarrow> string \<Rightarrow> string \<Rightarrow> int \<Rightarrow> int \<Rightarrow> string option \<Rightarrow> anchor_receipt handler" where
  "anchor_route st now tenant_id root_hash seq_from seq_to capsule_id = hcall ServerError
     (anchor (st_ext st) (st_anchorer st) now (st_tsa st) tenant_id root_hash (seq_from, seq_to) capsule_id)"

definition countersigned_root_route :: "string \<Rightarrow> string \<Rightarrow> croot handler" where
  "countersigned_root_route tenant_id root_hash =
     hbind (hread ServerError (\<lambda>s. Inr (get_countersigned_root tenant_id root_hash s))) (\<lambda>cs.
       case cs of None \<Rightarrow> hfail (HttpError 404) | Some c \<Rightarrow> hreturn c)"

definition transparency_log_route :: "int \<Rightarrow> string option \<Rightarrow> entry list handler" where
  "transparency_log_route after_index capsule_id = hread ServerError (\<lambda>s. Inr (case capsule_id of
       Some c \<Rightarrow> filter (\<lambda>e. after_index \<le> log_index e) (transparency_log_for_capsule c s)
     | None \<Rightarrow> transparency_log after_index s))"

definition inclusion_proof_route :: "string list \<Rightarrow> int \<Rightarrow> merkle_proof handler" where
  "inclusion_proof_route leaf_hashes index =
     hread (\<lambda>e. if e = IndexError then HttpError 400 else ServerError e) (\<lambda>_. merkle_proof_for leaf_hashes index)"

definition verify_inclusion_route :: "merkle_proof \<Rightarrow> string option \<Rightarrow> bool handler" where
  "verify_inclusion_route p anchored_root_hash = hread ServerError (\<lambda>_. verify_inclusion (Inl p) anchored_root_hash)"

definition sth_route :: "site \<Rightarrow> clock \<Rightarrow> sth handler" where
  "sth_route st now = hbind (hcall ServerError (get_sth (st_ext st) (st_anchorer st) now)) (\<lambda>h.
     if sth_tree_size h = 0 then hfail (HttpError 503) else hreturn h)"

definition inclusion_proof_ct_route :: "int \<Rightarrow> int option \<Rightarrow> ct_inclusion handler" where
  "inclusion_proof_ct_route leaf_index tree_size =
     (if leaf_index < 0 then hfail (HttpError 400)
      else if (case tree_size of None \<Rightarrow> False | Some n \<Rightarrow> n \<le> 0) then hfail (HttpError 400)
      else hread (\<lambda>e. if e = IndexError then HttpError 404 else ServerError e) (inclusion_proof_ct leaf_index tree_size))"

definition consistency_proof_route :: "int \<Rightarrow> int \<Rightarrow> ct_consistency handler" where
  "consistency_proof_route old_size new_size =
     (if old_size < 0 \<or> new_size < 0 then hfail (HttpError 400)
      else if new_size < old_size then hfail (HttpError 400)
      else hread (\<lambda>e. if e = ValueError then HttpError 400 else ServerError e) (ct_consistency_proof old_size new_size))"

definition authority_pubkey_route :: "site \<Rightarrow> (string \<times> string) handler" where
  "authority_pubkey_route st = hreturn (hex (authority_pubkey (an_attestor (st_anchorer st))),
     attestor_key_id (st_ext st) (an_attestor (st_anchorer st)))"

text \<open>The row with its \<open>raw_response\<close> parsed back, or left as the text it is (\<open>except (TypeError, ValueError)\<close>).\<close>

definition public_log_receipt_json :: "site \<Rightarrow> pl_receipt \<Rightarrow> (pl_receipt \<times> json) res" where
  "public_log_receipt_json st row = (case json_loads_utf8 (st_ext st) (utf8 (pl_raw_response row)) of
     Inl e \<Rightarrow> if e = TypeError \<or> is_value_error e then Inr (row, JStr (pl_raw_response row)) else Inl e
   | Inr j \<Rightarrow> Inr (row, j))"

definition public_log_latest_route :: "site \<Rightarrow> (pl_receipt \<times> json) handler" where
  "public_log_latest_route st =
     (case st_publisher st of
        None \<Rightarrow> hfail (HttpError 404)
      | Some backend \<Rightarrow>
          hbind (hread ServerError (\<lambda>s. Inr (get_latest_public_log_receipt backend (store s)))) (\<lambda>latest.
            case latest of None \<Rightarrow> hfail (HttpError 404) | Some row \<Rightarrow> hread ServerError (\<lambda>_. public_log_receipt_json st row)))"

definition public_log_entries_route :: "site \<Rightarrow> int \<Rightarrow> (pl_receipt \<times> json) list handler" where
  "public_log_entries_route st since =
     (case st_publisher st of
        None \<Rightarrow> hreturn []
      | Some backend \<Rightarrow> hread ServerError (\<lambda>s.
          rmap (public_log_receipt_json st) (get_public_log_receipts_since backend since (store s))))"

section \<open>Registration routes\<close>

definition post_allowed :: "int \<Rightarrow> unit handler" where
  "post_allowed tick = (\<lambda>s. case is_allowed ''global'' tick (ap_post s) of (ok, l) \<Rightarrow>
     (if ok then Inr () else Inl (HttpError 429), s\<lparr>ap_post := l\<rparr>))"

text \<open>The \<open>except\<close> clauses in order: \<open>ConsistencyProofRequiredError\<close> and \<open>ContinuityMismatchError\<close> are \<open>RollbackError\<close>s.\<close>

definition catch_registration :: "exn \<Rightarrow> http_error" where
  "catch_registration e = (case e of
     CheckpointPayloadError \<Rightarrow> HttpError 400
   | ConsistencyProofRequiredError n r \<Rightarrow> ConflictError n r True
   | RollbackError \<Rightarrow> HttpError 409
   | ContinuityMismatchError _ _ \<Rightarrow> HttpError 409
   | _ \<Rightarrow> ServerError e)"

definition registered_body :: "registration \<Rightarrow> registered_response" where
  "registered_body r = \<lparr>rr_receipt_b64 = b64encode (rg_receipt r), rr_entry_hash = rg_entry_hash r,
     rr_scheme = scheme_text (rg_scheme r), rr_leaf_index = rg_leaf_index r, rr_tree_size = rg_tree_size r,
     rr_witness = rg_witness r, rr_subject = rg_subject r\<rparr>"

definition register_statement_route :: "site \<Rightarrow> clock \<Rightarrow> int \<Rightarrow> string \<Rightarrow> registered_response handler" where
  "register_statement_route st now tick signed_statement_b64 =
     hbind (post_allowed tick) (\<lambda>_.
       case b64decode True signed_statement_b64 of
         Inl _ \<Rightarrow> hfail (HttpError 400)
       | Inr statement \<Rightarrow>
           if statement = [] then hfail (HttpError 400)
           else if max_statement_bytes < length statement then hfail (HttpError 413)
           else hbind (hcall catch_registration
                  (register_signed_statement_full (st_ext st) (st_anchorer st) now statement None None))
                (\<lambda>r. hreturn (registered_body r)))"

definition statements_by_subject_route :: "string \<Rightarrow> subject_entry list handler" where
  "statements_by_subject_route subject = hread ServerError (\<lambda>s. Inr (map
     (\<lambda>((h, digest, form), (receipt, leaf_index, tree_size)).
        \<lparr>se_entry_hash = h, se_digest = digest, se_form = form, se_receipt_b64 = b64encode receipt,
         se_leaf_index = leaf_index, se_tree_size = tree_size\<rparr>)
     (get_statements_by_subject subject s)))"

text \<open>The 32 bytes of a capsule id, or the 400 of both routes that take one.\<close>

definition normal_capsule_id :: "string \<Rightarrow> string" where
  "normal_capsule_id capsule_id = strip (lower capsule_id)"

definition capsule_bytes :: "string \<Rightarrow> (http_error + bytes)" where
  "capsule_bytes capsule_id =
     (let cid = normal_capsule_id capsule_id in
      if length cid \<noteq> 64 \<or> \<not> list_all (\<lambda>c. c \<in> set ''0123456789abcdef'') cid then Inl (HttpError 400)
      else case fromhex cid of Inl e \<Rightarrow> Inl (ServerError e) | Inr b \<Rightarrow> Inr b)"

text \<open>\<open>POST /register\<close> and its alias \<open>POST /v1/digest\<close>; the response leaves the last two fields out.\<close>

definition register_digest :: "site \<Rightarrow> clock \<Rightarrow> int \<Rightarrow> string \<Rightarrow> registered_response handler" where
  "register_digest st now tick capsule_id =
     hbind (post_allowed tick) (\<lambda>_.
       case capsule_bytes capsule_id of
         Inl e \<Rightarrow> hfail e
       | Inr statement \<Rightarrow>
           hbind (hcall ServerError
             (register_signed_statement_full (st_ext st) (st_anchorer st) now statement None None))
           (\<lambda>r. hreturn ((registered_body r)\<lparr>rr_witness := None, rr_subject := None\<rparr>)))"

definition inclusion_route :: "string \<Rightarrow> inclusion_response handler" where
  "inclusion_route capsule_id =
     (case capsule_bytes capsule_id of
        Inl e \<Rightarrow> hfail e
      | Inr b \<Rightarrow>
          hbind (hread ServerError (\<lambda>s. Inr (get_registered_statement (sha256_hex b) s))) (\<lambda>cached.
            case cached of
              None \<Rightarrow> hfail (HttpError 404)
            | Some (receipt, leaf_index, tree_size) \<Rightarrow>
                hbind (hread ServerError (inclusion_proof_ct leaf_index (Some tree_size))) (\<lambda>p.
                hreturn \<lparr>ir_capsule_id = normal_capsule_id capsule_id, ir_entry_hash = sha256_hex b,
                  ir_leaf_index = leaf_index, ir_tree_size = tree_size, ir_leaf_hash = ci_leaf_hash p,
                  ir_audit_path = ci_audit_path p, ir_root_hash = ci_root_hash p,
                  ir_receipt_b64 = b64encode receipt\<rparr>)))"

section \<open>Checkpoint routes\<close>

text \<open>The second limit, of an enrolled submitter's own budget.\<close>

definition submitter_allowed :: "site \<Rightarrow> int \<Rightarrow> checkpoint \<Rightarrow> unit handler" where
  "submitter_allowed st tick cp =
     (if ck_grade cp = None then hreturn ()
      else case allowlist_get (ck_log_id cp) (st_allowlist st) of
          None \<Rightarrow> hreturn ()
        | Some e \<Rightarrow> (\<lambda>s. case submitter_rate_limit_ok minute (sb_log_id e) (sb_rate_limit e) tick (ap_submitters s) of
            (ok, ls) \<Rightarrow> (if ok then Inr () else Inl (HttpError 429), s\<lparr>ap_submitters := ls\<rparr>)))"

definition catch_witness :: "exn \<Rightarrow> http_error" where
  "catch_witness e = (case e of
     ContinuityMismatchError n r \<Rightarrow> ConflictError n r False
   | ConsistencyProofRequiredError n r \<Rightarrow> ConflictError n r True
   | _ \<Rightarrow> ServerError e)"

definition covering_entry :: "pl_receipt \<Rightarrow> public_entry" where
  "covering_entry row = \<lparr>pe_backend = pl_backend row, pe_uuid = pl_uuid row, pe_log_index = pl_log_index row,
     pe_tree_size = pl_tree_size row\<rparr>"

definition entry_cbor :: "public_entry \<Rightarrow> cbor" where
  "entry_cbor p = CMap [(CText ''backend'', CText (pe_backend p)), (CText ''uuid'', CText (pe_uuid p)),
     (CText ''log_index'', case pe_log_index p of None \<Rightarrow> CNull | Some i \<Rightarrow> CInt i),
     (CText ''sth_tree_size'', CInt (pe_tree_size p))]"

text \<open>The receipt that is handed out, with the evidence of a published tree head that covers it.\<close>

definition public_evidence :: "site \<Rightarrow> registration \<Rightarrow> svc \<Rightarrow> (bytes \<times> public_entry option) res" where
  "public_evidence st r s =
     (case st_publisher st of
        None \<Rightarrow> Inr (rg_receipt r, None)
      | Some backend \<Rightarrow>
          (case get_public_log_receipt_covering backend (rg_tree_size r) (store s) of
             None \<Rightarrow> Inr (rg_receipt r, None)
           | Some row \<Rightarrow>
               rbind (augment_receipt (st_ext st) (rg_receipt r) (entry_cbor (covering_entry row))) (\<lambda>b.
                 Inr (b, Some (covering_entry row)))))"

definition witness_checkpoint_cp :: "site \<Rightarrow> clock \<Rightarrow> int \<Rightarrow> checkpoint \<Rightarrow> stamp_response handler" where
  "witness_checkpoint_cp st now tick cp =
     hbind (submitter_allowed st tick cp) (\<lambda>_.
     hbind (hcall catch_witness (witness_checkpoint (st_ext st) (st_anchorer st) now cp)) (\<lambda>r.
     hbind (hread ServerError (public_evidence st r)) (\<lambda>(receipt, public_log).
     hreturn \<lparr>sr_receipt_b64 = b64encode receipt, sr_entry_hash = rg_entry_hash r,
       sr_scheme = scheme_text (rg_scheme r), sr_leaf_index = rg_leaf_index r, sr_tree_size = rg_tree_size r,
       sr_grade = ck_grade cp, sr_continuity = rg_continuity r, sr_public_log = public_log\<rparr>)))"

definition catch_parse :: "exn \<Rightarrow> http_error" where
  "catch_parse e = (case e of
     NotACheckpointError \<Rightarrow> HttpError 400 | CheckpointSignatureError \<Rightarrow> HttpError 401 | _ \<Rightarrow> ServerError e)"

definition witness_checkpoint_cose :: "site \<Rightarrow> clock \<Rightarrow> int \<Rightarrow> bytes \<Rightarrow> stamp_response handler" where
  "witness_checkpoint_cose st now tick body =
     hbind (post_allowed tick) (\<lambda>_.
     hbind (hread catch_parse (\<lambda>_. parse_checkpoint_cose (st_ext st) (st_lib st) (Some (st_allowlist st)) body)) (\<lambda>cp.
       witness_checkpoint_cp st now tick cp))"

definition witness_checkpoint_json :: "site \<Rightarrow> clock \<Rightarrow> int \<Rightarrow> bytes \<Rightarrow> stamp_response handler" where
  "witness_checkpoint_json st now tick body =
     hbind (post_allowed tick) (\<lambda>_.
     hbind (hread catch_parse (\<lambda>_. parse_checkpoint_json (st_ext st) (st_allowlist st) body)) (\<lambda>cp.
       witness_checkpoint_cp st now tick cp))"

text \<open>The media type of a \<open>Content-Type\<close> header, \<open>''''\<close> when there is none.\<close>

definition media_type :: "string \<Rightarrow> string" where
  "media_type header = lower (strip (takeWhile (\<lambda>c. c \<noteq> CHR '';'') header))"

definition checkpoints_route :: "site \<Rightarrow> clock \<Rightarrow> int \<Rightarrow> string \<Rightarrow> bytes \<Rightarrow> stamp_response handler" where
  "checkpoints_route st now tick content_type body =
     (if body = [] then hfail (HttpError 400)
      else if max_statement_bytes < length body then hfail (HttpError 413)
      else if media_type content_type = ''application/cll-checkpoint+json''
      then witness_checkpoint_json st now tick body
      else witness_checkpoint_cose st now tick body)"

definition checkpoint_readback_route :: "string \<Rightarrow> readback_response handler" where
  "checkpoint_readback_route log_id =
     hbind (hread ServerError (\<lambda>s. Inr (get_checkpoint_readback log_id s))) (\<lambda>found.
       case found of
         None \<Rightarrow> hfail (HttpError 404)
       | Some ((mmr_size, rec), equivocations) \<Rightarrow>
           hreturn \<lparr>rb_log_id = log_id, rb_mmr_size = mmr_size, rb_record = rec,
             rb_receipt_b64 = b64encode (cr_receipt rec), rb_equivocations = equivocations\<rparr>)"

section \<open>Requests\<close>

datatype request =
    PostAnchor string string int int "string option"
  | GetCountersignedRoot string string
  | GetTransparencyLog int "string option"
  | PostInclusionProof "string list" int
  | PostVerifyInclusion merkle_proof "string option"
  | GetSth
  | GetInclusionProofCt int "int option"
  | GetConsistencyProof int int
  | GetAuthorityPubkey
  | GetPublicLogLatest
  | GetPublicLogEntries int
  | PostRegisterStatement string
  | GetStatements string
  | PostDigest string
  | GetInclusion string
  | PostCheckpoints string bytes
  | GetCheckpoint string

datatype response =
    AnchorBody anchor_receipt
  | RootBody croot
  | EntriesBody "entry list"
  | LedgerProofBody merkle_proof
  | ValidBody bool
  | SthBody sth
  | InclusionBody ct_inclusion
  | ConsistencyBody ct_consistency
  | PubkeyBody "string \<times> string"
  | PublicRowBody "pl_receipt \<times> json"
  | PublicRowsBody "(pl_receipt \<times> json) list"
  | RegisteredBody registered_response
  | SubjectBody "subject_entry list"
  | ResolvedBody inclusion_response
  | StampBody stamp_response
  | ReadbackBody readback_response

definition body :: "('a \<Rightarrow> response) \<Rightarrow> 'a handler \<Rightarrow> response handler" where
  "body f h = hbind h (\<lambda>y. hreturn (f y))"

fun serve :: "site \<Rightarrow> clock \<Rightarrow> int \<Rightarrow> request \<Rightarrow> response handler" where
  "serve st now tick (PostAnchor tid rh a b cid) = body AnchorBody (anchor_route st now tid rh a b cid)"
| "serve st now tick (GetCountersignedRoot tid rh) = body RootBody (countersigned_root_route tid rh)"
| "serve st now tick (GetTransparencyLog n cid) = body EntriesBody (transparency_log_route n cid)"
| "serve st now tick (PostInclusionProof ls i) = body LedgerProofBody (inclusion_proof_route ls i)"
| "serve st now tick (PostVerifyInclusion p r) = body ValidBody (verify_inclusion_route p r)"
| "serve st now tick GetSth = body SthBody (sth_route st now)"
| "serve st now tick (GetInclusionProofCt i n) = body InclusionBody (inclusion_proof_ct_route i n)"
| "serve st now tick (GetConsistencyProof m n) = body ConsistencyBody (consistency_proof_route m n)"
| "serve st now tick GetAuthorityPubkey = body PubkeyBody (authority_pubkey_route st)"
| "serve st now tick GetPublicLogLatest = body PublicRowBody (public_log_latest_route st)"
| "serve st now tick (GetPublicLogEntries n) = body PublicRowsBody (public_log_entries_route st n)"
| "serve st now tick (PostRegisterStatement b) = body RegisteredBody (register_statement_route st now tick b)"
| "serve st now tick (GetStatements sub) = body SubjectBody (statements_by_subject_route sub)"
| "serve st now tick (PostDigest c) = body RegisteredBody (register_digest st now tick c)"
| "serve st now tick (GetInclusion c) = body ResolvedBody (inclusion_route c)"
| "serve st now tick (PostCheckpoints ct b) = body StampBody (checkpoints_route st now tick ct b)"
| "serve st now tick (GetCheckpoint l) = body ReadbackBody (checkpoint_readback_route l)"

end
