(* ===== verification/RouterProps.thy ===== *)
theory RouterProps
  imports Router
begin

text \<open>
  What the HTTP routes promise: every request moves the service along a run of its operations, a
  refused request changes nothing, reads are pure, and what one route registers another serves.
\<close>

section \<open>Handlers move the service along a run\<close>

named_theorems moves_intros \<open>handlers that stay on a run of the service\<close>

abbreviation ap_run :: "site \<Rightarrow> app \<Rightarrow> app \<Rightarrow> bool" where
  "ap_run st s t \<equiv> run (st_ext st) (st_anchorer st) (ap_svc s) (ap_svc t)"

abbreviation ap_reachable :: "site \<Rightarrow> app \<Rightarrow> bool" where
  "ap_reachable st s \<equiv> reachable (st_ext st) (st_anchorer st) (ap_svc s)"

definition moves :: "site \<Rightarrow> 'a handler \<Rightarrow> bool" where
  "moves st h \<longleftrightarrow> (\<forall>s r t. h s = (r, t) \<longrightarrow> ap_run st s t)"

lemma moves_basic [moves_intros]:
  "moves st (hreturn y)"
  "moves st (hfail e)"
  "moves st (hread catch f)"
  "moves st (post_allowed tick)"
  "moves st (submitter_allowed st' tick cp)"
  by (auto simp: moves_def hreturn_def hfail_def hread_def post_allowed_def submitter_allowed_def run_refl
      split: prod.splits option.splits if_splits)

lemma moves_bind [moves_intros]: "moves st m \<Longrightarrow> (\<And>y. moves st (f y)) \<Longrightarrow> moves st (hbind m f)"
  unfolding moves_def hbind_def by (fastforce intro: run_trans split: prod.splits sum.splits)

lemma moves_parse:
  assumes "\<And>s y. f s = Inr y \<Longrightarrow> moves st (g y)"
  shows "moves st (hbind (hread catch f) g)"
  unfolding moves_def
proof (intro allI impI)
  fix s r t assume "hbind (hread catch f) g s = (r, t)"
  then show "ap_run st s t"
    using assms by (cases "f (ap_svc s)") (auto simp: hbind_def hread_def moves_def run_refl)
qed

lemma moves_call:
  "(\<And>s r t. f s = (r, t) \<Longrightarrow> call (st_ext st) (st_anchorer st) s t) \<Longrightarrow> moves st (hcall catch f)"
  by (auto simp: moves_def hcall_def intro: run_step [OF run_refl call_step] split: prod.splits)

lemma moves_operations [moves_intros]:
  "moves st (hcall catch (anchor (st_ext st) (st_anchorer st) now tsa tid rh sr cid))"
  "moves st (hcall catch (get_sth (st_ext st) (st_anchorer st) now))"
  "moves st (hcall catch (register_signed_statement_full (st_ext st) (st_anchorer st) now b None None))"
  by (auto intro!: moves_call intro: anchor_call get_sth_call statement_call)

lemma moves_witness: "well_formed_cp cp \<Longrightarrow> moves st (witness_checkpoint_cp st now tick cp)"
  unfolding witness_checkpoint_cp_def
  by (intro moves_bind moves_basic moves_call) (simp_all add: witness_call split_def moves_basic)

lemma cose_well_formed: "parse_checkpoint_cose x lib al b = Inr cp \<Longrightarrow> well_formed_cp cp"
  by (erule cose_parse_accepted) (drule wf_claims, elim conjE, assumption)

lemma json_well_formed: "parse_checkpoint_json x al b = Inr cp \<Longrightarrow> well_formed_cp cp"
  by (erule json_parse_accepted) (auto dest: read_json_ok simp: well_formed_cp_def)

lemma moves_checkpoints [moves_intros]:
  "moves st (witness_checkpoint_cose st now tick b)"
  "moves st (witness_checkpoint_json st now tick b)"
  unfolding witness_checkpoint_cose_def witness_checkpoint_json_def
  by (intro moves_intros moves_parse moves_witness; erule cose_well_formed json_well_formed)+

lemma moves_cases [moves_intros]:
  "moves st h \<Longrightarrow> moves st k \<Longrightarrow> moves st (if c then h else k)"
  "moves st h \<Longrightarrow> (\<And>y. moves st (f y)) \<Longrightarrow> moves st (case v of None \<Rightarrow> h | Some y \<Rightarrow> f y)"
  "(\<And>e. moves st (g e)) \<Longrightarrow> (\<And>y. moves st (f' y)) \<Longrightarrow> moves st (case w of Inl e \<Rightarrow> g e | Inr y \<Rightarrow> f' y)"
  "(\<And>y z. moves st (k' y z)) \<Longrightarrow> moves st (case p of (y, z) \<Rightarrow> k' y z)"
  by (auto split: option.splits sum.splits prod.splits)

lemmas route_defs = anchor_route_def countersigned_root_route_def transparency_log_route_def
  inclusion_proof_route_def verify_inclusion_route_def sth_route_def inclusion_proof_ct_route_def
  consistency_proof_route_def authority_pubkey_route_def public_log_latest_route_def
  public_log_entries_route_def register_statement_route_def statements_by_subject_route_def
  register_digest_def inclusion_route_def checkpoints_route_def checkpoint_readback_route_def

lemma serve_moves: "moves st (serve st now tick rq)"
  by (cases rq; simp only: serve.simps body_def route_defs) (intro moves_intros)+

inductive session :: "site \<Rightarrow> app \<Rightarrow> app \<Rightarrow> bool" for st where
  session_start: "session st s s"
| session_request: "session st s t \<Longrightarrow> serve st now tick rq t = (r, u) \<Longrightarrow> session st s u"

lemma session_run: "session st s t \<Longrightarrow> ap_run st s t"
  by (induction rule: session.induct) (auto intro: run_refl run_trans serve_moves [unfolded moves_def, rule_format])

section \<open>Refusals and reads\<close>

text \<open>A handler that changes the service's store only when it succeeds, or crashes.\<close>

definition clean :: "site \<Rightarrow> 'a handler \<Rightarrow> bool" where
  "clean st h \<longleftrightarrow> (\<forall>s e t. ap_reachable st s \<longrightarrow> h s = (Inl e, t) \<longrightarrow>
     (\<exists>x. e = ServerError x) \<or> store (ap_svc t) = store (ap_svc s))"

text \<open>A handler that never touches the service.\<close>

definition aside :: "'a handler \<Rightarrow> bool" where
  "aside h \<longleftrightarrow> (\<forall>s r t. h s = (r, t) \<longrightarrow> ap_svc t = ap_svc s)"

text \<open>A handler that only reads.\<close>

definition reads :: "'a handler \<Rightarrow> bool" where
  "reads h \<longleftrightarrow> (\<forall>s r t. h s = (r, t) \<longrightarrow> t = s)"

text \<open>A handler whose only error is a crash.\<close>

definition crashes :: "'a handler \<Rightarrow> bool" where
  "crashes h \<longleftrightarrow> (\<forall>s e t. h s = (Inl e, t) \<longrightarrow> (\<exists>x. e = ServerError x))"

lemma reads_basic: "reads (hreturn y)" "reads (hfail e)" "reads (hread catch f)"
  by (auto simp: reads_def hreturn_def hfail_def hread_def)

lemma reads_bind: "reads m \<Longrightarrow> (\<And>y. reads (f y)) \<Longrightarrow> reads (hbind m f)"
  unfolding reads_def hbind_def by (fastforce split: prod.splits sum.splits)

lemma reads_cases:
  "reads h \<Longrightarrow> reads k \<Longrightarrow> reads (if c then h else k)"
  "reads h \<Longrightarrow> (\<And>y. reads (f y)) \<Longrightarrow> reads (case v of None \<Rightarrow> h | Some y \<Rightarrow> f y)"
  "(\<And>e. reads (g e)) \<Longrightarrow> (\<And>y. reads (f' y)) \<Longrightarrow> reads (case w of Inl e \<Rightarrow> g e | Inr y \<Rightarrow> f' y)"
  "(\<And>y z. reads (k' y z)) \<Longrightarrow> reads (case p of (y, z) \<Rightarrow> k' y z)"
  by (auto split: option.splits sum.splits prod.splits)

lemmas reads_intros = reads_bind reads_basic reads_cases

lemma aside_basic: "aside (hreturn y)" "aside (hfail e)" "aside (hread catch f)" "aside (post_allowed tick)"
    "aside (submitter_allowed st tick cp)"
  by (auto simp: aside_def hreturn_def hfail_def hread_def post_allowed_def submitter_allowed_def
      split: prod.splits option.splits if_splits)

lemma reads_clean: "reads h \<Longrightarrow> clean st h"
  by (auto simp: reads_def clean_def)

lemma crashes_clean: "crashes h \<Longrightarrow> clean st h"
  by (auto simp: crashes_def clean_def)

lemma aside_clean: "aside h \<Longrightarrow> clean st h"
  by (auto simp: aside_def clean_def)

lemma hbind_Inl:
  assumes "hbind m f s = (Inl e, t)"
  obtains "m s = (Inl e, t)" | y u where "m s = (Inr y, u)" "f y u = (Inl e, t)"
  using assms by (cases "m s"; cases "fst (m s)") (auto simp: hbind_def)

lemma hbind_Inr:
  assumes "hbind m f s = (Inr r, t)"
  obtains y u where "m s = (Inr y, u)" "f y u = (Inr r, t)"
  using assms by (cases "m s"; cases "fst (m s)") (auto simp: hbind_def)

lemma clean_bind_aside:
  assumes "aside m" "\<And>y. clean st (f y)"
  shows "clean st (hbind m f)"
  unfolding clean_def
proof (intro allI impI)
  fix s e t assume s: "ap_reachable st s" and run: "hbind m f s = (Inl e, t)"
  from run show "(\<exists>x. e = ServerError x) \<or> store (ap_svc t) = store (ap_svc s)"
  proof (cases rule: hbind_Inl)
    case 1
    with assms(1) show ?thesis by (simp add: aside_def)
  next
    case (2 y u)
    then have u: "ap_svc u = ap_svc s" using assms(1) by (simp add: aside_def)
    then have "ap_reachable st u" using s by simp
    with 2(2) assms(2) [of y] have "(\<exists>x. e = ServerError x) \<or> store (ap_svc t) = store (ap_svc u)"
      unfolding clean_def by blast
    with u show ?thesis by simp
  qed
qed

lemma clean_bind_crashes:
  assumes "clean st m" "\<And>y. crashes (f y)"
  shows "clean st (hbind m f)"
  unfolding clean_def
proof (intro allI impI)
  fix s e t assume s: "ap_reachable st s" and run: "hbind m f s = (Inl e, t)"
  from run show "(\<exists>x. e = ServerError x) \<or> store (ap_svc t) = store (ap_svc s)"
  proof (cases rule: hbind_Inl)
    case 1
    with assms(1) s show ?thesis by (simp add: clean_def)
  next
    case (2 y u)
    with assms(2) [of y] show ?thesis by (auto simp: crashes_def)
  qed
qed

lemma crashes_basic: "crashes (hreturn y)" "crashes (hread ServerError f)" "crashes (hcall ServerError g)"
  by (auto simp: crashes_def hreturn_def hread_def hcall_def split: prod.splits sum.splits)

lemma crashes_bind: "crashes m \<Longrightarrow> (\<And>y. crashes (f y)) \<Longrightarrow> crashes (hbind m f)"
  unfolding crashes_def hbind_def by (fastforce split: prod.splits sum.splits)

lemma clean_body: "clean st h \<Longrightarrow> clean st (body f h)"
  unfolding body_def by (rule clean_bind_crashes) (auto intro: crashes_basic)

lemma clean_cases:
  "clean st h \<Longrightarrow> clean st k \<Longrightarrow> clean st (if c then h else k)"
  "(\<And>e. clean st (g e)) \<Longrightarrow> (\<And>y. clean st (f' y)) \<Longrightarrow> clean st (case w of Inl e \<Rightarrow> g e | Inr y \<Rightarrow> f' y)"
  by (auto split: sum.splits)

lemma clean_registration:
  assumes "env_ok (st_ext st) (st_anchorer st)"
  shows "clean st (hcall catch (register_signed_statement_full (st_ext st) (st_anchorer st) now b grade cont))"
  unfolding clean_def hcall_def
proof (intro allI impI)
  fix s e t
  assume reach: "ap_reachable st s" and run: "(case register_signed_statement_full (st_ext st) (st_anchorer st) now b grade cont (ap_svc s) of
     (r, u) \<Rightarrow> (case r of Inl e \<Rightarrow> Inl (catch e) | Inr y \<Rightarrow> Inr y, s\<lparr>ap_svc := u\<rparr>)) = (Inl e, t)"
  then obtain e' where "register_signed_statement_full (st_ext st) (st_anchorer st) now b grade cont (ap_svc s) = (Inl e', ap_svc t)"
    by (auto split: prod.splits sum.splits)
  from reachable_inv [OF reach assms] assms this have "store (ap_svc t) = store (ap_svc s)"
    by (cases rule: register_full_cases) auto
  then show "(\<exists>x. e = ServerError x) \<or> store (ap_svc t) = store (ap_svc s)" ..
qed

lemma clean_witness_call:
  assumes "env_ok (st_ext st) (st_anchorer st)"
  shows "clean st (hcall catch (witness_checkpoint (st_ext st) (st_anchorer st) now cp))"
  unfolding clean_def hcall_def
proof (intro allI impI)
  fix s e t
  assume reach: "ap_reachable st s" and "(case witness_checkpoint (st_ext st) (st_anchorer st) now cp (ap_svc s) of
     (r, u) \<Rightarrow> (case r of Inl e \<Rightarrow> Inl (catch e) | Inr y \<Rightarrow> Inr y, s\<lparr>ap_svc := u\<rparr>)) = (Inl e, t)"
  then obtain e' where "witness_checkpoint (st_ext st) (st_anchorer st) now cp (ap_svc s) = (Inl e', ap_svc t)"
    by (auto split: prod.splits sum.splits)
  then obtain e'' where "register_signed_statement_full (st_ext st) (st_anchorer st) now (sha256 (checkpoint_signing_body cp))
      (ck_grade cp) (Some cp) (ap_svc s) = (Inl e'', ap_svc t)"
    by (cases rule: witness_checkpoint_cases) auto
  from reachable_inv [OF reach assms] assms this have "store (ap_svc t) = store (ap_svc s)"
    by (cases rule: register_full_cases) auto
  then show "(\<exists>x. e = ServerError x) \<or> store (ap_svc t) = store (ap_svc s)" ..
qed

lemma clean_witness_cp:
  "env_ok (st_ext st) (st_anchorer st) \<Longrightarrow> clean st (witness_checkpoint_cp st now tick cp)"
  unfolding witness_checkpoint_cp_def
  by (intro clean_bind_aside aside_basic clean_bind_crashes clean_witness_call)
    (auto intro!: crashes_bind crashes_basic)

lemma clean_checkpoints:
  assumes "env_ok (st_ext st) (st_anchorer st)"
  shows "clean st (checkpoints_route st now tick ct b)"
  unfolding checkpoints_route_def witness_checkpoint_cose_def witness_checkpoint_json_def
  by (intro clean_cases clean_bind_aside aside_basic clean_witness_cp assms reads_clean reads_basic)

lemma clean_register:
  assumes "env_ok (st_ext st) (st_anchorer st)"
  shows "clean st (register_statement_route st now tick b)" "clean st (register_digest st now tick c)"
  unfolding register_statement_route_def register_digest_def
  by (intro clean_cases clean_bind_aside aside_basic clean_bind_crashes clean_registration assms
      aside_clean crashes_basic)+

text \<open>The requests that change no state at all.\<close>

fun is_read :: "request \<Rightarrow> bool" where
  "is_read (PostAnchor _ _ _ _ _) = False"
| "is_read GetSth = False"
| "is_read (PostRegisterStatement _) = False"
| "is_read (PostDigest _) = False"
| "is_read (PostCheckpoints _ _) = False"
| "is_read _ = True"

lemma serve_reads: "is_read rq \<Longrightarrow> reads (serve st now tick rq)"
  by (cases rq; simp only: is_read.simps serve.simps body_def route_defs) (intro reads_intros)+

lemma serve_clean:
  assumes "env_ok (st_ext st) (st_anchorer st)" "rq \<noteq> GetSth"
  shows "clean st (serve st now tick rq)"
proof (cases "is_read rq")
  case True
  then show ?thesis by (intro reads_clean serve_reads)
next
  case False
  with assms show ?thesis
    by (cases rq) (simp_all add: clean_body clean_checkpoints clean_register crashes_clean crashes_basic anchor_route_def)
qed

lemma serve_sth_heads:
  assumes "serve st now tick GetSth s = (r, t)"
  shows "heads_differ (store (ap_svc s)) (store (ap_svc t)) \<and> ap_post t = ap_post s \<and> ap_submitters t = ap_submitters s"
proof (cases "get_sth (st_ext st) (st_anchorer st) now (ap_svc s)")
  case (Pair h u)
  from get_sth_heads [OF Pair] assms Pair show ?thesis
    by (auto simp: body_def sth_route_def hbind_def hcall_def hreturn_def hfail_def split: sum.splits prod.splits if_splits)
qed

section \<open>Registered and resolved\<close>

lemma register_receipt_kept:
  assumes inv: "store_inv x (an_attestor a) (store s)" and env: "env_ok x a"
    and run: "register_signed_statement_full x a now st grade cont s = (Inr r, t)"
  shows "get_statement (rg_entry_hash r) (store t) = Some (rg_receipt r, rg_leaf_index r, rg_tree_size r)"
  using inv env run
proof (cases rule: register_full_cases)
  case (cached pk c)
  obtain rc i n scheme where c: "c = ((rc, i, n), scheme)" by (metis prod_cases3 surj_pair)
  have "scheme = SchemeLegacy \<and> get_statement (pk_legacy_hash pk) (store s) = Some (rc, i, n) \<or>
      scheme \<noteq> SchemeLegacy \<and> get_statement (pk_entry_hash pk) (store s) = Some (rc, i, n)"
    using cached(2) c peek_compute(2) [OF cached(1)]
    by (cases "pk_scheme pk") (auto simp: cached_statement_def split: option.splits if_splits)
  with cached c show ?thesis by (auto simp: cached_registration_def)
next
  case (registered pk w g s1 rg)
  from registered_statements [OF registered(6)] registered(4) show ?thesis by (simp add: get_statement_def)
qed simp

lemma statement_served:
  assumes "store_inv x a (store s)" "get_statement h (store s) = Some (rc, i, n)"
  shows "0 \<le> i \<and> i < n \<and> n \<le> store_size (store s) \<and> scitt_at (m_log (store s)) i h"
proof -
  have "(h, rc, i, n) \<in> set (m_statements (store s))" using assms(2) by (simp add: get_statement_def map_of_SomeD)
  with assms(1) show ?thesis by (fastforce simp: store_inv_def statements_ok_def scitt_at_def store_size_def)
qed

lemma register_digest_ok:
  assumes "serve st now tick (PostDigest c) s = (Inr (RegisteredBody r), t)" "capsule_bytes c = Inr b"
  obtains rg where "register_signed_statement_full (st_ext st) (st_anchorer st) now b None None (ap_svc s) = (Inr rg, ap_svc t)"
    "r = (registered_body rg)\<lparr>rr_witness := None, rr_subject := None\<rparr>"
proof -
  obtain ok l where l: "is_allowed ''global'' tick (ap_post s) = (ok, l)" by (cases "is_allowed ''global'' tick (ap_post s)")
  obtain e u where u: "register_signed_statement_full (st_ext st) (st_anchorer st) now b None None (ap_svc s) = (e, u)"
    by (cases "register_signed_statement_full (st_ext st) (st_anchorer st) now b None None (ap_svc s)")
  show thesis
    using assms that [of "projr e"]
    by (cases ok; cases e) (auto simp: body_def register_digest_def hbind_def post_allowed_def l hcall_def u hreturn_def)
qed

text \<open>A statement that is no COSE message is registered under the hash of its bytes.\<close>

lemma legacy_entry_hash:
  assumes inv: "store_inv x (an_attestor a) (store s)" and env: "env_ok x a"
    and run: "register_signed_statement_full x a now b grade cont s = (Inr rg, t)"
    and legacy: "compute_entry_hash x b = (sha256_hex b, SchemeLegacy)"
  shows "rg_entry_hash rg = sha256_hex b"
  using inv env run
proof (cases rule: register_full_cases)
  case (cached pk cc)
  from peek_compute [OF cached(1)] legacy cached show ?thesis
    by (auto simp: cached_registration_def split: prod.splits)
next
  case (registered pk w g s1 rg')
  from peek_compute(1) [OF registered(1)] legacy registered_statements(2) [OF registered(6)] registered(4)
  show ?thesis by simp
qed simp

lemma lower_hex_digit [simp]: "n < 16 \<Longrightarrow> lower_char (hex_digit n) = hex_digit n"
  "n < 16 \<Longrightarrow> \<not> is_space (hex_digit n)" "n < 16 \<Longrightarrow> hex_digit n \<in> set ''0123456789abcdef''"
  by (drule less_16_cases; auto simp: hex_digit_def hex_digits_def lower_char_def is_space_def Let_def)+

lemma capsule_bytes_hex: "length b = 32 \<Longrightarrow> capsule_bytes (hex b) = Inr b"
proof -
  assume b: "length b = 32"
  have hx: "c \<in> set (hex b) \<Longrightarrow> \<exists>n<16. c = hex_digit n" for c
  proof -
    have "\<exists>n<16. hex_digit (unat x div 16) = hex_digit n" "\<exists>n<16. hex_digit (unat x mod 16) = hex_digit n" for x :: byte
      using unat_byte_div [of x] by (auto intro: exI [of _ "unat x mod 16"])
    then show "c \<in> set (hex b) \<Longrightarrow> \<exists>n<16. c = hex_digit n"
      unfolding hex_def hex_byte_def by auto
  qed
  have "lower_char c = c" "\<not> is_space c" "c \<in> set ''0123456789abcdef''" if "c \<in> set (hex b)" for c
    using hx [OF that] lower_hex_digit by metis+
  moreover from this(2) have "dropWhile is_space cs = cs" if "set cs = set (hex b)" for cs
    using that by (cases cs) auto
  ultimately show ?thesis
    using b by (simp add: capsule_bytes_def normal_capsule_id_def strip_def lower_def map_idI list_all_iff Let_def)
qed

lemma inclusion_route_found:
  assumes "capsule_bytes c = Inr b" "get_registered_statement (sha256_hex b) (ap_svc t) = Some (rc, i, n)"
    "inclusion_proof_ct i (Some n) (ap_svc t) = Inr p"
  shows "serve st now tick (GetInclusion c) t = (Inr (ResolvedBody \<lparr>ir_capsule_id = normal_capsule_id c,
    ir_entry_hash = sha256_hex b, ir_leaf_index = i, ir_tree_size = n, ir_leaf_hash = ci_leaf_hash p,
    ir_audit_path = ci_audit_path p, ir_root_hash = ci_root_hash p, ir_receipt_b64 = b64encode rc\<rparr>), t)"
  using assms by (simp add: body_def inclusion_route_def hbind_def hread_def hreturn_def)

lemma inclusion_route_absent:
  "capsule_bytes c = Inr b \<Longrightarrow> get_registered_statement (sha256_hex b) (ap_svc t) = None \<Longrightarrow>
   serve st now tick (GetInclusion c) t = (Inl (HttpError 404), t)"
  by (simp add: body_def inclusion_route_def hbind_def hread_def hfail_def)

lemma proof_shape:
  "inclusion_proof_ct i (Some n) s = Inr p \<Longrightarrow> ci_leaf_index p = i \<and> ci_tree_size p = n"
  by (auto simp: inclusion_proof_ct_def rbind_Inr_iff Let_def split: if_splits)

section \<open>Properties\<close>

text \<open>Whatever the requests, in whatever order and however they end, the log only grows and passes the
  service's own audit: a state that requests reach from an empty service extends every earlier one.\<close>

theorem requests_keep_log_sound:
  assumes "session st (new_app \<lparr>store = empty_store, would_refuse = []\<rparr>) u" "session st u s"
    and "env_ok (st_ext st) (st_anchorer st)"
  shows "prefix (m_log (store (ap_svc u))) (m_log (store (ap_svc s))) \<and>
    verify_log (st_ext st) (st_anchorer st) None (ap_svc s)"
proof -
  have u: "ap_reachable st u" using session_run [OF assms(1)] by (simp add: reachable_def new_app_def)
  note run = session_run [OF assms(2)]
  have "verify_log (st_ext st) (st_anchorer st) None (ap_svc s)"
    using reachable_inv [OF reachable_run [OF u run] assms(3)] entries_inv [OF reachable_inv [OF reachable_run [OF u run] assms(3)]]
    by (simp add: verify_log_def) (simp add: store_inv_def)
  with run_evolves [OF run u assms(3)] show ?thesis by (simp add: evolves_def)
qed

text \<open>C12: a request that is answered with an HTTP error, a conflict or a rate limit, and not by an exception no
  handler catches, leaves the service's store as it was, except that the tree-head route may have signed and
  kept a head before it answers 503: then nothing but the kept heads differs. A request that only reads
  changes nothing of the process, rate limiters included.\<close>

theorem refused_request_changes_nothing:
  assumes "ap_reachable st s" "env_ok (st_ext st) (st_anchorer st)" "serve st now tick rq s = (r, t)"
  shows "(is_read rq \<longrightarrow> t = s) \<and>
    ((\<exists>n. r = Inl (HttpError n)) \<or> (\<exists>n root code. r = Inl (ConflictError n root code)) \<longrightarrow>
      (if rq = GetSth then heads_differ (store (ap_svc s)) (store (ap_svc t)) \<and> ap_post t = ap_post s \<and> ap_submitters t = ap_submitters s
       else store (ap_svc t) = store (ap_svc s)))"
  using assms serve_reads [of rq st now tick] serve_clean [OF assms(2), of rq now tick] serve_sth_heads [of st now tick s r t]
  by (auto simp: reads_def clean_def)

text \<open>C13: a capsule id registered through \<open>/register\<close> resolves: \<open>/v1/inclusion\<close> answers with the same receipt,
  entry hash and position, and with an audit path that verifies against the root of that tree, unless
  the 32 bytes of the id are themselves a COSE message.\<close>

theorem digest_resolves:
  assumes "ap_reachable st s" "env_ok (st_ext st) (st_anchorer st)" "capsule_bytes c = Inr b"
    and "compute_entry_hash (st_ext st) b = (sha256_hex b, SchemeLegacy)"
    and "serve st now tick (PostDigest c) s = (Inr (RegisteredBody r), t)"
  shows "\<exists>i. serve st now' tick' (GetInclusion c) t = (Inr (ResolvedBody i), t) \<and>
    ir_receipt_b64 i = rr_receipt_b64 r \<and> ir_entry_hash i = rr_entry_hash r \<and> rr_entry_hash r = sha256_hex b \<and>
    ir_leaf_index i = rr_leaf_index r \<and> ir_tree_size i = rr_tree_size r \<and>
    ct_root (Some (ir_tree_size i)) (ap_svc t) = Inr (ir_root_hash i) \<and>
    verify_inclusion_path (ir_leaf_hash i) (ir_leaf_index i) (ir_tree_size i) (ir_audit_path i) (ir_root_hash i) = Inr True"
proof -
  obtain rg where rg: "register_signed_statement_full (st_ext st) (st_anchorer st) now b None None (ap_svc s) = (Inr rg, ap_svc t)"
    "r = (registered_body rg)\<lparr>rr_witness := None, rr_subject := None\<rparr>"
    by (rule register_digest_ok [OF assms(5,3)])
  note inv = reachable_inv [OF assms(1,2)]
  have "ap_reachable st t"
    using serve_moves [of st now tick "PostDigest c"] assms(1,5) by (auto simp: moves_def intro: reachable_run)
  note inv' = reachable_inv [OF this assms(2)]
  have h: "rg_entry_hash rg = sha256_hex b" by (rule legacy_entry_hash [OF inv assms(2) rg(1) assms(4)])
  have got: "get_registered_statement (sha256_hex b) (ap_svc t) = Some (rg_receipt rg, rg_leaf_index rg, rg_tree_size rg)"
    using register_receipt_kept [OF inv assms(2) rg(1)] h by (simp add: get_registered_statement_def)
  from statement_served [OF inv'] got have "0 \<le> rg_leaf_index rg" "rg_leaf_index rg < rg_tree_size rg"
    "rg_tree_size rg \<le> store_size (store (ap_svc t))" by (simp_all add: get_registered_statement_def)
  from inclusion_served [OF inv' this, of None] obtain p where p:
    "inclusion_proof_ct (rg_leaf_index rg) (Some (rg_tree_size rg)) (ap_svc t) = Inr p"
    "ct_root (Some (rg_tree_size rg)) (ap_svc t) = Inr (ci_root_hash p)" "verify_inclusion (Inr p) None = Inr True"
    by auto
  have "verify_inclusion_path (ci_leaf_hash p) (rg_leaf_index rg) (rg_tree_size rg) (ci_audit_path p) (ci_root_hash p) = Inr True"
    using p(3) proof_shape [OF p(1)] by (auto simp: verify_inclusion_def rbind_Inr_iff split: if_splits)
  with inclusion_route_found [OF assms(3) got p(1), of st now' tick'] p(2) rg(2) h show ?thesis
    by (simp add: registered_body_def)
qed

text \<open>A capsule id whose 32 bytes are a COSE message with a payload is registered under the hash of its
  signed structure, not under the documented hash of the id: unless the two hashes collide,
  \<open>/v1/inclusion\<close> answers 404 for an id \<open>/register\<close> has just issued a receipt for.\<close>

theorem cose_shaped_capsule_unresolvable:
  assumes "ap_reachable st s" "env_ok (st_ext st) (st_anchorer st)" "capsule_bytes c = Inr b"
    and "entry_hash_preimage (st_ext st) b = (pre, SchemeSigStructure)" "pre \<noteq> b"
    and "get_registered_statement (sha256_hex b) (ap_svc s) = None"
    and "serve st now tick (PostDigest c) s = (Inr (RegisteredBody r), t)"
  shows "rr_entry_hash r = sha256_hex pre \<and>
    (serve st now' tick' (GetInclusion c) t = (Inl (HttpError 404), t) \<or> sha256 pre = sha256 b)"
proof -
  obtain rg where rg: "register_signed_statement_full (st_ext st) (st_anchorer st) now b None None (ap_svc s) = (Inr rg, ap_svc t)"
    "r = (registered_body rg)\<lparr>rr_witness := None, rr_subject := None\<rparr>"
    by (rule register_digest_ok [OF assms(7,3)])
  have compute: "compute_entry_hash (st_ext st) b = (sha256_hex pre, SchemeSigStructure)"
    using assms(4) by (simp add: compute_entry_hash_def)
  have "rg_entry_hash rg = sha256_hex pre \<and>
      (sha256_hex pre = sha256_hex b \<or> get_registered_statement (sha256_hex b) (ap_svc t) = None)"
    using reachable_inv [OF assms(1,2)] assms(2) rg(1)
  proof (cases rule: register_full_cases)
    case (cached pk cc)
    from peek_compute [OF cached(1)] compute have pk: "pk_entry_hash pk = sha256_hex pre" "pk_scheme pk = SchemeSigStructure"
      "pk_legacy_hash pk = sha256_hex b" by (auto simp: legacy_entry_hash_def)
    have "get_statement (sha256_hex b) (store (ap_svc s)) = None" using assms(6) by (simp add: get_registered_statement_def)
    with cached(2) pk obtain sm where "cc = (sm, SchemeSigStructure)"
      by (auto simp: cached_statement_def split: option.splits if_splits)
    with cached(3,4) pk assms(6) show ?thesis by (cases sm) (simp add: cached_registration_def)
  next
    case (registered pk w g s1 rg')
    from peek_compute [OF registered(1)] compute have pk: "pk_entry_hash pk = sha256_hex pre" by simp
    have "m_statements (store (ap_svc s)) = m_statements (store (ap_svc s))" ..
    with registered_statements [OF registered(6)] registered(4) pk assms(6) show ?thesis
      by (simp add: get_registered_statement_def get_statement_def)
  qed simp
  with inclusion_route_absent [OF assms(3), of t st now' tick'] rg(2) show ?thesis
    by (auto simp: registered_body_def sha256_hex_def)
qed

lemma checkpoints_accepted:
  assumes "checkpoints_route st now tick ct b s = (Inr r, t)"
  obtains cp rg u where "(if media_type ct = ''application/cll-checkpoint+json''
      then parse_checkpoint_json (st_ext st) (st_allowlist st) b
      else parse_checkpoint_cose (st_ext st) (st_lib st) (Some (st_allowlist st)) b) = Inr cp"
    "witness_checkpoint (st_ext st) (st_anchorer st) now cp (ap_svc s) = (Inr rg, ap_svc t)"
    "sr_entry_hash r = rg_entry_hash rg" "sr_leaf_index r = rg_leaf_index rg" "sr_tree_size r = rg_tree_size rg"
    "sr_grade r = ck_grade cp" "sr_continuity r = rg_continuity rg" "b \<noteq> []" "length b \<le> max_statement_bytes"
    "sr_public_log r = None \<longrightarrow> sr_receipt_b64 r = b64encode (rg_receipt rg)"
proof -
  define parse where "parse = (if media_type ct = ''application/cll-checkpoint+json''
      then parse_checkpoint_json (st_ext st) (st_allowlist st) b
      else parse_checkpoint_cose (st_ext st) (st_lib st) (Some (st_allowlist st)) b)"
  have size: "b \<noteq> []" "length b \<le> max_statement_bytes"
    using assms by (auto simp: checkpoints_route_def hfail_def split: if_splits)
  have "checkpoints_route st now tick ct b = hbind (post_allowed tick) (\<lambda>_. hbind (hread catch_parse (\<lambda>_. parse))
      (\<lambda>cp. witness_checkpoint_cp st now tick cp))"
    using size by (simp add: checkpoints_route_def witness_checkpoint_cose_def witness_checkpoint_json_def parse_def)
  with assms have "hbind (post_allowed tick) (\<lambda>_. hbind (hread catch_parse (\<lambda>_. parse))
      (\<lambda>cp. witness_checkpoint_cp st now tick cp)) s = (Inr r, t)" by (simp only:)
  then obtain v where v: "post_allowed tick s = (Inr (), v)"
    "hbind (hread catch_parse (\<lambda>_. parse)) (\<lambda>cp. witness_checkpoint_cp st now tick cp) v = (Inr r, t)"
    by (rule hbind_Inr) simp
  from v(2) obtain cp where cp: "parse = Inr cp" "witness_checkpoint_cp st now tick cp v = (Inr r, t)"
    by (rule hbind_Inr) (auto simp: hread_def split: sum.splits)
  from cp(2) obtain w x where w: "submitter_allowed st tick cp v = (Inr (), w)"
    "hcall catch_witness (witness_checkpoint (st_ext st) (st_anchorer st) now cp) w = (Inr x, t)"
    "sr_entry_hash r = rg_entry_hash x" "sr_leaf_index r = rg_leaf_index x" "sr_tree_size r = rg_tree_size x"
    "sr_grade r = ck_grade cp" "sr_continuity r = rg_continuity x"
    "sr_public_log r = None \<longrightarrow> sr_receipt_b64 r = b64encode (rg_receipt x)"
    unfolding witness_checkpoint_cp_def
    by (elim hbind_Inr) (auto simp: hread_def hreturn_def public_evidence_def rbind_Inr_iff split: sum.splits option.splits)
  have "ap_svc w = ap_svc s"
    using aside_basic(5) [of st tick cp] aside_basic(4) [of tick] w(1) v(1) by (simp add: aside_def)
  with w(2) have "witness_checkpoint (st_ext st) (st_anchorer st) now cp (ap_svc s) = (Inr x, ap_svc t)"
    by (auto simp: hcall_def split: prod.splits sum.splits)
  from that [OF cp(1) [unfolded parse_def] this w(3-7) size w(8)] show thesis .
qed

lemma recorded_last:
  assumes "record_checkpoint_read_surface cp rg s = (Inr (), t)"
  shows "\<exists>n rec. get_last_checkpoint_record (ck_log_id cp) (store t) = Some (n, rec) \<and> ck_mmr_size cp \<le> n"
proof -
  obtain rec where "map_of (m_records (store t)) (ck_log_id cp, ck_mmr_size cp) = Some rec"
    using assms by (auto simp: record_checkpoint_read_surface_def put_checkpoint_record_def Let_def split: option.splits)
  then have mem: "(ck_mmr_size cp, rec) \<in> set (map (\<lambda>((_, sz), r). (sz, r)) (filter (\<lambda>((lid, _), _). lid = ck_log_id cp) (m_records (store t))))"
    by (force dest: map_of_SomeD)
  then obtain p where "get_last_checkpoint_record (ck_log_id cp) (store t) = Some p"
    by (cases "get_last_checkpoint_record (ck_log_id cp) (store t)")
      (auto simp: get_last_checkpoint_record_def filter_empty_conv)
  moreover from max_by_Some [OF this [unfolded get_last_checkpoint_record_def]] mem have "ck_mmr_size cp \<le> fst p" by force
  ultimately show ?thesis by (cases p) auto
qed


section \<open>Concrete requests\<close>

definition sample_site :: site where
  "sample_site = \<lparr>st_ext = sample_ext, st_lib = sample_lib, st_anchorer = sample_anchorer, st_allowlist = [],
     st_tsa = None, st_publisher = None\<rparr>"

definition sample_app :: app where
  "sample_app = new_app \<lparr>store = empty_store, would_refuse = []\<rparr>"

definition sample_id :: string where
  "sample_id = replicate 64 (CHR ''0'')"

lemma sample_capsule_bytes: "capsule_bytes sample_id = Inr (replicate 32 0)"
  by (simp add: capsule_bytes_def normal_capsule_id_def sample_id_def lower_def lower_char_def strip_def
      is_space_def hex_value_def is_ascii_space_def numeral_eq_Suc Let_def)

lemma sample_site_facts:
  shows "env_ok (st_ext sample_site) (st_anchorer sample_site)"
    and "json_loads_utf8 (st_ext sample_site) = (\<lambda>_. Inl JSONDecodeError)"
  by (simp_all add: sample_site_def) (simp add: sample_ext_def)

lemma sample_app_reachable:
  "st_anchorer st = a \<Longrightarrow> ap_reachable st sample_app"
  by (simp add: sample_app_def new_app_def reachable_def run_refl)

text \<open>Registering a short statement on an empty service.\<close>

lemma register_first:
  assumes "env_ok x a" "peek_statement x a d = Inr pk" "pk_checkpoint pk = None"
  shows "\<exists>rg t. register_signed_statement_full x a now d g c \<lparr>store = empty_store, would_refuse = []\<rparr> = (Inr rg, t)"
proof -
  let ?s = "\<lparr>store = empty_store, would_refuse = []\<rparr>"
  have inv: "store_inv x (an_attestor a) (store ?s)" by (simp add: empty_store_inv)
  have gates: "run_gates x a c pk ?s = (Inr (None, map_option (\<lambda>_. FirstSeen) c), ?s)"
    using assms(3) by (simp add: run_gates_def check_checkpoint_continuity_def get_checkpoint_witness_def empty_store_def
        op_bind_simps op_get_def split: option.splits)
  obtain rg st where new: "register_new x a now g c pk ?s = (Inr rg, ?s\<lparr>store := st\<rparr>)"
    using register_new_run [OF inv assms(1) _ gates, of now g] peek_entry_hash [OF assms(2)] by auto
  have "cached_statement pk (store ?s) = None"
    by (simp add: cached_statement_def get_statement_def empty_store_def split: if_splits)
  with new assms(2) show ?thesis by (simp add: register_signed_statement_full_def)
qed

lemma peek_short:
  assumes "json_loads_utf8 x = (\<lambda>_. Inl JSONDecodeError)" "length d \<le> 32"
  shows "\<exists>pk. peek_statement x a d = Inr pk \<and> pk_checkpoint pk = None"
proof -
  have "parse_checkpoint_payload x p = Inr None" for p
    by (simp add: parse_checkpoint_payload_def assms(1) split: option.splits)
  then show ?thesis
    using assms(2) by (simp add: peek_statement_def max_statement_bytes_def Let_def split_def rbind_def split: option.splits)
qed

lemma first_digest_served:
  assumes "st_ext st = x" "env_ok x (st_anchorer st)" "json_loads_utf8 x = (\<lambda>_. Inl JSONDecodeError)"
  shows "\<exists>r t. serve st now 0 (PostDigest sample_id) sample_app = (Inr (RegisteredBody r), t)"
proof -
  have "length (replicate 32 0 :: bytes) \<le> 32" by simp
  from peek_short [OF assms(3) this] obtain pk where
    "peek_statement x (st_anchorer st) (replicate 32 0) = Inr pk" "pk_checkpoint pk = None" by blast
  from register_first [OF assms(2) this, of now None None] obtain rg u where
    "register_signed_statement_full (st_ext st) (st_anchorer st) now (replicate 32 0) None None
      \<lparr>store = empty_store, would_refuse = []\<rparr> = (Inr rg, u)" using assms(1) by auto
  then show ?thesis
    by (simp add: body_def register_digest_def sample_capsule_bytes hbind_def post_allowed_def is_allowed_def
        sample_app_def new_app_def new_limiter_def window_of_def hcall_def hreturn_def)
qed

theorem requests_keep_log_sound_witness:
  "\<exists>s. session sample_site sample_app s \<and> verify_log sample_ext sample_anchorer None (ap_svc s)"
proof -
  obtain r t where t: "serve sample_site (\<lambda>_. 0) 0 (PostDigest sample_id) sample_app = (Inr (RegisteredBody r), t)"
    using first_digest_served [OF refl sample_site_facts] by blast
  have s: "session sample_site sample_app t" by (rule session_request [OF session_start t])
  with requests_keep_log_sound [of sample_site sample_app t] session_start [of sample_site sample_app] show ?thesis
    by (auto simp: sample_app_def sample_site_def)
qed

theorem refused_request_changes_nothing_witness:
  "\<exists>t. serve sample_site (\<lambda>_. 0) 0 (PostDigest ''abc'') sample_app = (Inl (HttpError 400), t) \<and>
     store (ap_svc t) = store (ap_svc sample_app)"
proof -
  have "capsule_bytes ''abc'' = Inl (HttpError 400)"
    by (simp add: capsule_bytes_def normal_capsule_id_def lower_def lower_char_def strip_def is_space_def)
  then obtain t where t: "serve sample_site (\<lambda>_. 0) 0 (PostDigest ''abc'') sample_app = (Inl (HttpError 400), t)"
    by (simp add: body_def register_digest_def hbind_def post_allowed_def is_allowed_def
        sample_app_def new_app_def new_limiter_def window_of_def hfail_def)
  have "env_ok (st_ext sample_site) (st_anchorer sample_site)" by (simp add: sample_site_def)
  from refused_request_changes_nothing [OF sample_app_reachable [OF refl] this t] t show ?thesis by auto
qed

theorem digest_resolves_witness:
  "\<exists>r t i. serve sample_site (\<lambda>_. 0) 0 (PostDigest sample_id) sample_app = (Inr (RegisteredBody r), t) \<and>
     serve sample_site (\<lambda>_. 0) 0 (GetInclusion sample_id) t = (Inr (ResolvedBody i), t) \<and>
     ir_receipt_b64 i = rr_receipt_b64 r"
proof -
  obtain r t where t: "serve sample_site (\<lambda>_. 0) 0 (PostDigest sample_id) sample_app = (Inr (RegisteredBody r), t)"
    using first_digest_served [OF refl sample_site_facts] by blast
  have "env_ok (st_ext sample_site) (st_anchorer sample_site)"
    "compute_entry_hash (st_ext sample_site) (replicate 32 0) = (sha256_hex (replicate 32 0), SchemeLegacy)"
    by (simp_all add: sample_site_def compute_entry_hash_def entry_hash_preimage_def decode_cose_sign1_def) (simp add: sample_ext_def)
  from digest_resolves [OF sample_app_reachable [OF refl] this(1) sample_capsule_bytes this(2) t] t show ?thesis by blast
qed

text \<open>A site on which the 32 zero bytes decode as a COSE message.\<close>

definition cose_ext :: ext where
  "cose_ext = sample_ext\<lparr>cbor_loads := (\<lambda>b. if b = replicate 32 0
     then Some (CTag 18 (CList [CBytes [1], CMap [], CBytes [2], CBytes [3]])) else None)\<rparr>"

lemma cose_ext_env [simp]: "env_ok cose_ext sample_anchorer"
  using sample_env_ok
  by (simp add: env_ok_def attestor_ok_def sth_json_ok_def sample_anchorer_def sample_attestor_def new_attestor_def
      generate_keypair_def attestor_verify_def attest_def crypto_sign_def crypto_verify_def cose_ext_def)

theorem cose_shaped_capsule_unresolvable_witness:
  "\<exists>r t. serve (sample_site\<lparr>st_ext := cose_ext\<rparr>) (\<lambda>_. 0) 0 (PostDigest sample_id) sample_app = (Inr (RegisteredBody r), t) \<and>
     (serve (sample_site\<lparr>st_ext := cose_ext\<rparr>) (\<lambda>_. 0) 0 (GetInclusion sample_id) t = (Inl (HttpError 404), t) \<or>
       sha256 [] = sha256 (replicate 32 0))"
proof -
  let ?st = "sample_site\<lparr>st_ext := cose_ext\<rparr>"
  have env: "env_ok (st_ext ?st) (st_anchorer ?st)" by (simp add: sample_site_def)
  obtain r t where t: "serve ?st (\<lambda>_. 0) 0 (PostDigest sample_id) sample_app = (Inr (RegisteredBody r), t)"
  proof -
    have "json_loads_utf8 (st_ext ?st) = (\<lambda>_. Inl JSONDecodeError)" by (simp add: cose_ext_def) (simp add: sample_ext_def)
    from first_digest_served [OF refl env this] that show thesis by blast
  qed
  have pre: "entry_hash_preimage (st_ext ?st) (replicate 32 0) = ([], SchemeSigStructure)"
    by (simp add: entry_hash_preimage_def decode_cose_sign1_def sig_structure_def cose_ext_def) (simp add: sample_ext_def)
  have "get_registered_statement (sha256_hex (replicate 32 0)) (ap_svc sample_app) = None"
    by (simp add: get_registered_statement_def get_statement_def sample_app_def new_app_def empty_store_def)
  from cose_shaped_capsule_unresolvable [OF sample_app_reachable [OF refl] env sample_capsule_bytes pre _ this t] t
  show ?thesis by auto
qed

text \<open>A site with an enrolled submitter, and the library of \<open>CheckpointWire\<close>.\<close>

definition stamp_ext :: ext where
  "stamp_ext = sample_wire_ext\<lparr>ed_verify := ed_verify sample_ext\<rparr>"

definition stamp_site :: site where
  "stamp_site = sample_site\<lparr>st_ext := stamp_ext, st_allowlist := [(''log'', sample_submitter)]\<rparr>"

lemma stamp_env: "env_ok (st_ext stamp_site) (st_anchorer stamp_site)"
  using sample_env_ok
  by (simp add: env_ok_def attestor_ok_def sth_json_ok_def sample_anchorer_def sample_attestor_def new_attestor_def
      generate_keypair_def attestor_verify_def attest_def crypto_sign_def crypto_verify_def stamp_ext_def sample_wire_ext_def
      stamp_site_def sample_site_def)

lemma stamp_parsed:
  "\<exists>cp. parse_checkpoint_cose stamp_ext sample_lib (Some [(''log'', sample_submitter)]) [7] = Inr cp"
proof -
  have "show_int 3 = ''3''" by code_simp
  then show ?thesis
    by (simp add: parse_checkpoint_cose_def extract_protected_fields_def protected_header_def truthy_def py_bytes_def
        norm_key_def cbor_get_def sample_lib_def sample_wire_ext_def sample_header_def peek_unauthenticated_issuer_def
        peek_claim_def enrolled_def allowlist_get_def verify_statement_def sample_submitter_def sample_key_def
        read_claims_def claims_map_def sample_claims_def claim_int_def claim_text_def commitment_root_def
        decode_commitment_def peak_list_def peak_hash_def prev_commitment_root_def claimed_proof_def Let_def stamp_ext_def)
qed

lemma stamp_first:
  assumes "env_ok (st_ext st) (st_anchorer st)" "st_publisher st = None"
    and "parse_checkpoint_cose (st_ext st) (st_lib st) (Some (st_allowlist st)) b = Inr cp"
    and "media_type ct \<noteq> ''application/cll-checkpoint+json''" "b \<noteq> []" "length b \<le> max_statement_bytes"
    and decodes: "decode_cose_sign1 (st_ext st) (sha256 (checkpoint_signing_body cp)) = None"
    and limit: "\<And>u. ap_submitters u = [] \<Longrightarrow> \<exists>w. submitter_allowed st 0 cp u = (Inr (), w) \<and> ap_svc w = ap_svc u"
  shows "\<exists>r t. serve st now 0 (PostCheckpoints ct b) sample_app = (Inr (StampBody r), t)"
proof -
  let ?d = "sha256 (checkpoint_signing_body cp)" and ?x = "st_ext st" and ?a = "st_anchorer st"
  have "\<exists>pk. peek_statement ?x ?a ?d = Inr pk \<and> pk_checkpoint pk = None"
    using decodes by (simp add: peek_statement_def max_statement_bytes_def Let_def split_def)
  then obtain pk where "peek_statement ?x ?a ?d = Inr pk" "pk_checkpoint pk = None" by blast
  from register_first [OF assms(1) this, of now "ck_grade cp" "Some cp"]
  obtain rg s1 where "register_signed_statement_full ?x ?a now ?d (ck_grade cp) (Some cp)
      \<lparr>store = empty_store, would_refuse = []\<rparr> = (Inr rg, s1)" by blast
  then obtain s2 where w: "witness_checkpoint ?x ?a now cp \<lparr>store = empty_store, would_refuse = []\<rparr> = (Inr rg, s2)"
    by (simp add: witness_checkpoint_def checkpoint_digest_def sha256_hex_def op_bind_def record_checkpoint_read_surface_def
        on_store_def op_return_def)
  obtain u where u: "post_allowed 0 sample_app = (Inr (), u)" "ap_svc u = ap_svc sample_app" "ap_submitters u = []"
    by (simp add: post_allowed_def is_allowed_def sample_app_def new_app_def new_limiter_def window_of_def)
  obtain v where v: "submitter_allowed st 0 cp u = (Inr (), v)" "ap_svc v = ap_svc u" using limit [OF u(3)] by blast
  have "hcall catch_witness (witness_checkpoint ?x ?a now cp) v = (Inr rg, v\<lparr>ap_svc := s2\<rparr>)"
    using w v(2) u(2) by (simp add: hcall_def sample_app_def new_app_def)
  then have "\<exists>r. witness_checkpoint_cp st now 0 cp u = (Inr r, v\<lparr>ap_svc := s2\<rparr>)"
    using v(1) assms(2) by (simp add: witness_checkpoint_cp_def hbind_def hread_def public_evidence_def hreturn_def)
  then show ?thesis
    using assms(3-6) u(1) by (auto simp: body_def checkpoints_route_def witness_checkpoint_cose_def hbind_def hread_def hreturn_def)
qed

lemma stamp_served:
  assumes "env_ok stamp_ext a"
  shows "\<exists>r t. serve (stamp_site\<lparr>st_anchorer := a\<rparr>) now 0 (PostCheckpoints [] [7]) sample_app = (Inr (StampBody r), t)"
proof -
  let ?st = "stamp_site\<lparr>st_anchorer := a\<rparr>"
  obtain cp where cp: "parse_checkpoint_cose stamp_ext sample_lib (Some [(''log'', sample_submitter)]) [7] = Inr cp"
    using stamp_parsed by blast
  show ?thesis
  proof (rule stamp_first [where cp = cp])
    show "decode_cose_sign1 (st_ext ?st) (sha256 (checkpoint_signing_body cp)) = None"
      by (auto simp: decode_cose_sign1_def stamp_site_def stamp_ext_def sample_wire_ext_def sample_claims_def sample_header_def)
    show "\<exists>w. submitter_allowed ?st 0 cp u = (Inr (), w) \<and> ap_svc w = ap_svc u" if "ap_submitters u = []" for u
      using that by (simp add: submitter_allowed_def submitter_rate_limit_ok_def is_allowed_def stamp_site_def allowlist_get_def
          sample_submitter_def new_limiter_def window_of_def hreturn_def dict_setdefault_def split: option.splits)
  qed (use assms cp in \<open>simp_all add: stamp_site_def sample_site_def media_type_def strip_def lower_def max_statement_bytes_def\<close>)
qed


end
