(* ===== verification/Conformance.thy ===== *)
theory Conformance
  imports RouterProps
begin

text \<open>
  The cross-witness conformance checks (\<open>cross_witness_conformance/checker.py\<close>) and the watcher that runs
  them against a remembered checkpoint (\<open>watcher.py\<close>). The prose of a check's detail is left out. The
  witness is seen through \<open>get\<close>, a function from paths to responses; \<open>verify_receipt\<close> of scitt_cose is
  a parameter. The state file holds the claims that \<open>json.dumps\<close> wrote to it, or does not exist.
\<close>

section \<open>Reports\<close>

datatype check_status = Pass | Fail | Unknown

record check_result =
  chk_name :: string
  chk_status :: check_status

record report =
  rp_checks :: "check_result list"
  rp_claims :: "checkpoint option"

definition empty_report :: report where
  "empty_report = \<lparr>rp_checks = [], rp_claims = None\<rparr>"

definition report_add :: "string \<Rightarrow> check_status \<Rightarrow> report \<Rightarrow> report" where
  "report_add name status rp = rp\<lparr>rp_checks := rp_checks rp @ [\<lparr>chk_name = name, chk_status = status\<rparr>]\<rparr>"

definition passed :: "report \<Rightarrow> bool" where
  "passed rp \<longleftrightarrow> rp_checks rp \<noteq> [] \<and> list_all (\<lambda>c. chk_status c = Pass \<or> chk_status c = Unknown) (rp_checks rp)"

definition has_failure :: "report \<Rightarrow> bool" where
  "has_failure rp \<longleftrightarrow> list_ex (\<lambda>c. chk_status c = Fail) (rp_checks rp)"

definition merge :: "report \<Rightarrow> report \<Rightarrow> report" where
  "merge rp other = rp\<lparr>rp_checks := rp_checks rp @ rp_checks other\<rparr>"

section \<open>The wire check\<close>

text \<open>\<open>loaded\<close> is what \<open>from_env_or_default\<close> gives when no allowlist is passed.\<close>

definition declared_form :: "allowlist \<Rightarrow> string \<Rightarrow> wire_form" where
  "declared_form al expected_log_id =
     (case allowlist_get expected_log_id al of None \<Rightarrow> CoseSign1 | Some e \<Rightarrow> sb_wire_form e)"

definition parse_declared :: "ext \<Rightarrow> cose_lib \<Rightarrow> allowlist \<Rightarrow> wire_form \<Rightarrow> bytes \<Rightarrow> checkpoint res" where
  "parse_declared x lib al w b = (case w of
     JsonEd25519 \<Rightarrow> parse_checkpoint_json x al b
   | CoseSign1 \<Rightarrow> parse_checkpoint_cose x lib (Some al) b)"

definition grade_check :: "string option \<Rightarrow> checkpoint \<Rightarrow> check_status" where
  "grade_check expected_grade cp = (case expected_grade of
     None \<Rightarrow> Unknown | Some g \<Rightarrow> if ck_grade cp = Some g then Pass else Fail)"

definition check_checkpoint_wire ::
    "ext \<Rightarrow> cose_lib \<Rightarrow> allowlist res \<Rightarrow> bytes \<Rightarrow> string \<Rightarrow> string option \<Rightarrow> allowlist option \<Rightarrow> report res" where
  "check_checkpoint_wire x lib loaded checkpoint_bytes expected_log_id expected_grade allowlist =
     rbind (case allowlist of None \<Rightarrow> loaded | Some al \<Rightarrow> Inr al) (\<lambda>al.
       case parse_declared x lib al (declared_form al expected_log_id) checkpoint_bytes of
         Inl NotACheckpointError \<Rightarrow> Inr (report_add ''wire_structure'' Fail empty_report)
       | Inl CheckpointSignatureError \<Rightarrow>
           Inr (report_add ''signature_verified'' Fail (report_add ''wire_structure'' Pass empty_report))
       | Inl e \<Rightarrow> Inl e
       | Inr claims \<Rightarrow>
           Inr (report_add ''countersign_grade'' (grade_check expected_grade claims)
               (report_add ''enrolled_log_id'' (if ck_log_id claims = expected_log_id then Pass else Fail)
               (report_add ''sub_pattern'' Pass
               (report_add ''signature_verified'' Pass
               (report_add ''wire_structure'' Pass (empty_report\<lparr>rp_claims := Some claims\<rparr>)))))))"

section \<open>Tie-back to the witness\<close>

text \<open>A response: its status, and what \<open>.json()\<close> gives.\<close>

record resp =
  rs_status :: int
  rs_json :: "json res"

definition json_item :: "json \<Rightarrow> string \<Rightarrow> json res" where
  "json_item j key = (case j of
     JObj kvs \<Rightarrow> (case map_of kvs key of None \<Rightarrow> Inl KeyError | Some v \<Rightarrow> Inr v)
   | _ \<Rightarrow> Inl TypeError)"

definition json_str :: "json \<Rightarrow> string res" where
  "json_str j = (case j of JStr s \<Rightarrow> Inr s | _ \<Rightarrow> Inl TypeError)"

text \<open>\<open>_Resp.json\<close>, and the client over HTTP: \<open>transport\<close> answers a URL with a status and a body.\<close>

definition rstrip_slash :: "string \<Rightarrow> string" where
  "rstrip_slash s = rev (dropWhile (\<lambda>c. c = CHR ''/'') (rev s))"

definition http_getter :: "ext \<Rightarrow> (string \<Rightarrow> (int \<times> bytes) res) \<Rightarrow> string \<Rightarrow> string \<Rightarrow> resp res" where
  "http_getter x transport base_url path =
     rbind (transport (rstrip_slash base_url @ path)) (\<lambda>(status, body).
       Inr \<lparr>rs_status = status,
         rs_json = json_loads x body\<rparr>)"

text \<open>The receipt of a resolved inclusion, checked offline under the witness's published key.\<close>

definition offline_verify :: "(bytes \<Rightarrow> json \<Rightarrow> bytes \<Rightarrow> bool res) \<Rightarrow> json \<Rightarrow> json \<Rightarrow> bool res" where
  "offline_verify verify_receipt resolved pub =
     rbind (json_item pub ''pubkey_hex'') (\<lambda>key.
     rbind (json_str key) (\<lambda>pubkey_hex.
     rbind (fromhex pubkey_hex) (\<lambda>raw.
     rbind (ed25519_raw_to_pem raw) (\<lambda>pubkey_pem.
     rbind (json_item resolved ''receipt_b64'') (\<lambda>rb.
     rbind (json_str rb) (\<lambda>receipt_b64.
     rbind (b64decode False receipt_b64) (\<lambda>receipt_bytes.
     rbind (json_item resolved ''entry_hash'') (\<lambda>entry_hash.
       verify_receipt receipt_bytes entry_hash pubkey_pem))))))))"

definition check_witness_tie_back ::
    "(bytes \<Rightarrow> json \<Rightarrow> bytes \<Rightarrow> bool res) \<Rightarrow> (string \<Rightarrow> resp res) \<Rightarrow> checkpoint \<Rightarrow> report res" where
  "check_witness_tie_back verify_receipt get claims =
     rbind (get (''/v1/inclusion/'' @ checkpoint_digest claims)) (\<lambda>resp.
       if rs_status resp \<noteq> 200 then Inr (report_add ''witness_registered'' Fail empty_report)
       else
         rbind (rs_json resp) (\<lambda>body.
         rbind (json_item body ''leaf_index'') (\<lambda>_.
         rbind (json_item body ''tree_size'') (\<lambda>_.
         rbind (get ''/anchor/authority-pubkey'') (\<lambda>pub.
           let registered = report_add ''witness_registered'' Pass empty_report in
           if rs_status pub \<noteq> 200 then Inr (report_add ''receipt_offline_verify'' Fail registered)
           else
             rbind (rs_json pub) (\<lambda>pub_body.
             rbind (offline_verify verify_receipt body pub_body) (\<lambda>ok.
             Inr (report_add ''receipt_offline_verify'' (if ok then Pass else Fail) registered))))))))"

section \<open>Chain continuity\<close>

definition check_chain_continuity :: "checkpoint \<Rightarrow> checkpoint \<Rightarrow> report" where
  "check_chain_continuity first second =
     (if ck_log_id first \<noteq> ck_log_id second then report_add ''chain_continuity'' Fail empty_report
      else if ck_prev_size second = ck_mmr_size first \<and> ck_prev_root second = ck_root first \<and>
              ck_mmr_size first < ck_mmr_size second
      then report_add ''chain_continuity'' Pass empty_report
      else report_add ''chain_continuity'' Fail empty_report)"

section \<open>The watcher\<close>

text \<open>
  \<open>_save_state\<close>: \<open>json.dumps\<close> of the claims, whose consistency proof, when there is one, is an object it
  does not serialise. What it writes, \<open>_load_state\<close> reads back: integers, strings and nulls.
\<close>

definition save_state :: "checkpoint \<Rightarrow> (checkpoint option, unit) op" where
  "save_state claims = (case ck_proof claims of
     Some (Some _) \<Rightarrow> op_raise TypeError
   | _ \<Rightarrow> (\<lambda>_. (Inr (), Some claims)))"

definition continuity_report :: "checkpoint option \<Rightarrow> checkpoint \<Rightarrow> report" where
  "continuity_report previous claims = (case previous of
     Some p \<Rightarrow> if ck_log_id p = ck_log_id claims then check_chain_continuity p claims
               else report_add ''chain_continuity'' Unknown empty_report
   | None \<Rightarrow> report_add ''chain_continuity'' Unknown empty_report)"

definition run ::
    "ext \<Rightarrow> cose_lib \<Rightarrow> allowlist res \<Rightarrow> (bytes \<Rightarrow> json \<Rightarrow> bytes \<Rightarrow> bool res) \<Rightarrow> (string \<Rightarrow> resp res) \<Rightarrow> string
      \<Rightarrow> string option \<Rightarrow> bytes \<Rightarrow> (checkpoint option, report) op" where
  "run x lib loaded verify_receipt get expected_log_id expected_grade checkpoint_bytes =
     op_bind (op_lift (check_checkpoint_wire x lib loaded checkpoint_bytes expected_log_id expected_grade None)) (\<lambda>wire.
       case rp_claims wire of
         None \<Rightarrow> op_return wire
       | Some claims \<Rightarrow>
           op_bind (op_lift (check_witness_tie_back verify_receipt get claims)) (\<lambda>tied.
           op_bind (op_get id) (\<lambda>previous.
             let rp = merge (merge wire tied) (continuity_report previous claims) in
             if has_failure rp then op_return rp
             else op_bind (save_state claims) (\<lambda>_. op_return rp))))"

text \<open>\<open>main\<close>: the exit code of a run; an exception leaves the process with 1.\<close>

definition exit_code :: "report res \<Rightarrow> int" where
  "exit_code r = (case r of Inl _ \<Rightarrow> 1 | Inr rp \<Rightarrow> if has_failure rp then 1 else 0)"

section \<open>What a report says\<close>

lemma report_add_simps [simp]:
  "rp_checks (report_add n s rp) = rp_checks rp @ [\<lparr>chk_name = n, chk_status = s\<rparr>]"
  "rp_claims (report_add n s rp) = rp_claims rp"
  "has_failure (report_add n s rp) \<longleftrightarrow> has_failure rp \<or> s = Fail"
  by (auto simp: report_add_def has_failure_def)

lemma report_basic_simps [simp]:
  "rp_claims empty_report = None" "rp_checks empty_report = []" "\<not> has_failure empty_report"
  "has_failure (rp\<lparr>rp_claims := c\<rparr>) = has_failure rp" "\<not> has_failure \<lparr>rp_checks = [], rp_claims = c\<rparr>"
  "has_failure (merge rp q) \<longleftrightarrow> has_failure rp \<or> has_failure q" "rp_claims (merge rp q) = rp_claims rp"
  by (auto simp: empty_report_def has_failure_def merge_def)

lemma grade_check_fail: "grade_check g cp = Fail \<longleftrightarrow> g \<noteq> None \<and> ck_grade cp \<noteq> g"
  by (auto simp: grade_check_def split: option.splits)

lemma wire_check_cases:
  assumes "check_checkpoint_wire x lib loaded b l g None = Inr rp"
  obtains (rejected) "rp_claims rp = None" "has_failure rp"
  | (accepted) al cp where "loaded = Inr al" "parse_declared x lib al (declared_form al l) b = Inr cp"
      "rp_claims rp = Some cp" "has_failure rp \<longleftrightarrow> ck_log_id cp \<noteq> l \<or> (g \<noteq> None \<and> ck_grade cp \<noteq> g)"
proof -
  obtain al where al: "loaded = Inr al" using assms by (cases loaded) (auto simp: check_checkpoint_wire_def)
  show thesis
  proof (cases "parse_declared x lib al (declared_form al l) b")
    case (Inl e)
    then have "rp_claims rp = None \<and> has_failure rp"
      using assms al by (cases e) (auto simp: check_checkpoint_wire_def)
    then show thesis using rejected by blast
  next
    case (Inr cp)
    then show thesis
      using assms al accepted [OF al Inr] by (auto simp: check_checkpoint_wire_def grade_check_fail)
  qed
qed

text \<open>C37: a report of the wire check with no failed check means what it says: the submission parses under the
  form its log declares, is signed under the key enrolled for the expected log, and carries the
  expected grade; the routes of the witness parse it to the same claims.\<close>

theorem wire_report_sound:
  assumes "from_list raw = Inr al" "allowlist_get l al = Some e" "issuer_read_back x lib"
    and "check_checkpoint_wire x lib (Inr al) b l g None = Inr rp" "\<not> has_failure rp"
  shows "\<exists>cp. rp_claims rp = Some cp \<and> well_formed_cp cp \<and> ck_log_id cp = l \<and> ck_grade cp = Some (grade_of e) \<and>
    (g = None \<or> g = Some (grade_of e)) \<and>
    (case sb_wire_form e of
       CoseSign1 \<Rightarrow> parse_checkpoint_cose x lib (Some al) b = Inr cp \<and>
         (\<exists>p. parse_signed lib b (sb_pubkey e) = Inr p \<and> pd_verified p)
     | JsonEd25519 \<Rightarrow> parse_checkpoint_json x al b = Inr cp \<and>
         (\<exists>sg. ed_verify x (sb_pubkey e) sg (ascii_bytes (checkpoint_digest cp))))"
  using assms(4)
proof (cases rule: wire_check_cases)
  case rejected
  then show ?thesis using assms(5) by blast
next
  case (accepted al' cp)
  have al: "al' = al" "ck_log_id cp = l" "g = None \<or> ck_grade cp = g" using accepted(1,4) assms(5) by auto
  have form: "declared_form al l = sb_wire_form e" using assms(2) by (simp add: declared_form_def)
  show ?thesis
  proof (cases "sb_wire_form e")
    case CoseSign1
    then have "parse_checkpoint_cose x lib (Some al) b = Inr cp" using accepted(2) form al by (simp add: parse_declared_def)
    from this cose_accept_authentic [OF this assms(3)] show ?thesis using accepted(3) al assms(2) CoseSign1 by auto
  next
    case JsonEd25519
    then have "parse_checkpoint_json x al b = Inr cp" using accepted(2) form al by (simp add: parse_declared_def)
    from this json_accept_authentic [OF assms(1) this] show ?thesis using accepted(3) al assms(2) JsonEd25519 by auto
  qed
qed

text \<open>A gap counts as passed: \<open>passed\<close> is true of every report with a check and no failure.\<close>

lemma passed_iff: "passed rp \<longleftrightarrow> rp_checks rp \<noteq> [] \<and> \<not> has_failure rp"
proof -
  have "chk_status c = Pass \<or> chk_status c = Unknown \<longleftrightarrow> chk_status c \<noteq> Fail" for c :: check_result
    by (cases "chk_status c") simp_all
  then show ?thesis by (simp add: passed_def has_failure_def list_ex_iff list_all_iff)
qed

theorem unknown_counts_as_passed:
  assumes "parse_declared x lib al (declared_form al l) b = Inr cp" "ck_log_id cp = l"
  shows "\<exists>rp. check_checkpoint_wire x lib (Inr al) b l None None = Inr rp \<and> passed rp \<and>
    \<lparr>chk_name = ''countersign_grade'', chk_status = Unknown\<rparr> \<in> set (rp_checks rp)"
  using assms by (simp add: check_checkpoint_wire_def passed_iff grade_check_def)

section \<open>The chain the watcher keeps\<close>

definition extends_cp :: "checkpoint \<Rightarrow> checkpoint \<Rightarrow> bool" where
  "extends_cp p c \<longleftrightarrow> ck_log_id c = ck_log_id p \<and> ck_prev_size c = ck_mmr_size p \<and> ck_prev_root c = ck_root p \<and>
     ck_mmr_size p < ck_mmr_size c"

lemma chain_continuity_iff: "has_failure (check_chain_continuity p c) \<longleftrightarrow> \<not> extends_cp p c"
  by (auto simp: check_chain_continuity_def extends_cp_def)

lemma continuity_report_fail:
  "has_failure (continuity_report s c) \<longleftrightarrow> (\<exists>p. s = Some p \<and> ck_log_id p = ck_log_id c \<and> \<not> extends_cp p c)"
  by (auto simp: continuity_report_def chain_continuity_iff split: option.splits)

definition proof_bearing :: "checkpoint \<Rightarrow> bool" where
  "proof_bearing c \<longleftrightarrow> (\<exists>pf. ck_proof c = Some (Some pf))"

lemma save_state_run: "save_state c s = (if proof_bearing c then (Inl TypeError, s) else (Inr (), Some c))"
  by (auto simp: save_state_def proof_bearing_def op_raise_def split: option.splits)

lemma watcher_step:
  "case run x lib loaded vr get l g b s of (r, t) \<Rightarrow>
    (exit_code r = 0 \<longleftrightarrow> (\<exists>wire cp tied. check_checkpoint_wire x lib loaded b l g None = Inr wire \<and>
       \<not> has_failure wire \<and> rp_claims wire = Some cp \<and> check_witness_tie_back vr get cp = Inr tied \<and>
       \<not> has_failure tied \<and> (\<nexists>p. s = Some p \<and> ck_log_id p = ck_log_id cp \<and> \<not> extends_cp p cp) \<and>
       \<not> proof_bearing cp \<and> t = Some cp)) \<and>
    (exit_code r \<noteq> 0 \<longrightarrow> t = s)"
proof (cases "check_checkpoint_wire x lib loaded b l g None")
  case (Inl e)
  then show ?thesis by (simp add: run_def op_bind_simps op_lift_def exit_code_def)
next
  case (Inr wire)
  show ?thesis
  proof (cases rule: wire_check_cases [OF Inr])
    case 1
    then show ?thesis using Inr by (simp add: run_def op_bind_simps op_lift_def op_return_def exit_code_def)
  next
    case (2 al cp)
    show ?thesis
    proof (cases "check_witness_tie_back vr get cp")
      case Inl': (Inl e)
      then show ?thesis using 2 Inr by (simp add: run_def op_bind_simps op_lift_def exit_code_def)
    next
      case tied: (Inr tied)
      have "run x lib loaded vr get l g b s =
          (let rp = merge (merge wire tied) (continuity_report s cp) in
           if has_failure rp then (Inr rp, s)
           else if proof_bearing cp then (Inl TypeError, s) else (Inr rp, Some cp))"
        using Inr 2(3) tied by (simp add: run_def op_bind_def op_lift_def op_get_def op_return_def save_state_run Let_def)
      then show ?thesis using Inr 2(3) tied
        by (auto simp: exit_code_def Let_def continuity_report_fail)
    qed
  qed
qed

text \<open>A run of the watcher exits with 0 exactly when every check holds, the remembered checkpoint of the same
  log is extended by this one, and the claims can be written; then they are what it remembers, and
  otherwise it remembers what it did.\<close>

theorem watcher_run:
  "case run x lib loaded vr get l g b s of (r, t) \<Rightarrow>
    (exit_code r = 0 \<longleftrightarrow> (\<exists>wire cp tied. check_checkpoint_wire x lib loaded b l g None = Inr wire \<and>
       \<not> has_failure wire \<and> rp_claims wire = Some cp \<and> check_witness_tie_back vr get cp = Inr tied \<and>
       \<not> has_failure tied \<and> (\<nexists>p. s = Some p \<and> ck_log_id p = ck_log_id cp \<and> \<not> extends_cp p cp) \<and>
       \<not> proof_bearing cp \<and> t = Some cp)) \<and>
    (exit_code r = 0 \<or> t = s)"
proof -
  note step = watcher_step [where ?x = x and ?lib = lib and ?loaded = loaded and ?vr = vr and ?get = get and ?l = l and ?g = g
      and ?b = b and ?s = s, unfolded split_def]
  show ?thesis unfolding split_def
    by (rule conjI [OF conjunct1 [OF step]]) (use conjunct2 [OF step] in blast)
qed

lemma run_accepted:
  assumes "run x lib loaded vr get l g b s = (r, t)" "exit_code r = 0"
  obtains wire cp tied where "check_checkpoint_wire x lib loaded b l g None = Inr wire" "\<not> has_failure wire"
    "rp_claims wire = Some cp" "check_witness_tie_back vr get cp = Inr tied" "\<not> has_failure tied"
    "\<And>p. s = Some p \<Longrightarrow> ck_log_id p = ck_log_id cp \<Longrightarrow> extends_cp p cp" "\<not> proof_bearing cp" "t = Some cp"
proof -
  have "\<exists>wire cp tied. check_checkpoint_wire x lib loaded b l g None = Inr wire \<and>
       \<not> has_failure wire \<and> rp_claims wire = Some cp \<and> check_witness_tie_back vr get cp = Inr tied \<and>
       \<not> has_failure tied \<and> (\<nexists>p. s = Some p \<and> ck_log_id p = ck_log_id cp \<and> \<not> extends_cp p cp) \<and>
       \<not> proof_bearing cp \<and> t = Some cp"
    using watcher_step [where ?x = x and ?lib = lib and ?loaded = loaded and ?vr = vr and ?get = get and ?l = l and ?g = g
        and ?b = b and ?s = s]
    unfolding assms(1) prod.case by (rule iffD1 [OF conjunct1, OF _ assms(2)])
  with that show thesis by blast
qed

lemma run_refused:
  assumes "run x lib loaded vr get l g b s = (r, t)" "exit_code r \<noteq> 0"
  shows "t = s"
  using watcher_step [where ?x = x and ?lib = lib and ?loaded = loaded and ?vr = vr and ?get = get and ?l = l and ?g = g
        and ?b = b and ?s = s]
  unfolding assms(1) prod.case by (rule mp [OF conjunct2 assms(2)])

text \<open>What a run that starts with nothing remembered remembers after each submission, each with the witness of its time.\<close>

fun watch :: "('i \<Rightarrow> ('s, 'r) op) \<Rightarrow> 'i list \<Rightarrow> 's \<Rightarrow> 's list" where
  "watch f [] s = [s]"
| "watch f (i # is) s = s # watch f is (snd (f i s))"

definition follows :: "string \<Rightarrow> checkpoint option \<Rightarrow> checkpoint option \<Rightarrow> bool" where
  "follows l s t \<longleftrightarrow> t = s \<or> (\<exists>c. t = Some c \<and> ck_log_id c = l \<and> (case s of None \<Rightarrow> True | Some p \<Rightarrow> extends_cp p c))"

definition of_log :: "string \<Rightarrow> checkpoint option \<Rightarrow> bool" where
  "of_log l s \<longleftrightarrow> (case s of None \<Rightarrow> True | Some p \<Rightarrow> ck_log_id p = l)"

lemma run_follows:
  assumes "of_log l s"
  shows "follows l s (snd (run x lib loaded vr get l g b s)) \<and> of_log l (snd (run x lib loaded vr get l g b s))"
proof -
  obtain r t where run: "run x lib loaded vr get l g b s = (r, t)" by (cases "run x lib loaded vr get l g b s")
  show ?thesis
  proof (cases "exit_code r = 0")
    case True
    from run_accepted [OF run this] obtain wire cp tied where
      c: "check_checkpoint_wire x lib loaded b l g None = Inr wire" "\<not> has_failure wire"
      "rp_claims wire = Some cp" "t = Some cp" "\<And>p. s = Some p \<Longrightarrow> ck_log_id p = ck_log_id cp \<Longrightarrow> extends_cp p cp"
      by metis
    have "ck_log_id cp = l" by (rule wire_check_cases [OF c(1)]) (use c(2,3) in auto)
    then show ?thesis using c(4,5) assms run by (auto simp: follows_def of_log_def split: option.splits)
  next
    case False
    then show ?thesis using run_refused [OF run] run assms by (simp add: follows_def)
  qed
qed

text \<open>C39: whatever checkpoints are submitted, in any order, and whatever the witness answers, the remembered
  checkpoints of a watcher are one chain of the expected log: each extends the one before.\<close>

theorem watched_chain:
  "successively (follows l) (watch (\<lambda>(b, get). run x lib loaded vr get l g b) inputs None)"
proof -
  have "successively (follows l) (watch (\<lambda>(b, get). run x lib loaded vr get l g b) inputs s)" if "of_log l s" for s
    using that
  proof (induction inputs arbitrary: s)
    case (Cons i inputs)
    obtain b get where i: "i = (b, get)" by (cases i)
    let ?t = "snd (run x lib loaded vr get l g b s)"
    have "follows l s ?t" "of_log l ?t" using run_follows [OF Cons.prems] by blast+
    moreover have "\<exists>us. watch (\<lambda>(b, get). run x lib loaded vr get l g b) inputs ?t = ?t # us" by (cases inputs) auto
    ultimately show ?case using Cons.IH [of ?t] by (auto simp: i)
  qed simp
  then show ?thesis by (simp add: of_log_def)
qed

text \<open>A checkpoint that carries a consistency proof, the kind the witness grades highest, is never
  remembered: when every check holds the run ends in a \<open>TypeError\<close>.\<close>

theorem proof_bearing_never_remembered:
  assumes "check_checkpoint_wire x lib loaded b l g None = Inr wire" "rp_claims wire = Some cp" "proof_bearing cp"
  shows "exit_code (fst (run x lib loaded vr get l g b s)) = 1 \<and> snd (run x lib loaded vr get l g b s) = s"
proof -
  obtain r t where run: "run x lib loaded vr get l g b s = (r, t)" by (cases "run x lib loaded vr get l g b s")
  have "exit_code r \<noteq> 0"
  proof
    assume "exit_code r = 0"
    from run_accepted [OF run this] obtain wire' cp' where "check_checkpoint_wire x lib loaded b l g None = Inr wire'"
      "rp_claims wire' = Some cp'" "\<not> proof_bearing cp'" by metis
    with assms show False by simp
  qed
  moreover have "exit_code r \<in> {0, 1}" by (auto simp: exit_code_def split: sum.splits)
  ultimately show ?thesis using run_refused [OF run] run by auto
qed

section \<open>The check against the modelled witness\<close>

text \<open>The two reads of the tie-back, sent to \<open>serve\<close> and answered with its JSON.\<close>

definition inclusion_json :: "inclusion_response \<Rightarrow> json" where
  "inclusion_json i = JObj [(''capsule_id'', JStr (ir_capsule_id i)), (''entry_hash'', JStr (ir_entry_hash i)),
     (''leaf_index'', JInt (ir_leaf_index i)), (''tree_size'', JInt (ir_tree_size i)),
     (''leaf_hash'', JStr (ir_leaf_hash i)), (''audit_path'', JArr (map JStr (ir_audit_path i))),
     (''root_hash'', JStr (ir_root_hash i)), (''receipt_b64'', JStr (ir_receipt_b64 i))]"

definition answer :: "http_error + response \<Rightarrow> resp" where
  "answer r = (case r of
     Inr (ResolvedBody i) \<Rightarrow> \<lparr>rs_status = 200, rs_json = Inr (inclusion_json i)\<rparr>
   | Inr (PubkeyBody (key, kid)) \<Rightarrow>
       \<lparr>rs_status = 200, rs_json = Inr (JObj [(''pubkey_hex'', JStr key), (''key_id'', JStr kid)])\<rparr>
   | Inl (HttpError n) \<Rightarrow> \<lparr>rs_status = n, rs_json = Inl ValueError\<rparr>
   | _ \<Rightarrow> \<lparr>rs_status = 500, rs_json = Inl ValueError\<rparr>)"

definition site_get :: "site \<Rightarrow> clock \<Rightarrow> int \<Rightarrow> app \<Rightarrow> string \<Rightarrow> resp res" where
  "site_get st now tick s path = Inr (answer
     (if take 14 path = ''/v1/inclusion/'' then fst (serve st now tick (GetInclusion (drop 14 path)) s)
      else if path = ''/anchor/authority-pubkey'' then fst (serve st now tick GetAuthorityPubkey s)
      else Inl (HttpError 404)))"

lemma site_get_inclusion:
  "site_get st now tick s (''/v1/inclusion/'' @ c) = Inr (answer (fst (serve st now tick (GetInclusion c) s)))"
  by (simp add: site_get_def)

lemma site_get_pubkey:
  "site_get st now tick s ''/anchor/authority-pubkey'' = Inr (answer (fst (serve st now tick GetAuthorityPubkey s)))"
  by (simp add: site_get_def)

text \<open>A checkpoint this witness stamped ties back to it: the recomputed capsule id resolves, and what is handed
  to the receipt verifier is the receipt the witness keeps, under the checkpoint's own entry hash and the
  authority's key; the report passes exactly when the verifier accepts.\<close>

theorem tie_back_complete:
  assumes "ap_reachable st s" "env_ok (st_ext st) (st_anchorer st)"
    and "serve st now tick (PostCheckpoints ct b) s = (Inr (StampBody r), t)"
    and "(if media_type ct = ''application/cll-checkpoint+json''
      then parse_checkpoint_json (st_ext st) (st_allowlist st) b
      else parse_checkpoint_cose (st_ext st) (st_lib st) (Some (st_allowlist st)) b) = Inr cp"
    and "compute_entry_hash (st_ext st) (sha256 (checkpoint_signing_body cp)) =
      (sha256_hex (sha256 (checkpoint_signing_body cp)), SchemeLegacy)"
    and "ed25519_raw_to_pem (authority_pubkey (an_attestor (st_anchorer st))) = Inr pem"
  shows "\<exists>receipt. get_registered_statement (sr_entry_hash r) (ap_svc t) = Some (receipt, sr_leaf_index r, sr_tree_size r) \<and>
    sr_entry_hash r = sha256_hex (sha256 (checkpoint_signing_body cp)) \<and>
    check_witness_tie_back vr (site_get st now' tick' t) cp =
      rbind (vr receipt (JStr (sr_entry_hash r)) pem) (\<lambda>ok.
        Inr (report_add ''receipt_offline_verify'' (if ok then Pass else Fail)
          (report_add ''witness_registered'' Pass empty_report)))"
proof -
  let ?d = "sha256 (checkpoint_signing_body cp)"
  have "checkpoints_route st now tick ct b s = (Inr r, t)"
    using assms(3) by (auto simp: body_def hbind_def hreturn_def split: prod.splits sum.splits)
  then obtain cp' rg where c: "(if media_type ct = ''application/cll-checkpoint+json''
      then parse_checkpoint_json (st_ext st) (st_allowlist st) b
      else parse_checkpoint_cose (st_ext st) (st_lib st) (Some (st_allowlist st)) b) = Inr cp'"
    "witness_checkpoint (st_ext st) (st_anchorer st) now cp' (ap_svc s) = (Inr rg, ap_svc t)"
    "sr_entry_hash r = rg_entry_hash rg" "sr_leaf_index r = rg_leaf_index rg" "sr_tree_size r = rg_tree_size rg"
    by (rule checkpoints_accepted)
  from c(1) have cp: "cp' = cp" unfolding assms(4) by simp
  obtain s1 where s1: "register_signed_statement_full (st_ext st) (st_anchorer st) now ?d (ck_grade cp) (Some cp) (ap_svc s) = (Inr rg, s1)"
    "record_checkpoint_read_surface cp rg s1 = (Inr (), ap_svc t)"
    using c(2) cp by (cases rule: witness_checkpoint_cases) auto
  note inv = reachable_inv [OF assms(1,2)]
  have h: "rg_entry_hash rg = sha256_hex ?d" by (rule legacy_entry_hash [OF inv assms(2) s1(1) assms(5)])
  have got: "get_registered_statement (sha256_hex ?d) (ap_svc t) = Some (rg_receipt rg, rg_leaf_index rg, rg_tree_size rg)"
    using register_receipt_kept [OF inv assms(2) s1(1)] record_keeps [OF s1(2)] h
    by (simp add: get_registered_statement_def get_statement_def)
  have "ap_reachable st t"
    using serve_moves [of st now tick "PostCheckpoints ct b"] assms(1,3) by (auto simp: moves_def intro: reachable_run)
  note inv' = reachable_inv [OF this assms(2)]
  from statement_served [OF inv'] got have "0 \<le> rg_leaf_index rg" "rg_leaf_index rg < rg_tree_size rg"
    "rg_tree_size rg \<le> store_size (store (ap_svc t))" by (simp_all add: get_registered_statement_def)
  from inclusion_served [OF inv' this, of None] obtain p where
    p: "inclusion_proof_ct (rg_leaf_index rg) (Some (rg_tree_size rg)) (ap_svc t) = Inr p" by auto
  have "capsule_bytes (checkpoint_digest cp) = Inr ?d"
    by (simp add: checkpoint_digest_def sha256_hex_def capsule_bytes_hex)
  from inclusion_route_found [OF this got p, of st now' tick'] have served:
    "site_get st now' tick' t (''/v1/inclusion/'' @ checkpoint_digest cp) =
      Inr \<lparr>rs_status = 200, rs_json = Inr (inclusion_json \<lparr>ir_capsule_id = normal_capsule_id (checkpoint_digest cp),
        ir_entry_hash = sha256_hex ?d, ir_leaf_index = rg_leaf_index rg, ir_tree_size = rg_tree_size rg,
        ir_leaf_hash = ci_leaf_hash p, ir_audit_path = ci_audit_path p, ir_root_hash = ci_root_hash p,
        ir_receipt_b64 = b64encode (rg_receipt rg)\<rparr>)\<rparr>"
    by (simp only: site_get_inclusion answer_def fst_conv sum.case response.case)
  have key: "site_get st now' tick' t ''/anchor/authority-pubkey'' = Inr \<lparr>rs_status = 200, rs_json = Inr (JObj
      [(''pubkey_hex'', JStr (hex (authority_pubkey (an_attestor (st_anchorer st))))),
       (''key_id'', JStr (attestor_key_id (st_ext st) (an_attestor (st_anchorer st))))])\<rparr>"
    by (simp add: site_get_pubkey answer_def body_def authority_pubkey_route_def hbind_def hreturn_def)
  have "check_witness_tie_back vr (site_get st now' tick' t) cp =
      rbind (vr (rg_receipt rg) (JStr (sha256_hex ?d)) pem) (\<lambda>ok.
        Inr (report_add ''receipt_offline_verify'' (if ok then Pass else Fail)
          (report_add ''witness_registered'' Pass empty_report)))"
    unfolding check_witness_tie_back_def served
    by (simp add: key inclusion_json_def json_item_def offline_verify_def json_str_def assms(6) Let_def)
  with got h c(3-5) cp show ?thesis by simp
qed

section \<open>Concrete runs\<close>

theorem wire_report_sound_witness:
  "\<exists>rp cp. check_checkpoint_wire sample_wire_ext sample_lib (Inr [(''log'', sample_submitter)]) [] ''log''
       (Some ''countersigned-observed'') None = Inr rp \<and> \<not> has_failure rp \<and> rp_claims rp = Some cp \<and>
     (\<exists>sg. ed_verify sample_wire_ext (sample_key 7) sg (ascii_bytes (checkpoint_digest cp)))"
proof -
  let ?al = "[(''log'', sample_submitter)]"
  obtain cp where cp: "parse_checkpoint_json sample_wire_ext ?al [] = Inr cp" using sample_json_accepted by blast
  have got: "allowlist_get ''log'' ?al = Some sample_submitter" by (simp add: allowlist_get_def)
  have "ck_log_id cp = ''log''" "ck_grade cp = Some ''countersigned-observed''"
    using json_accept_authentic [OF sample_allowlist cp]
    by (auto simp: allowlist_get_def grade_of_def sample_submitter_def split: if_splits)
  then have "\<exists>rp. check_checkpoint_wire sample_wire_ext sample_lib (Inr ?al) [] ''log'' (Some ''countersigned-observed'') None = Inr rp
      \<and> \<not> has_failure rp"
    using cp got by (simp add: check_checkpoint_wire_def declared_form_def parse_declared_def sample_submitter_def grade_check_def)
  then obtain rp where rp: "check_checkpoint_wire sample_wire_ext sample_lib (Inr ?al) [] ''log'' (Some ''countersigned-observed'') None = Inr rp"
    "\<not> has_failure rp" by blast
  from wire_report_sound [OF sample_allowlist got sample_issuer rp] rp show ?thesis
    by (auto simp: sample_submitter_def)
qed

definition proof_claims :: cbor where
  "proof_claims = CMap [(CText ''kind'', CText ''cll-checkpoint''), (CText ''log_size'', CInt 3),
     (CText ''prev_size'', CInt 0), (CText ''commitment'', CBytes [2]), (CText ''issued_at'', CText ''t''),
     (CText ''consistency_proof'', CMap [(CText ''size_a'', CInt 0), (CText ''size_b'', CInt 3),
        (CText ''old_peaks'', CList []), (CText ''new_peaks'', CList [CBytes (sample_key 5)]), (CText ''witness'', CList [])])]"

definition proof_ext :: ext where
  "proof_ext = sample_ext\<lparr>cbor_loads := (\<lambda>b. if b = [1] then Some sample_header
     else if b = [2] then Some (CList [CBytes (sample_key 5)]) else if b = [3] then Some proof_claims else None)\<rparr>"

lemma proof_bearing_parsed:
  "\<exists>cp. parse_checkpoint_cose proof_ext sample_lib (Some []) [9] = Inr cp \<and> ck_log_id cp = ''log'' \<and> proof_bearing cp"
proof -
  have "show_int 3 = ''3''" by code_simp
  then show ?thesis
    by (simp add: parse_checkpoint_cose_def extract_protected_fields_def protected_header_def truthy_def py_bytes_def
        norm_key_def cbor_get_def sample_lib_def proof_ext_def sample_header_def peek_unauthenticated_issuer_def
        peek_claim_def enrolled_def allowlist_get_def verify_statement_def sample_key_def
        read_claims_def claims_map_def proof_claims_def claim_int_def claim_text_def commitment_root_def
        decode_commitment_def peak_list_def peak_hash_def prev_commitment_root_def claimed_proof_def
        decode_consistency_proof_def size_field_def proof_bearing_def Let_def)
qed

theorem proof_bearing_never_remembered_witness:
  "\<exists>wire cp. check_checkpoint_wire proof_ext sample_lib (Inr []) [9] ''log'' None None = Inr wire \<and>
     \<not> has_failure wire \<and> rp_claims wire = Some cp \<and>
     exit_code (fst (run proof_ext sample_lib (Inr []) (\<lambda>_ _ _. Inr True) (\<lambda>_. Inl OSError) ''log'' None [9] None)) = 1"
proof -
  obtain cp where cp: "parse_checkpoint_cose proof_ext sample_lib (Some []) [9] = Inr cp" "ck_log_id cp = ''log''" "proof_bearing cp"
    using proof_bearing_parsed by blast
  have "\<exists>wire. check_checkpoint_wire proof_ext sample_lib (Inr []) [9] ''log'' None None = Inr wire \<and>
      \<not> has_failure wire \<and> rp_claims wire = Some cp"
    using cp by (simp add: check_checkpoint_wire_def declared_form_def parse_declared_def allowlist_get_def grade_check_def)
  then obtain wire where w: "check_checkpoint_wire proof_ext sample_lib (Inr []) [9] ''log'' None None = Inr wire"
      "\<not> has_failure wire" "rp_claims wire = Some cp" by blast
  from proof_bearing_never_remembered [OF w(1,3) cp(3)] w show ?thesis by blast
qed

text \<open>A witness whose authority key has 32 bytes.\<close>

definition tie_anchorer :: anchorer where
  "tie_anchorer = sample_anchorer\<lparr>an_attestor := new_attestor stamp_ext None (sample_key 4)\<rparr>"

lemma tie_env: "env_ok stamp_ext tie_anchorer"
proof -
  have "ed25519_ok stamp_ext" "sth_json_ok stamp_ext"
    using sample_ext_ed25519 sample_ext_json by (simp_all add: ed25519_ok_def sth_json_ok_def stamp_ext_def sample_wire_ext_def)
  then show ?thesis by (simp add: env_ok_def tie_anchorer_def new_attestor_ok)
qed

theorem tie_back_complete_witness:
  "\<exists>r t cp. serve (stamp_site\<lparr>st_anchorer := tie_anchorer\<rparr>) (\<lambda>_. 0) 0 (PostCheckpoints [] [7]) sample_app = (Inr (StampBody r), t) \<and>
     check_witness_tie_back (\<lambda>_ _ _. Inr True) (site_get (stamp_site\<lparr>st_anchorer := tie_anchorer\<rparr>) (\<lambda>_. 0) 0 t) cp =
       Inr (report_add ''receipt_offline_verify'' Pass (report_add ''witness_registered'' Pass empty_report))"
proof -
  let ?st = "stamp_site\<lparr>st_anchorer := tie_anchorer\<rparr>"
  obtain cp where cp: "parse_checkpoint_cose stamp_ext sample_lib (Some [(''log'', sample_submitter)]) [7] = Inr cp"
    using stamp_parsed by blast
  obtain r t where t: "serve ?st (\<lambda>_. 0) 0 (PostCheckpoints [] [7]) sample_app = (Inr (StampBody r), t)"
    using stamp_served [OF tie_env] by blast
  have env: "env_ok (st_ext ?st) (st_anchorer ?st)" using tie_env by (simp add: stamp_site_def)
  have parse: "(if media_type [] = ''application/cll-checkpoint+json''
      then parse_checkpoint_json (st_ext ?st) (st_allowlist ?st) [7]
      else parse_checkpoint_cose (st_ext ?st) (st_lib ?st) (Some (st_allowlist ?st)) [7]) = Inr cp"
    using cp by (simp add: media_type_def strip_def lower_def stamp_site_def sample_site_def)
  have legacy: "compute_entry_hash (st_ext ?st) (sha256 (checkpoint_signing_body cp)) =
      (sha256_hex (sha256 (checkpoint_signing_body cp)), SchemeLegacy)"
    by (auto simp: compute_entry_hash_def entry_hash_preimage_def decode_cose_sign1_def stamp_site_def stamp_ext_def
        sample_wire_ext_def sample_claims_def sample_header_def)
  have "length (authority_pubkey (an_attestor (st_anchorer ?st))) = 32"
    by (simp add: tie_anchorer_def new_attestor_def generate_keypair_def authority_pubkey_def stamp_ext_def
        sample_wire_ext_def sample_key_def) (simp add: sample_ext_def)
  then obtain pem where pem: "ed25519_raw_to_pem (authority_pubkey (an_attestor (st_anchorer ?st))) = Inr pem"
    by (auto simp: ed25519_raw_to_pem_def Let_def)
  from tie_back_complete [OF sample_app_reachable [OF refl] env t parse legacy pem,
      where vr = "\<lambda>_ _ _. Inr True" and now' = "\<lambda>_. 0" and tick' = 0] t
  show ?thesis by auto
qed

end
