(* ===== verification/PyNet.thy ===== *)
theory PyNet
  imports PyText Json Sha256
begin

text \<open>
  What the webhook code uses of Python's standard library, as CPython 3.11 has it: \<open>ipaddress\<close>
  (addresses as words), \<open>urllib.parse.urlparse\<close> and \<open>hmac\<close> with SHA-256. Strings are Latin-1, on which
  the NFKC check of \<open>urlsplit\<close> finds nothing.
\<close>

unbundle bit_operations_syntax

section \<open>Strings\<close>

fun split_on :: "char \<Rightarrow> string \<Rightarrow> string list" where
  "split_on c [] = [[]]"
| "split_on c (a # s) = (if a = c then [] # split_on c s
     else (case split_on c s of p # ps \<Rightarrow> (a # p) # ps | [] \<Rightarrow> [[a]]))"

text \<open>\<open>s.partition(c)\<close> without the separator: what is before it, and after it when it occurs.\<close>

definition before :: "char \<Rightarrow> string \<Rightarrow> string" where
  "before c s = takeWhile (\<lambda>d. d \<noteq> c) s"

definition after :: "char \<Rightarrow> string \<Rightarrow> string" where
  "after c s = tl (dropWhile (\<lambda>d. d \<noteq> c) s)"

definition after_last :: "char \<Rightarrow> string \<Rightarrow> string" where
  "after_last c s = rev (before c (rev s))"

section \<open>Addresses\<close>

datatype ip = IPv4 "32 word" | IPv6 "128 word"

definition parse_octet :: "string \<Rightarrow> nat option" where
  "parse_octet s =
     (if s = [] \<or> \<not> list_all is_digit s \<or> 3 < length s \<or> (s \<noteq> ''0'' \<and> hd s = CHR ''0'') then None
      else if 255 < decimal_value s then None else Some (decimal_value s))"

definition ipv4_address :: "string \<Rightarrow> 32 word option" where
  "ipv4_address s =
     (if CHR ''/'' \<in> set s then None
      else case map parse_octet (split_on (CHR ''.'') s) of
        [Some a, Some b, Some c, Some d] \<Rightarrow> Some (((of_nat a * 256 + of_nat b) * 256 + of_nat c) * 256 + of_nat d)
      | _ \<Rightarrow> None)"

text \<open>A part between colons: \<open>Some None\<close> when it is empty, \<open>None\<close> when it is no hextet.\<close>

definition hextet_part :: "string \<Rightarrow> 16 word option option" where
  "hextet_part s =
     (if s = [] then Some None
      else if 4 < length s \<or> \<not> list_all (\<lambda>c. hex_value c \<noteq> None) s then None
      else Some (Some (foldl (\<lambda>a c. 16 * a + of_nat (the (hex_value c))) 0 s)))"

definition ipv6_parts :: "string \<Rightarrow> 16 word option list option" where
  "ipv6_parts s =
     (let parts = split_on (CHR '':'') s in
      if length parts < 3 then None
      else if CHR ''.'' \<in> set (last parts) then
        (case (ipv4_address (last parts), those (map hextet_part (butlast parts))) of
           (Some v, Some ps) \<Rightarrow> Some (ps @ [Some (ucast (drop_bit 16 v)), Some (ucast v)])
         | _ \<Rightarrow> None)
      else those (map hextet_part parts))"

text \<open>The eight hextets: without \<open>::\<close> all are there; one \<open>::\<close> stands for at least one zero.\<close>

definition ipv6_hextets :: "16 word option list \<Rightarrow> 16 word list option" where
  "ipv6_hextets parts =
     (let n = length parts in
      if 9 < n then None
      else case filter (\<lambda>i. parts ! i = None) [1..<n - 1] of
        [] \<Rightarrow> if n = 8 \<and> hd parts \<noteq> None \<and> last parts \<noteq> None then Some (map the parts) else None
      | [k] \<Rightarrow>
          (let hi = (if hd parts = None then [] else map the (take k parts));
               lo = (if last parts = None then [] else map the (drop (Suc k) parts))
           in if (hd parts = None \<and> k \<noteq> 1) \<or> (last parts = None \<and> n - Suc k \<noteq> 1) \<or> 8 \<le> length hi + length lo
              then None else Some (hi @ replicate (8 - length hi - length lo) 0 @ lo))
      | _ \<Rightarrow> None)"

definition ipv6_address :: "string \<Rightarrow> 128 word option" where
  "ipv6_address s =
     (if CHR ''/'' \<in> set s then None
      else if CHR ''%'' \<in> set s \<and> (after (CHR ''%'') s = [] \<or> CHR ''%'' \<in> set (after (CHR ''%'') s)) then None
      else case ipv6_parts (before (CHR ''%'') s) of
        None \<Rightarrow> None
      | Some parts \<Rightarrow>
          map_option (foldl (\<lambda>a h. push_bit 16 a OR ucast h) 0) (ipv6_hextets parts))"

definition ip_address :: "string \<Rightarrow> ip res" where
  "ip_address s = (case ipv4_address s of
     Some a \<Rightarrow> Inr (IPv4 a)
   | None \<Rightarrow> (case ipv6_address s of Some a \<Rightarrow> Inr (IPv6 a) | None \<Rightarrow> Inl ValueError))"

text \<open>A network is its address and the length of its prefix.\<close>

definition in_net :: "'a::len word \<Rightarrow> 'a word \<times> nat \<Rightarrow> bool" where
  "in_net a net = (case net of (b, p) \<Rightarrow> drop_bit (LENGTH('a) - p) a = drop_bit (LENGTH('a) - p) b)"

definition in_nets :: "'a::len word \<Rightarrow> ('a word \<times> nat) list \<Rightarrow> bool" where
  "in_nets a nets = list_ex (in_net a) nets"

definition private4 :: "(32 word \<times> nat) list" where
  "private4 = [(0x00000000, 8), (0x0A000000, 8), (0x7F000000, 8), (0xA9FE0000, 16), (0xAC100000, 12),
     (0xC0000000, 24), (0xC00000AA, 31), (0xC0000200, 24), (0xC0A80000, 16), (0xC6120000, 15),
     (0xC6336400, 24), (0xCB007100, 24), (0xF0000000, 4), (0xFFFFFFFF, 32)]"

definition private4_exceptions :: "(32 word \<times> nat) list" where
  "private4_exceptions = [(0xC0000009, 32), (0xC000000A, 32)]"

definition is_private4 :: "32 word \<Rightarrow> bool" where
  "is_private4 a \<longleftrightarrow> in_nets a private4 \<and> \<not> in_nets a private4_exceptions"

text \<open>Hextets as an address, for the IPv6 tables.\<close>

definition ip6 :: "16 word list \<Rightarrow> 128 word" where
  "ip6 hs = foldl (\<lambda>a h. push_bit 16 a OR ucast h) 0 (hs @ replicate (8 - length hs) 0)"

definition private6 :: "(128 word \<times> nat) list" where
  "private6 = [(1, 128), (0, 128), (ip6 [0, 0, 0, 0, 0, 0xffff], 96), (ip6 [0x64, 0xff9b, 1], 48), (ip6 [0x100], 64),
     (ip6 [0x2001], 23), (ip6 [0x2001, 0xdb8], 32), (ip6 [0x2002], 16), (ip6 [0xfc00], 7), (ip6 [0xfe80], 10)]"

definition private6_exceptions :: "(128 word \<times> nat) list" where
  "private6_exceptions = [(ip6 [0x2001, 1, 0, 0, 0, 0, 0, 1], 128), (ip6 [0x2001, 1, 0, 0, 0, 0, 0, 2], 128),
     (ip6 [0x2001, 3], 32), (ip6 [0x2001, 4, 0x112], 48), (ip6 [0x2001, 0x20], 28), (ip6 [0x2001, 0x30], 28)]"

definition reserved6 :: "(128 word \<times> nat) list" where
  "reserved6 = [(0, 8), (ip6 [0x100], 8), (ip6 [0x200], 7), (ip6 [0x400], 6), (ip6 [0x800], 5), (ip6 [0x1000], 4),
     (ip6 [0x4000], 3), (ip6 [0x6000], 3), (ip6 [0x8000], 3), (ip6 [0xa000], 3), (ip6 [0xc000], 3),
     (ip6 [0xe000], 4), (ip6 [0xf000], 5), (ip6 [0xf800], 6), (ip6 [0xfe00], 9)]"

definition is_private6 :: "128 word \<Rightarrow> bool" where
  "is_private6 a \<longleftrightarrow>
     (if drop_bit 32 a = 0xffff then is_private4 (ucast a)
      else in_nets a private6 \<and> \<not> in_nets a private6_exceptions)"

fun is_private :: "ip \<Rightarrow> bool" where
  "is_private (IPv4 a) = is_private4 a"
| "is_private (IPv6 a) = is_private6 a"

fun is_loopback :: "ip \<Rightarrow> bool" where
  "is_loopback (IPv4 a) = in_net a (0x7F000000, 8)"
| "is_loopback (IPv6 a) = (a = 1)"

fun is_link_local :: "ip \<Rightarrow> bool" where
  "is_link_local (IPv4 a) = in_net a (0xA9FE0000, 16)"
| "is_link_local (IPv6 a) = in_net a (ip6 [0xfe80], 10)"

fun is_reserved :: "ip \<Rightarrow> bool" where
  "is_reserved (IPv4 a) = in_net a (0xF0000000, 4)"
| "is_reserved (IPv6 a) = in_nets a reserved6"

fun is_multicast :: "ip \<Rightarrow> bool" where
  "is_multicast (IPv4 a) = in_net a (0xE0000000, 4)"
| "is_multicast (IPv6 a) = in_net a (ip6 [0xff00], 8)"

fun is_unspecified :: "ip \<Rightarrow> bool" where
  "is_unspecified (IPv4 a) = (a = 0)"
| "is_unspecified (IPv6 a) = (a = 0)"

section \<open>URLs\<close>

record url_parts =
  up_scheme :: string
  up_netloc :: string
  up_path :: string
  up_query :: string

definition is_alpha :: "char \<Rightarrow> bool" where
  "is_alpha c = (let n = of_char c :: nat in (65 \<le> n \<and> n \<le> 90) \<or> (97 \<le> n \<and> n \<le> 122))"

definition scheme_char :: "char \<Rightarrow> bool" where
  "scheme_char c \<longleftrightarrow> is_alpha c \<or> is_digit c \<or> c \<in> set ''+-.''"

text \<open>The scheme, lower case, and the rest; without a scheme the URL is all rest.\<close>

definition split_scheme :: "string \<Rightarrow> string \<times> string" where
  "split_scheme url =
     (let s = before (CHR '':'') url in
      if CHR '':'' \<in> set url \<and> s \<noteq> [] \<and> is_alpha (hd s) \<and> list_all scheme_char s
      then (lower s, after (CHR '':'') url) else ([], url))"

definition split_netloc :: "string \<Rightarrow> string \<times> string" where
  "split_netloc url =
     (if take 2 url = ''//'' then (takeWhile (\<lambda>c. c \<notin> set ''/?#'') (drop 2 url), dropWhile (\<lambda>c. c \<notin> set ''/?#'') (drop 2 url))
      else ([], url))"

definition bracketed_host_ok :: "string \<Rightarrow> bool" where
  "bracketed_host_ok host =
     (if host \<noteq> [] \<and> hd host = CHR ''v''
      then CHR ''.'' \<in> set host \<and> before (CHR ''.'') (tl host) \<noteq> [] \<and>
           list_all (\<lambda>c. hex_value c \<noteq> None) (before (CHR ''.'') (tl host)) \<and> after (CHR ''.'') host \<noteq> []
      else (case ip_address host of Inr (IPv6 _) \<Rightarrow> True | _ \<Rightarrow> False))"

definition netloc_ok :: "string \<Rightarrow> bool" where
  "netloc_ok netloc \<longleftrightarrow> (CHR ''['' \<in> set netloc \<longleftrightarrow> CHR '']'' \<in> set netloc) \<and>
     (CHR ''['' \<in> set netloc \<longrightarrow> bracketed_host_ok (before (CHR '']'') (after (CHR ''['') netloc)))"

text \<open>The schemes of \<open>uses_params\<close> lose the parameters of the last path segment.\<close>

definition uses_params :: "string list" where
  "uses_params = [[], ''ftp'', ''hdl'', ''prospero'', ''http'', ''https'', ''shttp'', ''rtsp'', ''rtsps'', ''rtspu'',
     ''sip'', ''sips'', ''mms'', ''sftp'', ''tel'']"

definition without_params :: "string \<Rightarrow> string" where
  "without_params path =
     (if CHR ''/'' \<in> set path
      then take (length path - length (after_last (CHR ''/'') path)) path @ before (CHR '';'') (after_last (CHR ''/'') path)
      else before (CHR '';'') path)"

definition urlparse :: "string \<Rightarrow> url_parts res" where
  "urlparse raw =
     (let url = filter (\<lambda>c. c \<notin> {CHR 0x09, CHR 0x0A, CHR 0x0D}) (dropWhile (\<lambda>c. (of_char c :: nat) \<le> 32) raw);
          (scheme, rest) = split_scheme url;
          (netloc, rest') = split_netloc rest
      in if \<not> netloc_ok netloc then Inl ValueError
         else
           let rest'' = before (CHR ''#'') rest';
               path = before (CHR ''?'') rest''
           in Inr \<lparr>up_scheme = scheme, up_netloc = netloc,
                up_path = (if scheme \<in> set uses_params \<and> CHR '';'' \<in> set path then without_params path else path),
                up_query = after (CHR ''?'') rest''\<rparr>)"

text \<open>\<open>_hostinfo\<close>: the host and the text of the port.\<close>

definition hostinfo :: "url_parts \<Rightarrow> string \<times> string" where
  "hostinfo u =
     (let info = after_last (CHR ''@'') (up_netloc u) in
      if CHR ''['' \<in> set info
      then (let bracketed = after (CHR ''['') info
            in (before (CHR '']'') bracketed, after (CHR '':'') (after (CHR '']'') bracketed)))
      else (before (CHR '':'') info, after (CHR '':'') info))"

definition hostname :: "url_parts \<Rightarrow> string option" where
  "hostname u =
     (let host = fst (hostinfo u) in
      if host = [] then None
      else Some (lower (before (CHR ''%'') host) @ dropWhile (\<lambda>c. c \<noteq> CHR ''%'') host))"

definition port :: "url_parts \<Rightarrow> nat option res" where
  "port u =
     (let p = snd (hostinfo u) in
      if p = [] then Inr None
      else if \<not> list_all is_digit p \<or> 65535 < decimal_value p then Inl ValueError
      else Inr (Some (decimal_value p)))"

section \<open>HMAC\<close>

definition hmac_block :: "bytes \<Rightarrow> bytes" where
  "hmac_block key = (let k = (if 64 < length key then sha256 key else key) in k @ replicate (64 - length k) 0)"

definition hmac_sha256 :: "bytes \<Rightarrow> bytes \<Rightarrow> bytes" where
  "hmac_sha256 key msg =
     sha256 (map (\<lambda>b. b XOR 0x5c) (hmac_block key) @ sha256 (map (\<lambda>b. b XOR 0x36) (hmac_block key) @ msg))"

lemma length_hmac [simp]: "length (hmac_sha256 key msg) = 32"
  by (simp add: hmac_sha256_def)

section \<open>Examples\<close>

lemma ip_address_examples:
  "ip_address ''10.1.2.3'' = Inr (IPv4 0x0A010203)" "ip_address ''10.01.2.3'' = Inl ValueError"
  "ip_address ''::1'' = Inr (IPv6 1)" "ip_address ''::ffff:10.0.0.1'' = Inr (IPv6 0xFFFF0A000001)"
  "ip_address ''1::2::3'' = Inl ValueError" "ip_address ''fe80::'' = Inr (IPv6 (ip6 [0xfe80]))"
  by code_simp+

lemma urlparse_examples:
  "urlparse ''HTTPS://u@Host.example:8443/a;p/b;c?q=1#f'' = Inr \<lparr>up_scheme = ''https'',
     up_netloc = ''u@Host.example:8443'', up_path = ''/a;p/b'', up_query = ''q=1''\<rparr>"
  "urlparse ''https://[::1'' = Inl ValueError"
  by code_simp+

end
