(* ===== verification/Webhooks.thy ===== *)
theory Webhooks
  imports PyNet
begin

text \<open>
  Delivery of countersignature entries (\<open>countersign/webhooks.py\<close>). Name resolution and the connection
  are parameters: \<open>resolve host\<close> gives the addresses of a host or \<open>OSError\<close> (\<open>gaierror\<close>), \<open>conn\<close> what a
  request over a pinned connection answers. Both may differ from one attempt to the next.
\<close>

section \<open>Where a webhook may go\<close>

definition is_blocked_ip :: "ip \<Rightarrow> bool" where
  "is_blocked_ip a \<longleftrightarrow> is_private a \<or> is_loopback a \<or> is_link_local a \<or> is_reserved a \<or> is_multicast a \<or> is_unspecified a"

definition allowed_hosts :: "environ \<Rightarrow> string list option" where
  "allowed_hosts env =
     (case env ''CAPSULE_ANCHOR_COUNTERSIGN_WEBHOOK_ALLOWED_HOSTS'' of
        None \<Rightarrow> None
      | Some raw \<Rightarrow> if raw = [] then None
          else Some (map (\<lambda>h. lower (strip h)) (filter (\<lambda>h. strip h \<noteq> []) (split_on (CHR '','') raw))))"

definition vet :: "string \<Rightarrow> string res" where
  "vet raw_ip =
     rbind (ip_address (before (CHR ''%'') raw_ip)) (\<lambda>ip.
       if is_blocked_ip ip then Inl WebhookURLRefused else Inr (before (CHR ''%'') raw_ip))"

definition resolve_and_check :: "(string \<Rightarrow> string list res) \<Rightarrow> string \<Rightarrow> string list res" where
  "resolve_and_check resolve host =
     (case resolve host of
        Inl OSError \<Rightarrow> Inl WebhookURLRefused
      | Inl e \<Rightarrow> Inl e
      | Inr raw_ips \<Rightarrow> if raw_ips = [] then Inl WebhookURLRefused else rmap vet raw_ips)"

definition validate_and_pin :: "environ \<Rightarrow> (string \<Rightarrow> string list res) \<Rightarrow> string \<Rightarrow> (string \<times> string \<times> nat) res" where
  "validate_and_pin env resolve url =
     rbind (urlparse url) (\<lambda>parsed.
     if up_scheme parsed \<noteq> ''https'' then Inl WebhookURLRefused
     else case hostname parsed of
       None \<Rightarrow> Inl WebhookURLRefused
     | Some host \<Rightarrow>
         if (case allowed_hosts env of None \<Rightarrow> False | Some al \<Rightarrow> lower host \<notin> set al) then Inl WebhookURLRefused
         else rbind (resolve_and_check resolve host) (\<lambda>ips.
              rbind (port parsed) (\<lambda>p.
              Inr (host, hd ips, case p of None \<Rightarrow> 443 | Some n \<Rightarrow> if n = 0 then 443 else n))))"

definition validate_webhook_url :: "environ \<Rightarrow> (string \<Rightarrow> string list res) \<Rightarrow> string \<Rightarrow> unit res" where
  "validate_webhook_url env resolve url = rbind (validate_and_pin env resolve url) (\<lambda>_. Inr ())"

section \<open>One attempt\<close>

record subscription =
  ws_url :: string
  ws_secret :: string

record delivery =
  wd_url :: string
  wd_entry_hash :: string
  wd_attempts :: nat
  wd_success :: bool
  wd_last_status :: "int option"
  wd_delivered_at :: int

text \<open>A request that leaves the host: who is dialled, under which name, and what is sent.\<close>

record dial =
  dl_host :: string
  dl_ip :: string
  dl_port :: nat
  dl_path :: string
  dl_headers :: "(string \<times> string) list"
  dl_body :: bytes

definition hmac_sign :: "bytes \<Rightarrow> string \<Rightarrow> string" where
  "hmac_sign body secret = ''hmac-sha256='' @ hex (hmac_sha256 (utf8 secret) body)"

definition request_path :: "url_parts \<Rightarrow> string" where
  "request_path parsed =
     (let path = (if up_path parsed = [] then ''/'' else up_path parsed)
      in if up_query parsed = [] then path else path @ ''?'' @ up_query parsed)"

text \<open>
  \<open>_default_http_post\<close>: the connection it makes, if any, and the status it returns. A refusal and an
  \<open>OSError\<close> count as status 0; a redirect is a status like any other.
\<close>

definition default_http_post ::
    "environ \<Rightarrow> (string \<Rightarrow> string list res) \<Rightarrow> (dial \<Rightarrow> int res) \<Rightarrow> string \<Rightarrow> bytes
      \<Rightarrow> (string \<times> string) list \<Rightarrow> dial option \<times> int res" where
  "default_http_post env resolve conn url body headers =
     (case validate_and_pin env resolve url of
        Inl WebhookURLRefused \<Rightarrow> (None, Inr 0)
      | Inl e \<Rightarrow> (None, Inl e)
      | Inr (host, ip, p) \<Rightarrow>
          (case urlparse url of
             Inl e \<Rightarrow> (None, Inl e)
           | Inr parsed \<Rightarrow>
               let d = \<lparr>dl_host = host, dl_ip = ip, dl_port = p, dl_path = request_path parsed,
                 dl_headers = (if map_of headers ''Host'' = None then headers @ [(''Host'', host)] else headers),
                 dl_body = body\<rparr>
               in (Some d, case conn d of Inl OSError \<Rightarrow> Inr 0 | r \<Rightarrow> r)))"

section \<open>Delivery\<close>

definition backoff_schedule :: "nat list" where
  "backoff_schedule = [1, 4, 16]"

definition ok_status :: "int \<Rightarrow> bool" where
  "ok_status n \<longleftrightarrow> 200 \<le> n \<and> n < 300"

text \<open>The loop: \<open>post i\<close> is what attempt \<open>i\<close> returns. Attempts made, last status, success, and the sleeps.\<close>

definition status_of :: "int res \<Rightarrow> int" where
  "status_of r = (case r of Inl _ \<Rightarrow> 0 | Inr n \<Rightarrow> n)"

fun attempts_from :: "(nat \<Rightarrow> int res) \<Rightarrow> nat list \<Rightarrow> nat \<Rightarrow> nat \<times> int \<times> bool \<times> nat list" where
  "attempts_from post [] i = (Suc i, status_of (post i), ok_status (status_of (post i)), [])"
| "attempts_from post (d # rest) i =
     (if ok_status (status_of (post i)) then (Suc i, status_of (post i), True, [])
      else (case attempts_from post rest (Suc i) of (n, st, ok, sl) \<Rightarrow> (n, st, ok, d # sl)))"

definition webhook_body :: "json \<Rightarrow> bytes" where
  "webhook_body payload = utf8 (json_dumps payload)"

definition webhook_headers :: "subscription \<Rightarrow> json \<Rightarrow> string \<Rightarrow> (string \<times> string) list" where
  "webhook_headers sub payload entry_hash =
     [(''Content-Type'', ''application/json''),
      (''X-Countersign-Signature'', hmac_sign (webhook_body payload) (ws_secret sub)),
      (''X-Countersign-Entry-Hash'', entry_hash)]"

text \<open>\<open>poster i url body headers\<close> is the \<open>i\<close>-th call of \<open>http_post\<close>; the sleeps are returned beside the record.\<close>

definition deliver_webhook ::
    "(nat \<Rightarrow> string \<Rightarrow> bytes \<Rightarrow> (string \<times> string) list \<Rightarrow> int res) \<Rightarrow> int \<Rightarrow> subscription \<Rightarrow> json \<Rightarrow> string
      \<Rightarrow> delivery \<times> nat list" where
  "deliver_webhook poster now sub payload entry_hash =
     (case attempts_from (\<lambda>i. poster i (ws_url sub) (webhook_body payload) (webhook_headers sub payload entry_hash))
         backoff_schedule 0 of
        (attempts, last_status, success, sleeps) \<Rightarrow>
          (\<lparr>wd_url = ws_url sub, wd_entry_hash = entry_hash, wd_attempts = attempts, wd_success = success,
            wd_last_status = (if last_status = 0 then None else Some last_status), wd_delivered_at = now\<rparr>, sleeps))"

text \<open>The default poster in a world that changes between attempts.\<close>

definition default_poster ::
    "environ \<Rightarrow> (nat \<Rightarrow> string \<Rightarrow> string list res) \<Rightarrow> (nat \<Rightarrow> dial \<Rightarrow> int res) \<Rightarrow> nat \<Rightarrow> string \<Rightarrow> bytes
      \<Rightarrow> (string \<times> string) list \<Rightarrow> int res" where
  "default_poster env resolve conn i url body headers =
     snd (default_http_post env (resolve i) (conn i) url body headers)"

section \<open>Delivery against its reference\<close>

lemma attempts_schedule:
  "attempts_from post backoff_schedule 0 =
     (if ok_status (status_of (post 0)) then (1, status_of (post 0), True, [])
      else if ok_status (status_of (post 1)) then (2, status_of (post 1), True, [1])
      else if ok_status (status_of (post 2)) then (3, status_of (post 2), True, [1, 4])
      else (4, status_of (post 3), ok_status (status_of (post 3)), [1, 4, 16]))"
  by (simp add: backoff_schedule_def numeral_eq_Suc)

definition attempt_ok :: "(nat \<Rightarrow> string \<Rightarrow> bytes \<Rightarrow> (string \<times> string) list \<Rightarrow> int res) \<Rightarrow> subscription \<Rightarrow> json \<Rightarrow> string
    \<Rightarrow> nat \<Rightarrow> bool" where
  "attempt_ok poster sub payload h i \<longleftrightarrow>
     ok_status (status_of (poster i (ws_url sub) (webhook_body payload) (webhook_headers sub payload h)))"

text \<open>C19: delivery always ends, after at most four attempts and 21 seconds of sleep, with an attempt that raises
  counted as one that failed: it stops at the first attempt that answers 2xx, and reports success exactly when
  one of the four does.\<close>

theorem delivery_reference:
  "case deliver_webhook poster now sub payload h of (d, sleeps) \<Rightarrow>
    (wd_success d \<longleftrightarrow> list_ex (attempt_ok poster sub payload h) [0, 1, 2, 3]) \<and>
    wd_attempts d = (case find (attempt_ok poster sub payload h) [0, 1, 2, 3] of Some i \<Rightarrow> Suc i | None \<Rightarrow> 4) \<and>
    sleeps = take (wd_attempts d - 1) [1, 4, 16] \<and> sum_list sleeps \<le> 21"
  by (simp add: deliver_webhook_def attempts_schedule attempt_ok_def)

section \<open>What may be dialled\<close>

text \<open>
  The ranges the code means to keep out, as intervals: unspecified, private (RFC 1918, ULA), loopback,
  link-local with the metadata addresses, multicast and above, and every IPv4 address mapped into IPv6.
\<close>

fun internal :: "ip \<Rightarrow> bool" where
  "internal (IPv4 a) \<longleftrightarrow> (let n = uint a in n < 0x1000000 \<or> n div 0x1000000 = 10 \<or> n div 0x1000000 = 127 \<or>
     n div 0x10000 = 169 * 256 + 254 \<or> n div 0x100000 = 172 * 16 + 1 \<or> n div 0x10000 = 192 * 256 + 168 \<or> 0xE0000000 \<le> n)"
| "internal (IPv6 a) \<longleftrightarrow> (let n = uint a in n < 2 \<or> n div 2 ^ 121 = 0xfc div 2 \<or> n div 2 ^ 118 = 0xfe80 div 2 ^ 6 \<or>
     n div 2 ^ 32 = 0xffff \<or> n div 2 ^ 120 = 0xff)"

lemma in_net4: "p \<le> 32 \<Longrightarrow> in_net (a :: 32 word) (b, p) \<longleftrightarrow> uint a div 2 ^ (32 - p) = uint b div 2 ^ (32 - p)"
  by (simp add: in_net_def word_uint_eq_iff unsigned_drop_bit_eq drop_bit_eq_div [where ?'a = int] bintr_uint)

lemma in_net6: "p \<le> 128 \<Longrightarrow> in_net (a :: 128 word) (b, p) \<longleftrightarrow> uint a div 2 ^ (128 - p) = uint b div 2 ^ (128 - p)"
  by (simp add: in_net_def word_uint_eq_iff unsigned_drop_bit_eq drop_bit_eq_div [where ?'a = int] bintr_uint)

lemma ip6_values:
  "uint (ip6 [0xfe80]) div 2 ^ 118 = 0xfe80 div 2 ^ 6" "uint (ip6 [0xfc00]) div 2 ^ 121 = 0xfc div 2"
  "uint (ip6 [0xff00]) div 2 ^ 120 = 0xff"
  by code_simp+

lemma div_pow_mono: "(n :: int) div 2 ^ k = c \<Longrightarrow> k \<le> m \<Longrightarrow> n div 2 ^ m = c div 2 ^ (m - k)"
  by (metis div_mult2_eq' le_add_diff_inverse power_add zdiv_zmult2_eq zero_le_numeral zero_le_power)

lemma exceptions6: "in_nets w private6_exceptions \<Longrightarrow> uint w div 2 ^ 112 = 0x2001"
proof -
  assume "in_nets w private6_exceptions"
  then obtain b p where bp: "(b, p) \<in> set private6_exceptions" "in_net w (b, p)"
    by (auto simp: in_nets_def list_ex_iff)
  have ok: "list_all (\<lambda>(b, p). 16 \<le> p \<and> p \<le> 128 \<and> uint b div 2 ^ 112 = 0x2001) private6_exceptions" by code_simp
  have p: "16 \<le> p" "p \<le> 128" "uint b div 2 ^ 112 = 0x2001" using ok bp(1) by (auto simp: list_all_iff)
  have "uint w div 2 ^ (128 - p) = uint b div 2 ^ (128 - p)" using bp(2) in_net6 [OF p(2)] by simp
  from div_pow_mono [OF this, of 112] div_pow_mono [OF refl, of "128 - p" 112 "uint b"] p show ?thesis by simp
qed

lemma internal_blocked: "internal a \<Longrightarrow> is_blocked_ip a"
proof (cases a)
  case (IPv4 w)
  assume "internal a"
  have p: "in_net w (0x00000000, 8) = (uint w div 0x1000000 = 0)" "in_net w (0x0A000000, 8) = (uint w div 0x1000000 = 10)"
    "in_net w (0x7F000000, 8) = (uint w div 0x1000000 = 127)" "in_net w (0xA9FE0000, 16) = (uint w div 0x10000 = 43518)"
    "in_net w (0xAC100000, 12) = (uint w div 0x100000 = 2753)" "in_net w (0xC0A80000, 16) = (uint w div 0x10000 = 49320)"
    "in_net w (0xF0000000, 4) = (uint w div 0x10000000 = 15)" "in_net w (0xE0000000, 4) = (uint w div 0x10000000 = 14)"
    "in_net w (0xC0000009, 32) = (uint w = 0xC0000009)" "in_net w (0xC000000A, 32) = (uint w = 0xC000000A)"
    by (simp_all add: in_net4)
  have b: "0 \<le> uint w" "uint w < 0x100000000" using uint_bounded [of w] by simp_all
  let ?n = "uint w"
  have listed: "is_blocked_ip (IPv4 w)" if "net \<in> set private4" "in_net w net" "?n \<noteq> 0xC0000009" "?n \<noteq> 0xC000000A" for net
  proof -
    have "in_nets w private4" using that(1,2) by (auto simp: in_nets_def list_ex_iff)
    moreover have "\<not> in_nets w private4_exceptions" using that(3,4) by (simp add: in_nets_def private4_exceptions_def p)
    ultimately show ?thesis by (simp add: is_blocked_ip_def is_private4_def)
  qed
  have member: "(0x00000000, 8) \<in> set private4" "(0x0A000000, 8) \<in> set private4" "(0x7F000000, 8) \<in> set private4"
    "(0xA9FE0000, 16) \<in> set private4" "(0xAC100000, 12) \<in> set private4" "(0xC0A80000, 16) \<in> set private4"
    by (simp_all add: private4_def)
  from \<open>internal a\<close> IPv4 consider "?n div 0x1000000 = 0" | "?n div 0x1000000 = 10" | "?n div 0x1000000 = 127"
    | "?n div 0x10000 = 43518" | "?n div 0x100000 = 2753" | "?n div 0x10000 = 49320" | "0xE0000000 \<le> ?n"
    using b(1) by (auto simp: Let_def)
  then have "is_blocked_ip (IPv4 w)"
  proof cases
    case 1 then show ?thesis by (intro listed [OF member(1)]) (simp add: p, linarith+)
  next
    case 2 then show ?thesis by (intro listed [OF member(2)]) (simp add: p, linarith+)
  next
    case 3 then show ?thesis by (intro listed [OF member(3)]) (simp add: p, linarith+)
  next
    case 4 then show ?thesis by (intro listed [OF member(4)]) (simp add: p, linarith+)
  next
    case 5 then show ?thesis by (intro listed [OF member(5)]) (simp add: p, linarith+)
  next
    case 6 then show ?thesis by (intro listed [OF member(6)]) (simp add: p, linarith+)
  next
    case 7
    then have "?n div 0x10000000 = 14 \<or> ?n div 0x10000000 = 15" using b(2) by linarith
    then show ?thesis by (auto simp: is_blocked_ip_def p)
  qed
  then show ?thesis using IPv4 by simp
next
  case (IPv6 w)
  assume "internal a"
  have p: "in_net w (ip6 [0xfe80], 10) = (uint w div 2 ^ 118 = 0xfe80 div 2 ^ 6)"
    "in_net w (ip6 [0xfc00], 7) = (uint w div 2 ^ 121 = 0xfc div 2)"
    "in_net w (ip6 [0xff00], 8) = (uint w div 2 ^ 120 = 0xff)" "in_net w (0, 8) = (uint w div 2 ^ 120 = 0)"
    using ip6_values by (simp_all add: in_net6)
  let ?n = "uint w"
  have reserved: "?n div 2 ^ 120 = 0 \<Longrightarrow> is_blocked_ip (IPv6 w)"
    using p(4) by (simp add: is_blocked_ip_def in_nets_def reserved6_def)
  have ula: "is_blocked_ip (IPv6 w)" if "?n div 2 ^ 121 = 0xfc div 2"
  proof -
    have "\<not> in_nets w private6_exceptions"
    proof
      assume "in_nets w private6_exceptions"
      from div_pow_mono [OF exceptions6 [OF this], of 121] that show False by simp
    qed
    moreover have "in_nets w private6" using p(2) that by (simp add: in_nets_def private6_def)
    moreover have "drop_bit 32 w \<noteq> 0xffff"
    proof
      assume "drop_bit 32 w = 0xffff"
      then have "uint (drop_bit 32 w) = 0xffff" by simp
      then have "?n div 2 ^ 32 = 0xffff" by (simp add: unsigned_drop_bit_eq drop_bit_eq_div [where ?'a = int] bintr_uint)
      from div_pow_mono [OF this, of 121] that show False by simp
    qed
    ultimately show ?thesis by (simp add: is_blocked_ip_def is_private6_def)
  qed
  from \<open>internal a\<close> IPv6 consider "?n < 2" | "?n div 2 ^ 121 = 0xfc div 2" | "?n div 2 ^ 118 = 0xfe80 div 2 ^ 6"
    | "?n div 2 ^ 32 = 0xffff" | "?n div 2 ^ 120 = 0xff" by (auto simp: Let_def)
  then have "is_blocked_ip (IPv6 w)"
  proof cases
    case 1
    then have "?n div 2 ^ 120 = 0" by (simp add: div_pos_pos_trivial)
    then show ?thesis by (rule reserved)
  next
    case 2
    then show ?thesis by (rule ula)
  next
    case 3
    then show ?thesis using p(1) by (simp add: is_blocked_ip_def)
  next
    case 4
    from div_pow_mono [OF this, of 120] have "?n div 2 ^ 120 = 0" by simp
    then show ?thesis by (rule reserved)
  next
    case 5
    then show ?thesis using p(3) by (simp add: is_blocked_ip_def)
  qed
  then show ?thesis using IPv6 by simp
qed

lemma vet_Inr: "vet raw = Inr r \<longleftrightarrow> r = before (CHR ''%'') raw \<and> (\<exists>a. ip_address r = Inr a \<and> \<not> is_blocked_ip a)"
  by (auto simp: vet_def rbind_Inr_iff)

lemma rmap_vet: "rmap vet raws = Inr rs \<Longrightarrow>
   rs = map (before (CHR ''%'')) raws \<and> (\<forall>r \<in> set rs. \<exists>a. ip_address r = Inr a \<and> \<not> is_blocked_ip a)"
  by (induction raws arbitrary: rs) (auto simp: rbind_Inr_iff vet_Inr)

lemma pinned:
  assumes "validate_and_pin env resolve url = Inr (host, ip, p)"
  obtains parsed raws where "urlparse url = Inr parsed" "up_scheme parsed = ''https''" "hostname parsed = Some host"
    "resolve host = Inr raws" "raws \<noteq> []" "ip = before (CHR ''%'') (hd raws)"
    "\<And>r. r \<in> set raws \<Longrightarrow> \<exists>a. ip_address (before (CHR ''%'') r) = Inr a \<and> \<not> is_blocked_ip a"
    "case allowed_hosts env of None \<Rightarrow> True | Some al \<Rightarrow> lower host \<in> set al"
proof -
  obtain parsed ips where url: "urlparse url = Inr parsed" "up_scheme parsed = ''https''" "hostname parsed = Some host"
    and ips: "resolve_and_check resolve host = Inr ips" "ip = hd ips"
    "case allowed_hosts env of None \<Rightarrow> True | Some al \<Rightarrow> lower host \<in> set al"
    using assms by (auto simp: validate_and_pin_def rbind_Inr_iff split: if_splits option.splits)
  obtain raws where raws: "resolve host = Inr raws" "raws \<noteq> []" "rmap vet raws = Inr ips"
    using ips(1) by (auto simp: resolve_and_check_def split: sum.splits exn.splits if_splits)
  from that [OF url raws(1,2) _ _ ips(3)] rmap_vet [OF raws(3)] ips(2) raws(2) show thesis by (auto simp: hd_map)
qed

text \<open>C18: whatever the name servers answer and whenever, a delivery attempt dials only for an \<open>https\<close> URL, for the
  host that URL names, which is on the operator's list when there is one, and only an address that the answer
  of that moment for that host contains, no address of which is loopback, link-local (the metadata service),
  private, multicast or a mapped IPv4 address; it sends the URL's path and query and the body it was given.\<close>

theorem dials_only_vetted:
  assumes "fst (default_http_post env resolve conn url body headers) = Some d"
  shows "(\<exists>parsed. urlparse url = Inr parsed \<and> up_scheme parsed = ''https'' \<and> hostname parsed = Some (dl_host d) \<and>
      dl_path d = request_path parsed) \<and>
    (\<exists>raws a. resolve (dl_host d) = Inr raws \<and> dl_ip d \<in> before (CHR ''%'') ` set raws \<and>
    ip_address (dl_ip d) = Inr a \<and> \<not> internal a \<and>
    (\<forall>r \<in> set raws. \<exists>b. ip_address (before (CHR ''%'') r) = Inr b \<and> \<not> internal b) \<and>
    (case allowed_hosts env of None \<Rightarrow> True | Some al \<Rightarrow> lower (dl_host d) \<in> set al) \<and> dl_body d = body)"
proof -
  from assms obtain host ip p parsed where v: "validate_and_pin env resolve url = Inr (host, ip, p)"
    "dl_host d = host" "dl_ip d = ip" "dl_body d = body" and path: "urlparse url = Inr parsed" "dl_path d = request_path parsed"
    by (auto simp: default_http_post_def Let_def split: sum.splits exn.splits prod.splits)
  obtain raws where url: "up_scheme parsed = ''https''" "hostname parsed = Some host"
    and raws: "resolve host = Inr raws" "raws \<noteq> []" "ip = before (CHR ''%'') (hd raws)"
    "\<And>r. r \<in> set raws \<Longrightarrow> \<exists>a. ip_address (before (CHR ''%'') r) = Inr a \<and> \<not> is_blocked_ip a"
    "case allowed_hosts env of None \<Rightarrow> True | Some al \<Rightarrow> lower host \<in> set al"
    using path(1) by (rule_tac pinned [OF v(1)]) simp
  have hd: "hd raws \<in> set raws" using raws(2) by simp
  have all: "\<forall>r \<in> set raws. \<exists>b. ip_address (before (CHR ''%'') r) = Inr b \<and> \<not> internal b"
    using raws(4) internal_blocked by blast
  with hd raws(3) obtain a where "ip_address ip = Inr a" "\<not> internal a" by blast
  moreover have "ip \<in> before (CHR ''%'') ` set raws" using hd raws(3) by blast
  ultimately show ?thesis using raws(1,5) v(2-4) all path url by auto
qed

definition sample_resolve :: "string \<Rightarrow> string list res" where
  "sample_resolve host = (if host = ''hooks.example'' then Inr [''8.8.8.8''] else Inr [''10.0.0.1''])"

theorem dials_only_vetted_witness:
  "\<exists>d parsed. fst (default_http_post (\<lambda>_. None) sample_resolve (\<lambda>_. Inr 200) ''https://Hooks.example/in'' [] []) = Some d \<and>
     dl_ip d = ''8.8.8.8'' \<and> urlparse ''https://Hooks.example/in'' = Inr parsed \<and> up_scheme parsed = ''https'' \<and>
     hostname parsed = Some (dl_host d)"
proof -
  have dial: "fst (default_http_post (\<lambda>_. None) sample_resolve (\<lambda>_. Inr 200) ''https://Hooks.example/in'' [] []) =
      Some \<lparr>dl_host = ''hooks.example'', dl_ip = ''8.8.8.8'', dl_port = 443, dl_path = ''/in'',
        dl_headers = [(''Host'', ''hooks.example'')], dl_body = []\<rparr>" by code_simp
  from dials_only_vetted [OF dial, THEN conjunct1] obtain parsed where
    "urlparse ''https://Hooks.example/in'' = Inr parsed" "up_scheme parsed = ''https''" "hostname parsed = Some ''hooks.example''" by auto
  with dial show ?thesis by (intro exI [of _ parsed] exI conjI) (assumption | simp)+
qed

section \<open>Two gaps\<close>

text \<open>The carrier-grade range 100.64.0.0/10 is neither private nor global to \<open>ipaddress\<close>, and is not refused.\<close>

theorem shared_address_space_allowed: "\<not> is_blocked_ip (IPv4 0x64400001)"
  by code_simp

text \<open>The parameters of the last path segment of the subscriber's URL are not sent: \<open>urlparse\<close> splits them off.\<close>

theorem path_parameters_dropped:
  "map_option dl_path (fst (default_http_post (\<lambda>_. None) sample_resolve (\<lambda>_. Inr 200)
     ''https://hooks.example/in;key=1?x=2'' [] [])) = Some ''/in?x=2''"
  by code_simp

text \<open>A port out of range is a \<open>ValueError\<close>, not the refusal the check promises for every failure.\<close>

theorem bad_port_is_no_refusal:
  "validate_webhook_url (\<lambda>_. None) (\<lambda>_. Inr [''8.8.8.8'']) ''https://h:x/'' = Inl ValueError"
  by code_simp

end
