(* ===== verification/Countersign.thy ===== *)
theory Countersign
  imports Webhooks RouterProps
begin

text \<open>
  The countersign module (\<open>countersign/\<close>): acceptance of a withheld evidence bundle, the generic checks,
  the statement, the signer, verification of entries, and the \<open>POST /countersign/register\<close> route.
  The reference library \<open>agent_action_capsule\<close> (digest, verification and JCS of a bundle), pydantic's
  rendering of a time and its request validation, and the policy modules of a deployment are parameters.
\<close>

section \<open>The libraries\<close>

record claim_verdict =
  cv_status :: string
  cv_findings :: "string list"

record bundle_verdict =
  bv_membership :: claim_verdict
  bv_interval :: claim_verdict

text \<open>
  \<open>jcs\<close> refuses a value with a \<open>TypeError\<close> (not JSON) or a \<open>ValueError\<close> (a number JSON has no form for); a
  value nested too deep for Python's stack is not modelled.
\<close>

datatype jcs_error = JcsTypeError | JcsValueError

record aac =
  aac_digest :: "json \<Rightarrow> string res"
  aac_verify :: "json \<Rightarrow> bundle_verdict res"
  aac_jcs :: "json \<Rightarrow> jcs_error + bytes"
  aac_datetime :: "int \<Rightarrow> string"

section \<open>Configuration\<close>

definition strict_countersign_active :: "environ \<Rightarrow> bool" where
  "strict_countersign_active env \<longleftrightarrow>
     env ''CAPSULE_ANCHOR_COUNTERSIGN'' = Some ''1'' \<and> env ''CAPSULE_ANCHOR_REGISTRATION_POLICY'' = Some ''strict''"

text \<open>The enrolled issuers, each with its one key.\<close>

type_synonym issuers = "(string \<times> bytes) list"

text \<open>\<open>item["..."]\<close> of an entry that is no object is a \<open>TypeError\<close>, which nothing catches.\<close>

definition read_issuer :: "json \<Rightarrow> (string \<times> bytes) res" where
  "read_issuer item = (case item of
     JObj kvs \<Rightarrow>
       (case (map_of kvs ''ledger_id'', map_of kvs ''pubkey_hex'') of
          (Some (JStr ledger_id), Some (JStr pubkey_hex)) \<Rightarrow>
            if ledger_id = [] then Inl IssuerConfigError
            else (case fromhex pubkey_hex of
                Inl _ \<Rightarrow> Inl IssuerConfigError
              | Inr pubkey \<Rightarrow> if length pubkey \<noteq> 32 then Inl IssuerConfigError else Inr (ledger_id, pubkey))
        | _ \<Rightarrow> Inl IssuerConfigError)
   | _ \<Rightarrow> Inl TypeError)"

fun read_issuers :: "json list \<Rightarrow> issuers \<Rightarrow> issuers res" where
  "read_issuers [] entries = Inr entries"
| "read_issuers (item # raw) entries =
     rbind (read_issuer item) (\<lambda>(ledger_id, pubkey).
       if map_of entries ledger_id \<noteq> None then Inl IssuerConfigError
       else read_issuers raw (entries @ [(ledger_id, pubkey)]))"

definition issuers_from_list :: "json list \<Rightarrow> issuers res" where
  "issuers_from_list raw = read_issuers raw []"

definition load_issuers :: "(string \<Rightarrow> bytes option) \<Rightarrow> (bytes \<Rightarrow> json res) \<Rightarrow> string \<Rightarrow> issuers res" where
  "load_issuers files loads path =
     (case files path of
        None \<Rightarrow> Inl OSError
      | Some content \<Rightarrow> (case loads content of
            Inl e \<Rightarrow> Inl e
          | Inr (JArr items) \<Rightarrow> issuers_from_list items
          | Inr _ \<Rightarrow> Inl IssuerConfigError))"

definition issuers_from_env :: "(string \<Rightarrow> bytes option) \<Rightarrow> (bytes \<Rightarrow> json res) \<Rightarrow> environ \<Rightarrow> issuers res" where
  "issuers_from_env files loads env =
     (case env ''CAPSULE_ANCHOR_COUNTERSIGN_ISSUERS_FILE'' of
        Some (c # cs) \<Rightarrow> load_issuers files loads (c # cs)
      | _ \<Rightarrow> Inr [])"

section \<open>The bundle\<close>

record ev_bundle =
  bd_raw :: "(string \<times> json) list"
  bd_digest :: string

definition bundle_records :: "ev_bundle \<Rightarrow> (string \<times> json) list list" where
  "bundle_records b = (case map_of (bd_raw b) ''records'' of
     Some (JArr rs) \<Rightarrow> concat (map (\<lambda>r. case r of JObj o' \<Rightarrow> [o'] | _ \<Rightarrow> []) rs)
   | _ \<Rightarrow> [])"

definition bundle_dict :: "ev_bundle \<Rightarrow> string \<Rightarrow> (string \<times> json) list option" where
  "bundle_dict b key = (case map_of (bd_raw b) key of Some (JObj o') \<Rightarrow> Some o' | _ \<Rightarrow> None)"

definition closure_depth :: "ev_bundle \<Rightarrow> int" where
  "closure_depth b =
     (case map_of (case bundle_dict b ''completeness'' of None \<Rightarrow> [] | Some c \<Rightarrow> c) ''closure_depth'' of
        Some (JInt n) \<Rightarrow> n
      | _ \<Rightarrow> 2)"

definition parse_bundle :: "aac \<Rightarrow> json \<Rightarrow> ev_bundle res" where
  "parse_bundle lib raw = (case raw of
     JObj o' \<Rightarrow>
       if map_of o' ''bundle_version'' \<noteq> Some (JStr ''2'') \<or> map_of o' ''bundle_kind'' \<noteq> Some (JStr ''evidence-bundle/v2'')
       then Inl BundleRefused
       else (case (map_of o' ''root'', map_of o' ''completeness'') of
           (Some (JStr _), Some (JObj completeness)) \<Rightarrow>
             if map_of completeness ''payloads_mode'' \<noteq> Some (JStr ''none'') then Inl BundleRefused
             else if map_of o' ''disclosures'' \<noteq> None then Inl BundleRefused
             else (case aac_digest lib raw of
                 Inl e \<Rightarrow> if e \<in> {TypeError, ValueError} then Inl BundleRefused else Inl e
               | Inr digest \<Rightarrow> Inr \<lparr>bd_raw = o', bd_digest = digest\<rparr>)
         | _ \<Rightarrow> Inl BundleRefused)
   | _ \<Rightarrow> Inl BundleRefused)"

definition compute_bundle_digest :: "aac \<Rightarrow> ev_bundle \<Rightarrow> string res" where
  "compute_bundle_digest lib b = aac_digest lib (JObj (bd_raw b))"

definition is_ascii :: "string \<Rightarrow> bool" where
  "is_ascii s = list_all (\<lambda>c. (of_char c :: nat) < 128) s"

text \<open>
  An exception of the \<open>verify\<close> expression (a key of the wrong length, a signature that is not
  hexadecimal, a digest that is not ASCII) is a refusal, like a signature that does not verify.
\<close>

definition accept_bundle :: "ext \<Rightarrow> aac \<Rightarrow> json \<Rightarrow> issuers \<Rightarrow> string \<Rightarrow> string \<Rightarrow> string \<Rightarrow> ev_bundle res" where
  "accept_bundle x lib raw iss requester_id requester_key_hex requester_signature_hex =
     rbind (parse_bundle lib raw) (\<lambda>b.
     case map_of iss requester_id of
       None \<Rightarrow> Inl BundleRefused
     | Some pubkey \<Rightarrow>
         if hex pubkey \<noteq> lower requester_key_hex then Inl BundleRefused
         else (case fromhex requester_signature_hex of
             Inl _ \<Rightarrow> Inl BundleRefused
           | Inr sg \<Rightarrow>
               if length pubkey = 32 \<and> is_ascii (bd_digest b) \<and> ed_verify x pubkey sg (ascii_bytes (bd_digest b))
               then Inr b else Inl BundleRefused))"

section \<open>Checks\<close>

datatype verdict = Established | Failed | NotPresent | NotChecked | Inconclusive

definition verdict_text :: "verdict \<Rightarrow> string" where
  "verdict_text v = (case v of Established \<Rightarrow> ''established'' | Failed \<Rightarrow> ''failed'' | NotPresent \<Rightarrow> ''not present''
     | NotChecked \<Rightarrow> ''not checked'' | Inconclusive \<Rightarrow> ''inconclusive'')"

record check =
  ch_name :: string
  ch_result :: verdict
  ch_detail :: string

definition join :: "string \<Rightarrow> string list \<Rightarrow> string" where
  "join sep ss = (case ss of [] \<Rightarrow> [] | s # ss' \<Rightarrow> s @ concat (map (\<lambda>t. sep @ t) ss'))"

definition or_else :: "string \<Rightarrow> string \<Rightarrow> string" where
  "or_else s t = (if s = [] then t else s)"

definition chain_consistency :: check where
  "chain_consistency = \<lparr>ch_name = ''chain consistency'', ch_result = NotPresent, ch_detail =
     ''the v2 Evidence Bundle carries a single checkpoint, not a checkpoint history -- nothing to chain''\<rparr>"

definition range_membership :: "aac \<Rightarrow> ev_bundle \<Rightarrow> check res" where
  "range_membership lib b =
     (let result = (\<lambda>r d. \<lparr>ch_name = ''range membership'', ch_result = r, ch_detail = d\<rparr>) in
      if bundle_records b = [] then Inr (result NotPresent ''no records in the bundle'')
      else if bundle_dict b ''completeness_certificate'' = None \<or> bundle_dict b ''checkpoint'' = None
      then Inr (result NotChecked ''no completeness certificate/checkpoint in the bundle to verify membership against'')
      else rbind (aac_verify lib (JObj (bd_raw b))) (\<lambda>v.
        let membership = bv_membership v; detail = join ''; '' (cv_findings membership) in
        Inr (if cv_status membership = ''fail'' then result Failed (or_else detail ''membership verification failed'')
          else if cv_status membership = ''withheld''
          then result NotChecked (or_else detail ''completeness evidence withheld'')
          else if cv_findings membership \<noteq> [] then result Inconclusive detail
          else result Established (show_nat (length (bundle_records b)) @ '' record(s) independently verified (CLL #13 '' @
            ''range proof + per-record inclusion proof) against the checkpointed interval''))))"

definition cadence :: check where
  "cadence = \<lparr>ch_name = ''cadence'', ch_result = NotPresent, ch_detail =
     ''the v2 Evidence Bundle declares no period for this check to bound record timestamps against''\<rparr>"

definition key_hygiene :: check where
  "key_hygiene = \<lparr>ch_name = ''key hygiene'', ch_result = NotPresent, ch_detail =
     ''AAC capsule records carry no per-record signer-key field for this check to recompute rotation against''\<rparr>"

text \<open>A policy module: what \<open>check(bundle, profile_id)\<close> returns. The registry maps profile ids to modules.\<close>

type_synonym policy_module = "ev_bundle \<Rightarrow> string \<Rightarrow> check list res"

definition null_policy_module :: policy_module where
  "null_policy_module b profile_id = Inr []"

definition default_registry :: "(string \<times> policy_module) list" where
  "default_registry = [(''test/v0'', null_policy_module)]"

definition action_kinds :: "ev_bundle \<Rightarrow> string list" where
  "action_kinds b = sort (remdups (concat (map
     (\<lambda>r. case map_of r ''action_type'' of Some (JStr k) \<Rightarrow> [k] | _ \<Rightarrow> []) (bundle_records b))))"

definition profile_conformance :: "ev_bundle \<Rightarrow> string \<Rightarrow> policy_module \<Rightarrow> check res" where
  "profile_conformance b profile_id policy =
     (let result = (\<lambda>r d. \<lparr>ch_name = ''profile conformance'', ch_result = r, ch_detail = d\<rparr>);
          kinds = action_kinds b
      in if kinds = [] then Inr (result NotPresent ''no records in the bundle'')
         else rbind (policy b profile_id) (\<lambda>crs.
           let missing = filter (\<lambda>k. k \<notin> set (map ch_name crs)) kinds in
           Inr (if missing = [] then result Established
                  (''every action_type ('' @ join '', '' kinds @ '') has a policy-module check'')
             else if length missing = length kinds then result NotChecked
                  (''no policy module coverage for any action_type present: '' @ join '', '' kinds)
             else result Inconclusive (''action_type(s) with no policy-module coverage: '' @ join '', '' missing))))"

section \<open>The statement\<close>

record cs_statement =
  cm_checks :: "check list"
  cm_exclusions :: "string list"
  cm_ledger_id :: string
  cm_closure_depth :: int
  cm_recomputed_at :: int

definition exclusions :: "string list" where
  "exclusions =
     [''capture coverage: not checked by this statement -- a declared-count reconciliation, when present in the '' @
        ''bundle, is reported as its own named check and stands on its own, never folded into another check'' @ [CHR 0x27] @ ''s result'',
      ''outcome correctness: not checked by this statement -- this recompute verifies structure, sequence, and '' @
        ''signatures, never the substance of a judgment'']"

definition recompute_statement ::
    "aac \<Rightarrow> ev_bundle \<Rightarrow> policy_module \<Rightarrow> string \<Rightarrow> string \<Rightarrow> int \<Rightarrow> cs_statement res" where
  "recompute_statement lib b policy ledger_id profile_id now =
     rbind (range_membership lib b) (\<lambda>range.
     rbind (profile_conformance b profile_id policy) (\<lambda>profile.
     rbind (policy b profile_id) (\<lambda>more.
     Inr \<lparr>cm_checks = [chain_consistency, range, cadence, key_hygiene, profile] @ more,
       cm_exclusions = exclusions, cm_ledger_id = ledger_id, cm_closure_depth = closure_depth b,
       cm_recomputed_at = now\<rparr>)))"

definition wire_check :: "check \<Rightarrow> json" where
  "wire_check c = JObj [(''name'', JStr (ch_name c)), (''result'', JStr (verdict_text (ch_result c)))]"

definition wire_dict :: "aac \<Rightarrow> cs_statement \<Rightarrow> json" where
  "wire_dict lib s = JObj [(''checks'', JArr (map wire_check (cm_checks s))),
     (''scope'', JObj [(''ledger_id'', JStr (cm_ledger_id s)), (''closure_depth'', JInt (cm_closure_depth s))]),
     (''recomputed_at'', JStr (aac_datetime lib (cm_recomputed_at s)))]"

definition canonical_bytes :: "aac \<Rightarrow> cs_statement \<Rightarrow> jcs_error + bytes" where
  "canonical_bytes lib s = aac_jcs lib (wire_dict lib s)"

section \<open>The signer\<close>

definition entry_type :: string where
  "entry_type = ''countersign/v1''"

definition countersign_signing_input :: "aac \<Rightarrow> json \<Rightarrow> json \<Rightarrow> json \<Rightarrow> json \<Rightarrow> jcs_error + bytes" where
  "countersign_signing_input lib over signer statement typ =
     aac_jcs lib (JObj [(''over'', over), (''signer'', signer), (''statement'', statement), (''type'', typ)])"

text \<open>\<open>except (TypeError, ValueError)\<close> around both.\<close>

definition canonical_or_refused :: "jcs_error + 'a \<Rightarrow> 'a res" where
  "canonical_or_refused r = (case r of Inl _ \<Rightarrow> Inl StatementRefused | Inr y \<Rightarrow> Inr y)"

definition signed_entry :: "json \<Rightarrow> string \<Rightarrow> json \<Rightarrow> string \<Rightarrow> bool \<Rightarrow> registration \<Rightarrow> json" where
  "signed_entry wire_signer over wire_statement signature independent reg = JObj
     [(''type'', JStr entry_type), (''signer'', wire_signer), (''over'', JStr over), (''statement'', wire_statement),
      (''signature'', JStr signature), (''independent'', JBool independent),
      (''receipt'', JObj [(''receipt_b64'', JStr (b64encode (rg_receipt reg))), (''entry_hash'', JStr (rg_entry_hash reg)),
         (''leaf_index'', JInt (rg_leaf_index reg)), (''tree_size'', JInt (rg_tree_size reg))])]"

text \<open>The attestor's clock is the first reading, the registrar reads the rest; the entry comes with its registration.\<close>

definition sign_countersignature ::
    "ext \<Rightarrow> anchorer \<Rightarrow> aac \<Rightarrow> clock \<Rightarrow> ev_bundle \<Rightarrow> cs_statement \<Rightarrow> string \<Rightarrow> string \<Rightarrow> (svc, json \<times> registration) op" where
  "sign_countersignature x a lib now b s signer_id requester_key_id =
     (let signer_key_id = hex (authority_pubkey (an_attestor a));
          independent = (lower signer_key_id \<noteq> lower requester_key_id);
          wire_signer = JObj [(''id'', JStr signer_id), (''key_id'', JStr signer_key_id)];
          wire_statement = wire_dict lib s
      in op_bind (op_lift (canonical_or_refused
             (countersign_signing_input lib (JStr (bd_digest b)) wire_signer wire_statement (JStr entry_type)))) (\<lambda>signing_input.
         op_bind (op_lift (canonical_or_refused (canonical_bytes lib s))) (\<lambda>statement_bytes.
         op_bind (register_signed_statement_full x a (\<lambda>i. now (Suc i)) (sha256 statement_bytes) None None) (\<lambda>reg.
         op_return (signed_entry wire_signer (bd_digest b) wire_statement
           (sig_hex (attest x (an_attestor a) signing_input (now 0))) independent reg, reg)))))"

section \<open>Verification of entries\<close>

definition key_hex :: "string \<Rightarrow> bool" where
  "key_hex s \<longleftrightarrow> length s = 64 \<and> list_all (\<lambda>c. c \<in> set hex_digits) s"

definition signature_hex :: "string \<Rightarrow> bool" where
  "signature_hex s \<longleftrightarrow> length s = 128 \<and> list_all (\<lambda>c. c \<in> set hex_digits) s"

text \<open>\<open>entry.get("signer").get("key_id")\<close> when it is a string.\<close>

definition entry_key :: "(string \<times> json) list \<Rightarrow> string option" where
  "entry_key entry = (case map_of entry ''signer'' of
     Some (JObj signer) \<Rightarrow> (case map_of signer ''key_id'' of Some (JStr k) \<Rightarrow> Some k | _ \<Rightarrow> None)
   | _ \<Rightarrow> None)"

text \<open>\<open>False\<close> also where the \<open>except\<close> clause catches: either error of \<open>jcs\<close>, a key or signature that does not verify.\<close>

definition signature_valid :: "ext \<Rightarrow> aac \<Rightarrow> (string \<times> json) list \<Rightarrow> string \<Rightarrow> bool" where
  "signature_valid x lib entry digest =
     (case (entry_key entry, map_of entry ''signature'', map_of entry ''signer'', map_of entry ''statement'') of
        (Some key_id, Some (JStr signature), Some signer, Some statement) \<Rightarrow>
          key_hex key_id \<and> signature_hex signature \<and> map_of entry ''over'' = Some (JStr digest) \<and>
          (case countersign_signing_input lib (JStr digest) signer statement
              (case map_of entry ''type'' of Some (JStr (c # cs)) \<Rightarrow> JStr (c # cs) | _ \<Rightarrow> JStr entry_type) of
             Inl _ \<Rightarrow> False
           | Inr message \<Rightarrow> (case (fromhex key_id, fromhex signature) of
               (Inr key, Inr sg) \<Rightarrow> ed_verify x key sg message | _ \<Rightarrow> False))
      | _ \<Rightarrow> False)"

datatype entry_state = Invalid | Unverified | SelfCountersigned | UnresolvedSigner | Countersigned | Witnessed | SelfAttested

text \<open>\<open>compute_bundle_digest\<close> of a parsed bundle does not raise: it did not when the bundle was parsed.\<close>

definition verify_entry :: "ext \<Rightarrow> aac \<Rightarrow> ev_bundle \<Rightarrow> json \<Rightarrow> string list \<Rightarrow> string list \<Rightarrow> entry_state res" where
  "verify_entry x lib b entry producer_key_ids directory = (case entry of
     JObj e \<Rightarrow>
       if map_of e ''type'' \<notin> {None, Some JNull, Some (JStr []), Some (JStr entry_type)} then Inr Unverified
       else rbind (compute_bundle_digest lib b) (\<lambda>digest.
         if \<not> signature_valid x lib e digest then Inr Invalid
         else (case entry_key e of
             None \<Rightarrow> Inr Invalid
           | Some key_id \<Rightarrow>
               if key_id \<in> set (map lower producer_key_ids) then Inr SelfCountersigned
               else if key_id \<notin> set (map lower directory) then Inr UnresolvedSigner
               else Inr Countersigned))
   | _ \<Rightarrow> Inr Invalid)"

definition entry_rank :: "entry_state \<Rightarrow> nat" where
  "entry_rank st = (case st of Invalid \<Rightarrow> 0 | Unverified \<Rightarrow> 1 | SelfCountersigned \<Rightarrow> 2 | UnresolvedSigner \<Rightarrow> 3
     | Countersigned \<Rightarrow> 4 | _ \<Rightarrow> 0)"

definition witnessed :: "aac \<Rightarrow> ev_bundle \<Rightarrow> bool res" where
  "witnessed lib b = rbind (aac_verify lib (JObj (bd_raw b))) (\<lambda>v.
     Inr (cv_status (bv_interval v) = ''pass'' \<and> ''checkpoint_unverified'' \<notin> set (cv_findings (bv_interval v))))"

text \<open>\<open>max\<close> with a key keeps the first of the largest.\<close>

fun best_state :: "entry_state list \<Rightarrow> entry_state" where
  "best_state [] = Invalid"
| "best_state [st] = st"
| "best_state (st # st' # sts) =
     (let m = best_state (st' # sts) in if entry_rank m \<le> entry_rank st then st else m)"

definition resolve_entry_state ::
    "ext \<Rightarrow> aac \<Rightarrow> ev_bundle \<Rightarrow> json list \<Rightarrow> string list \<Rightarrow> string list \<Rightarrow> entry_state res" where
  "resolve_entry_state x lib b countersignatures producer_key_ids directory =
     (if countersignatures = []
      then rbind (witnessed lib b) (\<lambda>w. Inr (if w then Witnessed else SelfAttested))
      else rbind (rmap (\<lambda>e. verify_entry x lib b e producer_key_ids directory) countersignatures)
        (\<lambda>states. Inr (best_state states)))"

section \<open>The route\<close>

text \<open>A validated request body, and what is installed at start-up.\<close>

record cs_request =
  cq_bundle :: json
  cq_requester_id :: string
  cq_requester_key_id :: string
  cq_signature :: string
  cq_profile_id :: "string option"
  cq_webhook_url :: "string option"
  cq_webhook_secret :: "string option"

record cs_site =
  ct_ext :: ext
  ct_aac :: aac
  ct_service :: "anchorer option"
  ct_registry :: "(string \<times> policy_module) list"
  ct_issuers :: issuers
  ct_env :: environ
  ct_parse :: "bytes \<Rightarrow> cs_request option"

record cs_app =
  ca_svc :: svc
  ca_limiter :: limiter

type_synonym webhook_task = "subscription \<times> json \<times> string"

definition some_text :: "string option \<Rightarrow> bool" where
  "some_text s \<longleftrightarrow> s \<noteq> None \<and> s \<noteq> Some []"

definition chosen_module :: "cs_site \<Rightarrow> string option \<Rightarrow> (http_error + policy_module)" where
  "chosen_module st profile_id =
     (if some_text profile_id
      then (case map_of (ct_registry st) (the profile_id) of None \<Rightarrow> Inl (HttpError 422) | Some m \<Rightarrow> Inr m)
      else Inr null_policy_module)"

definition webhook_task :: "cs_site \<Rightarrow> (string \<Rightarrow> string list res) \<Rightarrow> cs_request \<Rightarrow> json \<Rightarrow> string \<Rightarrow>
    (http_error + webhook_task option)" where
  "webhook_task st resolve q entry entry_hash =
     (if some_text (cq_webhook_url q) \<and> some_text (cq_webhook_secret q)
      then (case validate_webhook_url (ct_env st) resolve (the (cq_webhook_url q)) of
          Inl e \<Rightarrow> Inl (if e = WebhookURLRefused then HttpError 422 else ServerError e)
        | Inr _ \<Rightarrow> Inr (Some (\<lparr>ws_url = the (cq_webhook_url q), ws_secret = the (cq_webhook_secret q)\<rparr>, entry, entry_hash)))
      else Inr None)"

text \<open>What the request is checked for before anything is signed.\<close>

definition admitted :: "cs_site \<Rightarrow> bytes \<Rightarrow> (http_error + (cs_request \<times> ev_bundle \<times> policy_module \<times> anchorer \<times> string))" where
  "admitted st data =
     (if max_statement_bytes < length data then Inl (HttpError 413)
      else case ct_parse st data of
        None \<Rightarrow> Inl (HttpError 422)
      | Some q \<Rightarrow>
          (case accept_bundle (ct_ext st) (ct_aac st) (cq_bundle q) (ct_issuers st) (cq_requester_id q)
              (cq_requester_key_id q) (cq_signature q) of
             Inl e \<Rightarrow> Inl (if e = BundleRefused then HttpError 422 else ServerError e)
           | Inr b \<Rightarrow>
               rbind (chosen_module st (cq_profile_id q)) (\<lambda>policy.
               case ct_service st of
                 None \<Rightarrow> Inl (HttpError 503)
               | Some a \<Rightarrow>
                   if \<not> some_text (ct_env st ''CAPSULE_ANCHOR_PUBLIC_HOST'') then Inl (HttpError 503)
                   else Inr (q, b, policy, a, ''did:web:'' @ the (ct_env st ''CAPSULE_ANCHOR_PUBLIC_HOST'')))))"

definition catch_sign :: "exn \<Rightarrow> http_error" where
  "catch_sign e = (if e = StatementRefused then HttpError 400 else ServerError e)"

text \<open>Signing, registration and the webhook of an admitted request; \<open>now 0\<close> stamps the statement.\<close>

definition countersign_admitted ::
    "cs_site \<Rightarrow> (string \<Rightarrow> string list res) \<Rightarrow> clock \<Rightarrow> cs_request \<Rightarrow> ev_bundle \<Rightarrow> policy_module \<Rightarrow> anchorer \<Rightarrow> string
      \<Rightarrow> svc \<Rightarrow> (http_error + json \<times> webhook_task option) \<times> svc" where
  "countersign_admitted st resolve now q b policy a signer_id s =
     (case recompute_statement (ct_aac st) b policy (cq_requester_id q)
         (case cq_profile_id q of None \<Rightarrow> [] | Some p \<Rightarrow> p) (now 0) of
        Inl e \<Rightarrow> (Inl (ServerError e), s)
      | Inr stmt \<Rightarrow>
          (case sign_countersignature (ct_ext st) a (ct_aac st) (\<lambda>i. now (Suc i)) b stmt signer_id (cq_requester_key_id q) s of
             (Inl e, t) \<Rightarrow> (Inl (catch_sign e), t)
           | (Inr (entry, reg), t) \<Rightarrow>
               (rbind (webhook_task st resolve q entry (rg_entry_hash reg)) (\<lambda>task. Inr (entry, task)), t)))"

definition register ::
    "cs_site \<Rightarrow> (string \<Rightarrow> string list res) \<Rightarrow> clock \<Rightarrow> int \<Rightarrow> bytes \<Rightarrow> cs_app
      \<Rightarrow> (http_error + json \<times> webhook_task option) \<times> cs_app" where
  "register st resolve now tick data s =
     (case is_allowed ''global'' tick (ca_limiter s) of (allowed, l) \<Rightarrow>
        let s' = s\<lparr>ca_limiter := l\<rparr> in
        if \<not> allowed then (Inl (HttpError 429), s')
        else case admitted st data of
          Inl e \<Rightarrow> (Inl e, s')
        | Inr (q, b, policy, a, signer_id) \<Rightarrow>
            (case countersign_admitted st resolve now q b policy a signer_id (ca_svc s) of
               (r, t) \<Rightarrow> (r, s'\<lparr>ca_svc := t\<rparr>)))"

end
