(* ===== verification/SigningKey.thy ===== *)
theory SigningKey
  imports External PyText
begin

text \<open>
  The authority's key (\<open>signing_key.py\<close>): where it is loaded from, and the key provider the attestor
  signs through. The PEM and DER loaders of \<open>cryptography\<close> and the file system are parameters; a private
  key is its 32-byte seed.
\<close>

section \<open>Loading\<close>

text \<open>What \<open>load_pem_private_key\<close> and \<open>load_der_private_key\<close> return: an Ed25519 key, or one of another type.\<close>

datatype private_key_object = Ed25519Key bytes | OtherKey

record key_loaders =
  load_pem :: "bytes \<Rightarrow> private_key_object res"
  load_der :: "bytes \<Rightarrow> private_key_object res"
  read_bytes :: "string \<Rightarrow> bytes option"

record loaded_key =
  lk_seed :: bytes
  lk_source :: string
  lk_ephemeral :: bool

definition from_seed_hex :: "string \<Rightarrow> bytes res" where
  "from_seed_hex hex_seed = rbind (fromhex (strip hex_seed)) (\<lambda>raw.
     if length raw \<noteq> 32 then Inl ValueError else Inr raw)"

text \<open>A loader's attempt: a key of another type and a \<open>ValueError\<close> both mean the next form is tried.\<close>

definition attempt :: "private_key_object res \<Rightarrow> bytes res \<Rightarrow> bytes res" where
  "attempt r next = (case r of
     Inr (Ed25519Key seed) \<Rightarrow> Inr seed
   | Inr OtherKey \<Rightarrow> next
   | Inl e \<Rightarrow> if e = ValueError then next else Inl e)"

text \<open>\<open>data.decode("ascii", "ignore")\<close>.\<close>

definition ascii_ignore :: "bytes \<Rightarrow> string" where
  "ascii_ignore data = map (\<lambda>b. char_of (unat b)) (filter (\<lambda>b. b < 128) data)"

definition from_file :: "key_loaders \<Rightarrow> string \<Rightarrow> bytes res" where
  "from_file ld path = (case read_bytes ld path of
     None \<Rightarrow> Inl OSError
   | Some data \<Rightarrow> attempt (load_pem ld data) (attempt (load_der ld data) (from_seed_hex (strip (ascii_ignore data)))))"

text \<open>\<open>entropy\<close> is what \<open>Ed25519PrivateKey.generate\<close> would draw.\<close>

definition load_signing_key :: "key_loaders \<Rightarrow> bytes \<Rightarrow> environ \<Rightarrow> loaded_key res" where
  "load_signing_key ld entropy env =
     (let hex_seed = strip (env_get env ''CAPSULE_ANCHOR_SIGNING_KEY'' []);
          key_file = strip (env_get env ''CAPSULE_ANCHOR_SIGNING_KEY_FILE'' [])
      in if hex_seed \<noteq> [] then rbind (from_seed_hex hex_seed) (\<lambda>k.
             Inr \<lparr>lk_seed = k, lk_source = ''env'', lk_ephemeral = False\<rparr>)
         else if key_file \<noteq> [] then rbind (from_file ld key_file) (\<lambda>k.
             Inr \<lparr>lk_seed = k, lk_source = ''file:'' @ key_file, lk_ephemeral = False\<rparr>)
         else Inr \<lparr>lk_seed = entropy, lk_source = ''generated'', lk_ephemeral = True\<rparr>)"

definition signing_key_seed_hex :: "bytes \<Rightarrow> string" where
  "signing_key_seed_hex key = hex key"

section \<open>The provider\<close>

record static_key =
  sp_private :: bytes
  sp_public :: bytes
  sp_key_id :: string
  sp_source :: string
  sp_ephemeral :: bool

definition new_static_key :: "ext \<Rightarrow> loaded_key \<Rightarrow> static_key" where
  "new_static_key x loaded =
     \<lparr>sp_private = lk_seed loaded, sp_public = ed_public x (lk_seed loaded),
      sp_key_id = take 16 (sha256_hex (ed_public x (lk_seed loaded))),
      sp_source = lk_source loaded, sp_ephemeral = lk_ephemeral loaded\<rparr>"

definition provider_public_key :: "static_key \<Rightarrow> string option \<Rightarrow> bytes res" where
  "provider_public_key p key_id =
     (if key_id \<noteq> None \<and> key_id \<noteq> Some (sp_key_id p) then Inl KeyError else Inr (sp_public p))"

definition provider_sign :: "ext \<Rightarrow> static_key \<Rightarrow> bytes \<Rightarrow> string option \<Rightarrow> int \<Rightarrow> sig res" where
  "provider_sign x p payload key_id t =
     (if key_id \<noteq> None \<and> key_id \<noteq> Some (sp_key_id p) then Inl KeyError
      else Inr (crypto_sign x (sp_private p) payload t))"

definition provider_verify :: "ext \<Rightarrow> static_key \<Rightarrow> bytes \<Rightarrow> sig \<Rightarrow> bool" where
  "provider_verify x p payload s =
     (if sig_key_id s \<noteq> sp_key_id p then False else crypto_verify x (sp_public p) payload s)"

definition provider_list_keys :: "static_key \<Rightarrow> string list" where
  "provider_list_keys p = [sp_key_id p]"

text \<open>The attestor calls the provider without a key id.\<close>

definition key_provider_of :: "ext \<Rightarrow> static_key \<Rightarrow> key_provider" where
  "key_provider_of x p =
     \<lparr>kp_sign = (\<lambda>payload t. crypto_sign x (sp_private p) payload t), kp_verify = provider_verify x p,
      kp_public_key = sp_public p, kp_active_key_id = sp_key_id p\<rparr>"

definition configured_attestor :: "ext \<Rightarrow> loaded_key \<Rightarrow> attestor" where
  "configured_attestor x loaded = new_attestor x (Some (key_provider_of x (new_static_key x loaded))) []"

lemma provider_calls:
  "provider_sign x p payload None t = Inr (kp_sign (key_provider_of x p) payload t)"
  "provider_public_key p None = Inr (kp_public_key (key_provider_of x p))"
  by (simp_all add: provider_sign_def provider_public_key_def key_provider_of_def)

text \<open>An attestor that signs with the private key \<open>sk\<close>, in process or through a provider.\<close>

definition holds_key :: "ext \<Rightarrow> attestor \<Rightarrow> bytes \<Rightarrow> bool" where
  "holds_key x a sk \<longleftrightarrow> authority_pubkey a = ed_public x sk \<and> (\<forall>m t. sig_hex (attest x a m t) = hex (ed_sign x sk m))"

lemma configured_holds_key: "holds_key x (configured_attestor x k) (lk_seed k)"
  by (simp add: holds_key_def configured_attestor_def new_attestor_def authority_pubkey_def attest_def key_provider_of_def
      new_static_key_def crypto_sign_def)

lemma in_process_holds_key: "holds_key x (new_attestor x None sk) sk"
  by (simp add: holds_key_def new_attestor_def generate_keypair_def authority_pubkey_def attest_def crypto_sign_def)

section \<open>What is loaded\<close>

lemma from_seed_hex_length: "from_seed_hex s = Inr k \<Longrightarrow> length k = 32"
  by (auto simp: from_seed_hex_def rbind_Inr_iff split: if_splits)

lemma attempt_Inr: "attempt r next = Inr k \<Longrightarrow> r = Inr (Ed25519Key k) \<or> next = Inr k"
  by (auto simp: attempt_def split: sum.splits private_key_object.splits if_splits)

text \<open>A configured key does not depend on what generation would draw: only an ephemeral one does.\<close>

lemma load_configured:
  assumes "load_signing_key ld entropy env = Inr k"
  shows "lk_ephemeral k \<longleftrightarrow> strip (env_get env ''CAPSULE_ANCHOR_SIGNING_KEY'' []) = [] \<and>
      strip (env_get env ''CAPSULE_ANCHOR_SIGNING_KEY_FILE'' []) = []"
    and "\<not> lk_ephemeral k \<Longrightarrow> load_signing_key ld entropy' env = Inr k"
    and "lk_ephemeral k \<Longrightarrow> lk_seed k = entropy"
  using assms by (auto simp: load_signing_key_def Let_def rbind_Inr_iff split: if_splits)

lemma load_source:
  assumes "load_signing_key ld entropy env = Inr k"
  shows "lk_source k \<in> {''env'', ''generated''} \<or> (\<exists>path. lk_source k = ''file:'' @ path)"
  using assms by (auto simp: load_signing_key_def Let_def rbind_Inr_iff split: if_splits)

lemma configured_attestor_simps [simp]:
  "authority_pubkey (configured_attestor x k) = ed_public x (lk_seed k)"
  "attestor_key_id x (configured_attestor x k) = take 16 (sha256_hex (ed_public x (lk_seed k)))"
  by (simp_all add: configured_attestor_def new_attestor_def authority_pubkey_def attestor_key_id_def key_provider_of_def
      new_static_key_def)

lemma configured_attestor_ok: "ed25519_ok x \<Longrightarrow> attestor_ok x (configured_attestor x k)"
  by (simp add: attestor_ok_def configured_attestor_def new_attestor_def attest_def attestor_verify_def key_provider_of_def
      provider_verify_def new_static_key_def crypto_sign_def crypto_verify_def ed25519_ok_def)

text \<open>The hex form of a seed, as operators store it, loads as that key.\<close>

lemma hex_not_space:
  assumes "c \<in> set (hex b)"
  shows "\<not> is_space c"
proof -
  have digits: "list_all (\<lambda>n. \<not> is_space (hex_digit n)) [0..<16]"
    by (simp add: hex_digit_def hex_digits_def is_space_def upt_conv_Cons)
  from assms obtain x :: byte where "c = hex_digit (unat x div 16) \<or> c = hex_digit (unat x mod 16)"
    by (auto simp: hex_def hex_byte_def)
  then show ?thesis using digits unat_byte_div [of x] by (auto simp: list_all_iff)
qed

lemma strip_hex [simp]: "strip (hex b) = hex b"
proof -
  have "dropWhile is_space cs = cs" if "set cs = set (hex b)" for cs
    using that hex_not_space [of _ b] by (cases cs) auto
  then show ?thesis by (simp add: strip_def)
qed

lemma seed_roundtrip:
  assumes "length k = 32"
  shows "load_signing_key ld entropy (env(''CAPSULE_ANCHOR_SIGNING_KEY'' \<mapsto> signing_key_seed_hex k)) =
    Inr \<lparr>lk_seed = k, lk_source = ''env'', lk_ephemeral = False\<rparr>"
proof -
  have "hex k \<noteq> []" using assms length_hex [of k] by (metis length_0_conv mult_eq_0_iff zero_neq_numeral)
  then show ?thesis
    using assms by (simp add: load_signing_key_def env_get_def signing_key_seed_hex_def from_seed_hex_def rbind_def)
qed

end
