(* ===== verification/CountersignProps.thy ===== *)
theory CountersignProps
  imports Countersign SigningKey
begin

text \<open>
  What the countersign module guarantees: only an enrolled issuer's withheld bundle is countersigned, the
  entry it hands out verifies, a bundle's state is its best entry's, and the statement repeats what the
  checks established. The last section has what goes wrong when a webhook is refused.
\<close>

section \<open>Acceptance\<close>

lemma parse_bundle_accepted:
  assumes "parse_bundle lib raw = Inr b"
  shows "raw = JObj (bd_raw b)" "aac_digest lib raw = Inr (bd_digest b)"
    "map_of (bd_raw b) ''disclosures'' = None"
    "\<exists>c. bundle_dict b ''completeness'' = Some c \<and> map_of c ''payloads_mode'' = Some (JStr ''none'')"
  using assms unfolding parse_bundle_def
  by (auto simp: bundle_dict_def split: json.splits if_splits option.splits sum.splits)

lemma accepted:
  assumes "accept_bundle x lib raw iss rid rkey rsig = Inr b"
  obtains key sg where "parse_bundle lib raw = Inr b" "map_of iss rid = Some key" "lower rkey = hex key"
    "length key = 32" "fromhex rsig = Inr sg" "ed_verify x key sg (ascii_bytes (bd_digest b))"
proof -
  obtain c where c: "parse_bundle lib raw = Inr c" using assms by (cases "parse_bundle lib raw") (auto simp: accept_bundle_def)
  obtain key where key: "map_of iss rid = Some key" "hex key = lower rkey"
    using assms c by (auto simp: accept_bundle_def split: option.splits if_splits)
  obtain sg where "fromhex rsig = Inr sg" using assms c key by (cases "fromhex rsig") (auto simp: accept_bundle_def)
  with assms c key that show thesis by (auto simp: accept_bundle_def split: if_splits)
qed

lemma admitted_accepted:
  assumes "admitted st data = Inr (q, b, policy, a, signer_id)"
  shows "ct_parse st data = Some q" "ct_service st = Some a" "length data \<le> max_statement_bytes"
    "accept_bundle (ct_ext st) (ct_aac st) (cq_bundle q) (ct_issuers st) (cq_requester_id q)
      (cq_requester_key_id q) (cq_signature q) = Inr b"
  using assms unfolding admitted_def
  by (auto simp: rbind_Inr_iff split: if_splits option.splits sum.splits)

lemma register_cases:
  assumes "register st resolve now tick data s = (r, t)"
  obtains (refused) e where "r = Inl e" "ca_svc t = ca_svc s"
  | (run) q b policy a signer_id where "admitted st data = Inr (q, b, policy, a, signer_id)"
      "countersign_admitted st resolve now q b policy a signer_id (ca_svc s) = (r, ca_svc t)"
proof -
  obtain ok l where l: "is_allowed ''global'' tick (ca_limiter s) = (ok, l)"
    by (cases "is_allowed ''global'' tick (ca_limiter s)")
  show thesis
  proof (cases "admitted st data")
    case (Inl e)
    then show thesis using assms refused by (auto simp: register_def l Let_def split: if_splits)
  next
    case (Inr y)
    obtain q b policy a signer_id where y: "y = (q, b, policy, a, signer_id)" by (cases y)
    show thesis
      using assms refused run [of q b policy a signer_id] Inr y
      by (auto simp: register_def l Let_def split: if_splits prod.splits)
  qed
qed

lemma canonical_or_refused_simps: "canonical_or_refused (Inr y) = Inr y"
    "canonical_or_refused (Inl e) = Inl StatementRefused"
  by (simp_all add: canonical_or_refused_def)

lemma sign_cases:
  assumes "sign_countersignature x a lib now b s signer_id rkey u = (r, t)"
  obtains (refused) e where "r = Inl e" "t = u"
  | (failed) e d where "r = Inl e" "register_signed_statement_full x a (\<lambda>i. now (Suc i)) d None None u = (Inl e, t)"
  | (signed) msg stm reg where "r = Inr (signed_entry (JObj [(''id'', JStr signer_id),
        (''key_id'', JStr (hex (authority_pubkey (an_attestor a))))]) (bd_digest b) (wire_dict lib s)
        (sig_hex (attest x (an_attestor a) msg (now 0)))
        (lower (hex (authority_pubkey (an_attestor a))) \<noteq> lower rkey) reg, reg)"
      "countersign_signing_input lib (JStr (bd_digest b)) (JObj [(''id'', JStr signer_id),
        (''key_id'', JStr (hex (authority_pubkey (an_attestor a))))]) (wire_dict lib s) (JStr entry_type) = Inr msg"
      "canonical_bytes lib s = Inr stm"
      "register_signed_statement_full x a (\<lambda>i. now (Suc i)) (sha256 stm) None None u = (Inr reg, t)"
proof -
  let ?signer = "JObj [(''id'', JStr signer_id), (''key_id'', JStr (hex (authority_pubkey (an_attestor a))))]"
  let ?input = "countersign_signing_input lib (JStr (bd_digest b)) ?signer (wire_dict lib s) (JStr entry_type)"
  show thesis
  proof (cases ?input)
    case (Inl e)
    then show thesis
      using assms refused by (auto simp: sign_countersignature_def canonical_or_refused_simps op_bind_def op_lift_def Let_def)
  next
    case msg: (Inr msg)
    show thesis
    proof (cases "canonical_bytes lib s")
      case (Inl e)
      then show thesis using assms refused msg
        by (auto simp: sign_countersignature_def canonical_or_refused_simps op_bind_def op_lift_def Let_def)
    next
      case stm: (Inr stm)
      obtain r' t' where reg: "register_signed_statement_full x a (\<lambda>i. now (Suc i)) (sha256 stm) None None u = (r', t')"
        by (cases "register_signed_statement_full x a (\<lambda>i. now (Suc i)) (sha256 stm) None None u")
      have "(r, t) = (case r' of Inl e \<Rightarrow> (Inl e, t') | Inr g \<Rightarrow> (Inr (signed_entry ?signer (bd_digest b) (wire_dict lib s)
          (sig_hex (attest x (an_attestor a) msg (now 0)))
          (lower (hex (authority_pubkey (an_attestor a))) \<noteq> lower rkey) g, g), t'))"
        using assms msg stm reg
        by (simp add: sign_countersignature_def canonical_or_refused_simps op_bind_def op_lift_def op_return_def Let_def
            split: sum.splits)
      then show thesis using failed [of _ "sha256 stm"] signed [OF _ msg stm] reg by (cases r') auto
    qed
  qed
qed

lemma countersign_admitted_cases:
  assumes "countersign_admitted st resolve now q b policy a signer_id s = (r, t)"
  obtains (unstated) e where "r = Inl (ServerError e)" "t = s"
  | (unsigned) stmt e where "sign_countersignature (ct_ext st) a (ct_aac st) (\<lambda>i. now (Suc i)) b stmt signer_id
        (cq_requester_key_id q) s = (Inl e, t)" "r = Inl (catch_sign e)"
  | (signed) stmt entry reg where "recompute_statement (ct_aac st) b policy (cq_requester_id q)
        (case cq_profile_id q of None \<Rightarrow> [] | Some p \<Rightarrow> p) (now 0) = Inr stmt"
      "sign_countersignature (ct_ext st) a (ct_aac st) (\<lambda>i. now (Suc i)) b stmt signer_id (cq_requester_key_id q) s
        = (Inr (entry, reg), t)"
      "r = rbind (webhook_task st resolve q entry (rg_entry_hash reg)) (\<lambda>task. Inr (entry, task))"
  using assms unfolding countersign_admitted_def by (auto split: sum.splits prod.splits)

lemma webhook_task_refused:
  assumes "webhook_task st resolve q entry h = Inl e"
  shows "some_text (cq_webhook_url q) \<and> some_text (cq_webhook_secret q) \<and>
    (\<exists>x. validate_webhook_url (ct_env st) resolve (the (cq_webhook_url q)) = Inl x)"
  using assms by (auto simp: webhook_task_def split: if_splits sum.splits)

text \<open>An answered request, with everything that stands behind the entry.\<close>

lemma registered:
  assumes "register st resolve now tick data s = (Inr (entry, task), t)"
  obtains q b policy a signer_id stmt reg where "admitted st data = Inr (q, b, policy, a, signer_id)"
    "recompute_statement (ct_aac st) b policy (cq_requester_id q)
      (case cq_profile_id q of None \<Rightarrow> [] | Some p \<Rightarrow> p) (now 0) = Inr stmt"
    "sign_countersignature (ct_ext st) a (ct_aac st) (\<lambda>i. now (Suc (i))) b stmt signer_id (cq_requester_key_id q) (ca_svc s)
      = (Inr (entry, reg), ca_svc t)"
    "webhook_task st resolve q entry (rg_entry_hash reg) = Inr task"
  using assms
proof (cases rule: register_cases)
  case (run q b policy a signer_id)
  from run(2) show thesis
  proof (cases rule: countersign_admitted_cases)
    case (signed stmt entry' reg)
    have "entry' = entry" "webhook_task st resolve q entry' (rg_entry_hash reg) = Inr task"
      using signed(3) by (auto simp: rbind_def split: sum.splits)
    with signed(1,2) that [OF run(1)] show thesis by simp
  qed simp_all
qed simp

lemma sign_moves:
  assumes "sign_countersignature x a lib now b s signer_id rkey u = (r, t)"
  shows "run x a u t"
  using assms by (cases rule: sign_cases) (auto intro: run_refl run_step [OF run_refl call_step] statement_call)

text \<open>Every request to the route moves the service along a run of its operations.\<close>

lemma register_run:
  assumes "register st resolve now tick data s = (r, t)" "ct_service st = Some a"
  shows "run (ct_ext st) a (ca_svc s) (ca_svc t)"
  using assms(1)
proof (cases rule: register_cases)
  case (run q b policy a' signer_id)
  then have a: "a' = a" using admitted_accepted(2) [OF run(1)] assms(2) by simp
  from run(2) show ?thesis by (cases rule: countersign_admitted_cases) (auto simp: a intro: run_refl sign_moves)
qed (auto intro: run_refl)

text \<open>A request that is not answered, and whose webhook is not what is refused, registers nothing.\<close>

lemma sign_refused:
  assumes "store_inv x (an_attestor a) (store u)" "env_ok x a"
    "sign_countersignature x a lib now b s signer_id rkey u = (Inl e, t)"
  shows "store t = store u"
  using assms(3)
proof (cases rule: sign_cases)
  case (failed e' d)
  from assms(1,2) failed(2) show ?thesis by (cases rule: register_full_cases) auto
qed auto

section \<open>Properties\<close>

text \<open>C14: an entry is handed out only for a withheld bundle of an enrolled issuer: the requester's id is
  enrolled with the key the request names, that key signed the bundle's digest, the bundle discloses no
  payload, and the digest of the statement the entry carries is registered in the log, at the place and
  under the entry hash its receipt says (the hash of the digest, unless the digest is itself a COSE message).\<close>

theorem countersigns_only_enrolled:
  assumes "register st resolve now tick data s = (Inr (entry, task), t)" "ct_service st = Some a"
    and "reachable (ct_ext st) a (ca_svc s)" "env_ok (ct_ext st) a"
  shows "\<exists>q b key sg (rg :: registration) e statement d. ct_parse st data = Some q \<and> parse_bundle (ct_aac st) (cq_bundle q) = Inr b \<and>
    map_of (ct_issuers st) (cq_requester_id q) = Some key \<and> lower (cq_requester_key_id q) = hex key \<and>
    fromhex (cq_signature q) = Inr sg \<and> ed_verify (ct_ext st) key sg (ascii_bytes (bd_digest b)) \<and>
    map_of (bd_raw b) ''disclosures'' = None \<and>
    entry = JObj e \<and> map_of e ''over'' = Some (JStr (bd_digest b)) \<and>
    map_of e ''statement'' = Some statement \<and> aac_jcs (ct_aac st) statement = Inr d \<and>
    (compute_entry_hash (ct_ext st) (sha256 d) = (sha256_hex (sha256 d), SchemeLegacy) \<longrightarrow>
      rg_entry_hash rg = sha256_hex (sha256 d)) \<and>
    map_of e ''receipt'' = Some (JObj [(''receipt_b64'', JStr (b64encode (rg_receipt rg))),
      (''entry_hash'', JStr (rg_entry_hash rg)), (''leaf_index'', JInt (rg_leaf_index rg)), (''tree_size'', JInt (rg_tree_size rg))]) \<and>
    get_statement (rg_entry_hash rg) (store (ca_svc t)) = Some (rg_receipt rg, rg_leaf_index rg, rg_tree_size rg) \<and>
    scitt_at (m_log (store (ca_svc t))) (rg_leaf_index rg) (rg_entry_hash rg)"
proof -
  obtain q b policy a' signer_id stmt rg where adm: "admitted st data = Inr (q, b, policy, a', signer_id)"
    and sign: "sign_countersignature (ct_ext st) a' (ct_aac st) (\<lambda>i. now (Suc i)) b stmt signer_id (cq_requester_key_id q)
      (ca_svc s) = (Inr (entry, rg), ca_svc t)"
    by (rule registered [OF assms(1)])
  note acc = admitted_accepted [OF adm]
  have a: "a' = a" using acc(2) assms(2) by simp
  obtain key sg where req: "parse_bundle (ct_aac st) (cq_bundle q) = Inr b" "map_of (ct_issuers st) (cq_requester_id q) = Some key"
    "lower (cq_requester_key_id q) = hex key" "length key = 32" "fromhex (cq_signature q) = Inr sg"
    "ed_verify (ct_ext st) key sg (ascii_bytes (bd_digest b))" by (rule accepted [OF acc(4)])
  note inv = reachable_inv [OF assms(3,4)]
  have inv': "store_inv (ct_ext st) (an_attestor a) (store (ca_svc t))"
    using reachable_inv [OF reachable_run [OF assms(3) register_run [OF assms(1,2)]] assms(4)] .
  from sign [unfolded a] show ?thesis
  proof (cases rule: sign_cases)
    case (signed msg stm reg)
    note kept = register_receipt_kept [OF inv assms(4) signed(4)]
    note hash = legacy_entry_hash [OF inv assms(4) signed(4)]
    have at: "scitt_at (m_log (store (ca_svc t))) (rg_leaf_index reg) (rg_entry_hash reg)"
      using statement_served [OF inv' kept] by simp
    obtain e where e: "entry = JObj e" "map_of e ''over'' = Some (JStr (bd_digest b))"
        "map_of e ''statement'' = Some (wire_dict (ct_aac st) stmt)"
        "map_of e ''receipt'' = Some (JObj [(''receipt_b64'', JStr (b64encode (rg_receipt reg))),
          (''entry_hash'', JStr (rg_entry_hash reg)), (''leaf_index'', JInt (rg_leaf_index reg)),
          (''tree_size'', JInt (rg_tree_size reg))])"
      using signed(1) by (simp add: signed_entry_def)
    have stm: "aac_jcs (ct_aac st) (wire_dict (ct_aac st) stmt) = Inr stm" using signed(3) by (simp add: canonical_bytes_def)
    show ?thesis
      by (intro exI conjI, rule acc(1), rule req(1), rule req(2), rule req(3), rule req(5), rule req(6),
        rule parse_bundle_accepted(3) [OF req(1)], rule e(1), rule e(2), rule e(3), rule stm, rule impI, erule hash,
        rule e(4), rule kept, rule at)
  qed simp_all
qed

lemma lower_hex [simp]: "lower (hex b) = hex b"
proof -
  have "lower_char c = c" if "c \<in> set (hex b)" for c
  proof -
    from that obtain x :: byte where "c = hex_digit (unat x div 16) \<or> c = hex_digit (unat x mod 16)"
      by (auto simp: hex_def hex_byte_def)
    then show ?thesis using unat_byte_div [of x] by (auto simp: lower_hex_digit(1))
  qed
  then show ?thesis by (simp add: lower_def map_idI)
qed

lemma hex_alphabet: "list_all (\<lambda>c. c \<in> set hex_digits) (hex b)"
proof -
  have "hex_digit (unat x div 16) \<in> set hex_digits" "hex_digit (unat x mod 16) \<in> set hex_digits" for x :: byte
    using unat_byte_div [of x] unfolding hex_digits_def by (intro lower_hex_digit(3); simp)+
  then show ?thesis by (auto simp: list_all_iff hex_def hex_byte_def)
qed

text \<open>The entry signed with a key verifies over its bundle.\<close>

lemma signed_entry_valid:
  assumes "aac_digest lib (JObj (bd_raw b)) = Inr (bd_digest b)" "ed25519_ok x" "length (ed_public x sk) = 32"
    "length (ed_sign x sk msg) = 64"
    "countersign_signing_input lib (JStr (bd_digest b)) (JObj [(''id'', JStr sid), (''key_id'', JStr (hex (ed_public x sk)))])
      stm (JStr entry_type) = Inr msg"
  shows "verify_entry x lib b (signed_entry (JObj [(''id'', JStr sid), (''key_id'', JStr (hex (ed_public x sk)))])
      (bd_digest b) stm (hex (ed_sign x sk msg)) ind reg) ps dir =
    Inr (if hex (ed_public x sk) \<in> set (map lower ps) then SelfCountersigned
      else if hex (ed_public x sk) \<notin> set (map lower dir) then UnresolvedSigner else Countersigned)"
proof -
  have "signature_hex (hex (ed_sign x sk msg))" "key_hex (hex (ed_public x sk))"
    using assms(3,4) hex_alphabet by (simp_all add: signature_hex_def key_hex_def)
  moreover have "ed_verify x (ed_public x sk) (ed_sign x sk msg) msg" using assms(2) by (simp add: ed25519_ok_def)
  ultimately show ?thesis
    using assms(1,5) by (simp add: verify_entry_def signed_entry_def compute_bundle_digest_def signature_valid_def entry_key_def
        rbind_def entry_type_def)
qed

text \<open>C15: the entry handed out by an authority that signs with one Ed25519 key, in process or through the key provider
  the application installs, verifies over the bundle that was submitted, and stands where its key does: it counts as
  a countersignature for whoever finds the authority's key in the directory and not among the producer's own, and
  its \<open>independent\<close> flag is that answer for the requester's key.\<close>

theorem entry_verifies:
  assumes "register st resolve now tick data s = (Inr (entry, task), t)" "ct_service st = Some a"
    and "holds_key (ct_ext st) (an_attestor a) sk" "ed25519_ok (ct_ext st)"
    and "length (ed_public (ct_ext st) sk) = 32" "\<And>m. length (ed_sign (ct_ext st) sk m) = 64"
  shows "\<exists>q b e. ct_parse st data = Some q \<and> parse_bundle (ct_aac st) (cq_bundle q) = Inr b \<and> entry = JObj e \<and>
    (\<forall>producer directory. verify_entry (ct_ext st) (ct_aac st) b entry producer directory =
      Inr (if hex (ed_public (ct_ext st) sk) \<in> set (map lower producer) then SelfCountersigned
        else if hex (ed_public (ct_ext st) sk) \<notin> set (map lower directory) then UnresolvedSigner else Countersigned)) \<and>
    map_of e ''independent'' = Some (JBool (verify_entry (ct_ext st) (ct_aac st) b entry
      [cq_requester_key_id q] [hex (ed_public (ct_ext st) sk)] = Inr Countersigned))"
proof -
  obtain q b policy a' signer_id stmt rg where adm: "admitted st data = Inr (q, b, policy, a', signer_id)"
    and sign: "sign_countersignature (ct_ext st) a' (ct_aac st) (\<lambda>i. now (Suc i)) b stmt signer_id (cq_requester_key_id q)
      (ca_svc s) = (Inr (entry, rg), ca_svc t)"
    by (rule registered [OF assms(1)])
  note acc = admitted_accepted [OF adm]
  have a: "a' = a" using acc(2) assms(2) by simp
  obtain key sg where parse: "parse_bundle (ct_aac st) (cq_bundle q) = Inr b" by (rule accepted [OF acc(4)])
  have digest: "aac_digest (ct_aac st) (JObj (bd_raw b)) = Inr (bd_digest b)" using parse_bundle_accepted(1,2) [OF parse] by simp
  have at: "authority_pubkey (an_attestor a) = ed_public (ct_ext st) sk"
      "sig_hex (attest (ct_ext st) (an_attestor a) m n) = hex (ed_sign (ct_ext st) sk m)" for m n
    using assms(3) by (simp_all add: holds_key_def)
  from sign [unfolded a] show ?thesis
  proof (cases rule: sign_cases)
    case (signed msg stm reg)
    have e: "entry = signed_entry (JObj [(''id'', JStr signer_id), (''key_id'', JStr (hex (ed_public (ct_ext st) sk)))])
      (bd_digest b) (wire_dict (ct_aac st) stmt) (hex (ed_sign (ct_ext st) sk msg))
      (hex (ed_public (ct_ext st) sk) \<noteq> lower (cq_requester_key_id q)) reg"
      using signed(1) by (simp add: at)
    have valid: "verify_entry (ct_ext st) (ct_aac st) b entry ps dir =
      Inr (if hex (ed_public (ct_ext st) sk) \<in> set (map lower ps) then SelfCountersigned
        else if hex (ed_public (ct_ext st) sk) \<notin> set (map lower dir) then UnresolvedSigner else Countersigned)" for ps dir
      unfolding e by (rule signed_entry_valid [OF digest assms(4,5,6) signed(2) [unfolded at(1)]])
    obtain kvs where kvs: "entry = JObj kvs"
        "map_of kvs ''independent'' = Some (JBool (hex (ed_public (ct_ext st) sk) \<noteq> lower (cq_requester_key_id q)))"
      unfolding e by (simp add: signed_entry_def)
    show ?thesis
      by (intro exI conjI allI, rule acc(1), rule parse, rule kvs(1), rule valid) (simp add: valid kvs(2))
  qed simp_all
qed

section \<open>The state of a bundle\<close>

lemma best_state_rank: "sts \<noteq> [] \<Longrightarrow> best_state sts \<in> set sts \<and> (\<forall>st \<in> set sts. entry_rank st \<le> entry_rank (best_state sts))"
  by (induction sts rule: best_state.induct) (auto simp: Let_def)

lemma verify_entry_states: "verify_entry x lib b e ps dir = Inr st \<Longrightarrow> st \<noteq> Witnessed \<and> st \<noteq> SelfAttested"
  by (auto simp: verify_entry_def rbind_Inr_iff split: json.splits if_splits option.splits)

lemma verify_entry_total:
  "aac_digest lib (JObj (bd_raw b)) = Inr d \<Longrightarrow> \<exists>st. verify_entry x lib b e ps dir = Inr st"
  by (auto simp: verify_entry_def compute_bundle_digest_def rbind_def split: json.splits option.splits)

lemma entry_rank_inj:
  "entry_rank st = entry_rank st' \<Longrightarrow> st \<notin> {Witnessed, SelfAttested} \<Longrightarrow> st' \<notin> {Witnessed, SelfAttested} \<Longrightarrow> st = st'"
  by (cases st; cases st') (auto simp: entry_rank_def)

text \<open>C16: the state of a bundle is the best of its entries' states, whatever their order or number: it is
  countersigned exactly when some entry verifies as such, so no other entry hides or forges it, and only a
  bundle without entries is witnessed or self-attested.\<close>

theorem best_entry_wins:
  assumes "parse_bundle lib raw = Inr b" "es \<noteq> []"
  shows "\<exists>st. resolve_entry_state x lib b es ps dir = Inr st \<and> st \<noteq> Witnessed \<and> st \<noteq> SelfAttested \<and>
    (\<exists>e \<in> set es. verify_entry x lib b e ps dir = Inr st) \<and>
    (\<forall>e \<in> set es. \<exists>st'. verify_entry x lib b e ps dir = Inr st' \<and> entry_rank st' \<le> entry_rank st) \<and>
    (st = Countersigned \<longleftrightarrow> (\<exists>e \<in> set es. verify_entry x lib b e ps dir = Inr Countersigned)) \<and>
    (\<forall>es'. set es' = set es \<longrightarrow> resolve_entry_state x lib b es' ps dir = Inr st)"
proof -
  have "aac_digest lib (JObj (bd_raw b)) = Inr (bd_digest b)" using parse_bundle_accepted(1,2) [OF assms(1)] by simp
  then have "\<forall>e. \<exists>st. verify_entry x lib b e ps dir = Inr st" by (intro allI verify_entry_total)
  from choice [OF this] obtain f where f: "\<And>e. verify_entry x lib b e ps dir = Inr (f e)" by blast
  have plain: "f e \<notin> {Witnessed, SelfAttested}" for e using verify_entry_states [OF f] by simp
  have res: "resolve_entry_state x lib b es' ps dir = Inr (best_state (map f es'))" if "es' \<noteq> []" for es'
    using that f rmap_Inr [of es' "\<lambda>e. verify_entry x lib b e ps dir" f] by (simp add: resolve_entry_state_def rbind_def)
  have best: "best_state (map f es') \<in> f ` set es'" "\<forall>e \<in> set es'. entry_rank (f e) \<le> entry_rank (best_state (map f es'))"
    if "es' \<noteq> []" for es' using best_state_rank [of "map f es'"] that by auto
  have member: "\<exists>e \<in> set es'. best_state (map f es') = f e" if "es' \<noteq> []" for es' using best(1) [OF that] by blast
  have same: "best_state (map f es') = best_state (map f es)" if es': "set es' = set es" for es'
  proof -
    have ne: "es' \<noteq> []" using es' assms(2) by auto
    obtain e e' where e: "e \<in> set es" "best_state (map f es) = f e" "e' \<in> set es" "best_state (map f es') = f e'"
      using member [OF assms(2)] member [OF ne] es' by auto
    have "entry_rank (f e') = entry_rank (f e)"
      using best(2) [OF assms(2)] best(2) [OF ne] e es' by (intro antisym) auto
    then show ?thesis using entry_rank_inj [OF _ plain plain] e by simp
  qed
  have top: "entry_rank st \<le> entry_rank Countersigned" for st by (cases st) (simp_all add: entry_rank_def)
  have counter: "best_state (map f es) = Countersigned" if e: "e \<in> set es" "f e = Countersigned" for e
  proof -
    obtain e' where e': "best_state (map f es) = f e'" using member [OF assms(2)] by blast
    have "entry_rank (f e') = entry_rank Countersigned" using best(2) [OF assms(2)] e e' top by (intro antisym) force+
    then show ?thesis using entry_rank_inj [OF _ plain] e' by simp
  qed
  obtain e where e: "e \<in> set es" "best_state (map f es) = f e" using member [OF assms(2)] by blast
  have again: "resolve_entry_state x lib b es' ps dir = Inr (f e)" if "set es' = set es" for es'
  proof -
    have "es' \<noteq> []" using that assms(2) by auto
    from res [OF this] same [OF that] e(2) show ?thesis by simp
  qed
  have "f e = Countersigned \<longleftrightarrow> (\<exists>e' \<in> set es. f e' = Countersigned)" using counter e by auto
  moreover have "\<forall>e' \<in> set es. entry_rank (f e') \<le> entry_rank (f e)" using best(2) [OF assms(2)] e(2) by simp
  ultimately show ?thesis
    using e(1) plain [of e] again by (intro exI [of _ "f e"]) (simp add: f, blast)
qed

section \<open>What a statement says\<close>

lemma range_established:
  "range_membership lib b = Inr c \<Longrightarrow> ch_result c = Established \<longleftrightarrow>
    bundle_records b \<noteq> [] \<and> bundle_dict b ''completeness_certificate'' \<noteq> None \<and> bundle_dict b ''checkpoint'' \<noteq> None \<and>
    (\<exists>v. aac_verify lib (JObj (bd_raw b)) = Inr v \<and> cv_status (bv_membership v) \<notin> {''fail'', ''withheld''} \<and>
      cv_findings (bv_membership v) = [])"
  by (auto simp: range_membership_def Let_def rbind_Inr_iff split: if_splits)

lemma range_failed:
  "range_membership lib b = Inr c \<Longrightarrow> ch_result c = Failed \<Longrightarrow>
    \<exists>v. aac_verify lib (JObj (bd_raw b)) = Inr v \<and> cv_status (bv_membership v) = ''fail''"
  by (auto simp: range_membership_def Let_def rbind_Inr_iff split: if_splits)

lemma profile_established:
  assumes "profile_conformance b p policy = Inr c" "policy b p = Inr own"
  shows "ch_result c = Established \<longleftrightarrow> action_kinds b \<noteq> [] \<and> set (action_kinds b) \<subseteq> ch_name ` set own"
    and "ch_result c \<noteq> Failed"
  using assms by (auto simp: profile_conformance_def Let_def rbind_Inr_iff filter_empty_conv split: if_splits)

text \<open>A statement repeats the checks and adds nothing: the five generic ones in order, then the policy
  module's own verdicts unchanged. Range membership is established only when the library verified every
  record without a finding, and fails only when it found a failure; profile conformance is established only
  when the module has a check for every kind of action; the three checks without evidence are not present.\<close>

theorem statement_repeats_checks:
  assumes "recompute_statement lib b policy ledger profile now = Inr stmt"
  shows "\<exists>rng prof own. cm_checks stmt = [chain_consistency, rng, cadence, key_hygiene, prof] @ own \<and>
    policy b profile = Inr own \<and>
    (ch_result rng = Established \<longleftrightarrow> bundle_records b \<noteq> [] \<and> bundle_dict b ''completeness_certificate'' \<noteq> None \<and>
      bundle_dict b ''checkpoint'' \<noteq> None \<and> (\<exists>v. aac_verify lib (JObj (bd_raw b)) = Inr v \<and>
        cv_status (bv_membership v) \<notin> {''fail'', ''withheld''} \<and> cv_findings (bv_membership v) = [])) \<and>
    (ch_result rng = Failed \<longrightarrow> (\<exists>v. aac_verify lib (JObj (bd_raw b)) = Inr v \<and> cv_status (bv_membership v) = ''fail'')) \<and>
    (ch_result prof = Established \<longleftrightarrow> action_kinds b \<noteq> [] \<and> set (action_kinds b) \<subseteq> ch_name ` set own) \<and>
    ch_result prof \<noteq> Failed \<and> (\<forall>c \<in> {chain_consistency, cadence, key_hygiene}. ch_result c = NotPresent) \<and>
    cm_ledger_id stmt = ledger \<and> cm_closure_depth stmt = closure_depth b \<and> cm_recomputed_at stmt = now"
proof -
  obtain rng prof own where parts: "range_membership lib b = Inr rng" "profile_conformance b profile policy = Inr prof"
    "policy b profile = Inr own"
    "stmt = \<lparr>cm_checks = [chain_consistency, rng, cadence, key_hygiene, prof] @ own, cm_exclusions = exclusions,
       cm_ledger_id = ledger, cm_closure_depth = closure_depth b, cm_recomputed_at = now\<rparr>"
    using assms by (auto simp: recompute_statement_def rbind_Inr_iff)
  show ?thesis
    by (intro exI conjI, subst parts(4), simp, rule parts(3), rule range_established [OF parts(1)], rule impI,
        rule range_failed [OF parts(1)], assumption, rule profile_established(1) [OF parts(2,3)],
        rule profile_established(2) [OF parts(2,3)])
      (simp_all add: parts(4) chain_consistency_def cadence_def key_hygiene_def)
qed

section \<open>Refusals\<close>

text \<open>C17: a request that is refused registers nothing, with one exception: a request whose webhook is
  refused has been signed and registered before it is answered with 422.\<close>

theorem refusal_registers_nothing:
  assumes "register st resolve now tick data s = (Inl (HttpError n), t)" "ct_service st = Some a"
    and "reachable (ct_ext st) a (ca_svc s)" "env_ok (ct_ext st) a"
  shows "store (ca_svc t) = store (ca_svc s) \<or> n = 422 \<and>
    (\<exists>q. ct_parse st data = Some q \<and> some_text (cq_webhook_url q) \<and> some_text (cq_webhook_secret q) \<and>
      (\<exists>e. validate_webhook_url (ct_env st) resolve (the (cq_webhook_url q)) = Inl e))"
  using assms(1)
proof (cases rule: register_cases)
  case (run q b policy a' signer_id)
  note acc = admitted_accepted [OF run(1)]
  have a: "a' = a" using acc(2) assms(2) by simp
  from run(2) show ?thesis
  proof (cases rule: countersign_admitted_cases)
    case (unsigned stmt e)
    from sign_refused [OF reachable_inv [OF assms(3,4)] assms(4) unsigned(1) [unfolded a]] show ?thesis ..
  next
    case (signed stmt entry reg)
    then have w: "webhook_task st resolve q entry (rg_entry_hash reg) = Inl (HttpError n)"
      by (auto simp: rbind_def split: sum.splits)
    then have "n = 422" by (auto simp: webhook_task_def split: if_splits sum.splits)
    with webhook_task_refused [OF w] acc(1) show ?thesis by blast
  qed simp
qed simp

text \<open>The exception: had the same request no webhook, it would be answered with the entry and the same state.\<close>

theorem refused_webhook_is_registered:
  assumes "ct_parse st data = Some q" "ct_parse st data' = Some (q\<lparr>cq_webhook_url := None\<rparr>)" "length data \<le> max_statement_bytes"
    and "register st resolve now tick data' s = (Inr (entry, task), t)"
    and "some_text (cq_webhook_url q)" "some_text (cq_webhook_secret q)"
    and "validate_webhook_url (ct_env st) resolve (the (cq_webhook_url q)) = Inl WebhookURLRefused"
  shows "register st resolve now tick data s = (Inl (HttpError 422), t)"
proof -
  obtain ok l where l: "is_allowed ''global'' tick (ca_limiter s) = (ok, l)"
    by (cases "is_allowed ''global'' tick (ca_limiter s)")
  obtain b policy a signer_id where adm: "admitted st data' = Inr (q\<lparr>cq_webhook_url := None\<rparr>, b, policy, a, signer_id)"
    and reg: "countersign_admitted st resolve now (q\<lparr>cq_webhook_url := None\<rparr>) b policy a signer_id (ca_svc s) =
      (Inr (entry, task), ca_svc t)" and t: "ok" "t = s\<lparr>ca_limiter := l, ca_svc := ca_svc t\<rparr>"
    using assms(2,4) unfolding register_def l Let_def
    by (cases "admitted st data'") (auto simp: admitted_accepted(1) split: if_splits prod.splits dest: admitted_accepted(1))
  have "admitted st data = Inr (q, b, policy, a, signer_id)"
    using adm assms(1,2,3) unfolding admitted_def
    by (auto simp: rbind_Inr_iff split: if_splits option.splits sum.splits)
  moreover have "countersign_admitted st resolve now q b policy a signer_id (ca_svc s) = (Inl (HttpError 422), ca_svc t)"
    using reg assms(5,6,7) unfolding countersign_admitted_def
    by (auto simp: rbind_def webhook_task_def split: sum.splits prod.splits)
  ultimately show ?thesis using t unfolding register_def l by (simp add: Let_def)
qed

section \<open>A concrete site\<close>

text \<open>A signature is the key before the digest of the payload: 64 bytes for a key of 32. The authority is as the
  application builds it, behind a key provider.\<close>

definition cs_ext :: ext where
  "cs_ext = sample_ext\<lparr>ed_sign := (\<lambda>sk m. sk @ sha256 m), ed_verify := (\<lambda>pk s m. s = pk @ sha256 m)\<rparr>"

definition cs_anchorer :: anchorer where
  "cs_anchorer = sample_anchorer\<lparr>an_attestor := configured_attestor cs_ext
     \<lparr>lk_seed = replicate 32 7, lk_source = ''env'', lk_ephemeral = False\<rparr>\<rparr>"

definition cs_lib :: aac where
  "cs_lib = \<lparr>aac_digest = (\<lambda>_. Inr ''d''),
     aac_verify = (\<lambda>_. Inr \<lparr>bv_membership = \<lparr>cv_status = ''pass'', cv_findings = []\<rparr>,
       bv_interval = \<lparr>cv_status = ''pass'', cv_findings = []\<rparr>\<rparr>),
     aac_jcs = (\<lambda>_. Inr []), aac_datetime = (\<lambda>_. [])\<rparr>"

definition cs_bundle_json :: "(string \<times> json) list" where
  "cs_bundle_json = [(''bundle_version'', JStr ''2''), (''bundle_kind'', JStr ''evidence-bundle/v2''), (''root'', JStr ''r''),
     (''completeness'', JObj [(''payloads_mode'', JStr ''none'')])]"

definition cs_sample_request :: cs_request where
  "cs_sample_request = \<lparr>cq_bundle = JObj cs_bundle_json, cq_requester_id = ''issuer'',
     cq_requester_key_id = hex (replicate 32 9), cq_signature = hex (replicate 32 9 @ sha256 (ascii_bytes ''d'')),
     cq_profile_id = None, cq_webhook_url = None, cq_webhook_secret = Some ''s''\<rparr>"

text \<open>The empty body stands for the sample request, any other for the same with a plain \<open>http\<close> webhook.\<close>

definition cs_sample_site :: cs_site where
  "cs_sample_site = \<lparr>ct_ext = cs_ext, ct_aac = cs_lib, ct_service = Some cs_anchorer, ct_registry = default_registry,
     ct_issuers = [(''issuer'', replicate 32 9)],
     ct_env = (\<lambda>k. if k = ''CAPSULE_ANCHOR_PUBLIC_HOST'' then Some ''anchor.example'' else None),
     ct_parse = (\<lambda>d. Some (if d = [] then cs_sample_request else cs_sample_request\<lparr>cq_webhook_url := Some ''http://h/''\<rparr>))\<rparr>"

definition cs_start :: cs_app where
  "cs_start = \<lparr>ca_svc = \<lparr>store = empty_store, would_refuse = []\<rparr>, ca_limiter = new_limiter 3 60\<rparr>"

lemma cs_ext_ok: "ed25519_ok cs_ext" "env_ok cs_ext cs_anchorer"
proof -
  show ed: "ed25519_ok cs_ext" by (simp add: ed25519_ok_def cs_ext_def) (simp add: sample_ext_def)
  have "sth_json_ok cs_ext" using sample_ext_json by (simp add: sth_json_ok_def cs_ext_def)
  then show "env_ok cs_ext cs_anchorer" by (simp add: env_ok_def cs_anchorer_def configured_attestor_ok [OF ed])
qed

lemma cs_accepted: "accept_bundle cs_ext cs_lib (JObj cs_bundle_json) [(''issuer'', replicate 32 9)] ''issuer''
    (hex (replicate 32 9)) (hex (replicate 32 9 @ sha256 (ascii_bytes ''d''))) = Inr \<lparr>bd_raw = cs_bundle_json, bd_digest = ''d''\<rparr>"
  by (simp add: accept_bundle_def parse_bundle_def cs_bundle_json_def cs_lib_def rbind_def is_ascii_def cs_ext_def
      del: hex_append)

lemma cs_answered: "\<exists>e t. register cs_sample_site resolve now 0 [] cs_start = (Inr (e, None), t)"
proof -
  let ?b = "\<lparr>bd_raw = cs_bundle_json, bd_digest = ''d''\<rparr>"
  have adm: "admitted cs_sample_site [] = Inr (cs_sample_request, ?b, null_policy_module, cs_anchorer, ''did:web:anchor.example'')"
    using cs_accepted by (simp add: admitted_def cs_sample_site_def cs_sample_request_def chosen_module_def some_text_def rbind_def)
  have "bundle_records ?b = []" by (simp add: bundle_records_def cs_bundle_json_def)
  then obtain stmt where stmt: "recompute_statement cs_lib ?b null_policy_module ''issuer'' [] (now 0) = Inr stmt"
    by (simp add: recompute_statement_def range_membership_def profile_conformance_def action_kinds_def null_policy_module_def
        rbind_def Let_def)
  have "json_loads_utf8 cs_ext = (\<lambda>_. Inl JSONDecodeError)" by (simp add: cs_ext_def) (simp add: sample_ext_def)
  from peek_short [OF this, of "sha256 []" cs_anchorer] obtain pk where
    "peek_statement cs_ext cs_anchorer (sha256 []) = Inr pk" "pk_checkpoint pk = None" by auto
  from register_first [OF cs_ext_ok(2) this, of "\<lambda>i. now (Suc (Suc i))" None None] obtain rg u where
    "register_signed_statement_full cs_ext cs_anchorer (\<lambda>i. now (Suc (Suc i))) (sha256 []) None None
      \<lparr>store = empty_store, would_refuse = []\<rparr> = (Inr rg, u)" by auto
  then obtain e where "sign_countersignature cs_ext cs_anchorer cs_lib (\<lambda>i. now (Suc i)) ?b stmt ''did:web:anchor.example''
      (hex (replicate 32 9)) \<lparr>store = empty_store, would_refuse = []\<rparr> = (Inr (e, rg), u)"
    by (simp add: sign_countersignature_def countersign_signing_input_def canonical_bytes_def canonical_or_refused_def
        cs_lib_def op_bind_def op_lift_def op_return_def Let_def)
  with stmt have "countersign_admitted cs_sample_site resolve now cs_sample_request ?b null_policy_module cs_anchorer
      ''did:web:anchor.example'' \<lparr>store = empty_store, would_refuse = []\<rparr> = (Inr (e, None), u)"
    by (simp add: countersign_admitted_def cs_sample_site_def cs_sample_request_def webhook_task_def some_text_def rbind_def)
  with adm show ?thesis
    by (simp add: register_def cs_start_def is_allowed_def new_limiter_def window_of_def)
qed

lemma cs_start_reachable: "reachable cs_ext cs_anchorer (ca_svc cs_start)"
  by (simp add: reachable_def cs_start_def run_refl)

lemma cs_site_simps: "ct_service cs_sample_site = Some cs_anchorer" "ct_ext cs_sample_site = cs_ext"
    "ct_aac cs_sample_site = cs_lib" "ct_parse cs_sample_site [] = Some cs_sample_request"
    "ct_issuers cs_sample_site = [(''issuer'', replicate 32 9)]"
  by (simp_all add: cs_sample_site_def)

theorem countersigns_only_enrolled_witness:
  "\<exists>e t (rg :: registration). register cs_sample_site (\<lambda>_. Inr []) (\<lambda>_. 0) 0 [] cs_start = (Inr (e, None), t) \<and>
     get_statement (rg_entry_hash rg) (store (ca_svc t)) = Some (rg_receipt rg, rg_leaf_index rg, rg_tree_size rg)"
proof -
  obtain e t where t: "register cs_sample_site (\<lambda>_. Inr []) (\<lambda>_. 0) 0 [] cs_start = (Inr (e, None), t)"
    using cs_answered by blast
  from countersigns_only_enrolled [OF t cs_site_simps(1)] cs_start_reachable cs_ext_ok(2) t show ?thesis
    unfolding cs_site_simps by blast
qed

theorem entry_verifies_witness:
  "\<exists>e t. register cs_sample_site (\<lambda>_. Inr []) (\<lambda>_. 0) 0 [] cs_start = (Inr (e, None), t) \<and>
     (\<exists>b. verify_entry cs_ext cs_lib b e [] [hex (replicate 32 7)] = Inr Countersigned)"
proof -
  obtain e t where t: "register cs_sample_site (\<lambda>_. Inr []) (\<lambda>_. 0) 0 [] cs_start = (Inr (e, None), t)"
    using cs_answered by blast
  have pk: "ed_public cs_ext sk = sk" "length (ed_sign cs_ext (replicate 32 7) m) = 64" for sk m
    by (simp_all add: cs_ext_def) (simp add: sample_ext_def)
  have at: "holds_key (ct_ext cs_sample_site) (an_attestor cs_anchorer) (replicate 32 7)"
    using configured_holds_key [of cs_ext "\<lparr>lk_seed = replicate 32 7, lk_source = ''env'', lk_ephemeral = False\<rparr>"]
    by (simp add: cs_anchorer_def cs_site_simps)
  obtain b where "\<forall>producer directory. verify_entry cs_ext cs_lib b e producer directory =
      Inr (if hex (replicate 32 7) \<in> set (map lower producer) then SelfCountersigned
        else if hex (replicate 32 7) \<notin> set (map lower directory) then UnresolvedSigner else Countersigned)"
    using entry_verifies [OF t cs_site_simps(1) at, unfolded cs_site_simps pk(1), OF cs_ext_ok(1) length_replicate pk(2)]
    by (elim exE conjE)
  then have "verify_entry cs_ext cs_lib b e [] [hex (replicate 32 7)] = Inr Countersigned" by (simp del: hex_append)
  with t show ?thesis by blast
qed

theorem best_entry_wins_witness:
  "\<exists>b st. parse_bundle cs_lib (JObj cs_bundle_json) = Inr b \<and>
     resolve_entry_state cs_ext cs_lib b [JNull, JObj [(''type'', JStr ''other'')]] [] [] = Inr st \<and> entry_rank Unverified \<le> entry_rank st"
proof -
  obtain b where b: "parse_bundle cs_lib (JObj cs_bundle_json) = Inr b" using accepted [OF cs_accepted] by blast
  have "verify_entry cs_ext cs_lib b (JObj [(''type'', JStr ''other'')]) [] [] = Inr Unverified"
    by (simp add: verify_entry_def entry_type_def)
  with best_entry_wins [OF b, of "[JNull, JObj [(''type'', JStr ''other'')]]" cs_ext "[]" "[]"] b show ?thesis by auto
qed

theorem statement_repeats_checks_witness:
  "\<exists>stmt. recompute_statement cs_lib \<lparr>bd_raw = [], bd_digest = []\<rparr> null_policy_module ''l'' [] 0 = Inr stmt \<and>
     (\<exists>rng prof. cm_checks stmt = [chain_consistency, rng, cadence, key_hygiene, prof])"
proof -
  obtain stmt where s: "recompute_statement cs_lib \<lparr>bd_raw = [], bd_digest = []\<rparr> null_policy_module ''l'' [] 0 = Inr stmt"
    by (simp add: recompute_statement_def range_membership_def profile_conformance_def action_kinds_def null_policy_module_def
        bundle_records_def rbind_def Let_def)
  from statement_repeats_checks [OF s] s show ?thesis by (auto simp: null_policy_module_def)
qed

theorem refusal_registers_nothing_witness:
  "\<exists>t. register (cs_sample_site\<lparr>ct_issuers := []\<rparr>) (\<lambda>_. Inr []) (\<lambda>_. 0) 0 [] cs_start = (Inl (HttpError 422), t) \<and>
     store (ca_svc t) = empty_store"
proof -
  have "accept_bundle cs_ext cs_lib (JObj cs_bundle_json) [] i k g = Inl BundleRefused" for i k g
    by (simp add: accept_bundle_def parse_bundle_def cs_bundle_json_def cs_lib_def rbind_def)
  then have "admitted (cs_sample_site\<lparr>ct_issuers := []\<rparr>) [] = Inl (HttpError 422)"
    by (simp add: admitted_def cs_sample_site_def cs_sample_request_def)
  then obtain t where t: "register (cs_sample_site\<lparr>ct_issuers := []\<rparr>) (\<lambda>_. Inr []) (\<lambda>_. 0) 0 [] cs_start = (Inl (HttpError 422), t)"
    by (simp add: register_def cs_start_def is_allowed_def new_limiter_def window_of_def)
  have "ct_service (cs_sample_site\<lparr>ct_issuers := []\<rparr>) = Some cs_anchorer"
      "\<not> some_text (cq_webhook_url cs_sample_request)" by (simp_all add: cs_sample_site_def cs_sample_request_def some_text_def)
  with refusal_registers_nothing [OF t this(1)] cs_start_reachable cs_ext_ok(2) t show ?thesis
    by (auto simp: cs_sample_site_def) (simp_all add: cs_start_def)
qed

theorem refused_webhook_is_registered_witness:
  "\<exists>t. register cs_sample_site (\<lambda>_. Inr []) (\<lambda>_. 0) 0 [1] cs_start = (Inl (HttpError 422), t) \<and>
     (\<exists>e. register cs_sample_site (\<lambda>_. Inr []) (\<lambda>_. 0) 0 [] cs_start = (Inr (e, None), t))"
proof -
  obtain e t where t: "register cs_sample_site (\<lambda>_. Inr []) (\<lambda>_. 0) 0 [] cs_start = (Inr (e, None), t)"
    using cs_answered by blast
  let ?q = "cs_sample_request\<lparr>cq_webhook_url := Some ''http://h/''\<rparr>"
  have q: "ct_parse cs_sample_site [1] = Some ?q" "ct_parse cs_sample_site [] = Some (?q\<lparr>cq_webhook_url := None\<rparr>)"
    "some_text (cq_webhook_url ?q)" "some_text (cq_webhook_secret ?q)"
    by (simp_all add: cs_sample_site_def cs_sample_request_def some_text_def)
  have "validate_webhook_url env resolve ''http://h/'' = Inl WebhookURLRefused" for env resolve
  proof -
    have "rmap (\<lambda>p. if up_scheme p = ''https'' then Inl () else Inr ()) (case urlparse ''http://h/'' of Inl _ \<Rightarrow> [] | Inr p \<Rightarrow> [p])
      = Inr [()]" by code_simp
    then obtain p where "urlparse ''http://h/'' = Inr p" "up_scheme p \<noteq> ''https''"
      by (cases "urlparse ''http://h/''") (auto simp: rbind_def split: if_splits)
    then have "validate_and_pin env resolve ''http://h/'' = Inl WebhookURLRefused"
      by (simp add: validate_and_pin_def rbind_def)
    then show ?thesis by (simp add: validate_webhook_url_def)
  qed
  then have "validate_webhook_url (ct_env cs_sample_site) (\<lambda>_. Inr []) (the (cq_webhook_url ?q)) = Inl WebhookURLRefused" by simp
  from refused_webhook_is_registered [OF q(1,2) _ t q(3,4) this] t show ?thesis by (auto simp: max_statement_bytes_def)
qed

end
