(* ===== verification/App.thy ===== *)
theory App
  imports SigningKey CountersignProps PublicLog
begin

text \<open>
  The application (\<open>app.py\<close>): what \<open>create_app\<close> builds from the environment and what it refuses to start
  with, the threads it starts, its own routes, and the process as a whole: requests to both routers, the
  refresh, prune and publisher threads, in any order. The libraries, the file system and the connection to
  the database are the fields of a deployment; a database is represented by the memory store it refines.
\<close>

section \<open>Start-up\<close>

record deployment =
  dp_ext :: ext
  dp_lib :: cose_lib
  dp_loaders :: key_loaders
  dp_connect :: "string \<Rightarrow> mem_store res"
  dp_default_submitters :: string
  dp_aac :: aac
  dp_registry :: "(string \<times> policy_module) list"
  dp_parse :: "bytes \<Rightarrow> cs_request option"
  dp_tsa :: "bytes \<Rightarrow> bytes option"

text \<open>\<open>float(s)\<close> accepts the text; only whether it does matters, the value is an interval of a thread.\<close>

definition decimal_ok :: "string \<Rightarrow> bool" where
  "decimal_ok s =
     (if CHR ''.'' \<in> set s
      then (before (CHR ''.'') s = [] \<or> int_unsigned (before (CHR ''.'') s) \<noteq> None) \<and>
        (after (CHR ''.'') s = [] \<or> int_unsigned (after (CHR ''.'') s) \<noteq> None) \<and> s \<noteq> ''.''
      else int_unsigned s \<noteq> None)"

definition unsigned :: "string \<Rightarrow> string" where
  "unsigned s = (case s of [] \<Rightarrow> [] | c # r \<Rightarrow> if c = CHR ''-'' \<or> c = CHR ''+'' then r else s)"

definition float_ok :: "string \<Rightarrow> bool" where
  "float_ok raw =
     (let s = unsigned (lower (strip raw)) in
      s \<in> {''inf'', ''infinity'', ''nan''} \<or>
      (if CHR ''e'' \<in> set s
       then decimal_ok (before (CHR ''e'') s) \<and> int_unsigned (unsigned (after (CHR ''e'') s)) \<noteq> None
       else decimal_ok s))"

definition float_of_env :: "environ \<Rightarrow> string \<Rightarrow> string \<Rightarrow> string res" where
  "float_of_env env k d = (if float_ok (env_get env k d) then Inr (env_get env k d) else Inl ValueError)"

definition read_bytes_of :: "deployment \<Rightarrow> string \<Rightarrow> bytes option" where
  "read_bytes_of dp path = read_bytes (dp_loaders dp) path"

text \<open>The key, unless it is ephemeral and nobody said that is fine.\<close>

definition load_identity :: "deployment \<Rightarrow> bytes \<Rightarrow> environ \<Rightarrow> loaded_key res" where
  "load_identity dp entropy env = rbind (load_signing_key (dp_loaders dp) entropy env) (\<lambda>loaded.
     if lk_ephemeral loaded \<and> env ''CAPSULE_ANCHOR_INSECURE_EPHEMERAL_KEY'' \<noteq> Some ''1''
     then Inl RuntimeError else Inr loaded)"

definition public_host_of :: "environ \<Rightarrow> string res" where
  "public_host_of env = (case env ''CAPSULE_ANCHOR_PUBLIC_HOST'' of
     Some (c # cs) \<Rightarrow> Inr (c # cs) | _ \<Rightarrow> Inl RuntimeError)"

definition database_url_of :: "environ \<Rightarrow> string option res" where
  "database_url_of env = (case env ''CAPSULE_ANCHOR_DATABASE_URL'' of
     Some (c # cs) \<Rightarrow> Inr (Some (c # cs))
   | _ \<Rightarrow> if env ''CAPSULE_ANCHOR_INSECURE_IN_MEMORY'' \<noteq> Some ''1'' then Inl RuntimeError else Inr None)"

definition proof_policy_of :: "environ \<Rightarrow> string res" where
  "proof_policy_of env =
     (let p = lower (strip (env_get env ''CAPSULE_ANCHOR_REQUIRE_CONSISTENCY_PROOF'' ''warn''))
      in if map_of consistency_proof_policies p = None then Inl RuntimeError else Inr p)"

definition open_store :: "deployment \<Rightarrow> string option \<Rightarrow> mem_store option res" where
  "open_store dp database_url = (case database_url of
     None \<Rightarrow> Inr None | Some url \<Rightarrow> rbind (dp_connect dp url) (\<lambda>s. Inr (Some s)))"

text \<open>Whether the prune thread is started, and whether the public log is on.\<close>

definition retention_of :: "environ \<Rightarrow> bool res" where
  "retention_of env = rbind (entry_retention_seconds env) (\<lambda>seconds.
     if seconds = None then Inr False
     else rbind (float_of_env env ''CAPSULE_ANCHOR_ENTRY_RETENTION_SWEEP_INTERVAL'' ''3600'') (\<lambda>_. Inr True))"

definition public_log_of :: "environ \<Rightarrow> bool \<Rightarrow> string option res" where
  "public_log_of env ephemeral =
     (let backend = lower (strip (env_get env ''CAPSULE_ANCHOR_PUBLIC_LOG'' ''none'')) in
      if backend \<notin> {''none'', ''rekor''} then Inl RuntimeError
      else if backend = ''none'' then Inr None
      else if ephemeral then Inl RuntimeError
      else rbind (float_of_env env ''CAPSULE_ANCHOR_PUBLIC_LOG_TIMEOUT'' ''10'') (\<lambda>_.
           rbind (float_of_env env ''CAPSULE_ANCHOR_PUBLIC_LOG_INTERVAL'' ''300'') (\<lambda>_.
           Inr (Some (env_get env ''CAPSULE_ANCHOR_REKOR_URL'' ''https://rekor.sigstore.dev'')))))"

definition countersign_of :: "deployment \<Rightarrow> environ \<Rightarrow> issuers option res" where
  "countersign_of dp env =
     (if strict_countersign_active env
      then rbind (issuers_from_env (read_bytes_of dp) (json_loads_utf8 (dp_ext dp)) env) (\<lambda>iss. Inr (Some iss))
      else Inr None)"

text \<open>What is installed, and the state it starts in.\<close>

record instance_config =
  in_loaded :: loaded_key
  in_public_host :: string
  in_operator :: "string option"
  in_database_url :: "string option"
  in_policy :: payload_policy
  in_retention :: bool
  in_rekor_url :: "string option"
  in_site :: site
  in_countersign :: "cs_site option"
  in_env :: environ

record process =
  pc_app :: app
  pc_countersign :: limiter
  pc_failures :: nat

definition rekor_log_name :: string where
  "rekor_log_name = ''rekor-public''"

definition countersign_site :: "deployment \<Rightarrow> environ \<Rightarrow> anchorer \<Rightarrow> issuers \<Rightarrow> cs_site" where
  "countersign_site dp env a iss = \<lparr>ct_ext = dp_ext dp, ct_aac = dp_aac dp, ct_service = Some a,
     ct_registry = dp_registry dp, ct_issuers = iss, ct_env = env, ct_parse = dp_parse dp\<rparr>"

definition tsa_of :: "deployment \<Rightarrow> environ \<Rightarrow> (bytes \<Rightarrow> bytes option) option" where
  "tsa_of dp env = (if env ''CAPSULE_ANCHOR_TSA_ENABLED'' = Some ''1'' then Some (dp_tsa dp) else None)"

definition create_app :: "deployment \<Rightarrow> bytes \<Rightarrow> environ \<Rightarrow> (instance_config \<times> process) res" where
  "create_app dp entropy env =
     rbind (load_identity dp entropy env) (\<lambda>loaded.
     let attestor = configured_attestor (dp_ext dp) loaded in
     rbind (public_host_of env) (\<lambda>host.
     rbind (database_url_of env) (\<lambda>url.
     rbind (proof_policy_of env) (\<lambda>policy.
     rbind (policy_from_env env (int max_statement_bytes)) (\<lambda>payloads.
     rbind (open_store dp url) (\<lambda>db.
     rbind (new_service (dp_ext dp) (Some attestor) None [] policy (Some payloads) db) (\<lambda>(a, s).
     rbind (from_env_or_default (read_bytes_of dp) (json_loads_utf8 (dp_ext dp)) (dp_default_submitters dp) env) (\<lambda>submitters.
     rbind (float_of_env env ''CAPSULE_ANCHOR_STH_REFRESH_INTERVAL'' ''60'') (\<lambda>_.
     rbind (retention_of env) (\<lambda>retention.
     rbind (public_log_of env (lk_ephemeral loaded)) (\<lambda>rekor.
     rbind (countersign_of dp env) (\<lambda>cs.
     Inr (\<lparr>in_loaded = loaded, in_public_host = host,
         in_operator = (case env ''CAPSULE_ANCHOR_OPERATOR'' of Some [] \<Rightarrow> None | v \<Rightarrow> v),
         in_database_url = url, in_policy = payloads, in_retention = retention, in_rekor_url = rekor,
         in_site = \<lparr>st_ext = dp_ext dp, st_lib = dp_lib dp, st_anchorer = a, st_allowlist = submitters,
           st_tsa = tsa_of dp env, st_publisher = (case rekor of None \<Rightarrow> None | Some _ \<Rightarrow> Some rekor_log_name)\<rparr>,
         in_countersign = (case cs of None \<Rightarrow> None | Some iss \<Rightarrow> Some (countersign_site dp env a iss)),
         in_env = env\<rparr>,
       \<lparr>pc_app = new_app s, pc_countersign = new_limiter 300 minute, pc_failures = 0\<rparr>)))))))))))))"

section \<open>The threads\<close>

text \<open>One round of each, after its sleep. An exception of the refresh and of the prune is swallowed.\<close>

definition on_svc :: "(svc, 'a) op \<Rightarrow> process \<Rightarrow> process" where
  "on_svc f p = p\<lparr>pc_app := (pc_app p)\<lparr>ap_svc := snd (f (ap_svc (pc_app p)))\<rparr>\<rparr>"

definition refresh_round :: "instance_config \<Rightarrow> clock \<Rightarrow> process \<Rightarrow> process" where
  "refresh_round i now p =
     (if 0 < store_size (store (ap_svc (pc_app p)))
      then on_svc (refresh_sth (st_ext (in_site i)) (st_anchorer (in_site i)) now) p else p)"

definition prune_round :: "instance_config \<Rightarrow> int \<Rightarrow> process \<Rightarrow> process" where
  "prune_round i now p = (if in_retention i then on_svc (prune_expired_statements (in_env i) now) p else p)"

text \<open>The publisher over the service of the process; its backend is called \<open>rekor_log_name\<close>.\<close>

definition publish_round ::
    "instance_config \<Rightarrow> clock \<Rightarrow> (bytes \<Rightarrow> sig \<Rightarrow> pl_result res) \<Rightarrow> (exn \<Rightarrow> string) \<Rightarrow> process \<Rightarrow> process" where
  "publish_round i now submit show_exn p =
     (if in_rekor_url i = None then p
      else let q = snd (publish_if_new (st_ext (in_site i)) (st_anchorer (in_site i)) now
                 \<lparr>log_name = rekor_log_name, log_submit = submit\<rparr> show_exn mem_put_receipt mem_put_failure
                 \<lparr>pb_svc = ap_svc (pc_app p), pb_failures = pc_failures p, pb_degraded_after = 12\<rparr>)
           in p\<lparr>pc_app := (pc_app p)\<lparr>ap_svc := pb_svc q\<rparr>, pc_failures := pb_failures q\<rparr>)"

section \<open>The routes\<close>

definition anchor_request :: "instance_config \<Rightarrow> clock \<Rightarrow> int \<Rightarrow> request \<Rightarrow> process \<Rightarrow> (http_error + response) \<times> process" where
  "anchor_request i now tick rq p = (case serve (in_site i) now tick rq (pc_app p) of (r, t) \<Rightarrow> (r, p\<lparr>pc_app := t\<rparr>))"

text \<open>The countersign router answers 404 where it is not mounted; it registers with the service of the anchor router.\<close>

definition countersign_request ::
    "instance_config \<Rightarrow> (string \<Rightarrow> string list res) \<Rightarrow> clock \<Rightarrow> int \<Rightarrow> bytes \<Rightarrow> process
      \<Rightarrow> (http_error + json \<times> webhook_task option) \<times> process" where
  "countersign_request i resolve now tick data p =
     (case in_countersign i of
        None \<Rightarrow> (Inl (HttpError 404), p)
      | Some st \<Rightarrow>
          (case register st resolve now tick data \<lparr>ca_svc = ap_svc (pc_app p), ca_limiter = pc_countersign p\<rparr> of
             (r, t) \<Rightarrow> (r, p\<lparr>pc_app := (pc_app p)\<lparr>ap_svc := ca_svc t\<rparr>, pc_countersign := ca_limiter t\<rparr>)))"

definition is_degraded :: "process \<Rightarrow> bool" where
  "is_degraded p \<longleftrightarrow> 12 \<le> pc_failures p"

text \<open>\<open>loaded.source.split(":", 1)[0]\<close>.\<close>

definition source_scheme :: "string \<Rightarrow> string" where
  "source_scheme source = before (CHR '':'') source"

definition health :: "instance_config \<Rightarrow> clock \<Rightarrow> process \<Rightarrow> json res \<times> process" where
  "health i now p =
     (let x = st_ext (in_site i); a = st_anchorer (in_site i);
          tree_size = store_size (store (ap_svc (pc_app p)))
      in case declared_posture (in_env i) of
        Inl e \<Rightarrow> (Inl e, p)
      | Inr posture \<Rightarrow>
          (case (if 0 < tree_size then (case get_sth x a now (ap_svc (pc_app p)) of (h, s) \<Rightarrow>
                   ((case h of Inl _ \<Rightarrow> None | Inr h' \<Rightarrow> Some h'), p\<lparr>pc_app := (pc_app p)\<lparr>ap_svc := s\<rparr>\<rparr>))
                 else (None, p)) of
             (h, p') \<Rightarrow> (Inr (JObj (
               [(''ok'', JBool True),
                (''signing_key_source'', JStr (source_scheme (lk_source (in_loaded i)))),
                (''signing_key_ephemeral'', JBool (lk_ephemeral (in_loaded i))),
                (''key_id'', JStr (attestor_key_id x (an_attestor a))),
                (''tree_size'', JInt tree_size),
                (''storage'', JStr (if in_database_url i \<noteq> None then ''postgres'' else ''memory'')),
                (''entry_retention'', JStr posture),
                (''embedded_payloads'', JStr (if store_embedded (in_policy i) then ''as_submitted_up_to_cap'' else ''detached''))] @
               (case h of None \<Rightarrow> [] | Some g \<Rightarrow> [(''latest_sth_timestamp'', JStr (isoformat (sth_timestamp g))),
                  (''latest_root_hash'', JStr (sth_root_hash g))]) @
               (if in_rekor_url i = None then []
                else [(''public_log'', JStr (if is_degraded p' then ''degraded'' else ''ok''))]))), p')))"

text \<open>What leaves the service, and the published policy.\<close>

definition egress :: "instance_config \<Rightarrow> string list" where
  "egress i =
     (if in_rekor_url i = None then []
      else [''this service'' @ [CHR 0x27] @ ''s own signed tree heads, to an external public log'']) @
     (if in_env i ''CAPSULE_ANCHOR_TSA_ENABLED'' = Some ''1''
      then [''the SHA-256 of a countersigned root, to an RFC 3161 timestamp authority''] else []) @
     (if strict_countersign_active (in_env i)
      then [''a countersignature, to the webhook a countersign request names''] else [])"

definition stored_data :: "string list" where
  "stored_data =
     [''the log'' @ [CHR 0x27] @ ''s leaf hashes (entry hashes) and the receipts issued for them'',
      ''per-log_id checkpoint state and recorded equivocations'',
      ''the signed tree heads'',
      ''for a statement naming a CWT subject: the subject, the entry hash, and its payload '' @
      ''as the embedded-payload policy above says (a digest, or a payload'' @ [CHR 0x27] @ ''s SHA-256)'',
      ''for /anchor/anchor: the caller'' @ [CHR 0x27] @ ''s tenant_id and root hash'']"

definition registration_policy :: "instance_config \<Rightarrow> (string \<times> json) list" where
  "registration_policy i =
     [(''statement_max_bytes'', JInt (int max_statement_bytes)),
      (''signed_statements'', JObj ([(''signature_verified_at_registration'', JBool False),
         (''issuer_binding'', JStr ''open: any issuer may register; a receipt attests inclusion, not issuer identity'')] @
         (case describe_policy (in_policy i) of JObj kvs \<Rightarrow> kvs | _ \<Rightarrow> []))),
      (''recommended_submission'', JStr (''a statement made over a hash (RFC 9943 6.2 hash envelope: '' @
         ''payload = the digest, protected header 258 payload_hash_alg); keep the preimage yourself'')),
      (''privacy'', JObj [(''stored'', JArr (map JStr stored_data)), (''leaves'', JArr (map JStr (egress i))),
         (''telemetry'', JStr ''none'')])]"

text \<open>\<open>base64.urlsafe_b64encode(...).rstrip(b"=")\<close>.\<close>

definition urlsafe :: "char \<Rightarrow> char" where
  "urlsafe c = (if c = CHR ''+'' then CHR ''-'' else if c = CHR ''/'' then CHR ''_'' else c)"

definition b64url_nopad :: "bytes \<Rightarrow> string" where
  "b64url_nopad b = rev (dropWhile (\<lambda>c. c = pad_char) (rev (map urlsafe (b64encode b))))"

definition did_of :: "string \<Rightarrow> string" where
  "did_of host = ''did:web:'' @ host"

definition did_document :: "instance_config \<Rightarrow> (string \<times> json) list" where
  "did_document i =
     (let a = an_attestor (st_anchorer (in_site i)); did = did_of (in_public_host i);
          key_id = did @ ''#'' @ attestor_key_id (st_ext (in_site i)) a
      in [(''@context'', JArr [JStr ''https://www.w3.org/ns/did/v1'']), (''id'', JStr did),
          (''verificationMethod'', JArr [JObj [(''id'', JStr key_id), (''type'', JStr ''JsonWebKey2020''),
             (''controller'', JStr did), (''publicKeyJwk'', JObj [(''kty'', JStr ''OKP''), (''crv'', JStr ''Ed25519''),
               (''x'', JStr (b64url_nopad (authority_pubkey a)))])]]),
          (''assertionMethod'', JArr [JStr key_id])] @
         (case in_operator i of None \<Rightarrow> [] | Some o' \<Rightarrow> [(''operator'', JStr o')]))"

section \<open>The process\<close>

text \<open>
  Whatever runs next: a request to one of the routers, \<open>/health\<close>, a thread whose sleep is over, or one call of
  the service. A request calls the service several times and the lock is free between the calls; \<open>service_step\<close>
  is such a call alone, so the steps of a run include the calls of requests that interleave.
\<close>

inductive process_step :: "instance_config \<Rightarrow> process \<Rightarrow> process \<Rightarrow> bool" for i where
  anchor_step: "anchor_request i now tick rq p = (r, q) \<Longrightarrow> process_step i p q"
| countersign_step: "countersign_request i resolve now tick data p = (r', q) \<Longrightarrow> process_step i p q"
| health_step: "health i now p = (h, q) \<Longrightarrow> process_step i p q"
| refresh_step: "process_step i p (refresh_round i now p)"
| prune_step: "process_step i p (prune_round i time p)"
| publish_step: "process_step i p (publish_round i now submit show_exn p)"
| service_step: "call (st_ext (in_site i)) (st_anchorer (in_site i)) (ap_svc (pc_app p)) t \<Longrightarrow>
    process_step i p (on_svc (\<lambda>_. (Inr (), t)) p)"

inductive process_run :: "instance_config \<Rightarrow> process \<Rightarrow> process \<Rightarrow> bool" for i where
  process_start: "process_run i p p"
| process_next: "process_run i p q \<Longrightarrow> process_step i q r \<Longrightarrow> process_run i p r"

inductive_cases process_step_cases: "process_step i p q"

inductive_simps process_run_simps: "process_run i p q"

end
