(* ===== verification/AppProps.thy ===== *)
theory AppProps
  imports App
begin

text \<open>
  What the application guarantees: it starts only when configured, whatever runs in it keeps the log sound
  and append-only, a restart keeps its identity, and its DID document names the key it signs with.
\<close>

section \<open>Start-up\<close>

lemma created:
  assumes "create_app dp entropy env = Inr (i, p)"
  obtains loaded host url policy payloads db a s submitters retention rekor cs where
    "load_identity dp entropy env = Inr loaded" "public_host_of env = Inr host" "database_url_of env = Inr url"
    "proof_policy_of env = Inr policy" "policy_from_env env (int max_statement_bytes) = Inr payloads"
    "open_store dp url = Inr db"
    "new_service (dp_ext dp) (Some (configured_attestor (dp_ext dp) loaded)) None [] policy (Some payloads) db = Inr (a, s)"
    "from_env_or_default (read_bytes_of dp) (json_loads_utf8 (dp_ext dp)) (dp_default_submitters dp) env = Inr submitters"
    "retention_of env = Inr retention" "public_log_of env (lk_ephemeral loaded) = Inr rekor"
    "countersign_of dp env = Inr cs"
    "in_loaded i = loaded" "in_public_host i = host" "in_database_url i = url" "in_rekor_url i = rekor"
    "in_site i = \<lparr>st_ext = dp_ext dp, st_lib = dp_lib dp, st_anchorer = a, st_allowlist = submitters,
       st_tsa = tsa_of dp env, st_publisher = (case rekor of None \<Rightarrow> None | Some _ \<Rightarrow> Some rekor_log_name)\<rparr>"
    "in_countersign i = (case cs of None \<Rightarrow> None | Some iss \<Rightarrow> Some (countersign_site dp env a iss))"
    "in_env i = env" "p = \<lparr>pc_app = new_app s, pc_countersign = new_limiter 300 minute, pc_failures = 0\<rparr>"
  using assms unfolding create_app_def Let_def rbind_Inr_iff by (auto simp: rbind_Inr_iff split: prod.splits)

lemma new_service_parts:
  "new_service x (Some at) None e policy pp db = Inr (a, s) \<Longrightarrow>
    an_attestor a = at \<and> s = \<lparr>store = (case db of None \<Rightarrow> empty_store | Some t \<Rightarrow> t), would_refuse = []\<rparr>"
  by (auto simp: new_service_def split: option.splits)

lemma opened: "open_store dp url = Inr db \<Longrightarrow>
    (case url of None \<Rightarrow> db = None | Some u \<Rightarrow> \<exists>t. db = Some t \<and> dp_connect dp u = Inr t)"
  by (auto simp: open_store_def rbind_Inr_iff split: option.splits)

text \<open>The wiring every instance has: one attestor, and the countersign router on the service of the other.\<close>

definition wired :: "deployment \<Rightarrow> instance_config \<Rightarrow> bool" where
  "wired dp i \<longleftrightarrow> st_ext (in_site i) = dp_ext dp \<and>
     an_attestor (st_anchorer (in_site i)) = configured_attestor (dp_ext dp) (in_loaded i) \<and>
     (\<forall>st. in_countersign i = Some st \<longrightarrow> ct_ext st = dp_ext dp \<and> ct_service st = Some (st_anchorer (in_site i)))"

lemma created_wired:
  assumes "create_app dp entropy env = Inr (i, p)"
  shows "wired dp i"
  using assms by (rule created) (auto simp: wired_def countersign_site_def dest!: new_service_parts split: option.splits)

text \<open>So the authority of a mounted countersign router signs with the loaded key, as \<open>entry_verifies\<close> asks.\<close>

lemma mounted_holds_key:
  assumes "create_app dp entropy env = Inr (i, p)" "in_countersign i = Some st"
  shows "\<exists>a. ct_service st = Some a \<and> holds_key (ct_ext st) (an_attestor a) (lk_seed (in_loaded i))"
  using created_wired [OF assms(1)] assms(2) configured_holds_key [of "dp_ext dp" "in_loaded i"]
  by (auto simp: wired_def)

section \<open>Every step keeps the log\<close>

abbreviation pc_store :: "process \<Rightarrow> mem_store" where
  "pc_store p \<equiv> store (ap_svc (pc_app p))"

abbreviation pc_stable :: "instance_config \<Rightarrow> mem_store \<Rightarrow> process \<Rightarrow> bool" where
  "pc_stable i s0 p \<equiv> stable (st_ext (in_site i)) (st_anchorer (in_site i)) s0 (ap_svc (pc_app p))"

abbreviation in_env_ok :: "instance_config \<Rightarrow> bool" where
  "in_env_ok i \<equiv> env_ok (st_ext (in_site i)) (st_anchorer (in_site i))"

lemma evolves_pl: "evolves s (snd (put_public_log_receipt row s))" "evolves s (put_public_log_failure b at e s)"
  by (simp_all add: evolves_def put_public_log_receipt_def put_public_log_failure_def get_checkpoint_equivocations_def
      split: option.splits)

lemma stable_pl:
  assumes "stable x a s0 s"
  shows "stable x a s0 (s\<lparr>store := snd (put_public_log_receipt row (store s))\<rparr>)"
    "stable x a s0 (s\<lparr>store := put_public_log_failure b at e (store s)\<rparr>)"
  using assms evolves_pl by (auto simp: stable_def pl_frame intro: evolves_trans)

lemma publish_stable:
  assumes "stable x a s0 (pb_svc q)" "env_ok x a"
  shows "stable x a s0 (pb_svc (snd (publish_if_new x a now lg show_exn mem_put_receipt mem_put_failure q)))"
proof -
  obtain r t where t: "read_and_submit x a now lg (pb_svc q) = (r, t)" by (cases "read_and_submit x a now lg (pb_svc q)")
  have "stable x a s0 (snd (get_sth x a now (pb_svc q)))"
    by (rule call_stable [OF get_sth_call [where now = now] assms(2,1)]) (rule surjective_pairing)
  then have "stable x a s0 t" using read_and_submit_state [OF t] assms(1) by auto
  then show ?thesis
    by (cases r) (auto simp: publish_if_new_def t record_failure_def mem_put_run stable_pl split: option.splits)
qed

lemma process_step_stable:
  assumes "process_step i p q" "wired dp i" "in_env_ok i" "pc_stable i s0 p"
  shows "pc_stable i s0 q"
  using assms(1)
proof (cases rule: process_step.cases)
  case (anchor_step now tick rq r)
  then have "ap_run (in_site i) (pc_app p) (pc_app q)"
    using serve_moves [of "in_site i" now tick rq] by (auto simp: anchor_request_def moves_def split: prod.splits)
  then show ?thesis by (rule run_stable [OF _ assms(3,4)])
next
  case (countersign_step resolve now tick data r')
  show ?thesis
  proof (cases "in_countersign i")
    case None
    then show ?thesis using countersign_step assms(4) by (simp add: countersign_request_def)
  next
    case (Some st)
    obtain r t where t: "register st resolve now tick data \<lparr>ca_svc = ap_svc (pc_app p), ca_limiter = pc_countersign p\<rparr> = (r, t)"
      by (cases "register st resolve now tick data \<lparr>ca_svc = ap_svc (pc_app p), ca_limiter = pc_countersign p\<rparr>")
    have st: "ct_ext st = st_ext (in_site i)" "ct_service st = Some (st_anchorer (in_site i))"
      using assms(2) Some by (auto simp: wired_def)
    have "run (st_ext (in_site i)) (st_anchorer (in_site i)) (ap_svc (pc_app p)) (ca_svc t)"
      using register_run [OF t st(2)] st(1) by simp
    from run_stable [OF this assms(3,4)] show ?thesis
      using countersign_step t by (auto simp: countersign_request_def Some)
  qed
next
  case (health_step now h)
  have "stable (st_ext (in_site i)) (st_anchorer (in_site i)) s0
      (snd (get_sth (st_ext (in_site i)) (st_anchorer (in_site i)) now (ap_svc (pc_app p))))"
    by (rule call_stable [OF get_sth_call [where now = now] assms(3,4)]) (rule surjective_pairing)
  then show ?thesis
    using health_step assms(4) by (auto simp: health_def Let_def split: sum.splits if_splits prod.splits)
next
  case (refresh_step now)
  have "stable (st_ext (in_site i)) (st_anchorer (in_site i)) s0
      (snd (refresh_sth (st_ext (in_site i)) (st_anchorer (in_site i)) now (ap_svc (pc_app p))))"
    by (rule call_stable [OF refresh_call [where now = now] assms(3,4)]) (rule surjective_pairing)
  then show ?thesis using refresh_step assms(4) by (simp add: refresh_round_def on_svc_def)
next
  case (prune_step time)
  have "stable (st_ext (in_site i)) (st_anchorer (in_site i)) s0
      (snd (prune_expired_statements (in_env i) time (ap_svc (pc_app p))))"
    by (rule step_stable [OF step.prune_step assms(3,4)]) (rule surjective_pairing)
  then show ?thesis using prune_step assms(4) by (simp add: prune_round_def on_svc_def)
next
  case (publish_step now submit show_exn)
  then show ?thesis using assms(4) publish_stable [OF _ assms(3)] by (simp add: publish_round_def Let_def)
next
  case (service_step t)
  from call_stable [OF this(2) assms(3,4)] show ?thesis by (simp add: service_step(1) on_svc_def)
qed

lemma process_run_stable:
  "process_run i p q \<Longrightarrow> wired dp i \<Longrightarrow> in_env_ok i \<Longrightarrow> pc_stable i s0 p \<Longrightarrow> pc_stable i s0 q"
  by (induction rule: process_run.induct) (auto intro: process_step_stable)

lemma process_run_trans: "process_run i q r \<Longrightarrow> process_run i p q \<Longrightarrow> process_run i p r"
  by (induction rule: process_run.induct) (auto intro: process_run.intros)

lemma verify_log_inv: "store_inv x (an_attestor a) (store s) \<Longrightarrow> verify_log x a None s"
  using entries_inv by (simp add: verify_log_def) (simp add: store_inv_def)

section \<open>The DID document\<close>

lemma pads: "replicate ((4 - length [a, b] mod 4) mod 4) p = [p, p]" "replicate ((4 - length [a, b, c] mod 4) mod 4) p = [p]"
    "(4 - length (a # b # c # d # e) mod 4) mod 4 = (4 - length e mod 4) mod (4::nat)"
proof -
  have size: "length [a, b] = 2" "length [a, b, c] = 3" "length (a # b # c # d # e) = 4 + length e" by simp_all
  have left: "(4 - (2::nat) mod 4) mod 4 = 2" "(4 - (3::nat) mod 4) mod 4 = 1"
    "(4 - (4 + length e) mod 4) mod 4 = (4 - length e mod 4) mod (4::nat)" by simp_all
  have "replicate 2 p = [p, p]" "replicate 1 p = [p]" by (simp_all add: numeral_2_eq_2)
  then show "replicate ((4 - length [a, b] mod 4) mod 4) p = [p, p]" "replicate ((4 - length [a, b, c] mod 4) mod 4) p = [p]"
    "(4 - length (a # b # c # d # e) mod 4) mod 4 = (4 - length e mod 4) mod (4::nat)"
    by (simp_all only: size left)
qed

lemma b64_padding: "\<exists>b. b64encode bs = b @ replicate ((4 - length b mod 4) mod 4) pad_char \<and> set b \<subseteq> set b64_alphabet"
proof (induction bs rule: b64encode.induct)
  case (2 a)
  show ?case using byte_split(1) [of a] b64_sextet(3) [of a]
    by (intro exI [of _ "[b64_char (unat a div 4), b64_char (unat a mod 4 * 16)]"], subst pads)
      (simp add: b64_char_in)
next
  case (3 a b)
  show ?case using byte_split(1) [of a] b64_sextet(1) [of a b] b64_sextet(4) [of b]
    by (intro exI [of _ "[b64_char (unat a div 4), b64_char (unat a mod 4 * 16 + unat b div 16), b64_char (unat b mod 16 * 4)]"],
        subst pads) (simp add: b64_char_in)
next
  case (4 a b c r)
  then obtain e where e: "b64encode r = e @ replicate ((4 - length e mod 4) mod 4) pad_char" "set e \<subseteq> set b64_alphabet" by blast
  have "unat c mod 64 < 64" by simp
  then show ?case using e byte_split(1) [of a] b64_sextet(1) [of a b] b64_sextet(2) [of b c]
    by (intro exI [of _ "b64_char (unat a div 4) # b64_char (unat a mod 4 * 16 + unat b div 16) #
        b64_char (unat b mod 16 * 4 + unat c div 64) # b64_char (unat c mod 64) # e"], subst pads) (simp add: b64_char_in)
qed simp

text \<open>How a verifier reads the \<open>x\<close> of a JWK (RFC 8037): base64url without padding.\<close>

definition plainsafe :: "char \<Rightarrow> char" where
  "plainsafe c = (if c = CHR ''-'' then CHR ''+'' else if c = CHR ''_'' then CHR ''/'' else c)"

definition jwk_bytes :: "string \<Rightarrow> bytes res" where
  "jwk_bytes s = b64decode True (map plainsafe s @ replicate ((4 - length s mod 4) mod 4) pad_char)"

lemma urlsafe_char: "c \<in> set b64_alphabet \<Longrightarrow> plainsafe (urlsafe c) = c \<and> urlsafe c \<noteq> pad_char"
proof -
  have "\<forall>c \<in> set b64_alphabet. plainsafe (urlsafe c) = c \<and> urlsafe c \<noteq> pad_char"
    by (simp add: b64_alphabet_def plainsafe_def urlsafe_def pad_char_def)
  then show "c \<in> set b64_alphabet \<Longrightarrow> ?thesis" by blast
qed

lemma jwk_roundtrip: "jwk_bytes (b64url_nopad bs) = Inr bs"
proof -
  obtain e where e: "b64encode bs = e @ replicate ((4 - length e mod 4) mod 4) pad_char" "set e \<subseteq> set b64_alphabet"
    using b64_padding by blast
  have pad: "urlsafe pad_char = pad_char" by (simp add: urlsafe_def pad_char_def)
  have "dropWhile (\<lambda>c. c = pad_char) (rev (map urlsafe e)) = rev (map urlsafe e)"
  proof (cases "rev (map urlsafe e)")
    case (Cons c cs)
    then have "c \<in> set (map urlsafe e)" by (metis list.set_intros(1) set_rev)
    with e(2) urlsafe_char have "c \<noteq> pad_char" by fastforce
    with Cons show ?thesis by simp
  qed simp
  moreover have "dropWhile (\<lambda>c. c = pad_char) (replicate n pad_char @ cs) = dropWhile (\<lambda>c. c = pad_char) cs" for n cs
    by (induction n) simp_all
  ultimately have "b64url_nopad bs = map urlsafe e" by (simp add: b64url_nopad_def e(1) pad)
  moreover have "map plainsafe (map urlsafe e) = e" using e(2) urlsafe_char by (simp add: map_idI subset_iff)
  ultimately show ?thesis using e(1) b64_roundtrip [of True bs] by (simp add: jwk_bytes_def)
qed

text \<open>The key an attestor of a configured key signs with.\<close>

lemma configured_signature:
  "ed25519_ok x \<Longrightarrow> crypto_verify x (ed_public x (lk_seed k)) m (attest x (configured_attestor x k) m t)"
  "sig_key_id (attest x (configured_attestor x k) m t) = attestor_key_id x (configured_attestor x k)"
  by (simp_all add: configured_attestor_def new_attestor_def attest_def key_provider_of_def new_static_key_def
      crypto_sign_def crypto_verify_def ed25519_ok_def attestor_key_id_def)

text \<open>What a process starts on, and what depends on the environment alone.\<close>

lemma start_up_store:
  assumes "create_app dp entropy env = Inr (i, p)"
  shows "(case in_database_url i of None \<Rightarrow> pc_store p = empty_store | Some u \<Rightarrow> dp_connect dp u = Inr (pc_store p))"
  using assms by (rule created) (auto simp: new_app_def dest!: new_service_parts opened split: option.splits)

lemma same_settings:
  assumes "create_app dp entropy env = Inr (i, p)" "create_app dp' entropy' env = Inr (j, q)"
  shows "in_public_host j = in_public_host i" "in_operator j = in_operator i" "in_database_url j = in_database_url i"
  using assms unfolding create_app_def Let_def rbind_Inr_iff by (auto simp: rbind_Inr_iff split: prod.splits)

lemma process_inv:
  assumes "create_app dp entropy env = Inr (i, p0)" "ed25519_ok (dp_ext dp)" "sth_json_ok (dp_ext dp)"
    and "\<And>url s. dp_connect dp url = Inr s \<Longrightarrow> store_inv (dp_ext dp) (configured_attestor (dp_ext dp) (in_loaded i)) s"
    and "process_run i p0 p"
  shows "store_inv (st_ext (in_site i)) (an_attestor (st_anchorer (in_site i))) (pc_store p)"
proof -
  note w = created_wired [OF assms(1)]
  have "store_inv (dp_ext dp) (configured_attestor (dp_ext dp) (in_loaded i)) (pc_store p0)"
    using start_up_store [OF assms(1)] assms(4) by (auto simp: empty_store_inv split: option.splits)
  then have "pc_stable i (pc_store p0) p0" using w by (simp add: stable_def wired_def)
  moreover have "in_env_ok i" using w assms(2,3) by (simp add: env_ok_def wired_def configured_attestor_ok)
  ultimately show ?thesis using process_run_stable [OF assms(5) w, of "pc_store p0"] by (simp add: stable_def)
qed

lemma process_grows:
  assumes "create_app dp entropy env = Inr (i, p0)" "ed25519_ok (dp_ext dp)" "sth_json_ok (dp_ext dp)"
    and "\<And>url s. dp_connect dp url = Inr s \<Longrightarrow> store_inv (dp_ext dp) (configured_attestor (dp_ext dp) (in_loaded i)) s"
    and "process_run i p0 p" "process_run i p q"
  shows "evolves (pc_store p) (pc_store q)"
proof -
  note w = created_wired [OF assms(1)]
  have "pc_stable i (pc_store p) p" using process_inv [OF assms(1-5)] by (simp add: stable_def)
  moreover have "in_env_ok i" using w assms(2,3) by (simp add: env_ok_def wired_def configured_attestor_ok)
  ultimately show ?thesis using process_run_stable [OF assms(6) w] by (simp add: stable_def)
qed

section \<open>Properties\<close>

text \<open>C9: the application starts only when it is configured: with a stable key or the explicit waiver, with the name of
  the host it serves, with a database or the explicit waiver, with a known proof policy and payload cap. A
  public log is fed only under a stable key, and the countersign router exists only when both of its
  switches are on.\<close>

theorem start_up_fails_closed:
  assumes "create_app dp entropy env = Inr (i, p)"
  shows "(lk_ephemeral (in_loaded i) \<longrightarrow> env ''CAPSULE_ANCHOR_INSECURE_EPHEMERAL_KEY'' = Some ''1'' \<and> in_rekor_url i = None) \<and>
    env ''CAPSULE_ANCHOR_PUBLIC_HOST'' = Some (in_public_host i) \<and> in_public_host i \<noteq> [] \<and>
    (in_database_url i = None \<longrightarrow> env ''CAPSULE_ANCHOR_INSECURE_IN_MEMORY'' = Some ''1'' \<and> pc_store p = empty_store) \<and>
    (\<forall>url. in_database_url i = Some url \<longrightarrow> env ''CAPSULE_ANCHOR_DATABASE_URL'' = Some url \<and>
      dp_connect dp url = Inr (pc_store p)) \<and>
    (in_rekor_url i \<noteq> None \<longleftrightarrow> lower (strip (env_get env ''CAPSULE_ANCHOR_PUBLIC_LOG'' ''none'')) = ''rekor'') \<and>
    (in_countersign i \<noteq> None \<longleftrightarrow> strict_countersign_active env)"
proof -
  obtain loaded host url policy payloads db a s submitters retention rekor cs where c:
    "load_identity dp entropy env = Inr loaded" "public_host_of env = Inr host" "database_url_of env = Inr url"
    "open_store dp url = Inr db"
    "new_service (dp_ext dp) (Some (configured_attestor (dp_ext dp) loaded)) None [] policy (Some payloads) db = Inr (a, s)"
    "public_log_of env (lk_ephemeral loaded) = Inr rekor" "countersign_of dp env = Inr cs"
    "in_loaded i = loaded" "in_public_host i = host" "in_database_url i = url" "in_rekor_url i = rekor"
    "in_countersign i = (case cs of None \<Rightarrow> None | Some iss \<Rightarrow> Some (countersign_site dp env a iss))"
    "p = \<lparr>pc_app = new_app s, pc_countersign = new_limiter 300 minute, pc_failures = 0\<rparr>"
    using assms by (rule created)
  have st: "pc_store p = (case db of None \<Rightarrow> empty_store | Some t \<Rightarrow> t)"
    using new_service_parts [OF c(5)] by (simp add: c(13) new_app_def)
  have key: "lk_ephemeral loaded \<longrightarrow> env ''CAPSULE_ANCHOR_INSECURE_EPHEMERAL_KEY'' = Some ''1''"
    using c(1) by (auto simp: load_identity_def rbind_Inr_iff split: if_splits)
  have host: "env ''CAPSULE_ANCHOR_PUBLIC_HOST'' = Some host \<and> host \<noteq> []"
    using c(2) by (auto simp: public_host_of_def split: option.splits list.splits)
  have url: "case url of None \<Rightarrow> env ''CAPSULE_ANCHOR_INSECURE_IN_MEMORY'' = Some ''1'' | Some u \<Rightarrow> env ''CAPSULE_ANCHOR_DATABASE_URL'' = Some u"
    using c(3) by (auto simp: database_url_of_def split: option.splits list.splits if_splits)
  have rekor: "(lk_ephemeral loaded \<longrightarrow> rekor = None) \<and>
      (rekor \<noteq> None \<longleftrightarrow> lower (strip (env_get env ''CAPSULE_ANCHOR_PUBLIC_LOG'' ''none'')) = ''rekor'')"
    using c(6) by (auto simp: public_log_of_def Let_def rbind_Inr_iff split: if_splits)
  have cs: "cs \<noteq> None \<longleftrightarrow> strict_countersign_active env"
    using c(7) by (auto simp: countersign_of_def rbind_Inr_iff split: if_splits)
  show ?thesis
    using key host url rekor cs opened [OF c(4)] by (auto simp: st c(8-12) split: option.splits)
qed

text \<open>C7: whatever runs in the process and in whatever order (requests to both routers, accepted or refused, health
  checks, and the refresh, prune and publisher threads), the log passes the audit, only grows, and the
  latest tree head never rolls back, provided the database holds what this key signed.\<close>

theorem process_keeps_log_sound:
  assumes "create_app dp entropy env = Inr (i, p0)" "ed25519_ok (dp_ext dp)" "sth_json_ok (dp_ext dp)"
    and "\<And>url s. dp_connect dp url = Inr s \<Longrightarrow> store_inv (dp_ext dp) (configured_attestor (dp_ext dp) (in_loaded i)) s"
    and "process_run i p0 p" "process_run i p q"
  shows "verify_log (st_ext (in_site i)) (st_anchorer (in_site i)) None (ap_svc (pc_app q)) \<and>
    prefix (m_log (pc_store p)) (m_log (pc_store q)) \<and> key_le (m_latest_sth_key (pc_store p)) (m_latest_sth_key (pc_store q))"
  using process_inv [OF assms(1-4) process_run_trans [OF assms(6,5)]] process_grows [OF assms]
  by (simp add: verify_log_inv evolves_def)

text \<open>C8: a restart keeps the identity: an instance started again from the same environment with a configured key,
  on the database the first one left, has the same public key and key id, finds the whole log valid, and
  from there on extends it.\<close>

theorem restart_keeps_identity:
  assumes "create_app dp entropy env = Inr (i, p0)" "process_run i p0 p" "\<not> lk_ephemeral (in_loaded i)"
    and "ed25519_ok (dp_ext dp)" "sth_json_ok (dp_ext dp)"
    and "\<And>url s. dp_connect dp url = Inr s \<Longrightarrow> store_inv (dp_ext dp) (configured_attestor (dp_ext dp) (in_loaded i)) s"
    and "in_database_url i \<noteq> None"
    and "create_app (dp\<lparr>dp_connect := (\<lambda>_. Inr (pc_store p))\<rparr>) entropy' env = Inr (j, q0)" "process_run j q0 q"
  shows "did_document j = did_document i \<and> an_attestor (st_anchorer (in_site j)) = an_attestor (st_anchorer (in_site i)) \<and>
    pc_store q0 = pc_store p \<and> verify_log (st_ext (in_site j)) (st_anchorer (in_site j)) None (ap_svc (pc_app q)) \<and>
    prefix (m_log (pc_store p)) (m_log (pc_store q))"
proof -
  let ?dp = "dp\<lparr>dp_connect := (\<lambda>_. Inr (pc_store p))\<rparr>"
  note w = created_wired [OF assms(1)] and v = created_wired [OF assms(8)]
  have li: "load_identity dp entropy env = Inr (in_loaded i)" using assms(1) by (rule created) simp
  have lj: "load_identity dp entropy' env = Inr (in_loaded j)"
    using assms(8) by (rule created) (simp add: load_identity_def)
  have same: "in_loaded j = in_loaded i"
    using li lj load_configured(2) [of "dp_loaders dp" entropy env "in_loaded i" entropy'] assms(3)
    by (auto simp: load_identity_def rbind_Inr_iff split: if_splits)
  have host: "in_public_host j = in_public_host i" "in_operator j = in_operator i"
    "in_database_url j = in_database_url i" using same_settings [OF assms(1) assms(8)] by simp_all
  have att: "an_attestor (st_anchorer (in_site j)) = an_attestor (st_anchorer (in_site i))" "st_ext (in_site j) = st_ext (in_site i)"
    using w v same by (simp_all add: wired_def)
  have q0: "pc_store q0 = pc_store p" using start_up_store [OF assms(8)] host(3) assms(7) by auto
  have "store_inv (dp_ext dp) (configured_attestor (dp_ext dp) (in_loaded i)) (pc_store p)"
    using process_inv [OF assms(1,4,5,6,2)] w by (simp add: wired_def)
  then have "verify_log (st_ext (in_site j)) (st_anchorer (in_site j)) None (ap_svc (pc_app q)) \<and>
      prefix (m_log (pc_store q0)) (m_log (pc_store q))"
    using process_inv [OF assms(8) _ _ _ assms(9)] process_grows [OF assms(8) _ _ _ process_start assms(9)] assms(4,5) same
    by (simp add: verify_log_inv evolves_def)
  with att host q0 show ?thesis by (simp add: did_document_def)
qed

lemma created_countersign:
  assumes "create_app dp entropy env = Inr (i, p)" "in_countersign i = Some st"
  shows "ct_env st = env" "ct_service st = Some (st_anchorer (in_site i))" "env ''CAPSULE_ANCHOR_PUBLIC_HOST'' = Some (in_public_host i)"
proof -
  obtain a host cs where "public_host_of env = Inr host" "in_public_host i = host" "st_anchorer (in_site i) = a"
    "in_countersign i = (case cs of None \<Rightarrow> None | Some iss \<Rightarrow> Some (countersign_site dp env a iss))"
    using assms(1) by (rule created) auto
  then show "ct_env st = env" "ct_service st = Some (st_anchorer (in_site i))"
    "env ''CAPSULE_ANCHOR_PUBLIC_HOST'' = Some (in_public_host i)"
    using assms(2) by (auto simp: countersign_site_def public_host_of_def split: option.splits list.splits)
qed

lemma admitted_signer:
  assumes "admitted st data = Inr (q, b, policy, a, signer_id)"
  shows "signer_id = ''did:web:'' @ the (ct_env st ''CAPSULE_ANCHOR_PUBLIC_HOST'')" "ct_service st = Some a"
  using assms unfolding admitted_def by (auto simp: rbind_Inr_iff split: if_splits option.splits sum.splits)

text \<open>C10: the DID document names the key the instance signs with: its JWK decodes to the authority's public key, every
  signature the instance makes verifies under that key and carries the key id the document lists, and a
  countersignature's signer is the document's own id.\<close>

theorem did_document_names_key:
  assumes "create_app dp entropy env = Inr (i, p)" "ed25519_ok (dp_ext dp)"
  shows "\<exists>x key_id. map_of (did_document i) ''verificationMethod'' = Some (JArr [JObj
      [(''id'', JStr (did_of (in_public_host i) @ ''#'' @ key_id)), (''type'', JStr ''JsonWebKey2020''),
       (''controller'', JStr (did_of (in_public_host i))),
       (''publicKeyJwk'', JObj [(''kty'', JStr ''OKP''), (''crv'', JStr ''Ed25519''), (''x'', JStr x)])]]) \<and>
    jwk_bytes x = Inr (authority_pubkey (an_attestor (st_anchorer (in_site i)))) \<and>
    (\<forall>m t. let s = attest (dp_ext dp) (an_attestor (st_anchorer (in_site i))) m t in
      crypto_verify (dp_ext dp) (authority_pubkey (an_attestor (st_anchorer (in_site i)))) m s \<and> sig_key_id s = key_id) \<and>
    (\<forall>st data q b policy a signer_id. in_countersign i = Some st \<longrightarrow> admitted st data = Inr (q, b, policy, a, signer_id) \<longrightarrow>
      map_of (did_document i) ''id'' = Some (JStr signer_id) \<and> a = st_anchorer (in_site i))"
proof -
  have w: "st_ext (in_site i) = dp_ext dp"
    "an_attestor (st_anchorer (in_site i)) = configured_attestor (dp_ext dp) (in_loaded i)"
    using created_wired [OF assms(1)] by (simp_all add: wired_def)
  have signer: "map_of (did_document i) ''id'' = Some (JStr signer_id) \<and> a = st_anchorer (in_site i)"
    if "in_countersign i = Some st" "admitted st data = Inr (q, b, policy, a, signer_id)" for st data q b policy a signer_id
    using admitted_signer [OF that(2)] created_countersign [OF assms(1) that(1)]
    by (simp add: did_document_def did_of_def Let_def)
  show ?thesis
    by (rule exI [of _ "b64url_nopad (authority_pubkey (an_attestor (st_anchorer (in_site i))))"],
        rule exI [of _ "attestor_key_id (dp_ext dp) (an_attestor (st_anchorer (in_site i)))"])
      (use signer in \<open>simp add: did_document_def Let_def w jwk_roundtrip configured_signature assms(2)\<close>)
qed

text \<open>What \<open>/health\<close> says does not depend on where the key is kept: no path of a key file is disclosed.\<close>

theorem health_hides_key_path:
  "health (i\<lparr>in_loaded := (in_loaded i)\<lparr>lk_source := ''file:'' @ path\<rparr>\<rparr>) now p =
   health (i\<lparr>in_loaded := (in_loaded i)\<lparr>lk_source := ''file:'' @ path'\<rparr>\<rparr>) now p"
proof -
  have "source_scheme (''file:'' @ q) = ''file''" for q by (simp add: source_scheme_def before_def)
  then show ?thesis by (simp add: health_def Let_def cong: if_cong sum.case_cong prod.case_cong)
qed

section \<open>A concrete deployment\<close>

definition sample_environment :: environ where
  "sample_environment = map_of [(''CAPSULE_ANCHOR_SIGNING_KEY'', hex (replicate 32 7)),
     (''CAPSULE_ANCHOR_PUBLIC_HOST'', ''anchor.example''), (''CAPSULE_ANCHOR_DATABASE_URL'', ''postgresql:///anchor''),
     (''CAPSULE_ANCHOR_COUNTERSIGN'', ''1''), (''CAPSULE_ANCHOR_REGISTRATION_POLICY'', ''strict'')]"

definition sample_deployment :: deployment where
  "sample_deployment = \<lparr>dp_ext = cs_ext, dp_lib = sample_lib,
     dp_loaders = \<lparr>load_pem = (\<lambda>_. Inl ValueError), load_der = (\<lambda>_. Inl ValueError), read_bytes = (\<lambda>_. None)\<rparr>,
     dp_connect = (\<lambda>_. Inr empty_store), dp_default_submitters = ''submitters.json'', dp_aac = cs_lib,
     dp_registry = default_registry, dp_parse = (\<lambda>_. None), dp_tsa = (\<lambda>_. None)\<rparr>"

lemma sample_texts: "lower (strip ''warn'') = ''warn''" "lower (strip ''none'') = ''none''" "lower (strip ''off'') = ''off''"
    "float_ok ''60''" "strip [] = []"
  by code_simp+

lemma sample_created: "\<exists>i p. create_app (sample_deployment\<lparr>dp_connect := (\<lambda>_. Inr s)\<rparr>) entropy sample_environment = Inr (i, p) \<and>
    \<not> lk_ephemeral (in_loaded i) \<and> in_database_url i \<noteq> None"
proof -
  let ?dp = "sample_deployment\<lparr>dp_connect := (\<lambda>_. Inr s)\<rparr>"
  let ?k = "\<lparr>lk_seed = replicate 32 7, lk_source = ''env'', lk_ephemeral = False\<rparr>"
  have env: "sample_environment k = None" if "k \<notin> {''CAPSULE_ANCHOR_SIGNING_KEY'', ''CAPSULE_ANCHOR_PUBLIC_HOST'',
      ''CAPSULE_ANCHOR_DATABASE_URL'', ''CAPSULE_ANCHOR_COUNTERSIGN'', ''CAPSULE_ANCHOR_REGISTRATION_POLICY''}" for k
    using that unfolding sample_environment_def by (simp del: hex_append)
  have vars: "sample_environment ''CAPSULE_ANCHOR_SIGNING_KEY'' = Some (signing_key_seed_hex (replicate 32 7))"
    "sample_environment ''CAPSULE_ANCHOR_PUBLIC_HOST'' = Some ''anchor.example''"
    "sample_environment ''CAPSULE_ANCHOR_DATABASE_URL'' = Some ''postgresql:///anchor''"
    "strict_countersign_active sample_environment"
    by (simp_all add: sample_environment_def signing_key_seed_hex_def strict_countersign_active_def)
  have "load_signing_key l entropy sample_environment = Inr ?k" for l
    using seed_roundtrip [of "replicate 32 7" l entropy sample_environment] vars(1) by (simp add: map_upd_triv)
  then have "load_identity ?dp entropy sample_environment = Inr ?k" by (simp add: load_identity_def rbind_def)
  moreover have "public_host_of sample_environment = Inr ''anchor.example''"
    "database_url_of sample_environment = Inr (Some ''postgresql:///anchor'')"
    by (simp_all add: public_host_of_def database_url_of_def vars)
  moreover have "proof_policy_of sample_environment = Inr ''warn''"
    by (simp add: proof_policy_of_def env_get_def env sample_texts consistency_proof_policies_def)
  moreover obtain payloads where "policy_from_env sample_environment (int max_statement_bytes) = Inr payloads"
    by (simp add: policy_from_env_def env_get_def env sample_texts)
  moreover have "open_store ?dp (Some ''postgresql:///anchor'') = Inr (Some s)" by (simp add: open_store_def rbind_def)
  moreover obtain a t where "new_service cs_ext (Some (configured_attestor cs_ext ?k)) None [] ''warn'' (Some payloads) (Some s) = Inr (a, t)"
    by (simp add: new_service_def consistency_proof_policies_def)
  moreover have "from_env_or_default (read_bytes_of ?dp) l ''submitters.json'' sample_environment = Inr []" for l
    by (simp add: from_env_or_default_def env read_bytes_of_def sample_deployment_def)
  moreover have "float_of_env sample_environment ''CAPSULE_ANCHOR_STH_REFRESH_INTERVAL'' ''60'' = Inr ''60''"
    by (simp add: float_of_env_def env_get_def env sample_texts)
  moreover have "retention_of sample_environment = Inr False"
    by (simp add: retention_of_def entry_retention_seconds_def env rbind_def)
  moreover have "public_log_of sample_environment False = Inr None"
    by (simp add: public_log_of_def env_get_def env sample_texts)
  moreover have "countersign_of ?dp sample_environment = Inr (Some [])"
    by (simp add: countersign_of_def vars issuers_from_env_def env rbind_def)
  moreover have "dp_ext ?dp = cs_ext" "dp_default_submitters ?dp = ''submitters.json''" by (simp_all add: sample_deployment_def)
  ultimately show ?thesis unfolding create_app_def Let_def by (simp add: rbind_def)
qed

lemma sample_started: "\<exists>i p. create_app sample_deployment entropy sample_environment = Inr (i, p) \<and>
    \<not> lk_ephemeral (in_loaded i) \<and> in_database_url i \<noteq> None"
  using sample_created [of empty_store entropy] by (simp add: sample_deployment_def)

lemma sample_deployment_ok: "ed25519_ok (dp_ext sample_deployment)" "sth_json_ok (dp_ext sample_deployment)"
    "dp_connect sample_deployment url = Inr s \<Longrightarrow> store_inv x k s"
  using cs_ext_ok by (auto simp: sample_deployment_def env_ok_def empty_store_inv)

theorem start_up_fails_closed_witness:
  "\<exists>i p. create_app sample_deployment [] sample_environment = Inr (i, p) \<and> in_public_host i \<noteq> [] \<and>
     (in_countersign i \<noteq> None \<longleftrightarrow> strict_countersign_active sample_environment)"
proof -
  obtain i p where c: "create_app sample_deployment [] sample_environment = Inr (i, p)" using sample_started by blast
  with start_up_fails_closed [OF c] show ?thesis by blast
qed

theorem process_keeps_log_sound_witness:
  "\<exists>i p r q. create_app sample_deployment [] sample_environment = Inr (i, p) \<and>
     anchor_request i (\<lambda>_. 0) 0 (PostDigest sample_id) p = (r, q) \<and>
     verify_log (st_ext (in_site i)) (st_anchorer (in_site i)) None (ap_svc (pc_app q))"
proof -
  obtain i p where c: "create_app sample_deployment [] sample_environment = Inr (i, p)" using sample_started by blast
  obtain r q where q: "anchor_request i (\<lambda>_. 0) 0 (PostDigest sample_id) p = (r, q)"
    by (cases "anchor_request i (\<lambda>_. 0) 0 (PostDigest sample_id) p")
  have "verify_log (st_ext (in_site i)) (st_anchorer (in_site i)) None (ap_svc (pc_app q)) \<and>
      prefix (m_log (pc_store p)) (m_log (pc_store q)) \<and> key_le (m_latest_sth_key (pc_store p)) (m_latest_sth_key (pc_store q))"
    by (rule process_keeps_log_sound [OF c sample_deployment_ok(1,2) _ process_start process_next [OF process_start anchor_step [OF q]]])
      (rule sample_deployment_ok(3))
  with c q show ?thesis by blast
qed

theorem restart_keeps_identity_witness:
  "\<exists>i p r q j u. create_app sample_deployment [] sample_environment = Inr (i, p) \<and>
     anchor_request i (\<lambda>_. 0) 0 (PostDigest sample_id) p = (r, q) \<and>
     create_app (sample_deployment\<lparr>dp_connect := (\<lambda>_. Inr (pc_store q))\<rparr>) [1] sample_environment = Inr (j, u) \<and>
     did_document j = did_document i \<and> pc_store u = pc_store q"
proof -
  obtain i p where c: "create_app sample_deployment [] sample_environment = Inr (i, p)" "\<not> lk_ephemeral (in_loaded i)"
    "in_database_url i \<noteq> None" using sample_started by blast
  obtain r q where q: "anchor_request i (\<lambda>_. 0) 0 (PostDigest sample_id) p = (r, q)"
    by (cases "anchor_request i (\<lambda>_. 0) 0 (PostDigest sample_id) p")
  obtain j u where j: "create_app (sample_deployment\<lparr>dp_connect := (\<lambda>_. Inr (pc_store q))\<rparr>) [1] sample_environment = Inr (j, u)"
    using sample_created by blast
  have "did_document j = did_document i \<and> an_attestor (st_anchorer (in_site j)) = an_attestor (st_anchorer (in_site i)) \<and>
      pc_store u = pc_store q \<and> verify_log (st_ext (in_site j)) (st_anchorer (in_site j)) None (ap_svc (pc_app u)) \<and>
      prefix (m_log (pc_store q)) (m_log (pc_store u))"
    by (rule restart_keeps_identity [OF c(1) process_next [OF process_start anchor_step [OF q]] c(2)
          sample_deployment_ok(1,2) _ c(3) j process_start])
      (rule sample_deployment_ok(3))
  with c(1) q j show ?thesis by blast
qed

theorem did_document_names_key_witness:
  "\<exists>i p x. create_app sample_deployment [] sample_environment = Inr (i, p) \<and>
     jwk_bytes x = Inr (authority_pubkey (an_attestor (st_anchorer (in_site i))))"
proof -
  obtain i p where c: "create_app sample_deployment [] sample_environment = Inr (i, p)" using sample_started by blast
  from did_document_names_key [OF c sample_deployment_ok(1)] c show ?thesis by blast
qed

end
