(* ===== verification/Submission.thy ===== *)
theory Submission
  imports Conformance
begin

text \<open>
  The submitter's side (\<open>examples/cross-witness-checkpoint-smoke\<close>): a script that builds a checkpoint with
  nothing of this package, submits it, fetches it back and checks the receipt, and a watcher of the tree's
  size. \<open>build_signed_statement\<close> and \<open>verify_receipt\<close> of scitt_cose, canonical CBOR and the PEM encoding of a
  key are parameters; the network is the answers of the witness.
\<close>

section \<open>Building a checkpoint\<close>

record client_lib =
  cl_canonical :: "cbor \<Rightarrow> bytes"
  cl_build :: "bytes \<Rightarrow> bytes \<Rightarrow> string \<Rightarrow> string \<Rightarrow> string \<Rightarrow> bytes \<Rightarrow> bytes"
  cl_public :: "bytes \<Rightarrow> bytes"
  cl_to_pem :: "bytes \<Rightarrow> bytes res"

definition cll_content_type :: string where
  "cll_content_type = ''application/cll-checkpoint+cbor''"

text \<open>The list of hashes is used as a stack: its last element is the head here.\<close>

fun fold_stack :: "bytes list \<Rightarrow> bytes list" where
  "fold_stack (right # left # hashes) = fold_stack (sha256 (right @ left) # hashes)"
| "fold_stack hashes = hashes"

definition client_root :: "bytes list \<Rightarrow> bytes" where
  "client_root peak_hashes = (if peak_hashes = [] then replicate 32 0 else hd (fold_stack (rev peak_hashes)))"

definition commitment_bytes :: "client_lib \<Rightarrow> bytes list \<Rightarrow> bytes" where
  "commitment_bytes cl peak_hashes = cl_canonical cl (CList (map CBytes peak_hashes))"

definition checkpoint_claims :: "client_lib \<Rightarrow> int \<Rightarrow> bytes list \<Rightarrow> int \<Rightarrow> bytes list \<Rightarrow> string \<Rightarrow> (cbor \<times> cbor) list" where
  "checkpoint_claims cl mmr_size new_peaks prev_size prev_peaks issued_at =
     [(CText ''kind'', CText ''cll-checkpoint''), (CText ''log_size'', CInt mmr_size),
      (CText ''commitment'', CBytes (commitment_bytes cl new_peaks)), (CText ''prev_size'', CInt prev_size),
      (CText ''prev_commitment'', CBytes (if prev_peaks = [] then [] else commitment_bytes cl prev_peaks)),
      (CText ''issued_at'', CText issued_at)]"

definition build_checkpoint_cose ::
    "client_lib \<Rightarrow> bytes \<Rightarrow> string \<Rightarrow> int \<Rightarrow> bytes list \<Rightarrow> int \<Rightarrow> bytes list \<Rightarrow> string \<Rightarrow> bytes" where
  "build_checkpoint_cose cl key log_id mmr_size new_peaks prev_size prev_peaks issued_at =
     cl_build cl (cl_canonical cl (CMap (checkpoint_claims cl mmr_size new_peaks prev_size prev_peaks issued_at)))
       key log_id (log_id @ ''#'' @ show_int mmr_size) cll_content_type (cl_public cl key)"

definition checkpoint_digest_hex ::
    "string \<Rightarrow> int \<Rightarrow> bytes list \<Rightarrow> int \<Rightarrow> bytes list \<Rightarrow> string \<Rightarrow> string \<Rightarrow> string" where
  "checkpoint_digest_hex log_id mmr_size new_peaks prev_size prev_peaks key_id_hex issued_at =
     sha256_hex (canonical
       [(''v'', JInt 1), (''kind'', JStr ''mmr_checkpoint''), (''log_id'', JStr log_id), (''mmr_size'', JInt mmr_size),
        (''root'', JStr (hex (client_root new_peaks))), (''prev_size'', JInt prev_size),
        (''prev_root'', JStr (if prev_peaks = [] then [] else hex (client_root prev_peaks))),
        (''key_id'', JStr key_id_hex), (''timestamp'', JStr issued_at)])"

definition entry_hash_hex :: "string \<Rightarrow> string res" where
  "entry_hash_hex digest_hex = rbind (fromhex digest_hex) (\<lambda>b. Inr (sha256_hex b))"

section \<open>The five steps\<close>

text \<open>How a run ends: an HTTP error, a failed assertion, exit code 1 (the receipt does not verify) or 0.\<close>

datatype leg = HttpRefused http_error | Disagreement | ReceiptInvalid | LegPassed

definition first_peaks :: "string \<Rightarrow> int \<Rightarrow> bytes list" where
  "first_peaks log_id mmr_size = [sha256 (utf8 (log_id @ ''-'' @ show_int mmr_size @ ''-0''))]"

definition authority_pubkey_pem :: "client_lib \<Rightarrow> string \<times> string \<Rightarrow> (bytes \<times> string) res" where
  "authority_pubkey_pem cl pub = rbind (fromhex (fst pub)) (\<lambda>raw.
     rbind (cl_to_pem cl raw) (\<lambda>pem. Inr (pem, snd pub)))"

definition check_back ::
    "client_lib \<Rightarrow> (bytes \<Rightarrow> string \<Rightarrow> bytes \<Rightarrow> bool res) \<Rightarrow> string \<Rightarrow> stamp_response
      \<Rightarrow> (http_error + inclusion_response) \<Rightarrow> (http_error + string \<times> string) \<Rightarrow> leg res" where
  "check_back cl verify_receipt expected submitted fetched pub =
     (if sr_entry_hash submitted \<noteq> expected then Inr Disagreement
      else case fetched of
        Inl e \<Rightarrow> Inr (HttpRefused e)
      | Inr f \<Rightarrow>
          if ir_entry_hash f \<noteq> expected \<or> ir_receipt_b64 f \<noteq> sr_receipt_b64 submitted then Inr Disagreement
          else (case pub of
            Inl e \<Rightarrow> Inr (HttpRefused e)
          | Inr p \<Rightarrow>
              rbind (authority_pubkey_pem cl p) (\<lambda>(pem, key_id).
              rbind (b64decode False (ir_receipt_b64 f)) (\<lambda>receipt.
              rbind (verify_receipt receipt expected pem) (\<lambda>ok.
              Inr (if ok then LegPassed else ReceiptInvalid))))))"

text \<open>\<open>main\<close> against a witness: what it posts, what it fetches under the digest it computed itself, and how it ends.\<close>

definition submit_leg ::
    "client_lib \<Rightarrow> (bytes \<Rightarrow> string \<Rightarrow> bytes \<Rightarrow> bool res) \<Rightarrow> site \<Rightarrow> (nat \<Rightarrow> clock) \<Rightarrow> (nat \<Rightarrow> int) \<Rightarrow> bytes \<Rightarrow> string
      \<Rightarrow> int \<Rightarrow> string \<Rightarrow> app \<Rightarrow> leg res \<times> app" where
  "submit_leg cl verify_receipt st now tick key log_id mmr_size issued_at s =
     (let peaks = first_peaks log_id mmr_size;
          cose_bytes = build_checkpoint_cose cl key log_id mmr_size peaks 0 [] issued_at;
          digest_hex = checkpoint_digest_hex log_id mmr_size peaks 0 [] (hex (cl_public cl key)) issued_at
      in case entry_hash_hex digest_hex of
        Inl e \<Rightarrow> (Inl e, s)
      | Inr expected \<Rightarrow>
          (case serve st (now 0) (tick 0) (PostCheckpoints cll_content_type cose_bytes) s of
             (Inr (StampBody r), t) \<Rightarrow>
               (check_back cl verify_receipt expected r
                 (case serve st (now 1) (tick 1) (GetInclusion digest_hex) t of
                    (Inr (ResolvedBody i), _) \<Rightarrow> Inr i | (Inl e, _) \<Rightarrow> Inl e | _ \<Rightarrow> Inl (HttpError 500))
                 (case serve st (now 2) (tick 2) GetAuthorityPubkey t of
                    (Inr (PubkeyBody p), _) \<Rightarrow> Inr p | (Inl e, _) \<Rightarrow> Inl e | _ \<Rightarrow> Inl (HttpError 500)), t)
           | (Inl e, t) \<Rightarrow> (Inr (HttpRefused e), t)
           | (_, t) \<Rightarrow> (Inr (HttpRefused (HttpError 500)), t)))"

section \<open>The size watcher\<close>

definition current_tree_size :: "http_error + sth \<Rightarrow> http_error + int" where
  "current_tree_size resp = (case resp of
     Inl e \<Rightarrow> if e = HttpError 503 then Inr 0 else Inl e
   | Inr h \<Rightarrow> Inr (sth_tree_size h))"

definition read_tree_size :: "site \<Rightarrow> clock \<Rightarrow> int \<Rightarrow> app \<Rightarrow> http_error + int" where
  "read_tree_size st now tick s = current_tree_size (case fst (serve st now tick GetSth s) of
     Inl e \<Rightarrow> Inl e | Inr (SthBody h) \<Rightarrow> Inr h | _ \<Rightarrow> Inl (HttpError 500))"

definition watch_exit_code :: "int \<Rightarrow> int \<Rightarrow> int" where
  "watch_exit_code baseline tree_size = (if tree_size = baseline then 0 else 2)"

text \<open>The polling loop over the sizes it reads: which of them raise an alert, and the baseline it ends with.\<close>

fun poll_sizes :: "int \<Rightarrow> int list \<Rightarrow> bool list \<times> int" where
  "poll_sizes baseline [] = ([], baseline)"
| "poll_sizes baseline (n # ns) =
     (case poll_sizes (if baseline < n then n else baseline) ns of
        (alerts, b) \<Rightarrow> ((baseline < n) # alerts, b))"

section \<open>Client and witness agree\<close>

text \<open>The client's root, over a stack, is the witness's root.\<close>

lemma fold_stack_foldl: "fold_stack (acc # hs) = [foldl (\<lambda>a p. sha256 (a @ p)) acc hs]"
  by (induction hs arbitrary: acc) simp_all

lemma client_root_agrees: "client_root ps = root_from_peaks ps"
proof (cases ps rule: rev_cases)
  case (snoc hs h)
  then show ?thesis by (simp add: client_root_def root_from_peaks_fold fold_stack_foldl)
qed (simp add: client_root_def root_from_peaks_fold)

text \<open>
  What the client asks of the libraries: the items it serialises read back (a map up to the order of its
  keys), and the statement it builds decodes to the header it was built with and verifies under its own key.
\<close>

definition reads_back :: "ext \<Rightarrow> client_lib \<Rightarrow> cbor \<Rightarrow> bool" where
  "reads_back x cl v \<longleftrightarrow> cl_canonical cl v \<noteq> [] \<and>
     (case v of
        CMap m \<Rightarrow> \<exists>m'. cbor_loads x (cl_canonical cl v) = Some (CMap m') \<and> (\<forall>k. cbor_get k m' = cbor_get k m)
      | _ \<Rightarrow> cbor_loads x (cl_canonical cl v) = Some v)"

definition built_ok :: "ext \<Rightarrow> cose_lib \<Rightarrow> bytes \<Rightarrow> string \<Rightarrow> string \<Rightarrow> bytes \<Rightarrow> bytes \<Rightarrow> bool" where
  "built_ok x lib payload iss sub kid b \<longleftrightarrow>
     extract_protected_fields x lib b = Inr (Some kid, Some cll_content_type, Some iss) \<and>
     parse_signed lib b kid = Inr \<lparr>pd_verified = True, pd_issuer = Some iss, pd_subject = Some sub, pd_payload = Some payload\<rparr>"

definition libraries_agree ::
    "ext \<Rightarrow> cose_lib \<Rightarrow> client_lib \<Rightarrow> bytes \<Rightarrow> string \<Rightarrow> int \<Rightarrow> bytes list \<Rightarrow> int \<Rightarrow> bytes list \<Rightarrow> string \<Rightarrow> bool" where
  "libraries_agree x lib cl key log_id mmr_size new_peaks prev_size prev_peaks issued_at \<longleftrightarrow>
     (let claims = CMap (checkpoint_claims cl mmr_size new_peaks prev_size prev_peaks issued_at) in
      reads_back x cl (CList (map CBytes new_peaks)) \<and> reads_back x cl claims \<and>
      (prev_peaks = [] \<or> reads_back x cl (CList (map CBytes prev_peaks))) \<and>
      built_ok x lib (cl_canonical cl claims) log_id (log_id @ ''#'' @ show_int mmr_size) (cl_public cl key)
        (build_checkpoint_cose cl key log_id mmr_size new_peaks prev_size prev_peaks issued_at))"

text \<open>The log is not enrolled, or is enrolled with the key the client signs with.\<close>

definition enrolled_as :: "allowlist \<Rightarrow> string \<Rightarrow> bytes \<Rightarrow> bool" where
  "enrolled_as al log_id kid \<longleftrightarrow>
     (case allowlist_get log_id al of None \<Rightarrow> True | Some e \<Rightarrow> sb_log_id e = log_id \<and> sb_pubkey e = kid)"

definition client_checkpoint :: "client_lib \<Rightarrow> submitter option \<Rightarrow> bytes \<Rightarrow> string \<Rightarrow> int \<Rightarrow> bytes list \<Rightarrow> int \<Rightarrow> bytes list \<Rightarrow> string \<Rightarrow> checkpoint" where
  "client_checkpoint cl entry key log_id mmr_size new_peaks prev_size prev_peaks issued_at =
     \<lparr>ck_v = 1, ck_kind = ''mmr_checkpoint'', ck_log_id = log_id, ck_mmr_size = mmr_size,
      ck_root = hex (client_root new_peaks), ck_prev_size = prev_size,
      ck_prev_root = (if prev_peaks = [] then [] else hex (client_root prev_peaks)), ck_key_id = hex (cl_public cl key),
      ck_timestamp = issued_at, ck_grade = map_option grade_of entry, ck_proof = Some None\<rparr>"

lemma peaks_read: "list_all (\<lambda>p. length p = 32) ps \<Longrightarrow> peak_list (CList (map CBytes ps)) = Inr ps"
proof (induction ps)
  case (Cons p ps)
  then show ?case by (simp add: peak_list_def peak_hash_def)
qed (simp add: peak_list_def)

lemma commitment_read:
  assumes "reads_back x cl (CList (map CBytes ps))" "list_all (\<lambda>p. length p = 32) ps"
  shows "commitment_root x (Some (CBytes (commitment_bytes cl ps))) = Inr (hex (client_root ps))"
  using assms peaks_read [OF assms(2)]
  by (simp add: commitment_root_def commitment_bytes_def decode_commitment_def reads_back_def client_root_agrees)

lemma prev_commitment_read:
  assumes "ps = [] \<or> reads_back x cl (CList (map CBytes ps))" "list_all (\<lambda>p. length p = 32) ps"
  shows "prev_commitment_root x (Some (CBytes (if ps = [] then [] else commitment_bytes cl ps))) =
    Inr (if ps = [] then [] else hex (client_root ps))"
proof (cases "ps = []")
  case False
  then have rb: "reads_back x cl (CList (map CBytes ps))" using assms(1) by simp
  then have "commitment_bytes cl ps \<noteq> []" by (simp add: reads_back_def commitment_bytes_def)
  then show ?thesis using False commitment_read [OF rb assms(2)] by (simp add: prev_commitment_root_def truthy_def)
qed (simp add: prev_commitment_root_def truthy_def)

lemma claims_read:
  assumes "libraries_agree x lib cl key log_id mmr_size new_peaks prev_size prev_peaks issued_at"
    and "list_all (\<lambda>p. length p = 32) new_peaks" "list_all (\<lambda>p. length p = 32) prev_peaks"
    and "0 \<le> prev_size" "prev_size < mmr_size"
  shows "read_claims x entry (cl_public cl key) log_id (Some (log_id @ ''#'' @ show_int mmr_size))
      (Some (cl_canonical cl (CMap (checkpoint_claims cl mmr_size new_peaks prev_size prev_peaks issued_at)))) =
    Inr (client_checkpoint cl entry key log_id mmr_size new_peaks prev_size prev_peaks issued_at)"
proof -
  let ?m = "checkpoint_claims cl mmr_size new_peaks prev_size prev_peaks issued_at"
  have rb: "reads_back x cl (CList (map CBytes new_peaks))" "reads_back x cl (CMap ?m)"
    "prev_peaks = [] \<or> reads_back x cl (CList (map CBytes prev_peaks))"
    using assms(1) unfolding libraries_agree_def Let_def by blast+
  obtain m' where m': "cbor_loads x (cl_canonical cl (CMap ?m)) = Some (CMap m')" "\<And>k. cbor_get k m' = cbor_get k ?m"
    using rb(2) by (auto simp: reads_back_def)
  have get: "cbor_get (CText ''kind'') ?m = Some (CText ''cll-checkpoint'')" "cbor_get (CText ''log_size'') ?m = Some (CInt mmr_size)"
    "cbor_get (CText ''commitment'') ?m = Some (CBytes (commitment_bytes cl new_peaks))"
    "cbor_get (CText ''prev_size'') ?m = Some (CInt prev_size)"
    "cbor_get (CText ''prev_commitment'') ?m = Some (CBytes (if prev_peaks = [] then [] else commitment_bytes cl prev_peaks))"
    "cbor_get (CText ''issued_at'') ?m = Some (CText issued_at)" "cbor_get (CText ''consistency_proof'') ?m = None"
    by (simp_all add: checkpoint_claims_def cbor_get_def norm_key_def)
  show ?thesis
    using assms(4,5)
    by (simp add: read_claims_def claims_map_def m' get commitment_read [OF rb(1) assms(2)]
        prev_commitment_read [OF rb(3) assms(3)] claim_int_def claim_text_def claimed_proof_def client_checkpoint_def del: if_split)
qed

lemma client_parsed:
  assumes "libraries_agree x lib cl key log_id mmr_size new_peaks prev_size prev_peaks issued_at"
    and "enrolled_as al log_id (cl_public cl key)" "length (cl_public cl key) = 32" "key_loads lib (cl_public cl key)"
    and "list_all (\<lambda>p. length p = 32) new_peaks" "list_all (\<lambda>p. length p = 32) prev_peaks"
    and "log_id \<noteq> []" "0 \<le> prev_size" "prev_size < mmr_size"
  shows "parse_checkpoint_cose x lib (Some al) (build_checkpoint_cose cl key log_id mmr_size new_peaks prev_size prev_peaks issued_at) =
    Inr (client_checkpoint cl (allowlist_get log_id al) key log_id mmr_size new_peaks prev_size prev_peaks issued_at)"
proof -
  let ?b = "build_checkpoint_cose cl key log_id mmr_size new_peaks prev_size prev_peaks issued_at"
  have built: "extract_protected_fields x lib ?b = Inr (Some (cl_public cl key), Some cll_content_type, Some log_id)"
    "parse_signed lib ?b (cl_public cl key) = Inr \<lparr>pd_verified = True, pd_issuer = Some log_id,
       pd_subject = Some (log_id @ ''#'' @ show_int mmr_size),
       pd_payload = Some (cl_canonical cl (CMap (checkpoint_claims cl mmr_size new_peaks prev_size prev_peaks issued_at)))\<rparr>"
    using assms(1) unfolding libraries_agree_def Let_def built_ok_def by blast+
  note claims = claims_read [OF assms(1,5,6,8,9)]
  have "enrolled (Some al) (Some log_id) = allowlist_get log_id al" using assms(7) by (simp add: enrolled_def)
  then show ?thesis
    using assms(2-4,7) built claims
    by (auto simp: parse_checkpoint_cose_def cll_content_type_def verify_statement_def enrolled_as_def split: option.splits)
qed

lemma client_digest:
  "checkpoint_digest (client_checkpoint cl entry key log_id mmr_size new_peaks prev_size prev_peaks issued_at) =
   checkpoint_digest_hex log_id mmr_size new_peaks prev_size prev_peaks (hex (cl_public cl key)) issued_at"
  by (simp add: checkpoint_digest_def checkpoint_signing_body_def client_checkpoint_def checkpoint_digest_hex_def)

text \<open>C34: the client and the witness agree on the wire: what \<open>build_checkpoint_cose\<close> builds, the witness parses, to a
  checkpoint of the client's log, sizes, roots, key and time, graded by the log's enrolment; and the digest
  the client computes is the one the witness registers.\<close>

theorem client_wire_agrees:
  assumes "libraries_agree x lib cl key log_id mmr_size new_peaks prev_size prev_peaks issued_at"
    and "enrolled_as al log_id (cl_public cl key)" "length (cl_public cl key) = 32" "key_loads lib (cl_public cl key)"
    and "list_all (\<lambda>p. length p = 32) new_peaks" "list_all (\<lambda>p. length p = 32) prev_peaks"
    and "log_id \<noteq> []" "0 \<le> prev_size" "prev_size < mmr_size"
  shows "\<exists>cp. parse_checkpoint_cose x lib (Some al)
        (build_checkpoint_cose cl key log_id mmr_size new_peaks prev_size prev_peaks issued_at) = Inr cp \<and>
    ck_log_id cp = log_id \<and> ck_mmr_size cp = mmr_size \<and> ck_prev_size cp = prev_size \<and>
    ck_root cp = hex (root_from_peaks new_peaks) \<and>
    ck_prev_root cp = (if prev_peaks = [] then [] else hex (root_from_peaks prev_peaks)) \<and>
    ck_key_id cp = hex (cl_public cl key) \<and> ck_grade cp = map_option grade_of (allowlist_get log_id al) \<and>
    checkpoint_digest cp =
      checkpoint_digest_hex log_id mmr_size new_peaks prev_size prev_peaks (hex (cl_public cl key)) issued_at"
  using client_parsed [OF assms] client_digest
  by (simp add: client_root_agrees [symmetric]) (simp add: client_checkpoint_def)

section \<open>A run of the script against the witness\<close>

text \<open>What a stamp without public-log evidence leaves at the witness, read back under the digest.\<close>

lemma stamp_resolves:
  assumes "ap_reachable st s" "env_ok (st_ext st) (st_anchorer st)"
    and "serve st now tick (PostCheckpoints ct b) s = (Inr (StampBody r), t)"
    and "parse_checkpoint_cose (st_ext st) (st_lib st) (Some (st_allowlist st)) b = Inr cp"
    and "media_type ct \<noteq> ''application/cll-checkpoint+json''"
    and "compute_entry_hash (st_ext st) (sha256 (checkpoint_signing_body cp)) =
      (sha256_hex (sha256 (checkpoint_signing_body cp)), SchemeLegacy)"
  obtains receipt i where "sr_entry_hash r = sha256_hex (sha256 (checkpoint_signing_body cp))"
    "sr_public_log r = None \<Longrightarrow> sr_receipt_b64 r = b64encode receipt"
    "get_registered_statement (sr_entry_hash r) (ap_svc t) = Some (receipt, sr_leaf_index r, sr_tree_size r)"
    "serve st now' tick' (GetInclusion (checkpoint_digest cp)) t = (Inr (ResolvedBody i), t)"
    "ir_entry_hash i = sr_entry_hash r" "ir_receipt_b64 i = b64encode receipt"
proof -
  let ?d = "sha256 (checkpoint_signing_body cp)"
  have "checkpoints_route st now tick ct b s = (Inr r, t)"
    using assms(3) by (auto simp: body_def hbind_def hreturn_def split: prod.splits sum.splits)
  then obtain cp' rg where c: "(if media_type ct = ''application/cll-checkpoint+json''
      then parse_checkpoint_json (st_ext st) (st_allowlist st) b
      else parse_checkpoint_cose (st_ext st) (st_lib st) (Some (st_allowlist st)) b) = Inr cp'"
    "witness_checkpoint (st_ext st) (st_anchorer st) now cp' (ap_svc s) = (Inr rg, ap_svc t)"
    "sr_entry_hash r = rg_entry_hash rg" "sr_leaf_index r = rg_leaf_index rg" "sr_tree_size r = rg_tree_size rg"
    "sr_public_log r = None \<longrightarrow> sr_receipt_b64 r = b64encode (rg_receipt rg)"
    by (rule checkpoints_accepted)
  from c(1) have cp: "cp' = cp" using assms(4,5) by simp
  obtain s1 where s1: "register_signed_statement_full (st_ext st) (st_anchorer st) now ?d (ck_grade cp) (Some cp) (ap_svc s) = (Inr rg, s1)"
    "record_checkpoint_read_surface cp rg s1 = (Inr (), ap_svc t)"
    using c(2) cp by (cases rule: witness_checkpoint_cases) auto
  note inv = reachable_inv [OF assms(1,2)]
  have h: "rg_entry_hash rg = sha256_hex ?d" by (rule legacy_entry_hash [OF inv assms(2) s1(1) assms(6)])
  have got: "get_registered_statement (sha256_hex ?d) (ap_svc t) = Some (rg_receipt rg, rg_leaf_index rg, rg_tree_size rg)"
    using register_receipt_kept [OF inv assms(2) s1(1)] record_keeps [OF s1(2)] h
    by (simp add: get_registered_statement_def get_statement_def)
  have "ap_reachable st t"
    using serve_moves [of st now tick "PostCheckpoints ct b"] assms(1,3) by (auto simp: moves_def intro: reachable_run)
  note inv' = reachable_inv [OF this assms(2)]
  from statement_served [OF inv'] got have "0 \<le> rg_leaf_index rg" "rg_leaf_index rg < rg_tree_size rg"
    "rg_tree_size rg \<le> store_size (store (ap_svc t))" by (simp_all add: get_registered_statement_def)
  from inclusion_served [OF inv' this, of None] obtain p where
    p: "inclusion_proof_ct (rg_leaf_index rg) (Some (rg_tree_size rg)) (ap_svc t) = Inr p" by auto
  have "capsule_bytes (checkpoint_digest cp) = Inr ?d"
    by (simp add: checkpoint_digest_def sha256_hex_def capsule_bytes_hex)
  from inclusion_route_found [OF this got p, of st now' tick'] got h c(3-6) show thesis by (intro that) auto
qed

lemma no_evidence:
  assumes "st_publisher st = None" "serve st now tick (PostCheckpoints ct b) s = (Inr (StampBody r), t)"
  shows "sr_public_log r = None"
proof -
  have cp: "sr_public_log r' = None" if "witness_checkpoint_cp st now tick cp u = (Inr r', v)" for cp u r' v
    using that assms(1) unfolding witness_checkpoint_cp_def
    by (elim hbind_Inr) (auto simp: hread_def hreturn_def public_evidence_def split: sum.splits)
  have "checkpoints_route st now tick ct b s = (Inr r, t)"
    using assms(2) by (auto simp: body_def hbind_def hreturn_def split: prod.splits sum.splits)
  then show ?thesis
    unfolding checkpoints_route_def witness_checkpoint_cose_def witness_checkpoint_json_def
    by (auto simp: hfail_def split: if_splits elim!: hbind_Inr dest: cp)
qed

lemma pubkey_served:
  "serve st now tick GetAuthorityPubkey t = (Inr (PubkeyBody (hex (authority_pubkey (an_attestor (st_anchorer st))),
     attestor_key_id (st_ext st) (an_attestor (st_anchorer st)))), t)"
  by (simp add: body_def authority_pubkey_route_def hbind_def hreturn_def)

lemma post_checkpoints_body:
  "fst (serve st now tick (PostCheckpoints ct b) s) = Inr resp \<Longrightarrow> \<exists>r. resp = StampBody r"
  by (auto simp: body_def hbind_def hreturn_def split: prod.splits sum.splits)

lemma cll_not_json: "media_type cll_content_type \<noteq> ''application/cll-checkpoint+json''"
  by code_simp


section \<open>What the watcher sees\<close>

lemma tree_size_read:
  assumes "ap_reachable st s" "env_ok (st_ext st) (st_anchorer st)"
  shows "read_tree_size st now tick s = Inr (store_size (store (ap_svc s)))"
proof -
  obtain h u where h: "get_sth (st_ext st) (st_anchorer st) now (ap_svc s) = (Inr h, u)" "sth_tree_size h = store_size (store (ap_svc s))"
    using get_sth_run [OF reachable_inv [OF assms] assms(2)] by blast
  then show ?thesis
    by (auto simp: read_tree_size_def current_tree_size_def body_def sth_route_def hbind_def hcall_def hfail_def hreturn_def)
qed

lemma poll_sizes_alert:
  "i < length ns \<Longrightarrow> fst (poll_sizes b ns) ! i \<longleftrightarrow> b < ns ! i \<and> (\<forall>j<i. ns ! j < ns ! i)"
proof (induction ns arbitrary: b i)
  case (Cons n ns)
  show ?case
  proof (cases i)
    case 0
    then show ?thesis by (simp add: split_def)
  next
    case (Suc k)
    then show ?thesis using Cons.IH [of k "if b < n then n else b"] Cons.prems
      by (auto simp: split_def less_Suc_eq_0_disj)
  qed
qed simp

lemma poll_sizes_baseline: "snd (poll_sizes b ns) = foldl max b ns"
  by (induction ns arbitrary: b) (simp_all add: split_def max_def)

lemma session_keeps:
  assumes "ap_reachable st s" "env_ok (st_ext st) (st_anchorer st)" "session st s t"
  shows "ap_reachable st t \<and> store_size (store (ap_svc s)) \<le> store_size (store (ap_svc t))"
proof -
  have run: "ap_run st s t" by (rule session_run [OF assms(3)])
  then have "evolves (store (ap_svc s)) (store (ap_svc t))" by (rule run_evolves [OF _ assms(1,2)])
  then show ?thesis using reachable_run [OF assms(1) run]
    by (auto simp: evolves_def store_size_def dest: prefix_length_le)
qed

lemma sessions_sorted:
  assumes "env_ok (st_ext st) (st_anchorer st)" "ap_reachable st s" "successively (session st) (s # ss)"
  shows "list_all (ap_reachable st) ss \<and> sorted (map (\<lambda>t. store_size (store (ap_svc t))) (s # ss))"
  using assms(2,3)
proof (induction ss arbitrary: s)
  case (Cons t ss)
  from Cons.prems session_keeps [OF _ assms(1)] have t: "ap_reachable st t"
    "store_size (store (ap_svc s)) \<le> store_size (store (ap_svc t))" by auto
  with Cons.IH [OF t(1)] Cons.prems show ?case by auto
qed simp

lemma sorted_growth:
  assumes "sorted ns" "i < length (ns :: int list)"
  shows "(\<forall>j<i. ns ! j < ns ! i) \<longleftrightarrow> i = 0 \<or> ns ! (i - 1) < ns ! i"
proof (cases i)
  case (Suc k)
  have "ns ! j \<le> ns ! k" if "j < Suc k" for j using sorted_nth_mono [OF assms(1)] that assms(2) Suc by simp
  then show ?thesis using Suc by force
qed simp

text \<open>Polling a witness between any requests, the watcher raises an alert exactly when the log has grown since
  the poll before (at the first: past the baseline it was given), and it reads an empty log as size 0.\<close>

theorem alert_iff_growth:
  assumes "env_ok (st_ext st) (st_anchorer st)" "ap_reachable st s" "successively (session st) (s # ss)" "i < length ss"
  shows "\<exists>ns. rmap (read_tree_size st now tick) ss = Inr ns \<and>
    (fst (poll_sizes b ns) ! i \<longleftrightarrow> b < store_size (store (ap_svc (ss ! i))) \<and>
      (i = 0 \<or> store_size (store (ap_svc (ss ! (i - 1)))) < store_size (store (ap_svc (ss ! i)))))"
proof -
  let ?n = "\<lambda>t. store_size (store (ap_svc t))"
  from sessions_sorted [OF assms(1-3)] have ss: "list_all (ap_reachable st) ss" "sorted (map ?n ss)" by auto
  have "rmap (read_tree_size st now tick) ss = Inr (map ?n ss)"
    using ss(1) tree_size_read [OF _ assms(1)] by (induction ss) simp_all
  moreover have "fst (poll_sizes b (map ?n ss)) ! i \<longleftrightarrow> b < ?n (ss ! i) \<and> (i = 0 \<or> ?n (ss ! (i - 1)) < ?n (ss ! i))"
    using poll_sizes_alert [of i "map ?n ss" b] sorted_growth [OF ss(2), of i] assms(4) by auto
  ultimately show ?thesis by blast
qed

section \<open>A concrete run\<close>

definition leg_client :: client_lib where
  "leg_client = \<lparr>cl_canonical = (\<lambda>v. case v of CList _ \<Rightarrow> [2] | CMap _ \<Rightarrow> [3] | _ \<Rightarrow> [4]),
     cl_build = (\<lambda>_ _ _ _ _ _. [9]), cl_public = id, cl_to_pem = Inr\<rparr>"

definition leg_ext :: ext where
  "leg_ext = sample_ext\<lparr>cbor_loads := (\<lambda>b. if b = [1] then Some sample_header
     else if b = [2] then Some (CList (map CBytes (first_peaks ''log'' 3)))
     else if b = [3] then Some (CMap (checkpoint_claims leg_client 3 (first_peaks ''log'' 3) 0 [] ''t'')) else None)\<rparr>"

definition leg_site :: site where
  "leg_site = sample_site\<lparr>st_ext := leg_ext, st_anchorer := sample_anchorer\<lparr>an_attestor := new_attestor leg_ext None (sample_key 4)\<rparr>\<rparr>"

lemma leg_env: "env_ok (st_ext leg_site) (st_anchorer leg_site)"
proof -
  have "ed25519_ok leg_ext" "sth_json_ok leg_ext"
    using sample_ext_ed25519 sample_ext_json by (simp_all add: ed25519_ok_def sth_json_ok_def leg_ext_def)
  then show ?thesis by (simp add: env_ok_def leg_site_def new_attestor_ok)
qed

lemma leg_libraries: "libraries_agree leg_ext sample_lib leg_client (sample_key 9) ''log'' 3 (first_peaks ''log'' 3) 0 [] ''t''"
proof -
  have "show_int 3 = ''3''" by code_simp
  then show ?thesis
    by (simp add: libraries_agree_def reads_back_def built_ok_def build_checkpoint_cose_def leg_client_def leg_ext_def
        extract_protected_fields_def protected_header_def truthy_def py_bytes_def norm_key_def cbor_get_def sample_lib_def
        sample_header_def peek_unauthenticated_issuer_def peek_claim_def sample_key_def cll_content_type_def Let_def)
qed

lemma leg_not_cose: "decode_cose_sign1 leg_ext b = None"
  by (auto simp: decode_cose_sign1_def leg_ext_def sample_header_def)

lemma leg_client_facts:
  "key_loads sample_lib (cl_public leg_client (sample_key 9))" "length (cl_public leg_client (sample_key 9)) = 32"
  "enrolled_as [] ''log'' (cl_public leg_client (sample_key 9))" "list_all (\<lambda>p. length p = 32) (first_peaks ''log'' 3)"
  by (simp_all add: sample_lib_def leg_client_def sample_key_def enrolled_as_def allowlist_get_def first_peaks_def)

theorem client_wire_agrees_witness:
  "\<exists>cp. parse_checkpoint_cose leg_ext sample_lib (Some [])
      (build_checkpoint_cose leg_client (sample_key 9) ''log'' 3 (first_peaks ''log'' 3) 0 [] ''t'') = Inr cp \<and>
    ck_log_id cp = ''log'' \<and> ck_root cp = hex (root_from_peaks (first_peaks ''log'' 3))"
  using client_wire_agrees [OF leg_libraries leg_client_facts(3,2,1,4)] by auto

lemma leg_site_fields:
  "st_ext leg_site = leg_ext" "st_lib leg_site = sample_lib" "st_allowlist leg_site = []" "st_publisher leg_site = None"
  by (simp_all add: leg_site_def sample_site_def)

lemma leg_stamped:
  "\<exists>r t. serve leg_site now 0 (PostCheckpoints cll_content_type
     (build_checkpoint_cose leg_client (sample_key 9) ''log'' 3 (first_peaks ''log'' 3) 0 [] ''t'')) sample_app = (Inr (StampBody r), t)"
proof (rule stamp_first [OF leg_env])
  show "parse_checkpoint_cose (st_ext leg_site) (st_lib leg_site) (Some (st_allowlist leg_site))
      (build_checkpoint_cose leg_client (sample_key 9) ''log'' 3 (first_peaks ''log'' 3) 0 [] ''t'') =
    Inr (client_checkpoint leg_client (allowlist_get ''log'' []) (sample_key 9) ''log'' 3 (first_peaks ''log'' 3) 0 [] ''t'')"
    unfolding leg_site_fields by (rule client_parsed [OF leg_libraries leg_client_facts(3,2,1,4)]) simp_all
  show "\<exists>w. submitter_allowed leg_site 0 (client_checkpoint leg_client (allowlist_get ''log'' []) (sample_key 9) ''log'' 3
      (first_peaks ''log'' 3) 0 [] ''t'') u = (Inr (), w) \<and> ap_svc w = ap_svc u" for u
    by (simp add: submitter_allowed_def client_checkpoint_def allowlist_get_def hreturn_def)
qed (simp_all add: leg_site_fields leg_not_cose cll_not_json build_checkpoint_cose_def leg_client_def max_statement_bytes_def)


lemma leg_grows:
  assumes "serve leg_site now 0 (PostCheckpoints cll_content_type
     (build_checkpoint_cose leg_client (sample_key 9) ''log'' 3 (first_peaks ''log'' 3) 0 [] ''t'')) sample_app = (Inr (StampBody r), t)"
  shows "0 < store_size (store (ap_svc t))"
proof -
  have "ap_reachable leg_site t"
    using session_run [OF session_request [OF session_start assms]] by (rule reachable_run [OF sample_app_reachable [OF refl]])
  note inv = reachable_inv [OF this leg_env]
  have parsed: "parse_checkpoint_cose (st_ext leg_site) (st_lib leg_site) (Some (st_allowlist leg_site))
      (build_checkpoint_cose leg_client (sample_key 9) ''log'' 3 (first_peaks ''log'' 3) 0 [] ''t'') =
    Inr (client_checkpoint leg_client (allowlist_get ''log'' []) (sample_key 9) ''log'' 3 (first_peaks ''log'' 3) 0 [] ''t'')"
    unfolding leg_site_fields by (rule client_parsed [OF leg_libraries leg_client_facts(3,2,1,4)]) simp_all
  have legacy: "compute_entry_hash (st_ext leg_site) d = (sha256_hex d, SchemeLegacy)" for d
    using leg_not_cose by (simp add: compute_entry_hash_def entry_hash_preimage_def leg_site_fields)
  obtain receipt where "get_registered_statement (sr_entry_hash r) (ap_svc t) = Some (receipt, sr_leaf_index r, sr_tree_size r)"
    using stamp_resolves [OF sample_app_reachable [OF refl] leg_env assms parsed cll_not_json legacy] by metis
  from statement_served [OF inv this [unfolded get_registered_statement_def]] show ?thesis by simp
qed

theorem alert_iff_growth_witness:
  "\<exists>t ns. rmap (read_tree_size leg_site (\<lambda>_. 0) 0) [sample_app, t] = Inr ns \<and> fst (poll_sizes 0 ns) ! 1"
proof -
  obtain r t where t: "serve leg_site (\<lambda>_. 0) 0 (PostCheckpoints cll_content_type
      (build_checkpoint_cose leg_client (sample_key 9) ''log'' 3 (first_peaks ''log'' 3) 0 [] ''t'')) sample_app = (Inr (StampBody r), t)"
    using leg_stamped by blast
  have "session leg_site sample_app t" by (rule session_request [OF session_start t])
  then have chain: "successively (session leg_site) (sample_app # [sample_app, t])" by (simp add: session_start)
  have "store_size (store (ap_svc sample_app)) = 0" by (simp add: sample_app_def new_app_def store_size_def empty_store_def)
  with alert_iff_growth [OF leg_env sample_app_reachable [OF refl] chain, of 1 "\<lambda>_. 0" 0 0] leg_grows [OF t]
  show ?thesis by auto
qed

end
