(* ===== verification/CodePoints.thy ===== *)
theory CodePoints
  imports Prelude
begin

text \<open>
  Text as Python's \<open>str\<close> holds it, a list of code points, for the two scripts that read files of any script:
  white space, lines, \<open>find\<close>, \<open>lower\<close> and the tables of the Unicode database they stand on. \<open>lower\<close> may lengthen
  a text, so a position in a lowered text need not be one of the text itself.
\<close>

section \<open>Text\<close>

type_synonym ucs = "int list"

definition lit :: "string \<Rightarrow> ucs" where
  "lit s = map of_char s"

text \<open>\<open>str.isspace\<close>, which is also \<open>\s\<close> of \<open>re\<close>, and the breaks of \<open>str.splitlines\<close>.\<close>

definition text_space :: "int \<Rightarrow> bool" where
  "text_space c \<longleftrightarrow> (9 \<le> c \<and> c \<le> 13) \<or> (28 \<le> c \<and> c \<le> 32) \<or> c = 133 \<or> c = 160 \<or> c = 0x1680 \<or>
     (0x2000 \<le> c \<and> c \<le> 0x200A) \<or> c = 0x2028 \<or> c = 0x2029 \<or> c = 0x202F \<or> c = 0x205F \<or> c = 0x3000"

definition text_strip :: "ucs \<Rightarrow> ucs" where
  "text_strip s = rev (dropWhile text_space (rev (dropWhile text_space s)))"

definition line_break :: "int \<Rightarrow> bool" where
  "line_break c \<longleftrightarrow> (10 \<le> c \<and> c \<le> 13) \<or> (28 \<le> c \<and> c \<le> 30) \<or> c = 133 \<or> c = 0x2028 \<or> c = 0x2029"

function splitlines :: "ucs \<Rightarrow> ucs list" where
  "splitlines s = (if s = [] then [] else
     takeWhile (\<lambda>c. \<not> line_break c) s #
     splitlines (case dropWhile (\<lambda>c. \<not> line_break c) s of
       [] \<Rightarrow> []
     | c # r \<Rightarrow> if c = 13 \<and> take 1 r = [10] then drop 1 r else r))"
  by auto

termination
proof (relation "measure length")
  fix s :: ucs
  assume "s \<noteq> []"
  moreover have "length (dropWhile (\<lambda>c. \<not> line_break c) s) \<le> length s" by (rule length_dropWhile_le)
  ultimately show "((case dropWhile (\<lambda>c. \<not> line_break c) s of [] \<Rightarrow> []
     | c # r \<Rightarrow> if c = 13 \<and> take 1 r = [10] then drop 1 r else r), s) \<in> measure length"
    by (auto split: list.splits)
qed simp

declare splitlines.simps [simp del]

fun split_text :: "int \<Rightarrow> ucs \<Rightarrow> ucs list" where
  "split_text c [] = [[]]"
| "split_text c (a # s) = (if a = c then [] # split_text c s
     else (case split_text c s of p # ps \<Rightarrow> (a # p) # ps | [] \<Rightarrow> [[a]]))"

text \<open>\<open>s.find(needle, start)\<close>.\<close>

definition occurs_at :: "ucs \<Rightarrow> ucs \<Rightarrow> nat \<Rightarrow> bool" where
  "occurs_at needle s k \<longleftrightarrow> k + length needle \<le> length s \<and> take (length needle) (drop k s) = needle"

definition find_from :: "ucs \<Rightarrow> ucs \<Rightarrow> nat \<Rightarrow> nat option" where
  "find_from needle s start = find (occurs_at needle s) [start..<Suc (length s)]"

lemma find_from_Some: "find_from needle s start = Some k \<Longrightarrow> start \<le> k \<and> k \<le> length s \<and> occurs_at needle s k"
proof -
  assume "find_from needle s start = Some k"
  then obtain i where "i < length [start..<Suc (length s)]" "occurs_at needle s k" "k = [start..<Suc (length s)] ! i"
    by (auto simp: find_from_def find_Some_iff simp del: upt_Suc)
  then show "start \<le> k \<and> k \<le> length s \<and> occurs_at needle s k" by (simp del: upt_Suc)
qed

lemma find_from_least: "occurs_at needle s j \<Longrightarrow> start \<le> j \<Longrightarrow> \<exists>k \<le> j. find_from needle s start = Some k"
proof -
  assume j: "occurs_at needle s j" "start \<le> j"
  then have "j \<in> set [start..<Suc (length s)]" by (auto simp: occurs_at_def)
  with j obtain k where k: "find_from needle s start = Some k"
    unfolding find_from_def by (metis find_None_iff not_Some_eq)
  then obtain i where i: "i < length [start..<Suc (length s)]" "k = [start..<Suc (length s)] ! i"
    "\<And>m. m < i \<Longrightarrow> \<not> occurs_at needle s ([start..<Suc (length s)] ! m)"
    by (auto simp: find_from_def find_Some_iff simp del: upt_Suc)
  have "\<not> j < k"
  proof
    assume "j < k"
    with i(1,2) j(2) have "j - start < i" "[start..<Suc (length s)] ! (j - start) = j" by (simp_all del: upt_Suc)
    with i(3) j(1) show False by metis
  qed
  with k show ?thesis by auto
qed

section \<open>The Unicode database\<close>

text \<open>
  The tables built into the interpreter: the full lower-case mapping of a code point, the two properties the
  final sigma depends on, whether \<open>re.IGNORECASE\<close> lets a literal match a code point, \<open>\w\<close>, and \<open>isprintable\<close>.
\<close>

record ucd =
  uc_lower :: "int \<Rightarrow> ucs"
  uc_cased :: "int \<Rightarrow> bool"
  uc_ignorable :: "int \<Rightarrow> bool"
  uc_same :: "int \<Rightarrow> int \<Rightarrow> bool"
  uc_word :: "int \<Rightarrow> bool"
  uc_printable :: "int \<Rightarrow> bool"

definition final_sigma :: "ucd \<Rightarrow> ucs \<Rightarrow> nat \<Rightarrow> bool" where
  "final_sigma u s i =
     (let left = dropWhile (uc_ignorable u) (rev (take i s)); right = dropWhile (uc_ignorable u) (drop (Suc i) s)
      in left \<noteq> [] \<and> uc_cased u (hd left) \<and> (right = [] \<or> \<not> uc_cased u (hd right)))"

definition lower_piece :: "ucd \<Rightarrow> ucs \<Rightarrow> nat \<Rightarrow> ucs" where
  "lower_piece u s i = (if s ! i = 0x3A3 then [if final_sigma u s i then 0x3C2 else 0x3C3] else uc_lower u (s ! i))"

text \<open>\<open>s.lower()\<close>.\<close>

definition text_lower :: "ucd \<Rightarrow> ucs \<Rightarrow> ucs" where
  "text_lower u s = concat (map (lower_piece u s) [0..<length s])"

text \<open>Every character lowers to one character, so positions in the lowered text are those of the text.\<close>

definition aligned :: "ucd \<Rightarrow> ucs \<Rightarrow> bool" where
  "aligned u s \<longleftrightarrow> list_all (\<lambda>i. length (lower_piece u s i) = 1) [0..<length s]"

lemma aligned_pieces:
  assumes "aligned u s" "e \<le> length s"
  shows "concat (map (lower_piece u s) [b..<e]) = take (e - b) (drop b (text_lower u s))"
proof -
  let ?f = "\<lambda>i. hd (lower_piece u s i)"
  have one: "lower_piece u s i = [?f i]" if "i < length s" for i
  proof -
    have "length (lower_piece u s i) = 1" using assms(1) that by (simp add: aligned_def list_all_iff)
    then show ?thesis by (cases "lower_piece u s i") auto
  qed
  have pieces: "concat (map (lower_piece u s) [b..<k]) = map ?f [b..<k]" if "k \<le> length s" for b k
  proof -
    have "map (lower_piece u s) [b..<k] = map (\<lambda>i. [?f i]) [b..<k]"
      using that one by (intro map_cong) auto
    then show ?thesis by (simp only: concat_map_singleton)
  qed
  have "take (e - b) [b..<length s] = [b..<e]" using assms(2) by (cases "b \<le> e") simp_all
  with pieces [OF assms(2), of b] pieces [of "length s" 0] assms(2) show ?thesis
    by (simp add: text_lower_def drop_map take_map del: map_map)
qed

text \<open>The tables on Latin-1, with the one capital letter whose lower-case form is longer, for concrete runs.\<close>

definition latin_lower :: "int \<Rightarrow> int" where
  "latin_lower c = (if (65 \<le> c \<and> c \<le> 90) \<or> (192 \<le> c \<and> c \<le> 222 \<and> c \<noteq> 215) then c + 32 else if c = 0x130 then 0x69 else c)"

definition sample_ucd :: ucd where
  "sample_ucd = \<lparr>uc_lower = (\<lambda>c. if c = 0x130 then [0x69, 0x307] else [latin_lower c]), uc_cased = (\<lambda>c. latin_lower c \<noteq> c),
     uc_ignorable = (\<lambda>_. False), uc_same = (\<lambda>l c. latin_lower l = latin_lower c),
     uc_word = (\<lambda>c. (48 \<le> c \<and> c \<le> 57) \<or> (65 \<le> c \<and> c \<le> 90) \<or> c = 95 \<or> (97 \<le> c \<and> c \<le> 122) \<or>
       c \<in> {170, 178, 179, 181, 185, 186, 188, 189, 190} \<or> (192 \<le> c \<and> c \<noteq> 215 \<and> c \<noteq> 247)),
     uc_printable = (\<lambda>c. (161 \<le> c \<and> c \<noteq> 173))\<rparr>"

end
