(* ===== verification/NeutralityScan.thy ===== *)
theory NeutralityScan
  imports CodePoints Json
begin

text \<open>
  The neutrality gate of the repository (\<open>.github/neutrality_scan.py\<close>): no tracked file may carry a reserved
  term outside an allowed phrase, no link is followed, and a run that is not trusted prints its verdict only.
  Text is code points, and the tables of the Unicode database are an argument. The checkout (git's answer, the
  file system, the decoders) is a record of functions; a path is the list of its components below the root, and
  \<open>root\<close> is what \<open>str\<close> puts before them. The self-tests are left out.
\<close>

section \<open>Paths\<close>

fun join_path :: "ucs list \<Rightarrow> ucs" where
  "join_path [] = lit ''.''"
| "join_path [p] = p"
| "join_path (p # ps) = p @ lit ''/'' @ join_path ps"

definition path_parts :: "ucs \<Rightarrow> ucs list" where
  "path_parts name = filter (\<lambda>p. p \<noteq> [] \<and> p \<noteq> lit ''.'') (split_text 47 name)"

definition path_name :: "ucs list \<Rightarrow> ucs" where
  "path_name parts = (if parts = [] then [] else last parts)"

text \<open>\<open>suffix\<close>: from the last dot, unless it opens or ends the name.\<close>

definition path_suffix :: "ucs list \<Rightarrow> ucs" where
  "path_suffix parts = (let name = path_name parts; e = rev (takeWhile (\<lambda>c. c \<noteq> 46) (rev name)) in
     if 46 \<in> set name \<and> length e + 1 < length name \<and> e \<noteq> [] then 46 # e else [])"

section \<open>The configuration\<close>

datatype stop = Exit int | Raised exn

text \<open>A JSON value over code points; what is neither a string, an array nor an object is told apart nowhere.\<close>

datatype tjson = TStr ucs | TArr "tjson list" | TObj "(ucs \<times> tjson) list" | TOther

text \<open>A reserved term, and whether it counts at word boundaries only.\<close>

type_synonym reserved = "ucs \<times> bool"

definition json_items :: "tjson option \<Rightarrow> tjson list res" where
  "json_items v = (case v of
     None \<Rightarrow> Inr []
   | Some (TArr l) \<Rightarrow> Inr l
   | Some (TStr s) \<Rightarrow> Inr (map (\<lambda>c. TStr [c]) s)
   | Some (TObj kvs) \<Rightarrow> Inr (map (\<lambda>kv. TStr (fst kv)) kvs)
   | Some TOther \<Rightarrow> Inl TypeError)"

definition escape :: "tjson \<Rightarrow> ucs res" where
  "escape v = (case v of TStr s \<Rightarrow> Inr s | _ \<Rightarrow> Inl TypeError)"

definition lower_item :: "ucd \<Rightarrow> tjson \<Rightarrow> ucs res" where
  "lower_item u v = (case v of TStr s \<Rightarrow> Inr (text_lower u s) | _ \<Rightarrow> Inl AttributeError)"

definition read_config :: "ucd \<Rightarrow> (ucs \<times> tjson) list \<Rightarrow> (reserved list option \<times> ucs list) res" where
  "read_config u cfg =
     rbind (json_items (map_of cfg (lit ''substring''))) (\<lambda>substring.
     rbind (json_items (map_of cfg (lit ''word''))) (\<lambda>words.
     rbind (json_items (map_of cfg (lit ''allow_phrases''))) (\<lambda>phrases.
     rbind (rmap (lower_item u) phrases) (\<lambda>allow.
     if substring = [] \<and> words = [] then Inr (None, allow)
     else rbind (rmap escape substring) (\<lambda>ss.
          rbind (rmap escape words) (\<lambda>ws.
          Inr (Some (map (\<lambda>t. (t, False)) ss @ map (\<lambda>t. (t, True)) ws), allow)))))))"

definition decode_config :: "(ucs \<Rightarrow> tjson res) \<Rightarrow> ucs \<Rightarrow> tjson res" where
  "decode_config loads raw = rbind (loads raw) (\<lambda>cfg. case cfg of TStr s \<Rightarrow> loads s | _ \<Rightarrow> Inr cfg)"

text \<open>The environment over code points; only \<open>JSONDecodeError\<close> is caught.\<close>

definition load_config :: "ucd \<Rightarrow> (ucs \<Rightarrow> tjson res) \<Rightarrow> (string \<Rightarrow> ucs option) \<Rightarrow> stop + reserved list \<times> ucs list" where
  "load_config u loads env =
     (let raw = text_strip (case env ''NEUTRALITY_TERMS'' of None \<Rightarrow> [] | Some v \<Rightarrow> v) in
      if raw = [] then Inl (Exit 2)
      else case decode_config loads raw of
        Inl e \<Rightarrow> Inl (if e = JSONDecodeError then Exit 2 else Raised e)
      | Inr (TObj cfg) \<Rightarrow>
          (case read_config u cfg of
             Inl e \<Rightarrow> Inl (Raised e)
           | Inr (None, _) \<Rightarrow> Inl (Exit 2)
           | Inr (Some pats, allow) \<Rightarrow> Inr (pats, allow))
      | Inr _ \<Rightarrow> Inl (Exit 2))"

section \<open>Matching\<close>

definition boundary :: "ucd \<Rightarrow> ucs \<Rightarrow> nat \<Rightarrow> bool" where
  "boundary u s k \<longleftrightarrow> (0 < k \<and> uc_word u (s ! (k - 1))) \<noteq> (k < length s \<and> uc_word u (s ! k))"

text \<open>A term is matched character by character, without case.\<close>

definition matches_at :: "ucd \<Rightarrow> ucs \<Rightarrow> nat \<Rightarrow> reserved \<Rightarrow> bool" where
  "matches_at u line k p \<longleftrightarrow> k + length (fst p) \<le> length line \<and>
     list_all2 (uc_same u) (fst p) (take (length (fst p)) (drop k line)) \<and>
     (snd p \<longrightarrow> boundary u line k \<and> boundary u line (k + length (fst p)))"

text \<open>The alternatives are tried in order; after an empty match the next one at that place must not be empty.\<close>

definition first_match :: "ucd \<Rightarrow> reserved list \<Rightarrow> ucs \<Rightarrow> nat \<Rightarrow> bool \<Rightarrow> reserved option" where
  "first_match u pats line k must_advance =
     find (\<lambda>p. matches_at u line k p \<and> (must_advance \<longrightarrow> fst p \<noteq> [])) pats"

lemma first_match_Some:
  "first_match u pats line k adv = Some p \<Longrightarrow> p \<in> set pats \<and> matches_at u line k p \<and> (adv \<longrightarrow> fst p \<noteq> [])"
  by (auto simp: first_match_def find_Some_iff)

lemma first_match_None:
  "first_match u pats line k adv = None \<longleftrightarrow> (\<forall>p \<in> set pats. \<not> (matches_at u line k p \<and> (adv \<longrightarrow> fst p \<noteq> [])))"
  by (auto simp: first_match_def find_None_iff)

function finditer :: "ucd \<Rightarrow> reserved list \<Rightarrow> ucs \<Rightarrow> nat \<Rightarrow> bool \<Rightarrow> (nat \<times> nat) list" where
  "finditer u pats line k must_advance =
     (if length line < k then []
      else case first_match u pats line k must_advance of
        None \<Rightarrow> finditer u pats line (Suc k) False
      | Some p \<Rightarrow> (k, k + length (fst p)) # finditer u pats line (k + length (fst p)) (fst p = []))"
  by auto

termination
  by (relation "measure (\<lambda>(u, pats, line, k, adv). 2 * (Suc (length line) - k) + (if adv then 0 else 1))")
    (auto dest: first_match_Some simp flip: length_greater_0_conv)

declare finditer.simps [simp del]

section \<open>A line\<close>

text \<open>The loop over one phrase starts the next search one past the last find.\<close>

function phrase_spans :: "ucs \<Rightarrow> ucs \<Rightarrow> nat \<Rightarrow> (nat \<times> nat) list" where
  "phrase_spans phrase line start =
     (case find_from phrase line start of
        None \<Rightarrow> [] | Some k \<Rightarrow> (k, k + length phrase) # phrase_spans phrase line (k + 1))"
  by auto

termination
  by (relation "measure (\<lambda>(phrase, line, start). Suc (length line) - start)") (auto dest: find_from_Some)

declare phrase_spans.simps [simp del]

definition allow_spans :: "ucd \<Rightarrow> ucs list \<Rightarrow> ucs \<Rightarrow> (nat \<times> nat) list" where
  "allow_spans u allow line = concat (map (\<lambda>phrase. phrase_spans phrase (text_lower u line) 0) allow)"

definition exempt :: "(nat \<times> nat) list \<Rightarrow> nat \<times> nat \<Rightarrow> bool" where
  "exempt spans m \<longleftrightarrow> list_ex (\<lambda>(s, e). s \<le> fst m \<and> snd m \<le> e) spans"

definition line_offenders :: "ucd \<Rightarrow> ucs \<Rightarrow> reserved list \<Rightarrow> ucs list \<Rightarrow> ucs list" where
  "line_offenders u line pats allow =
     map (\<lambda>(ms, me). take (me - ms) (drop ms line))
       (filter (\<lambda>m. \<not> exempt (allow_spans u allow line) m) (finditer u pats line 0 False))"

section \<open>The echo of a document's source\<close>

text \<open>What follows \<open><!--\<close>, white space and the marker; what follows the first \<open>-->\<close>.\<close>

definition comment_start :: "ucs \<Rightarrow> ucs option" where
  "comment_start s = (if take 4 s = lit ''<!--''
     then (let r = dropWhile text_space (drop 4 s) in if take 18 r = lit ''##markdown-source:'' then Some (drop 18 r) else None)
     else None)"

fun after_end :: "ucs \<Rightarrow> ucs option" where
  "after_end [] = None"
| "after_end (c # r) = (if take 3 (c # r) = lit ''-->'' then Some (drop 3 (c # r)) else after_end r)"

lemma comment_start_shorter: "comment_start s = Some b \<Longrightarrow> length b < length s"
proof -
  assume "comment_start s = Some b"
  then have b: "take 4 s = lit ''<!--''" "b = drop 18 (dropWhile text_space (drop 4 s))"
    by (auto simp: comment_start_def Let_def split: if_splits)
  have "length (dropWhile text_space (drop 4 s)) \<le> length (drop 4 s)" by (rule length_dropWhile_le)
  with b show ?thesis by (cases s) (auto simp: lit_def)
qed

lemma after_end_shorter: "after_end s = Some r \<Longrightarrow> length r \<le> length s"
  by (induction s) (auto split: if_splits)

function strip_generated_comments :: "ucs \<Rightarrow> ucs" where
  "strip_generated_comments [] = []"
| "strip_generated_comments (c # r) =
     (case comment_start (c # r) of
        None \<Rightarrow> c # strip_generated_comments r
      | Some b \<Rightarrow> (case after_end b of
          None \<Rightarrow> c # strip_generated_comments r
        | Some rest \<Rightarrow> strip_generated_comments rest))"
  by pat_completeness auto

termination
  by (relation "measure length") (auto dest!: comment_start_shorter after_end_shorter)

section \<open>The files\<close>

text \<open>An opened file: what \<open>fstat\<close> says of it, and what reading it gives.\<close>

record open_file =
  of_regular :: "bool res"
  of_read :: "bytes res"

record checkout =
  co_git :: "(int \<times> bytes) res"
  co_rglob :: "ucs list list res"
  co_fsdecode :: "bytes \<Rightarrow> ucs"
  co_decode :: "bytes \<Rightarrow> ucs"
  co_json :: "ucs \<Rightarrow> tjson res"
  co_symlink :: "ucs list \<Rightarrow> bool"
  co_inside :: "ucs list \<Rightarrow> bool res"
  co_regular :: "ucs list \<Rightarrow> bool res"
  co_open :: "ucs list \<Rightarrow> open_file res"

fun split_nul :: "bytes \<Rightarrow> bytes list" where
  "split_nul [] = [[]]"
| "split_nul (b # bs) = (if b = 0 then [] # split_nul bs
     else (case split_nul bs of p # ps \<Rightarrow> (b # p) # ps | [] \<Rightarrow> [[b]]))"

definition git_tracked_files :: "checkout \<Rightarrow> ucs list list option res" where
  "git_tracked_files co = rbind (co_git co) (\<lambda>(returncode, out).
     if returncode \<noteq> 0 then Inr None
     else Inr (Some (map (\<lambda>f. path_parts (co_fsdecode co f)) (filter (\<lambda>f. f \<noteq> []) (split_nul out)))))"

definition link_on_path :: "checkout \<Rightarrow> ucs list \<Rightarrow> bool" where
  "link_on_path co parts = list_ex (\<lambda>k. co_symlink co (take k parts)) [1..<Suc (length parts)]"

definition none_on_oserror :: "'a option res \<Rightarrow> 'a option res" where
  "none_on_oserror r = (case r of Inl OSError \<Rightarrow> Inr None | _ \<Rightarrow> r)"

definition read_regular_file :: "checkout \<Rightarrow> ucs list \<Rightarrow> ucs option res" where
  "read_regular_file co parts =
     (if link_on_path co parts then Inr None
      else none_on_oserror (
        rbind (co_inside co parts) (\<lambda>inside. if \<not> inside then Inr None else
        rbind (co_regular co parts) (\<lambda>regular. if \<not> regular then Inr None else
        rbind (co_open co parts) (\<lambda>fd.
        rbind (of_regular fd) (\<lambda>still_regular. if \<not> still_regular then Inr None else
        rbind (of_read fd) (\<lambda>b. Inr (Some (co_decode co b)))))))))"

section \<open>The scan\<close>

definition scan_suffixes :: "ucs list" where
  "scan_suffixes = map lit [''.html'', ''.py'', ''.go'', ''.rs'', ''.md'', ''.rst'', ''.txt'', ''.xml'', ''.toml'',
     ''.cfg'', ''.yml'', ''.yaml'', ''.json'']"

definition scanned :: "ucd \<Rightarrow> ucs \<Rightarrow> ucs list \<Rightarrow> bool" where
  "scanned u root parts \<longleftrightarrow> text_lower u (path_suffix parts) \<in> set scan_suffixes \<and>
     find_from (lit ''.git/'') (root @ join_path parts) 0 = None"

text \<open>\<open>repr\<close> of a string: a code point that is not printable becomes an escape of 2, 4 or 8 digits.\<close>

definition hex_digits_of :: "nat \<Rightarrow> int \<Rightarrow> ucs" where
  "hex_digits_of n c = map (\<lambda>i. of_char (hex_digit (nat ((c div 16 ^ i) mod 16)))) (rev [0..<n])"

definition repr_char :: "ucd \<Rightarrow> int \<Rightarrow> int \<Rightarrow> ucs" where
  "repr_char u q c =
     (if c = q \<or> c = 92 then [92, c]
      else if c = 9 then lit [char_of (92 :: nat), CHR ''t''] else if c = 10 then lit [char_of (92 :: nat), CHR ''n'']
      else if c = 13 then lit [char_of (92 :: nat), CHR ''r'']
      else if 32 \<le> c \<and> c < 127 \<or> 127 < c \<and> uc_printable u c then [c]
      else if c < 0x100 then [92, 120] @ hex_digits_of 2 c
      else if c < 0x10000 then [92, 117] @ hex_digits_of 4 c
      else [92, 85] @ hex_digits_of 8 c)"

definition py_repr :: "ucd \<Rightarrow> ucs \<Rightarrow> ucs" where
  "py_repr u s = (let q = (if 39 \<in> set s \<and> 34 \<notin> set s then 34 else 39) in q # concat (map (repr_char u q) s) @ [q])"

definition report_line :: "ucd \<Rightarrow> bool \<Rightarrow> ucs \<Rightarrow> nat \<Rightarrow> ucs list \<Rightarrow> ucs list" where
  "report_line u reveal rel i hits =
     (let location = rel @ lit ('':'' @ show_nat i @ '': '') in
      if hits = [] then []
      else if reveal then map (\<lambda>tok. location @ py_repr u tok) hits
      else [location @ lit (show_nat (length hits) @ '' reserved term'' @ (if length hits = 1 then [] else ''s'') @ '' (redacted)'')])"

definition scan_text :: "ucd \<Rightarrow> reserved list \<Rightarrow> ucs list \<Rightarrow> bool \<Rightarrow> ucs \<Rightarrow> ucs \<Rightarrow> ucs list" where
  "scan_text u pats allow reveal rel text =
     concat (map (\<lambda>(i, line). report_line u reveal rel i (line_offenders u line pats allow))
       (enumerate 1 (splitlines (strip_generated_comments text))))"

definition scan_path :: "ucd \<Rightarrow> checkout \<Rightarrow> ucs \<Rightarrow> reserved list \<Rightarrow> ucs list \<Rightarrow> bool \<Rightarrow> ucs list \<Rightarrow> ucs list res" where
  "scan_path u co root pats allow reveal parts =
     (if \<not> scanned u root parts then Inr []
      else rbind (read_regular_file co parts) (\<lambda>text. case text of
        None \<Rightarrow> Inr [] | Some t \<Rightarrow> Inr (scan_text u pats allow reveal (join_path parts) t)))"

definition candidates :: "checkout \<Rightarrow> ucs list list res" where
  "candidates co = rbind (git_tracked_files co) (\<lambda>tracked. case tracked of Some l \<Rightarrow> Inr l | None \<Rightarrow> co_rglob co)"

definition scan :: "ucd \<Rightarrow> checkout \<Rightarrow> ucs \<Rightarrow> reserved list \<Rightarrow> ucs list \<Rightarrow> bool \<Rightarrow> ucs list res" where
  "scan u co root pats allow reveal = rbind (candidates co) (\<lambda>cs.
     rbind (rmap (scan_path u co root pats allow reveal) cs) (\<lambda>offenders. Inr (concat offenders)))"

definition reveal_matches :: "ucd \<Rightarrow> (string \<Rightarrow> ucs option) \<Rightarrow> bool" where
  "reveal_matches u env \<longleftrightarrow> text_lower u (text_strip (case env ''NEUTRALITY_REVEAL'' of None \<Rightarrow> [] | Some v \<Rightarrow> v)) \<in>
     {lit ''1'', lit ''true'', lit ''yes'', lit ''on''}"

definition withheld :: ucs where
  "withheld = lit (''neutrality: content check failed. Details are withheld on fork '' @
     ''runs; a maintainer can re-run this gate on a trusted event.'')"

definition violation :: "ucs list \<Rightarrow> ucs list" where
  "violation offenders =
     [lit (''NEUTRALITY VIOLATION: reserved vocabulary present ('' @ show_nat (length offenders) @ '' location(s)):'')] @
     map (\<lambda>e. lit ''  '' @ e) offenders @
     [[], lit ''This public repo must carry none of the reserved vocabulary. Remove the flagged content.'']"

text \<open>\<open>main\<close>: the exit code and the lines of standard output.\<close>

definition neutrality_main :: "ucd \<Rightarrow> checkout \<Rightarrow> (string \<Rightarrow> ucs option) \<Rightarrow> ucs \<Rightarrow> stop + int \<times> ucs list" where
  "neutrality_main u co env root =
     (case load_config u (co_json co) env of
        Inl s \<Rightarrow> Inl s
      | Inr (pats, allow) \<Rightarrow>
          (case scan u co root pats allow (reveal_matches u env) of
             Inl e \<Rightarrow> Inl (Raised e)
           | Inr offenders \<Rightarrow>
               Inr (if offenders = [] then (0, [lit ''OK: no reserved vocabulary found.''])
                    else (1, if reveal_matches u env then violation offenders else [withheld]))))"

section \<open>What the matcher finds\<close>

text \<open>Every place where a term occurs is the start of a reported match, or lies inside one.\<close>

definition hit_by :: "(nat \<times> nat) list \<Rightarrow> nat \<Rightarrow> bool" where
  "hit_by ms k \<longleftrightarrow> (\<exists>(s, e) \<in> set ms. s = k \<or> (s < k \<and> k < e))"

lemma finditer_covers:
  "p \<in> set pats \<Longrightarrow> matches_at u line j p \<Longrightarrow> k \<le> j \<Longrightarrow> (adv \<longrightarrow> j = k \<longrightarrow> fst p \<noteq> []) \<Longrightarrow> hit_by (finditer u pats line k adv) j"
proof (induction u pats line k adv rule: finditer.induct)
  case (1 u pats line k adv)
  have "j \<le> length line" using 1(4) by (simp add: matches_at_def)
  then have k: "\<not> length line < k" using 1(5) by simp
  show ?case
  proof (cases "first_match u pats line k adv")
    case None
    then have "j \<noteq> k" using 1(3,4,6) by (auto simp: first_match_None)
    then show ?thesis using 1(1) [OF k None] 1(3-6) k None by (simp add: finditer.simps [of u pats line k])
  next
    case (Some q)
    consider "j < k + length (fst q)" | "j = k" | "k + length (fst q) \<le> j" "j \<noteq> k" by linarith
    then show ?thesis
    proof cases
      case 3
      then have "hit_by (finditer u pats line (k + length (fst q)) (fst q = [])) j"
        using 1(2) [OF k Some 1(3,4)] by auto
      then show ?thesis using k Some by (auto simp: finditer.simps [of u pats line k] hit_by_def)
    qed (use k Some 1(5) in \<open>auto simp: finditer.simps [of u pats line k] hit_by_def\<close>)
  qed
qed

lemma finditer_sound:
  "(s, e) \<in> set (finditer u pats line k adv) \<Longrightarrow> \<exists>p \<in> set pats. matches_at u line s p \<and> e = s + length (fst p)"
proof (induction u pats line k adv rule: finditer.induct)
  case (1 u pats line k adv)
  then show ?case
    by (subst (asm) (3) finditer.simps) (auto split: if_splits option.splits dest: first_match_Some)
qed

lemma phrase_spans_sound:
  "(s, e) \<in> set (phrase_spans phrase line k) \<Longrightarrow> occurs_at phrase line s \<and> e = s + length phrase"
proof (induction phrase line k rule: phrase_spans.induct)
  case (1 phrase line k)
  then show ?case
  proof (cases "find_from phrase line k")
    case (Some i)
    then show ?thesis using 1(1) [OF Some] 1(2) find_from_Some [OF Some] by (auto simp: phrase_spans.simps [of phrase line k])
  qed (use 1(2) in \<open>simp add: phrase_spans.simps [of phrase line k]\<close>)
qed

lemma phrase_spans_complete:
  "occurs_at phrase line j \<Longrightarrow> k \<le> j \<Longrightarrow> (j, j + length phrase) \<in> set (phrase_spans phrase line k)"
proof (induction phrase line k rule: phrase_spans.induct)
  case (1 phrase line k)
  obtain i where i: "i \<le> j" "find_from phrase line k = Some i" using find_from_least [OF 1(2,3)] by blast
  then show ?case using 1(1) [OF i(2) 1(2)] by (cases "i = j") (auto simp: phrase_spans.simps [of phrase line k])
qed

definition allowed_at :: "ucd \<Rightarrow> ucs list \<Rightarrow> ucs \<Rightarrow> nat \<Rightarrow> nat \<Rightarrow> bool" where
  "allowed_at u allow line ms me \<longleftrightarrow>
     (\<exists>phrase \<in> set allow. \<exists>s. occurs_at phrase (text_lower u line) s \<and> s \<le> ms \<and> me \<le> s + length phrase)"

lemma exempt_iff: "exempt (allow_spans u allow line) (ms, me) \<longleftrightarrow> allowed_at u allow line ms me"
proof
  assume "exempt (allow_spans u allow line) (ms, me)"
  then show "allowed_at u allow line ms me"
    by (auto simp: exempt_def allow_spans_def list_ex_iff allowed_at_def) (metis phrase_spans_sound)
next
  assume "allowed_at u allow line ms me"
  then obtain phrase s where "phrase \<in> set allow" "occurs_at phrase (text_lower u line) s" "s \<le> ms" "me \<le> s + length phrase"
    by (auto simp: allowed_at_def)
  moreover from this have "(s, s + length phrase) \<in> set (phrase_spans phrase (text_lower u line) 0)" by (simp add: phrase_spans_complete)
  ultimately show "exempt (allow_spans u allow line) (ms, me)"
    by (auto simp: exempt_def allow_spans_def list_ex_iff)
qed

text \<open>The loops against what they are for: with no allowed phrase a line is flagged exactly when a term occurs in it.\<close>

lemma line_offenders_Nil:
  "line_offenders u line pats allow = [] \<longleftrightarrow> (\<forall>(ms, me) \<in> set (finditer u pats line 0 False). allowed_at u allow line ms me)"
  by (auto simp: line_offenders_def filter_empty_conv exempt_iff)

lemma line_clean_iff: "line_offenders u line pats [] = [] \<longleftrightarrow> \<not> (\<exists>p \<in> set pats. \<exists>k. matches_at u line k p)"
proof -
  have "finditer u pats line 0 False = [] \<longleftrightarrow> \<not> (\<exists>p \<in> set pats. \<exists>k. matches_at u line k p)"
  proof
    assume "finditer u pats line 0 False = []"
    then have "\<not> hit_by (finditer u pats line 0 False) k" for k by (simp add: hit_by_def)
    then show "\<not> (\<exists>p \<in> set pats. \<exists>k. matches_at u line k p)" using finditer_covers [where k = 0 and adv = False] by blast
  next
    assume none: "\<not> (\<exists>p \<in> set pats. \<exists>k. matches_at u line k p)"
    show "finditer u pats line 0 False = []"
    proof (rule ccontr)
      assume "finditer u pats line 0 False \<noteq> []"
      then obtain s e where "(s, e) \<in> set (finditer u pats line 0 False)" by (cases "finditer u pats line 0 False") auto
      with none show False using finditer_sound by blast
    qed
  qed
  moreover have "line_offenders u line pats [] = [] \<longleftrightarrow> finditer u pats line 0 False = []"
    by (simp add: line_offenders_def allow_spans_def exempt_def filter_empty_conv)
  ultimately show ?thesis by blast
qed

section \<open>What the gate promises\<close>

definition scanned_line :: "ucd \<Rightarrow> checkout \<Rightarrow> ucs \<Rightarrow> ucs \<Rightarrow> bool" where
  "scanned_line u co root line \<longleftrightarrow> (\<exists>cs parts text. candidates co = Inr cs \<and> parts \<in> set cs \<and> scanned u root parts \<and>
     read_regular_file co parts = Inr (Some text) \<and> line \<in> set (splitlines (strip_generated_comments text)))"

lemma report_line_Nil: "report_line u reveal rel i hits = [] \<longleftrightarrow> hits = []"
  by (simp add: report_line_def Let_def)

lemma scan_text_Nil:
  "scan_text u pats allow reveal rel text = [] \<longleftrightarrow>
    (\<forall>line \<in> set (splitlines (strip_generated_comments text)). line_offenders u line pats allow = [])"
proof -
  have "(\<forall>x \<in> set (enumerate k ls). line_offenders u (snd x) pats allow = []) \<longleftrightarrow>
      (\<forall>line \<in> set ls. line_offenders u line pats allow = [])" for k ls
    by (induction ls arbitrary: k) auto
  then show ?thesis by (simp add: scan_text_def report_line_Nil case_prod_beta)
qed

lemma rmap_elems: "rmap f xs = Inr ys \<Longrightarrow> (\<forall>y \<in> set ys. P y) \<longleftrightarrow> (\<forall>x \<in> set xs. \<forall>y. f x = Inr y \<longrightarrow> P y)"
  by (induction xs arbitrary: ys) (auto simp: rbind_Inr_iff)

lemma scan_Nil:
  assumes "scan u co root pats allow reveal = Inr os"
  shows "os = [] \<longleftrightarrow> (\<forall>line. scanned_line u co root line \<longrightarrow> line_offenders u line pats allow = [])"
proof -
  obtain cs oss where cs: "candidates co = Inr cs" "rmap (scan_path u co root pats allow reveal) cs = Inr oss" "os = concat oss"
    using assms by (auto simp: scan_def rbind_Inr_iff)
  have path: "(\<forall>y. scan_path u co root pats allow reveal parts = Inr y \<longrightarrow> y = []) \<longleftrightarrow>
      (\<forall>text. scanned u root parts \<longrightarrow> read_regular_file co parts = Inr (Some text) \<longrightarrow>
        (\<forall>line \<in> set (splitlines (strip_generated_comments text)). line_offenders u line pats allow = []))" for parts
    by (cases "read_regular_file co parts") (auto simp: scan_path_def scan_text_Nil split: option.splits)
  have "os = [] \<longleftrightarrow> (\<forall>y \<in> set oss. y = [])" using cs(3) by auto
  also have "\<dots> \<longleftrightarrow> (\<forall>parts \<in> set cs. \<forall>y. scan_path u co root pats allow reveal parts = Inr y \<longrightarrow> y = [])"
    by (rule rmap_elems [OF cs(2)])
  finally show ?thesis unfolding path using cs(1) by (auto simp: scanned_line_def)
qed

lemma gate_codes:
  assumes "load_config u (co_json co) env = Inr (pats, allow)" "neutrality_main u co env root = Inr (code, out)"
  shows "code = (if \<forall>line. scanned_line u co root line \<longrightarrow> line_offenders u line pats allow = [] then 0 else 1)"
  using assms scan_Nil [of u co root pats allow "reveal_matches u env"]
  by (auto simp: neutrality_main_def split: sum.splits if_splits)

text \<open>
  What an allowed phrase is for: the characters from \<open>ms\<close> to \<open>me\<close> lie within a stretch of the line that lowers to
  it. \<open>allowed_at\<close> is the test the code makes instead, with positions of the lowered line; on a line each of whose
  characters lowers to one character the two agree.
\<close>

definition within :: "ucd \<Rightarrow> ucs list \<Rightarrow> ucs \<Rightarrow> nat \<Rightarrow> nat \<Rightarrow> bool" where
  "within u allow line ms me \<longleftrightarrow> (\<exists>s e. s \<le> ms \<and> me \<le> e \<and> e \<le> length line \<and>
     concat (map (lower_piece u line) [s..<e]) \<in> set allow)"

lemma aligned_length: "aligned u line \<Longrightarrow> length (text_lower u line) = length line"
proof -
  assume "aligned u line"
  then have eq: "map (length \<circ> lower_piece u line) [0..<length line] = map (\<lambda>_. 1) [0..<length line]"
    by (intro map_cong) (auto simp: aligned_def list_all_iff)
  show ?thesis unfolding text_lower_def length_concat map_map eq by (simp add: sum_list_triv)
qed

lemma aligned_allowed:
  assumes "aligned u line" "ms \<le> me"
  shows "allowed_at u allow line ms me \<longleftrightarrow> within u allow line ms me"
proof
  assume "allowed_at u allow line ms me"
  then obtain phrase s where p: "phrase \<in> set allow" "occurs_at phrase (text_lower u line) s" "s \<le> ms" "me \<le> s + length phrase"
    by (auto simp: allowed_at_def)
  then have e: "s + length phrase \<le> length line" "take (length phrase) (drop s (text_lower u line)) = phrase"
    using aligned_length [OF assms(1)] by (auto simp: occurs_at_def)
  from aligned_pieces [OF assms(1) e(1), of s] e(2) have "concat (map (lower_piece u line) [s..<s + length phrase]) = phrase" by simp
  with p e(1) show "within u allow line ms me" unfolding within_def by metis
next
  assume "within u allow line ms me"
  then obtain s e where w: "s \<le> ms" "me \<le> e" "e \<le> length line" "concat (map (lower_piece u line) [s..<e]) \<in> set allow"
    by (auto simp: within_def)
  let ?p = "take (e - s) (drop s (text_lower u line))"
  have "length ?p = e - s" using w(3) aligned_length [OF assms(1)] by simp
  then have "occurs_at ?p (text_lower u line) s" "me \<le> s + length ?p"
    using w(1-3) assms(2) aligned_length [OF assms(1)] by (simp_all add: occurs_at_def)
  moreover have "?p \<in> set allow" using w(4) aligned_pieces [OF assms(1) w(3), of s] by simp
  ultimately show "allowed_at u allow line ms me" using w(1) unfolding allowed_at_def by blast
qed

text \<open>C40: the neutrality gate. It exits with 0 only if every occurrence of a reserved term in a line it scans is, or
  starts inside, an occurrence of a reserved term that an allowed phrase covers, and with 1 only if some line it
  scans has an occurrence of a reserved term that none covers; no other code is an exit of a completed scan. Covered
  means what it says (\<open>within\<close>) on a line whose characters each lower to one character; on any other line the phrase
  is looked for in the lowered line and its positions there are compared with the term's in the line.\<close>

theorem neutrality_gate:
  assumes "load_config u (co_json co) env = Inr (pats, allow)" "neutrality_main u co env root = Inr (code, out)"
  shows "code = 0 \<and> (\<forall>line p j. scanned_line u co root line \<longrightarrow> p \<in> set pats \<longrightarrow> matches_at u line j p \<longrightarrow>
        (\<exists>q \<in> set pats. \<exists>k. matches_at u line k q \<and> (k = j \<or> (k < j \<and> j < k + length (fst q))) \<and>
           (if aligned u line then within u allow line k (k + length (fst q))
            else allowed_at u allow line k (k + length (fst q))))) \<or>
    code = 1 \<and> (\<exists>line. scanned_line u co root line \<and>
      (\<exists>p \<in> set pats. \<exists>j. matches_at u line j p \<and>
        \<not> (if aligned u line then within u allow line j (j + length (fst p))
           else allowed_at u allow line j (j + length (fst p)))))"
proof -
  have cover: "(if aligned u line then within u allow line k (k + n) else allowed_at u allow line k (k + n)) =
      allowed_at u allow line k (k + n)" for line k n using aligned_allowed [of u line k "k + n"] by simp
  show ?thesis unfolding cover
  proof (cases "\<forall>line. scanned_line u co root line \<longrightarrow> line_offenders u line pats allow = []")
    case True
    have "\<exists>q \<in> set pats. \<exists>k. matches_at u line k q \<and> (k = j \<or> (k < j \<and> j < k + length (fst q))) \<and>
        allowed_at u allow line k (k + length (fst q))"
      if "scanned_line u co root line" "p \<in> set pats" "matches_at u line j p" for line p j
    proof -
      have "hit_by (finditer u pats line 0 False) j" using finditer_covers [OF that(2,3)] by simp
      then obtain k e where k: "(k, e) \<in> set (finditer u pats line 0 False)" "k = j \<or> (k < j \<and> j < e)" by (auto simp: hit_by_def)
      from finditer_sound [OF k(1)] obtain q where "q \<in> set pats" "matches_at u line k q" "e = k + length (fst q)" by blast
      moreover have "allowed_at u allow line k e" using True that(1) k(1) by (auto simp: line_offenders_Nil)
      ultimately show ?thesis using k(2) by blast
    qed
    then show "code = 0 \<and> (\<forall>line p j. scanned_line u co root line \<longrightarrow> p \<in> set pats \<longrightarrow> matches_at u line j p \<longrightarrow>
        (\<exists>q \<in> set pats. \<exists>k. matches_at u line k q \<and> (k = j \<or> (k < j \<and> j < k + length (fst q))) \<and>
           allowed_at u allow line k (k + length (fst q)))) \<or>
      code = 1 \<and> (\<exists>line. scanned_line u co root line \<and>
        (\<exists>p \<in> set pats. \<exists>j. matches_at u line j p \<and> \<not> allowed_at u allow line j (j + length (fst p))))"
      using gate_codes [OF assms] True by auto
  next
    case False
    then obtain line where line: "scanned_line u co root line" "line_offenders u line pats allow \<noteq> []" by blast
    then obtain k e where "(k, e) \<in> set (finditer u pats line 0 False)" "\<not> allowed_at u allow line k e" by (auto simp: line_offenders_Nil)
    with finditer_sound [OF this(1)] line(1) False gate_codes [OF assms] show
      "code = 0 \<and> (\<forall>line p j. scanned_line u co root line \<longrightarrow> p \<in> set pats \<longrightarrow> matches_at u line j p \<longrightarrow>
        (\<exists>q \<in> set pats. \<exists>k. matches_at u line k q \<and> (k = j \<or> (k < j \<and> j < k + length (fst q))) \<and>
           allowed_at u allow line k (k + length (fst q)))) \<or>
      code = 1 \<and> (\<exists>line. scanned_line u co root line \<and>
        (\<exists>p \<in> set pats. \<exists>j. matches_at u line j p \<and> \<not> allowed_at u allow line j (j + length (fst p))))" by auto
  qed
qed

text \<open>On a run that is not trusted, the output is one of two constants: the verdict, and nothing of the terms, the
  files, the lines or the counts.\<close>

theorem untrusted_output_constant:
  assumes "\<not> reveal_matches u env" "neutrality_main u co env root = Inr (code, out)"
  shows "(code, out) = (0, [lit ''OK: no reserved vocabulary found.'']) \<or> (code, out) = (1, [withheld])"
  using assms by (auto simp: neutrality_main_def split: sum.splits if_splits)

text \<open>Nothing behind a link or outside the root influences a run: two checkouts that differ only in what
  opening such a path gives end alike.\<close>

lemma read_regular_cong:
  assumes "co_symlink co' = co_symlink co" "co_inside co' = co_inside co" "co_regular co' = co_regular co"
    and "co_decode co' = co_decode co"
    and "\<And>parts. \<not> link_on_path co parts \<Longrightarrow> co_inside co parts = Inr True \<Longrightarrow> co_open co' parts = co_open co parts"
  shows "read_regular_file co' = read_regular_file co"
proof
  fix parts
  have link: "link_on_path co' = link_on_path co" using assms(1) by (simp add: link_on_path_def fun_eq_iff)
  show "read_regular_file co' parts = read_regular_file co parts"
    using assms(5) [of parts] by (cases "co_inside co parts") (auto simp: read_regular_file_def link assms(2-4) cong: if_cong)
qed

theorem links_never_read:
  assumes "co_git co' = co_git co" "co_rglob co' = co_rglob co" "co_fsdecode co' = co_fsdecode co" "co_json co' = co_json co"
    and "co_symlink co' = co_symlink co" "co_inside co' = co_inside co" "co_regular co' = co_regular co"
    and "co_decode co' = co_decode co"
    and "\<And>parts. \<not> link_on_path co parts \<Longrightarrow> co_inside co parts = Inr True \<Longrightarrow> co_open co' parts = co_open co parts"
  shows "neutrality_main u co' env root = neutrality_main u co env root"
proof -
  have read: "read_regular_file co' = read_regular_file co" by (rule read_regular_cong [OF assms(5-9)])
  have cands: "candidates co' = candidates co" unfolding candidates_def git_tracked_files_def assms(1-3) by (rule refl)
  have path: "scan_path u co' = scan_path u co" by (intro ext) (simp only: scan_path_def read)
  have "scan u co' = scan u co" by (intro ext) (simp only: scan_def cands path)
  then show ?thesis by (simp only: neutrality_main_def assms(4))
qed

section \<open>What the gate misses\<close>

text \<open>A term that overlaps an allowed match is not seen, although it lies in no allowed phrase.\<close>

theorem overlapping_term_missed:
  "line_offenders sample_ucd (lit ''abc'') [(lit ''ab'', False), (lit ''bc'', False)] [lit ''ab''] = [] \<and>
   matches_at sample_ucd (lit ''abc'') 1 (lit ''bc'', False) \<and> \<not> within sample_ucd [lit ''ab''] (lit ''abc'') 1 3"
proof -
  have "line_offenders sample_ucd (lit ''abc'') [(lit ''ab'', False), (lit ''bc'', False)] [lit ''ab''] = []"
    "matches_at sample_ucd (lit ''abc'') 1 (lit ''bc'', False)" "aligned sample_ucd (lit ''abc'')"
    "text_lower sample_ucd (lit ''abc'') = lit ''abc''" by code_simp+
  moreover from this(4) have "\<not> allowed_at sample_ucd [lit ''ab''] (lit ''abc'') 1 3"
    by (auto simp: allowed_at_def occurs_at_def lit_def le_Suc_eq)
  ultimately show ?thesis using aligned_allowed [of sample_ucd "lit ''abc''" 1 3] by simp
qed

text \<open>The capital I with a dot above lowers to two code points, so behind three of them an allowed phrase seems to end
  three characters later than it does, and a term behind it passes.\<close>

definition dotted_line :: ucs where
  "dotted_line = [0x130, 0x130, 0x130] @ lit ''be ab x zz''"

theorem lengthening_lower_shifts_phrase:
  "line_offenders sample_ucd dotted_line [(lit ''zz'', False)] [lit ''be ab x''] = [] \<and>
   matches_at sample_ucd dotted_line 11 (lit ''zz'', False) \<and> \<not> within sample_ucd [lit ''be ab x''] dotted_line 11 13"
proof -
  have run: "line_offenders sample_ucd dotted_line [(lit ''zz'', False)] [lit ''be ab x''] = []"
    "matches_at sample_ucd dotted_line 11 (lit ''zz'', False)" by code_simp+
  have pieces: "map (lower_piece sample_ucd dotted_line) [0..<13] =
      [[0x69, 0x307], [0x69, 0x307], [0x69, 0x307]] @ map (\<lambda>c. [c]) (lit ''be ab x zz'')" by code_simp
  have "concat (map (lower_piece sample_ucd dotted_line) [s..<e]) \<noteq> lit ''be ab x''" if "s \<le> 11" "13 \<le> e" "e \<le> length dotted_line" for s e
  proof
    have e: "e = 13" using that by (simp add: dotted_line_def lit_def)
    assume "concat (map (lower_piece sample_ucd dotted_line) [s..<e]) = lit ''be ab x''"
    moreover have "[s..<13] = [s..<12] @ [12]" using that(1) by (simp add: upt_Suc_append [of s 12, simplified])
    moreover have "lower_piece sample_ucd dotted_line 12 = [122]" by code_simp
    ultimately have "concat (map (lower_piece sample_ucd dotted_line) [s..<12]) @ [122] = lit ''be ab x''" by (simp add: e)
    then have "last (lit ''be ab x'') = 122" by (metis last_snoc)
    then show False by (simp add: lit_def)
  qed
  with run show ?thesis by (auto simp: within_def)
qed

text \<open>No file below a directory whose name ends in \<open>.git\<close> is scanned, tracked or not.\<close>

theorem dot_git_directory_unscanned: "\<not> scanned u root (ds @ (d @ lit ''.git'') # p # ps)"
proof -
  have join: "\<exists>a b. join_path (ds @ (d @ lit ''.git'') # p # ps) = a @ lit ''.git/'' @ b" for ds
  proof (induction ds rule: join_path.induct)
    case 1
    show ?case by (rule exI [of _ d]) (simp add: lit_def)
  next
    case (2 q)
    show ?case by (rule exI [of _ "q @ lit ''/'' @ d"]) (simp add: lit_def)
  next
    case (3 q r qs)
    then obtain a b where "join_path ((r # qs) @ (d @ lit ''.git'') # p # ps) = a @ lit ''.git/'' @ b" by blast
    then show ?case by (intro exI [of _ "q @ lit ''/'' @ a"] exI [of _ b]) simp
  qed
  from join [of ds] obtain a b where "join_path (ds @ (d @ lit ''.git'') # p # ps) = a @ lit ''.git/'' @ b" by blast
  then have "occurs_at (lit ''.git/'') (root @ join_path (ds @ (d @ lit ''.git'') # p # ps)) (length (root @ a))"
    by (simp add: occurs_at_def)
  from find_from_least [OF this, of 0] show ?thesis by (auto simp: scanned_def)
qed

section \<open>Concrete runs\<close>

text \<open>The script's own tests on shorter lines: two occurrences of which one is allowed, and a source comment.\<close>

lemma self_tests:
  "line_offenders sample_ucd (lit ''zz a'') [(lit ''zz'', False)] [lit ''be zz x''] = [lit ''zz'']"
  "line_offenders sample_ucd (lit ''a be ZZ x'') [(lit ''zz'', False)] [lit ''be zz x''] = []"
  "line_offenders sample_ucd (lit ''zz be zz x'') [(lit ''zz'', False)] [lit ''be zz x''] = [lit ''zz'']"
  by code_simp+

lemma comment_test: "strip_generated_comments (lit ''a<!-- ##markdown-source:zz-->b'') = lit ''ab''"
  by code_simp

definition sample_checkout :: checkout where
  "sample_checkout = \<lparr>co_git = Inr (1, []), co_rglob = Inr [[lit ''doc.md''], [lit ''link.md'']], co_fsdecode = (\<lambda>_. []),
     co_decode = (\<lambda>b. if b = [] then lit ''clean'' else lit ''a zz b''),
     co_json = (\<lambda>_. Inr (TObj [(lit ''substring'', TArr [TStr (lit ''zz'')])])),
     co_symlink = (\<lambda>p. p = [lit ''link.md'']), co_inside = (\<lambda>_. Inr True), co_regular = (\<lambda>_. Inr True),
     co_open = (\<lambda>p. Inr \<lparr>of_regular = Inr True, of_read = Inr (if p = [lit ''link.md''] then [1] else [])\<rparr>)\<rparr>"

definition sample_gate_env :: "string \<Rightarrow> ucs option" where
  "sample_gate_env = (\<lambda>k. if k = ''NEUTRALITY_TERMS'' then Some (lit ''{}'') else None)"

definition dirty_checkout :: checkout where
  "dirty_checkout = sample_checkout\<lparr>co_open := (\<lambda>p. Inr \<lparr>of_regular = Inr True, of_read = Inr [1]\<rparr>)\<rparr>"

lemma sample_gate_facts:
  "load_config sample_ucd (co_json dirty_checkout) sample_gate_env = Inr ([(lit ''zz'', False)], [])"
  "neutrality_main sample_ucd dirty_checkout sample_gate_env [] = Inr (1, [withheld])"
  "\<not> reveal_matches sample_ucd sample_gate_env"
  by code_simp+

theorem neutrality_gate_witness:
  "\<exists>line. scanned_line sample_ucd dirty_checkout [] line \<and> (\<exists>j. matches_at sample_ucd line j (lit ''zz'', False))"
proof -
  from neutrality_gate [OF sample_gate_facts(1,2)] obtain line p j where "scanned_line sample_ucd dirty_checkout [] line"
    "p \<in> set [(lit ''zz'', False)]" "matches_at sample_ucd line j p" by (metis zero_neq_one)
  then show ?thesis by auto
qed

theorem untrusted_output_constant_witness:
  "(1, [withheld]) = (0 :: int, [lit ''OK: no reserved vocabulary found.'']) \<or> (1 :: int, [withheld]) = (1, [withheld])"
  by (rule untrusted_output_constant [OF sample_gate_facts(3,2)])

text \<open>The linked file holds the term; a run that opens it ends as one that finds nothing behind the link.\<close>

theorem links_never_read_witness:
  "neutrality_main sample_ucd sample_checkout sample_gate_env [] =
   neutrality_main sample_ucd (sample_checkout\<lparr>co_open := (\<lambda>p. Inr \<lparr>of_regular = Inr True, of_read = Inr []\<rparr>)\<rparr>) sample_gate_env []"
proof (rule links_never_read)
  fix parts
  let ?co = "sample_checkout\<lparr>co_open := (\<lambda>p. Inr \<lparr>of_regular = Inr True, of_read = Inr []\<rparr>)\<rparr>"
  assume "\<not> link_on_path ?co parts"
  then have "parts \<noteq> [lit ''link.md'']" by (auto simp: link_on_path_def sample_checkout_def)
  then show "co_open sample_checkout parts = co_open ?co parts" by (simp add: sample_checkout_def)
qed (simp_all add: sample_checkout_def)

end
