(* ===== verification/HostnameLint.thy ===== *)
theory HostnameLint
  imports NeutralityScan
begin

text \<open>
  The stale-host check of the repository (\<open>.github/hostname_lint.py\<close>): no scanned line may name an old host,
  \<open>verify.actionstate.*\<close> or \<open>witness.actionstate.*\<close>, unless the allowlist has the line. Text is code points, the
  tables of the Unicode database an argument. What \<open>git ls-files\<close> prints, the allowlist file and the files are a
  record of functions.
\<close>

section \<open>The check\<close>

record lint_tree =
  lt_ls_files :: "ucs res"
  lt_allowlist :: "ucs option"
  lt_read :: "ucs list \<Rightarrow> ucs res"

text \<open>The pattern: a word boundary, a host name with its dots, and a letter.\<close>

definition disallowed_at :: "ucd \<Rightarrow> ucs \<Rightarrow> nat \<Rightarrow> string \<Rightarrow> bool" where
  "disallowed_at u line k host \<longleftrightarrow> boundary u line k \<and> matches_at u line k (lit (host @ ''.actionstate.''), False) \<and>
     (case drop (k + length host + 13) line of [] \<Rightarrow> False | c # _ \<Rightarrow> list_ex (\<lambda>l. uc_same u l c) (lit ''abcdefghijklmnopqrstuvwxyz''))"

definition disallowed :: "ucd \<Rightarrow> ucs \<Rightarrow> bool" where
  "disallowed u line \<longleftrightarrow> list_ex (\<lambda>k. disallowed_at u line k ''verify'' \<or> disallowed_at u line k ''witness'') [0..<Suc (length line)]"

definition lint_suffixes :: "ucs list" where
  "lint_suffixes = map lit [''.html'', ''.py'', ''.go'', ''.md'', ''.rst'', ''.txt'', ''.xml'', ''.toml'', ''.cfg'',
     ''.yml'', ''.yaml'', ''.json'']"

definition own_files :: "ucs list" where
  "own_files = map lit [''hostname_lint.py'', ''hostname_lint_allowlist.txt'', ''hostname-lint.yml'']"

definition tracked_files :: "lint_tree \<Rightarrow> ucs list list res" where
  "tracked_files lt = rbind (lt_ls_files lt) (\<lambda>out. Inr (map path_parts (filter (\<lambda>p. p \<noteq> []) (splitlines out))))"

definition load_allowlist :: "lint_tree \<Rightarrow> ucs list" where
  "load_allowlist lt = (case lt_allowlist lt of
     None \<Rightarrow> []
   | Some text \<Rightarrow> filter (\<lambda>line. text_strip line \<noteq> [] \<and> take 1 (dropWhile text_space line) \<noteq> lit ''#'') (splitlines text))"

definition lint_scanned :: "ucs list \<Rightarrow> bool" where
  "lint_scanned parts \<longleftrightarrow> path_suffix parts \<in> set lint_suffixes \<and> path_name parts \<notin> set own_files"

definition lint_text :: "ucd \<Rightarrow> ucs list \<Rightarrow> ucs \<Rightarrow> ucs \<Rightarrow> ucs list" where
  "lint_text u allow rel text =
     concat (map (\<lambda>(i, line). if disallowed u line \<and> text_strip line \<notin> set allow
         then [rel @ lit ('':'' @ show_nat i @ '': '') @ text_strip line] else [])
       (enumerate 1 (splitlines text)))"

definition lint_path :: "ucd \<Rightarrow> lint_tree \<Rightarrow> ucs list \<Rightarrow> ucs list \<Rightarrow> ucs list res" where
  "lint_path u lt allow parts =
     (if \<not> lint_scanned parts then Inr []
      else case lt_read lt parts of
        Inl OSError \<Rightarrow> Inr []
      | Inl e \<Rightarrow> Inl e
      | Inr text \<Rightarrow> Inr (lint_text u allow (join_path parts) text))"

definition lint_report :: "ucs list \<Rightarrow> ucs list" where
  "lint_report hits =
     map lit [''hostname-lint: stale verify.actionstate.*/witness.actionstate.* reference(s) found.'',
      ''Canonical: verify.agentactioncapsule.org / witness.agentactioncapsule.org.'',
      ''(countersign.actionstate.* is correct and exempt -- it is the operated layer.)'',
      ''If a hit is a genuine historical record (not live drift), add its exact stripped line text to .github/hostname_lint_allowlist.txt.''] @
     map (\<lambda>h. lit ''  '' @ h) hits"

definition lint_main :: "ucd \<Rightarrow> lint_tree \<Rightarrow> (int \<times> ucs list) res" where
  "lint_main u lt =
     (let allow = load_allowlist lt in
      rbind (tracked_files lt) (\<lambda>files.
      rbind (rmap (lint_path u lt allow) files) (\<lambda>hits.
      Inr (if concat hits = [] then (0, [lit ''hostname-lint: clean.'']) else (1, lint_report (concat hits))))))"

section \<open>What it checks\<close>

lemma lint_text_Nil:
  "lint_text u allow rel text = [] \<longleftrightarrow> (\<forall>line \<in> set (splitlines text). disallowed u line \<longrightarrow> text_strip line \<in> set allow)"
proof -
  have "concat (map (\<lambda>(i, line). if disallowed u line \<and> text_strip line \<notin> set allow
         then [rel @ lit ('':'' @ show_nat i @ '': '') @ text_strip line] else []) (enumerate k ls)) = [] \<longleftrightarrow>
      (\<forall>line \<in> set ls. disallowed u line \<longrightarrow> text_strip line \<in> set allow)" for k ls
    by (induction ls arbitrary: k) auto
  then show ?thesis by (simp only: lint_text_def)
qed

text \<open>The check exits with 0 exactly when every line of a scanned file that names an old host is in the allowlist.\<close>

theorem lint_clean_iff:
  assumes "lint_main u lt = Inr (code, out)" "tracked_files lt = Inr files"
  shows "code = (if \<forall>parts \<in> set files. \<forall>text. lint_scanned parts \<longrightarrow> lt_read lt parts = Inr text \<longrightarrow>
      (\<forall>line \<in> set (splitlines text). disallowed u line \<longrightarrow> text_strip line \<in> set (load_allowlist lt)) then 0 else 1)"
proof -
  obtain hits where hits: "rmap (lint_path u lt (load_allowlist lt)) files = Inr hits"
    using assms by (cases "rmap (lint_path u lt (load_allowlist lt)) files") (simp_all add: lint_main_def Let_def)
  have code: "code = (if concat hits = [] then 0 else 1)"
    using assms(1) unfolding lint_main_def Let_def assms(2) hits rbind_simps by (simp only: sum.inject split: if_splits) (simp_all only: prod.inject simp_thms if_True if_False)
  have path: "(\<forall>y. lint_path u lt (load_allowlist lt) parts = Inr y \<longrightarrow> y = []) \<longleftrightarrow>
      (\<forall>text. lint_scanned parts \<longrightarrow> lt_read lt parts = Inr text \<longrightarrow>
        (\<forall>line \<in> set (splitlines text). disallowed u line \<longrightarrow> text_strip line \<in> set (load_allowlist lt)))" for parts
    by (cases "lt_read lt parts") (auto simp: lint_path_def lint_text_Nil split: exn.splits)
  have "concat hits = [] \<longleftrightarrow> (\<forall>y \<in> set hits. y = [])" by auto
  also have "\<dots> \<longleftrightarrow> (\<forall>parts \<in> set files. \<forall>y. lint_path u lt (load_allowlist lt) parts = Inr y \<longrightarrow> y = [])"
    by (rule rmap_elems [OF hits])
  finally show ?thesis unfolding path using code by simp
qed

lemma disallowed_examples:
  "disallowed sample_ucd (lit ''see verify.ActionState.ai'') \<and> \<not> disallowed sample_ucd (lit ''countersign.actionstate.ai'') \<and>
   \<not> disallowed sample_ucd (lit ''spec@actionstate.org'') \<and> \<not> disallowed sample_ucd (lit ''my_verify.actionstate.ai'')"
  by code_simp

text \<open>A path that git prints quoted, as it does with unusual names, or a suffix in capitals, is not scanned.\<close>

theorem quoted_name_unscanned:
  "\<not> lint_scanned (ds @ [name @ [34]]) \<and> \<not> lint_scanned [lit ''README.MD'']"
proof -
  have "34 \<in> set (path_suffix (ds @ [name @ [34]])) \<or> path_suffix (ds @ [name @ [34]]) = []"
    by (simp add: path_suffix_def path_name_def Let_def)
  moreover have "list_all (\<lambda>e. 34 \<notin> set e \<and> e \<noteq> []) lint_suffixes" by code_simp
  ultimately have "\<not> lint_scanned (ds @ [name @ [34]])" unfolding lint_scanned_def list_all_iff by blast
  moreover have "\<not> lint_scanned [lit ''README.MD'']" by code_simp
  ultimately show ?thesis by blast
qed

definition sample_lint_tree :: lint_tree where
  "sample_lint_tree = \<lparr>lt_ls_files = Inr (lit ''a.md''), lt_allowlist = None, lt_read = (\<lambda>_. Inr (lit ''witness.actionstate.ai''))\<rparr>"

theorem lint_clean_iff_witness:
  "\<exists>code. lint_main sample_ucd sample_lint_tree = Inr (code, lint_report [lit ''a.md:1: witness.actionstate.ai'']) \<and> code = 1"
proof -
  have run: "lint_main sample_ucd sample_lint_tree = Inr (1, lint_report [lit ''a.md:1: witness.actionstate.ai''])" by code_simp
  have files: "tracked_files sample_lint_tree = Inr [[lit ''a.md'']]" by code_simp
  from lint_clean_iff [OF run files] run show ?thesis by auto
qed

end
