(* ===== verification/PolicyOrder.thy ===== *)
theory PolicyOrder
  imports ServiceProps
begin

text \<open>
  The three proof policies of \<open>AnchorerService\<close> as a linear order of strictness. A stricter policy accepts
  nothing more: what it lets through, a laxer one lets through with the same grade.
\<close>

primrec strictness :: "proof_policy \<Rightarrow> nat" where
  "strictness PolicyOff = 0"
| "strictness PolicyWarn = 1"
| "strictness PolicyEnforce = 2"

instantiation proof_policy :: linorder
begin

definition less_eq_proof_policy :: "proof_policy \<Rightarrow> proof_policy \<Rightarrow> bool" where
  "less_eq_proof_policy p q \<longleftrightarrow> strictness p \<le> strictness q"

definition less_proof_policy :: "proof_policy \<Rightarrow> proof_policy \<Rightarrow> bool" where
  "less_proof_policy p q \<longleftrightarrow> strictness p < strictness q"

instance
proof
  fix p q :: proof_policy
  show "p \<le> q \<Longrightarrow> q \<le> p \<Longrightarrow> p = q" by (cases p; cases q) (simp_all add: less_eq_proof_policy_def)
qed (auto simp: less_eq_proof_policy_def less_proof_policy_def)

end

lemma policy_order [simp]:
  "PolicyOff \<le> p" "p \<le> PolicyEnforce" "p \<le> PolicyOff \<longleftrightarrow> p = PolicyOff" "PolicyEnforce \<le> p \<longleftrightarrow> p = PolicyEnforce"
  by (cases p; simp add: less_eq_proof_policy_def)+

text \<open>The registered policies are listed from the laxest to the strictest.\<close>

lemma policies_sorted: "sorted_wrt (<) (map snd consistency_proof_policies)"
  by (simp add: consistency_proof_policies_def less_proof_policy_def)

lemma policy_run:
  "apply_consistency_proof_policy a cp w s =
    (if an_proof_policy a = PolicyEnforce \<and> consistency_proof_policy_applies cp
     then (Inl (ConsistencyProofRequiredError (w_mmr_size w) (w_mmr_root w)), s)
     else (Inr (), if an_proof_policy a = PolicyWarn \<and> consistency_proof_policy_applies cp
       then snd (bump_refusals (ck_log_id cp) s) else s))"
  by (cases "an_proof_policy a") (simp_all add: apply_consistency_proof_policy_def refuse_or_count_def bump_refusals_def)

lemma policy_mono:
  assumes "an_proof_policy a \<le> an_proof_policy b" "apply_consistency_proof_policy b cp w s = (Inr (), t)"
  shows "\<exists>t'. apply_consistency_proof_policy a cp w s = (Inr (), t') \<and> store t' = store t"
  using assms by (cases "an_proof_policy a"; cases "an_proof_policy b")
    (auto simp: policy_run bump_refusals_def split: if_splits)

text \<open>What a policy lets through, a laxer one lets through: the same grade, on the same store.\<close>

theorem stricter_policy_accepts_less:
  assumes "an_proof_policy a \<le> an_proof_policy b" "check_checkpoint_continuity x b cp s = (Inr c, t)"
  shows "\<exists>t'. check_checkpoint_continuity x a cp s = (Inr c, t') \<and> store t' = store t"
proof (cases "get_checkpoint_witness (ck_log_id cp) (store s)")
  case (Some w)
  show ?thesis
  proof (cases "\<exists>pf. ck_proof cp = Some (Some pf)")
    case False
    then have plain: "check_checkpoint_continuity x d cp s =
        op_bind (apply_consistency_proof_policy d cp w) (\<lambda>_. op_return Registered) s" for d
      using Some by (auto simp: check_checkpoint_continuity_def op_bind_simps op_get_def split: option.splits)
    with assms(2) have "apply_consistency_proof_policy b cp w s = (Inr (), t)" "c = Registered"
      by (auto simp: op_bind_def op_return_def split: prod.splits sum.splits)
    with policy_mono [OF assms(1) this(1)] plain show ?thesis by (auto simp: op_bind_def op_return_def)
  qed (use assms(2) Some in \<open>auto simp: check_checkpoint_continuity_def op_bind_simps op_get_def\<close>)
qed (use assms(2) in \<open>auto simp: check_checkpoint_continuity_def op_bind_simps op_get_def\<close>)

theorem stricter_policy_accepts_less_witness:
  "\<exists>t'. check_checkpoint_continuity sample_ext (sample_anchorer\<lparr>an_proof_policy := PolicyOff\<rparr>) sample_cp sample_start = (Inr FirstSeen, t')"
proof -
  have "check_checkpoint_continuity sample_ext sample_anchorer sample_cp sample_start = (Inr FirstSeen, sample_start)"
    by (simp add: check_checkpoint_continuity_def sample_start_def empty_store_def get_checkpoint_witness_def op_bind_simps op_get_def)
  from stricter_policy_accepts_less [OF _ this, of "sample_anchorer\<lparr>an_proof_policy := PolicyOff\<rparr>"] show ?thesis by auto
qed

end
