(* ===== verification/Spec2Isabelle.thy ===== *)
theory Spec2Isabelle
  imports CtConsistency Ledger Tsa ServiceProps Resubmission PayloadPolicy SqliteStore PostgresStore Schema CoreStore CheckpointWire IsoTime Doubles PublicLog RateLimiter Conformance CountersignProps AppProps Submission HostnameLint PolicyOrder
begin

text \<open>
  A model of capsule-anchor, the witness service of a transparency log (\<open>src/packages/capsule_anchor\<close>).

  \<^bold>\<open>The program.\<close> A FastAPI process keeps one append-only, hash-chained log in a store. Tenants anchor the
  roots of their ledgers, issuers register statements (COSE messages or digests) and logs submit
  checkpoints; each becomes an entry, and the answer is a receipt with a signed inclusion proof in the
  RFC 6962 tree over the log. Signed tree heads commit to the whole log. For a submitted checkpoint the
  service also compares it with the last one it saw of that log, verifies a consistency proof and keeps
  every equivocation. An optional thread publishes tree heads to an external log, another prunes the
  receipt cache, and an optional router countersigns evidence bundles of enrolled issuers and delivers the
  result to a webhook. Relying parties have a conformance checker and a watcher.

  \<^bold>\<open>Theories and sources.\<close> Paths are below \<open>packages/capsule_anchor\<close>; definitions keep the names of the code.
    \<^item> \<open>Prelude\<close>, \<open>Sha256\<close>, \<open>Json\<close>, \<open>Base64\<close>, \<open>Calendar\<close>, \<open>IsoTime\<close>, \<open>Doubles\<close>, \<open>PyText\<close>, \<open>PyNet\<close>: exceptions as
      values (\<open>'a res\<close>), state operations (\<open>op\<close>), and what the code uses of Python's standard library,
      concretely: SHA-256, canonical JSON, base64, ISO time stamps, the rounding of floats in the key of a
      tree head, \<open>int\<close> and \<open>str\<close> methods, \<open>ipaddress\<close>, \<open>urlparse\<close>, HMAC.
    \<^item> \<open>Ct\<close> (\<open>anchoring/ct.py\<close>), with \<open>CtLoops\<close>, \<open>CtCorrect\<close>, \<open>CtConsistency\<close>: the tree, its proofs and their two
      verifiers; \<open>Ledger\<close> (\<open>contracts/crypto_shim.py\<close>): the tenants' tree; \<open>Tsa\<close> (\<open>anchoring/tsa.py\<close>).
    \<^item> \<open>Store\<close> (\<open>contracts/types.py\<close> and the memory store of \<open>anchoring/store.py\<close>), \<open>Sql\<close>, \<open>StoreOps\<close>,
      \<open>StoreRefine\<close>, \<open>SqliteStore\<close>, \<open>PostgresStore\<close>, \<open>Schema\<close> (the same file's two SQL stores), \<open>CoreStore\<close>
      (\<open>anchoring/sql_store.py\<close>).
    \<^item> \<open>External\<close> (\<open>attestation/service.py\<close> and the libraries), \<open>PayloadPolicy\<close> (\<open>payload_policy.py\<close>,
      \<open>retention.py\<close>), \<open>Service\<close> (\<open>anchoring/service.py\<close>), with \<open>LogChain\<close>, \<open>ServiceInv\<close>, \<open>Registration\<close>,
      \<open>ServiceProps\<close>, \<open>PolicyOrder\<close>, \<open>Resubmission\<close>.
    \<^item> \<open>Submitters\<close>, \<open>CheckpointWire\<close> (\<open>submitters.py\<close>, \<open>checkpoint_cose.py\<close>, \<open>checkpoint_json.py\<close>),
      \<open>RateLimiter\<close>, \<open>Router\<close>, \<open>RouterProps\<close> (\<open>anchoring/router.py\<close>).
    \<^item> \<open>PublicLog\<close> (\<open>public_log/\<close>), \<open>Webhooks\<close>, \<open>Countersign\<close>, \<open>CountersignProps\<close> (\<open>countersign/\<close>), \<open>Conformance\<close>
      (\<open>cross_witness_conformance/\<close>), \<open>Submission\<close> (the scripts below \<open>examples/cross-witness-checkpoint-smoke\<close>).
    \<^item> \<open>SigningKey\<close>, \<open>App\<close>, \<open>AppProps\<close> (\<open>signing_key.py\<close>, \<open>app.py\<close>): start-up, the threads and the process
      in which everything above runs.
    \<^item> \<open>CodePoints\<close>, \<open>NeutralityScan\<close>, \<open>HostnameLint\<close>: text as code points, and the two gates of the repository's own text (\<open>.github/\<close>).

  \<^bold>\<open>State.\<close> \<open>mem_store\<close> is the memory store, field by field; \<open>svc\<close> adds the refusal counters of
  \<open>AnchorerService\<close>; \<open>app\<close> the limiters of the router; \<open>process\<close> those of the countersign router and the
  publisher's failure count. What is fixed at start-up (\<open>anchorer\<close>, \<open>site\<close>, \<open>cs_site\<close>, \<open>instance_config\<close>) is
  an argument. Every method is an \<open>op\<close> or a \<open>handler\<close>: it returns the state also when it raises. What
  a method does under the service's lock is one step. \<open>witness_checkpoint\<close> takes the lock twice, for the
  registration and for the record of the checkpoint: as one operation it is the case in which nothing comes between,
  and the runs of the service and of the process also have each half, and each call of a request, as a step of its
  own. A clock \<open>now\<close> gives the readings of one call in order. \<open>RateLimiter.is_allowed\<close> reads the monotonic clock
  before it takes its lock; what is proved of it is of calls whose readings come in lock order.

  \<^bold>\<open>Contracts.\<close> The locale \<open>log_store\<close> is what the hash chain asks of a log, and \<open>durable_store\<close> what a backend
  owes the service: every sequence of legal writes has the outcomes, and every read the answers, of the
  memory store. They are interpreted on the memory, SQLite, Postgres and SQLAlchemy stores of the code, so
  what is proved of the service over the memory store holds over the others as long as its writes are legal for
  them: issued as the service issues them (\<open>issued\<close>), of integers of 64 bits, and on Postgres of texts without NUL,
  of a root anchored again with the same range only, and over connections that are lost, if at all, before the
  write. Where that fails the stores differ, and theorems beside them say how. A database an instance is
  started on is a \<open>mem_store\<close>.

  \<^bold>\<open>What the lemmas show.\<close> \<open>CtLoops\<close> equates the index loops of the verifiers with recursive descents,
  \<open>CtCorrect\<close> and \<open>CtConsistency\<close> prove proofs complete, and verified proofs sound up to an exhibited SHA-256
  collision among the inputs actually hashed; nothing assumes that SHA-256 is injective. \<open>ServiceInv\<close> has the
  invariant \<open>store_inv\<close> and the order \<open>evolves\<close> that every operation respects, and the runs of the service;
  \<open>Registration\<close> writes a registration out as one equation, on which receipts, idempotence, tips, grades and
  equivocations rest. \<open>RouterProps\<close>, \<open>CountersignProps\<close> and \<open>AppProps\<close> lift runs to requests, to the
  countersign route and to the whole process with its threads. The rest is per component: the limiter
  against a count over its history, allowlists that load exactly when well formed, parsers that accept
  only authenticated checkpoints, the publisher under outages, webhook delivery, and the checks of the
  conformance checker and a submitter's own script against the modelled witness.

  \<^bold>\<open>Parameters.\<close> cbor2, Ed25519 and key loading of \<open>cryptography\<close>, \<open>cll\<close>'s consistency check, \<open>scitt_cose\<close>,
  \<open>agent_action_capsule\<close>, pydantic's JSON of a tree head and of a time, \<open>json.loads\<close> with the exceptions it raises, the network, the file
  system and the SQL engines' connections are fields of records the definitions take. A theorem that needs
  one says so: \<open>ed25519_ok\<close> (own signatures verify), \<open>sth_json_ok\<close> (a tree head reads back), together
  \<open>env_ok\<close>. Each such theorem has a witness on concrete functions.

  \<^bold>\<open>Bounds and termination.\<close> No definition runs on fuel: the loops are structural recursions or \<open>function\<close>s with
  a measure, and delivery, publishing and the watcher are recursions over their schedules. Python's integers
  are \<open>int\<close>; SHA-256 and IP addresses are words; the SQL integer columns check 64 bits. Strings are Latin-1, except in the two
  gates, which read files of any script: there text is code points, and the tables of the Unicode database (lower case,
  caseless comparison, word characters) are an argument.

  \<^bold>\<open>Not modelled.\<close> FastAPI's routing, pydantic's validation of request bodies and their JSON rendering, CORS,
  logging, the static page, the threads' sleeps, the lock's fairness, and the prose of error messages. The
  key provider's \<open>rotate\<close> only raises. Of the scripts, the command lines and the self-tests are left out.
\<close>

end
